(* ===== verification/Prelude.thy ===== *)
theory Prelude
  imports Main "HOL-Library.List_Lexorder" "HOL-Library.Char_ord"
begin

text \<open>
  Shared material of the development: the collections the component proofs draw on, the pieces
  of the C++ standard library the sources use (\<^verbatim>\<open>std::tolower\<close>, \<^verbatim>\<open>std::to_string\<close>,
  \<^verbatim>\<open>std::stoi\<close>, \<^verbatim>\<open>std::string::find\<close>), and generic facts on lists, sums and the
  reflexive transitive closure of a step relation.  Strings are \<^typ>\<open>string\<close> (byte lists), ordered
  lexicographically by unsigned byte as \<^verbatim>\<open>std::string::compare\<close> orders them.
\<close>

named_theorems frame_simps \<open>what an operation leaves unchanged\<close>
named_theorems step_defs \<open>the definitions that make up one step of a state machine\<close>

subsection \<open>Errors of the standard library\<close>

datatype cpp_error =
    InvalidArgument string
  | OutOfRange string
  | RuntimeError string
  | JsonTypeError nat

type_synonym 'a result = "cpp_error + 'a"

subsection \<open>Characters and numbers as text\<close>

text \<open>Text outside ASCII, by its UTF-8 bytes.\<close>

definition bytes :: "nat list \<Rightarrow> string" where
  "bytes ns = map char_of ns"

text \<open>\<^verbatim>\<open>std::tolower\<close> in the "C" locale.\<close>

definition tolower_char :: "char \<Rightarrow> char" where
  "tolower_char c =
     (let n = of_char c :: nat in if 65 \<le> n \<and> n \<le> 90 then char_of (n + 32) else c)"

definition tolower :: "string \<Rightarrow> string" where
  "tolower s = map tolower_char s"

definition is_digit :: "char \<Rightarrow> bool" where
  "is_digit c \<longleftrightarrow> (let n = of_char c :: nat in 48 \<le> n \<and> n \<le> 57)"

definition digit_val :: "char \<Rightarrow> nat" where
  "digit_val c = of_char c - 48"

definition digit_char :: "nat \<Rightarrow> char" where
  "digit_char d = char_of (d + 48)"

text \<open>\<^verbatim>\<open>std::isspace\<close> in the "C" locale: space, \<open>\t\<close>, \<open>\n\<close>, \<open>\v\<close>, \<open>\f\<close>, \<open>\r\<close>.\<close>

definition isspace :: "char \<Rightarrow> bool" where
  "isspace c \<longleftrightarrow> (let n = of_char c :: nat in n = 32 \<or> (9 \<le> n \<and> n \<le> 13))"

fun nat_digits :: "nat \<Rightarrow> string" where
  "nat_digits n = (if n < 10 then [digit_char n] else nat_digits (n div 10) @ [digit_char (n mod 10)])"

declare nat_digits.simps [simp del]

definition to_string_int :: "int \<Rightarrow> string" where
  "to_string_int i = (if i < 0 then CHR ''-'' # nat_digits (nat (- i)) else nat_digits (nat i))"

definition digits_val :: "string \<Rightarrow> nat" where
  "digits_val ds = foldl (\<lambda>a c. 10 * a + digit_val c) 0 ds"

abbreviation int_min :: int where "int_min \<equiv> - (2 ^ 31)"
abbreviation int_max :: int where "int_max \<equiv> 2 ^ 31 - 1"

text \<open>
  \<^verbatim>\<open>std::stoi\<close>: skip white space, an optional sign, then the longest run of decimal digits;
  what follows the digits is ignored.  No digit raises \<^verbatim>\<open>std::invalid_argument\<close>, a value that
  is no 32-bit \<^verbatim>\<open>int\<close> raises \<^verbatim>\<open>std::out_of_range\<close>.
\<close>

definition stoi :: "string \<Rightarrow> int result" where
  "stoi s =
     (let s1 = dropWhile isspace s;
          neg = (s1 \<noteq> [] \<and> hd s1 = CHR ''-'');
          s2 = (if s1 \<noteq> [] \<and> (hd s1 = CHR ''-'' \<or> hd s1 = CHR ''+'') then tl s1 else s1);
          ds = takeWhile is_digit s2
      in if ds = [] then Inl (InvalidArgument ''stoi'')
         else let v = (if neg then - int (digits_val ds) else int (digits_val ds))
              in if v < int_min \<or> int_max < v then Inl (OutOfRange ''stoi'') else Inr v)"

subsection \<open>Searching and splitting strings\<close>

text \<open>\<open>split_at c s\<close>: the text before the first \<open>c\<close>, and what follows it if there is one
  (\<^verbatim>\<open>s.find(c)\<close> with the two \<^verbatim>\<open>substr\<close> calls around it).\<close>

fun split_at :: "char \<Rightarrow> string \<Rightarrow> string \<times> string option" where
  "split_at c [] = ([], None)"
| "split_at c (x # xs) =
     (if x = c then ([], Some xs) else (case split_at c xs of (a, r) \<Rightarrow> (x # a, r)))"

lemma split_at_None: "split_at c s = (a, None) \<Longrightarrow> a = s \<and> c \<notin> set s"
  by (induction s arbitrary: a) (auto split: if_splits prod.splits)

lemma split_at_Some: "split_at c s = (a, Some b) \<Longrightarrow> s = a @ c # b \<and> c \<notin> set a"
  by (induction s arbitrary: a) (auto split: if_splits prod.splits)

lemma split_at_length: "split_at c s = (a, Some b) \<Longrightarrow> length b < length s"
  by (drule split_at_Some) simp

lemma split_at_absent: "c \<notin> set s \<Longrightarrow> split_at c s = (s, None)"
  by (induction s) auto

lemma split_at_present: "c \<notin> set a \<Longrightarrow> split_at c (a @ c # b) = (a, Some b)"
  by (induction a) auto

subsection \<open>Decimal numerals read back\<close>

lemma of_char_digit_char: "d < 10 \<Longrightarrow> (of_char (digit_char d) :: nat) = d + 48"
  by (simp add: digit_char_def)

lemma digit_val_digit_char [simp]: "d < 10 \<Longrightarrow> digit_val (digit_char d) = d"
  by (simp add: digit_val_def of_char_digit_char)

lemma is_digit_digit_char [simp]: "d < 10 \<Longrightarrow> is_digit (digit_char d)"
  by (simp add: is_digit_def of_char_digit_char Let_def)

lemma nat_digits_all_digits: "list_all is_digit (nat_digits n)"
proof (induction n rule: nat_digits.induct)
  case (1 n)
  then show ?case by (simp add: nat_digits.simps [of n])
qed

lemma nat_digits_not_Nil [simp]: "nat_digits n \<noteq> []"
  by (subst nat_digits.simps) simp

lemma digits_val_append_one: "digits_val (ds @ [c]) = 10 * digits_val ds + digit_val c"
  by (simp add: digits_val_def)

lemma digits_val_nat_digits [simp]: "digits_val (nat_digits n) = n"
proof (induction n rule: nat_digits.induct)
  case (1 n)
  show ?case
  proof (cases "n < 10")
    case True
    then show ?thesis by (simp add: nat_digits.simps [of n] digits_val_def)
  next
    case False
    with 1 have "digits_val (nat_digits (n div 10)) = n div 10" by simp
    with False show ?thesis by (simp add: nat_digits.simps [of n] digits_val_append_one)
  qed
qed

lemma takeWhile_is_digit_nat_digits [simp]: "takeWhile is_digit (nat_digits n) = nat_digits n"
  using nat_digits_all_digits [of n] by (simp add: list_all_iff takeWhile_eq_all_conv)

lemma digit_not_space: "is_digit c \<Longrightarrow> \<not> isspace c"
  by (simp add: is_digit_def isspace_def Let_def)

lemma digit_not_sign: "is_digit c \<Longrightarrow> c \<noteq> CHR ''-'' \<and> c \<noteq> CHR ''+''"
  by (auto simp: is_digit_def Let_def)

lemma hd_nat_digits_is_digit: "is_digit (hd (nat_digits n))"
  using nat_digits_all_digits [of n] nat_digits_not_Nil [of n]
  by (metis hd_in_set list_all_iff)

lemma dropWhile_isspace_nat_digits [simp]: "dropWhile isspace (nat_digits n) = nat_digits n"
  using hd_nat_digits_is_digit [of n] digit_not_space nat_digits_not_Nil [of n]
  by (cases "nat_digits n") auto

text \<open>\<^verbatim>\<open>std::stoi\<close> reads back what \<^verbatim>\<open>std::to_string\<close> prints, for every 32-bit \<^verbatim>\<open>int\<close>.\<close>

lemma stoi_to_string_int:
  assumes "int_min \<le> i" and "i \<le> int_max"
  shows "stoi (to_string_int i) = Inr i"
proof (cases "i < 0")
  case True
  then have "to_string_int i = CHR ''-'' # nat_digits (nat (- i))"
    by (simp add: to_string_int_def)
  moreover have "\<not> isspace (CHR ''-'')" by (simp add: isspace_def)
  ultimately show ?thesis using assms True by (simp add: stoi_def Let_def)
next
  case False
  then have "to_string_int i = nat_digits (nat i)" by (simp add: to_string_int_def)
  moreover have "hd (nat_digits (nat i)) \<noteq> CHR ''-''" "hd (nat_digits (nat i)) \<noteq> CHR ''+''"
    using digit_not_sign [OF hd_nat_digits_is_digit] by auto
  ultimately show ?thesis using assms False by (simp add: stoi_def Let_def)
qed

subsection \<open>Runs of a step relation\<close>

inductive steps :: "('s \<Rightarrow> 's \<Rightarrow> bool) \<Rightarrow> 's \<Rightarrow> 's \<Rightarrow> bool" for r where
  steps_refl [simp, intro]: "steps r s s"
| steps_snoc: "steps r s t \<Longrightarrow> r t u \<Longrightarrow> steps r s u"

lemma steps_trans: "steps r s t \<Longrightarrow> steps r t u \<Longrightarrow> steps r s u"
  by (rotate_tac, induction rule: steps.induct) (auto intro: steps_snoc)

lemma steps_one: "r s t \<Longrightarrow> steps r s t"
  by (blast intro: steps_snoc)

lemma steps_invariant:
  assumes "steps r s t" and "I s" and "\<And>a b. I a \<Longrightarrow> r a b \<Longrightarrow> I b"
  shows "I t"
  using assms by (induction rule: steps.induct) auto

subsection \<open>Lists\<close>

lemma count_list_pos_iff: "0 < count_list xs x \<longleftrightarrow> x \<in> set xs"
  by (metis count_list_0_iff gr_zeroI less_irrefl)

lemma sum_le_zero_nat: "finite A \<Longrightarrow> (\<Sum>x\<in>A. f x) = (0::nat) \<Longrightarrow> x \<in> A \<Longrightarrow> f x = 0"
  by simp

lemma sum_change_one:
  fixes f g :: "'a \<Rightarrow> nat"
  assumes "finite A" and "x \<in> A" and "\<And>y. y \<in> A \<Longrightarrow> y \<noteq> x \<Longrightarrow> g y = f y"
  shows "(\<Sum>y\<in>A. g y) + f x = (\<Sum>y\<in>A. f y) + g x"
proof -
  have "(\<Sum>y\<in>A. g y) = g x + (\<Sum>y\<in>A - {x}. f y)"
    using assms by (subst sum.remove [OF assms(1,2)]) (auto intro: sum.cong)
  moreover have "(\<Sum>y\<in>A. f y) = f x + (\<Sum>y\<in>A - {x}. f y)"
    by (rule sum.remove [OF assms(1,2)])
  ultimately show ?thesis by simp
qed

lemma set_map_filter: "set (List.map_filter f xs) = {y. \<exists>x \<in> set xs. f x = Some y}"
  by (auto simp: List.map_filter_def image_iff) (metis option.sel)+

end
