(* ===== verification/Task_Common.thy ===== *)
theory Task_Common
  imports Prelude
begin

text \<open>
  The data every part of the server shares: \<^verbatim>\<open>runner/task_common.h\<close> (statuses and task ids),
  \<^verbatim>\<open>runner/task_config.h\<close> (execution types, priorities, the task configuration) and
  \<^verbatim>\<open>runner/task_result.h\<close> (results).  Durations are integers in milliseconds, time points
  integers on the clock they are read from.
\<close>

subsection \<open>Statuses\<close>

text \<open>
  \<^verbatim>\<open>enum class TaskStatus\<close> has the underlying type \<^verbatim>\<open>int\<close>, so a cast of an integer read
  from JSON may hold a value none of the enumerators names: \<^term>\<open>StatusOther n\<close>, \<open>n\<close> outside 0..6.
\<close>

datatype TaskStatus =
  Pending | Running | Success | Failed | Skipped | Canceled | Timeout | StatusOther int

fun named_status :: "TaskStatus \<Rightarrow> bool" where
  "named_status (StatusOther n) = False"
| "named_status _ = True"

fun TaskStatusTypetoString :: "TaskStatus \<Rightarrow> string" where
  "TaskStatusTypetoString Pending = ''Pending''"
| "TaskStatusTypetoString Running = ''Running''"
| "TaskStatusTypetoString Success = ''Success''"
| "TaskStatusTypetoString Failed = ''Failed''"
| "TaskStatusTypetoString Skipped = ''Skipped''"
| "TaskStatusTypetoString Canceled = ''Canceled''"
| "TaskStatusTypetoString Timeout = ''Timeout''"
| "TaskStatusTypetoString (StatusOther n) = ''Unknown''"

text \<open>\<^verbatim>\<open>static_cast<int>(status)\<close>.\<close>

fun status_int :: "TaskStatus \<Rightarrow> int" where
  "status_int Pending = 0"
| "status_int Running = 1"
| "status_int Success = 2"
| "status_int Failed = 3"
| "status_int Skipped = 4"
| "status_int Canceled = 5"
| "status_int Timeout = 6"
| "status_int (StatusOther n) = n"

text \<open>\<^verbatim>\<open>static_cast<TaskStatus>(n)\<close>.\<close>

definition status_of_int :: "int \<Rightarrow> TaskStatus" where
  "status_of_int n =
     (if n = 0 then Pending else if n = 1 then Running else if n = 2 then Success
      else if n = 3 then Failed else if n = 4 then Skipped else if n = 5 then Canceled
      else if n = 6 then Timeout else StatusOther n)"

lemma status_int_of_int [simp]: "status_int (status_of_int n) = n"
  by (simp add: status_of_int_def)

lemma status_of_int_int: "named_status s \<Longrightarrow> status_of_int (status_int s) = s"
  by (cases s) (simp_all add: status_of_int_def)

definition TaskExecTypetoStatus :: "string \<Rightarrow> TaskStatus" where
  "TaskExecTypetoStatus str =
     (let s = tolower str in
      if s = ''unknown'' then Failed
      else if s = ''pending'' then Pending
      else if s = ''running'' then Running
      else if s = ''success'' then Success
      else if s = ''failed'' then Failed
      else if s = ''skipped'' then Skipped
      else if s = ''canceled'' then Canceled
      else if s = ''timeout'' then Timeout
      else Failed)"

subsection \<open>Task ids\<close>

text \<open>
  \<^verbatim>\<open>struct TaskId\<close>.  Its \<^verbatim>\<open>operator==\<close> compares both fields (its first case is the
  second one with two empty run ids) and \<^verbatim>\<open>operator<\<close> is lexicographic on value, then run id:
  the order \<^verbatim>\<open>std::map<TaskId, ...>\<close> keys by.
\<close>

datatype TaskId = TaskId (tid_value: string) (tid_runId: string)

definition taskid_eq :: "TaskId \<Rightarrow> TaskId \<Rightarrow> bool" where
  "taskid_eq a b =
     (if tid_runId a = [] \<and> tid_runId b = [] then tid_value a = tid_value b
      else tid_value a = tid_value b \<and> tid_runId a = tid_runId b)"

lemma taskid_eq_iff: "taskid_eq a b \<longleftrightarrow> a = b"
  by (cases a; cases b) (auto simp: taskid_eq_def)

definition tid_less :: "TaskId \<Rightarrow> TaskId \<Rightarrow> bool" where
  "tid_less a b =
     (if tid_value a = tid_value b then tid_runId a < tid_runId b else tid_value a < tid_value b)"

instantiation TaskId :: linorder
begin

definition less_TaskId :: "TaskId \<Rightarrow> TaskId \<Rightarrow> bool" where
  "less_TaskId a b = tid_less a b"

definition less_eq_TaskId :: "TaskId \<Rightarrow> TaskId \<Rightarrow> bool" where
  "less_eq_TaskId a b \<longleftrightarrow> a < b \<or> a = (b :: TaskId)"

instance
  by standard
    (auto simp: less_eq_TaskId_def less_TaskId_def tid_less_def split: if_splits
       intro: TaskId.expand dest: antisym_conv3)

end

definition tid_empty :: "TaskId \<Rightarrow> bool" where
  "tid_empty i \<longleftrightarrow> tid_value i = []"

subsection \<open>Execution types, priorities, configurations\<close>

datatype TaskPriority = Low | Normal | High | Critical | PriorityOther int

fun toPriorityInt :: "TaskPriority \<Rightarrow> int" where
  "toPriorityInt Low = -1"
| "toPriorityInt Normal = 0"
| "toPriorityInt High = 1"
| "toPriorityInt Critical = 2"
| "toPriorityInt (PriorityOther n) = n"

definition priority_of_int :: "int \<Rightarrow> TaskPriority" where
  "priority_of_int n =
     (if n = -1 then Low else if n = 0 then Normal else if n = 1 then High
      else if n = 2 then Critical else PriorityOther n)"

datatype TaskExecType = Local | Remote | Script | HttpCall | Shell | Dag | Template

fun TaskExecTypetoString :: "TaskExecType \<Rightarrow> string" where
  "TaskExecTypetoString Local = ''Local''"
| "TaskExecTypetoString Remote = ''Remote''"
| "TaskExecTypetoString Script = ''Script''"
| "TaskExecTypetoString HttpCall = ''HttpCall''"
| "TaskExecTypetoString Shell = ''Shell''"
| "TaskExecTypetoString Dag = ''Dag''"
| "TaskExecTypetoString Template = ''Template''"

definition StringToTaskExecType :: "string \<Rightarrow> TaskExecType" where
  "StringToTaskExecType type =
     (let t = tolower type in
      if t = ''local'' then Local
      else if t = ''remote'' then Remote
      else if t = ''script'' then Script
      else if t = ''httpcall'' \<or> t = ''http_call'' \<or> t = ''http'' then HttpCall
      else if t = ''shell'' then Shell
      else if t = ''dag'' then Dag
      else if t = ''template'' \<or> t = ''temple'' then Template
      else Local)"

record TaskConfig =
  cfg_id :: TaskId
  cfg_name :: string
  cfg_description :: string
  execType :: TaskExecType
  execCommand :: string
  execParams :: "string \<rightharpoonup> string"
  cfg_timeout :: int
  retryCount :: int
  retryDelay :: int
  retryUseExponentialBackoff :: bool
  cancelable :: bool
  priority :: TaskPriority
  cfg_queue :: string
  cfg_metadata :: "string \<rightharpoonup> string"
  captureOutput :: bool

text \<open>A default-constructed \<^verbatim>\<open>TaskConfig\<close>.\<close>

definition default_TaskConfig :: TaskConfig where
  "default_TaskConfig =
     \<lparr>cfg_id = TaskId [] [], cfg_name = [], cfg_description = [], execType = Local,
      execCommand = [], execParams = Map.empty, cfg_timeout = 0, retryCount = 0,
      retryDelay = 1000, retryUseExponentialBackoff = True, cancelable = True,
      priority = Normal, cfg_queue = [], cfg_metadata = Map.empty, captureOutput = True\<rparr>"

definition hasTimeout :: "TaskConfig \<Rightarrow> bool" where
  "hasTimeout cfg \<longleftrightarrow> 0 < cfg_timeout cfg"

definition getParam :: "(string \<rightharpoonup> string) \<Rightarrow> string \<Rightarrow> string \<Rightarrow> string" where
  "getParam params key defaultVal = (case params key of Some v \<Rightarrow> v | None \<Rightarrow> defaultVal)"

definition startsWith :: "string \<Rightarrow> string \<Rightarrow> bool" where
  "startsWith s prefix \<longleftrightarrow> length prefix \<le> length s \<and> take (length prefix) s = prefix"

subsection \<open>Results\<close>

record TaskResult =
  res_status :: TaskStatus
  res_message :: string
  durationMs :: int
  stdoutData :: string
  stderrData :: string
  exitCode :: int
  attempt :: int
  maxAttempts :: int
  workerId :: string
  workerHost :: string
  workerPort :: int
  res_metadata :: "string \<rightharpoonup> string"

definition default_TaskResult :: TaskResult where
  "default_TaskResult =
     \<lparr>res_status = Pending, res_message = [], durationMs = 0, stdoutData = [], stderrData = [],
      exitCode = 0, attempt = 1, maxAttempts = 1, workerId = [], workerHost = [],
      workerPort = 0, res_metadata = Map.empty\<rparr>"

definition res_ok :: "TaskResult \<Rightarrow> bool" where
  "res_ok r \<longleftrightarrow> res_status r = Success"

subsection \<open>Round trips of the enumerations\<close>

lemma tolower_exec_type_names:
  "tolower (TaskExecTypetoString Local) = ''local''"
  "tolower (TaskExecTypetoString Remote) = ''remote''"
  "tolower (TaskExecTypetoString Script) = ''script''"
  "tolower (TaskExecTypetoString HttpCall) = ''httpcall''"
  "tolower (TaskExecTypetoString Shell) = ''shell''"
  "tolower (TaskExecTypetoString Dag) = ''dag''"
  "tolower (TaskExecTypetoString Template) = ''template''"
  by code_simp+

lemma tolower_status_names:
  "tolower (TaskStatusTypetoString Pending) = ''pending''"
  "tolower (TaskStatusTypetoString Running) = ''running''"
  "tolower (TaskStatusTypetoString Success) = ''success''"
  "tolower (TaskStatusTypetoString Failed) = ''failed''"
  "tolower (TaskStatusTypetoString Skipped) = ''skipped''"
  "tolower (TaskStatusTypetoString Canceled) = ''canceled''"
  "tolower (TaskStatusTypetoString Timeout) = ''timeout''"
  by code_simp+

text \<open>However a client writes the letters, the printed name of an execution type is read back
  as that type and the printed name of a named status as that status.\<close>

theorem enum_names_roundtrip:
  assumes "tolower s = tolower (TaskExecTypetoString t)"
    and "tolower s' = tolower (TaskStatusTypetoString st)" and "named_status st"
  shows "StringToTaskExecType s = t \<and> TaskExecTypetoStatus s' = st"
proof
  show "StringToTaskExecType s = t"
    using assms(1)
    by (cases t) (simp_all add: StringToTaskExecType_def tolower_exec_type_names
        del: TaskExecTypetoString.simps)
  show "TaskExecTypetoStatus s' = st"
    using assms(2,3)
    by (cases st) (simp_all add: TaskExecTypetoStatus_def tolower_status_names
        del: TaskStatusTypetoString.simps)
qed

theorem enum_names_roundtrip_witness:
  "StringToTaskExecType ''HTTPCALL'' = HttpCall \<and> TaskExecTypetoStatus ''timeOut'' = Timeout"
proof (rule enum_names_roundtrip)
  show "tolower ''HTTPCALL'' = tolower (TaskExecTypetoString HttpCall)" by code_simp
  show "tolower ''timeOut'' = tolower (TaskStatusTypetoString Timeout)" by code_simp
  show "named_status Timeout" by simp
qed

end
