(* ===== verification/Dag_Graph.thy ===== *)
theory Dag_Graph
  imports Task_Common "HOL-Library.Word"
begin

text \<open>
  The graph of one DAG run: \<^verbatim>\<open>dag/dag_node.cpp\<close>, \<^verbatim>\<open>dag/dag_graph.cpp\<close> and the configuration of
  \<^verbatim>\<open>dag/dag_types.h\<close>.  The sources share nodes through \<^verbatim>\<open>shared_ptr\<close>; here the graph is the
  store of its nodes, keyed by \<^verbatim>\<open>makeKey\<close>, and a write through a node pointer is
  \<^term>\<open>updNode\<close> at the node's key.  \<^verbatim>\<open>_indegree\<close> is an \<open>int\<close>: its values lie between 0 and the
  number of dependencies, far from the ends of the 32-bit range.
\<close>

subsection \<open>DagNode\<close>

record DagNode =
  node_id :: TaskId
  dependencies :: "TaskId list"
  downstream :: "TaskId list"
  indegree :: int
  status :: TaskStatus
  runnerConfig :: TaskConfig

definition mk_DagNode :: "TaskId \<Rightarrow> DagNode" where
  "mk_DagNode i = \<lparr>node_id = i, dependencies = [], downstream = [], indegree = 0,
     status = Pending, runnerConfig = default_TaskConfig\<rparr>"

definition addDependency :: "TaskId \<Rightarrow> DagNode \<Rightarrow> DagNode" where
  "addDependency dep n = n\<lparr>dependencies := dependencies n @ [dep]\<rparr>"

definition addDownstream :: "TaskId \<Rightarrow> DagNode \<Rightarrow> DagNode" where
  "addDownstream child n = n\<lparr>downstream := downstream n @ [child]\<rparr>"

definition setIndegree :: "int \<Rightarrow> DagNode \<Rightarrow> DagNode" where
  "setIndegree v n = n\<lparr>indegree := v\<rparr>"

text \<open>\<^verbatim>\<open>fetch_sub(1)\<close> and the new value it returns.\<close>

definition decrementIndegree :: "DagNode \<Rightarrow> int \<times> DagNode" where
  "decrementIndegree n = (let old = indegree n in (old - 1, n\<lparr>indegree := old - 1\<rparr>))"

definition setStatus :: "TaskStatus \<Rightarrow> DagNode \<Rightarrow> DagNode" where
  "setStatus s n = n\<lparr>status := s\<rparr>"

definition setRunnerConfig :: "TaskConfig \<Rightarrow> DagNode \<Rightarrow> DagNode" where
  "setRunnerConfig cfg n =
     n\<lparr>runnerConfig := cfg\<lparr>cfg_id := TaskId (tid_value (node_id n)) (tid_runId (cfg_id cfg)),
                          cfg_name := ''DAGNode_'' @ tid_value (node_id n)\<rparr>\<rparr>"

subsection \<open>DagGraph\<close>

type_synonym NodeMap = "string \<rightharpoonup> DagNode"

record DagGraph =
  nodes :: NodeMap

definition makeKey :: "TaskId \<Rightarrow> string" where
  "makeKey i = (if tid_runId i = [] then tid_value i else tid_runId i @ '':'' @ tid_value i)"

definition getNode :: "DagGraph \<Rightarrow> TaskId \<Rightarrow> DagNode option" where
  "getNode g i = nodes g (makeKey i)"

definition ensureNode :: "TaskId \<Rightarrow> DagGraph \<Rightarrow> DagGraph" where
  "ensureNode i g =
     (case nodes g (makeKey i) of
        Some _ \<Rightarrow> g
      | None \<Rightarrow> g\<lparr>nodes := (nodes g)(makeKey i \<mapsto> mk_DagNode i)\<rparr>)"

text \<open>A write through the pointer \<^verbatim>\<open>getNode(id)\<close> returns; nothing happens on a null pointer.\<close>

definition updNode :: "TaskId \<Rightarrow> (DagNode \<Rightarrow> DagNode) \<Rightarrow> DagGraph \<Rightarrow> DagGraph" where
  "updNode i f g =
     (case nodes g (makeKey i) of
        None \<Rightarrow> g
      | Some n \<Rightarrow> g\<lparr>nodes := (nodes g)(makeKey i \<mapsto> f n)\<rparr>)"

definition recomputeIndegree :: "DagGraph \<Rightarrow> DagGraph" where
  "recomputeIndegree g =
     g\<lparr>nodes := (\<lambda>k. map_option (\<lambda>n. setIndegree (int (length (dependencies n))) n) (nodes g k))\<rparr>"

subsection \<open>Configuration\<close>

datatype FailPolicy = FailFast | SkipDownstream

record DagConfig =
  dagId :: string
  dag_name :: string
  failPolicy :: FailPolicy
  maxParallel_cfg :: "32 word"

subsection \<open>Keys and node updates\<close>

lemma makeKey_inj:
  "tid_runId i = tid_runId j \<Longrightarrow> makeKey i = makeKey j \<longleftrightarrow> i = j"
  by (cases i; cases j) (auto simp: makeKey_def)

lemma getNode_updNode:
  "tid_runId i = tid_runId j \<Longrightarrow>
   getNode (updNode i f g) j = (if i = j then map_option f (getNode g j) else getNode g j)"
  by (cases "i = j") (simp_all add: getNode_def updNode_def makeKey_inj split: option.split)

lemma getNode_ensureNode:
  "tid_runId i = tid_runId j \<Longrightarrow>
   getNode (ensureNode i g) j =
     (if i = j \<and> getNode g j = None then Some (mk_DagNode i) else getNode g j)"
  by (cases "i = j") (simp_all add: getNode_def ensureNode_def makeKey_inj split: option.split)

lemma getNode_recomputeIndegree:
  "getNode (recomputeIndegree g) j =
     map_option (\<lambda>n. setIndegree (int (length (dependencies n))) n) (getNode g j)"
  by (simp add: getNode_def recomputeIndegree_def)

lemma node_op_simps [simp]:
  "node_id (mk_DagNode i) = i"
  "dependencies (mk_DagNode i) = []"
  "downstream (mk_DagNode i) = []"
  "status (mk_DagNode i) = Pending"
  "node_id (addDependency d n) = node_id n"
  "dependencies (addDependency d n) = dependencies n @ [d]"
  "downstream (addDependency d n) = downstream n"
  "status (addDependency d n) = status n"
  "node_id (addDownstream d n) = node_id n"
  "dependencies (addDownstream d n) = dependencies n"
  "downstream (addDownstream d n) = downstream n @ [d]"
  "status (addDownstream d n) = status n"
  "node_id (setIndegree v n) = node_id n"
  "dependencies (setIndegree v n) = dependencies n"
  "downstream (setIndegree v n) = downstream n"
  "status (setIndegree v n) = status n"
  "indegree (setIndegree v n) = v"
  "node_id (setRunnerConfig c n) = node_id n"
  "dependencies (setRunnerConfig c n) = dependencies n"
  "downstream (setRunnerConfig c n) = downstream n"
  "status (setRunnerConfig c n) = status n"
  "node_id (setStatus s n) = node_id n"
  "dependencies (setStatus s n) = dependencies n"
  "downstream (setStatus s n) = downstream n"
  "indegree (setStatus s n) = indegree n"
  "status (setStatus s n) = s"
  by (simp_all add: mk_DagNode_def addDependency_def addDownstream_def setIndegree_def
      setRunnerConfig_def setStatus_def)

subsection \<open>Graphs ready to run\<close>

text \<open>
  What \<^verbatim>\<open>DagBuilder::build\<close> promises and the executor relies on, for a graph whose ids \<open>V\<close> all
  carry the run id \<open>r\<close>: every id has its node, edges stay inside \<open>V\<close>, an edge occurs in the
  upstream node's children as often as in the downstream node's dependencies, and the counters and
  statuses are fresh.
\<close>

definition graph_ids :: "string \<Rightarrow> DagGraph \<Rightarrow> TaskId set" where
  "graph_ids r g = {i. tid_runId i = r \<and> getNode g i \<noteq> None}"

definition down_of :: "DagGraph \<Rightarrow> TaskId \<Rightarrow> TaskId list" where
  "down_of g i = (case getNode g i of Some n \<Rightarrow> downstream n | None \<Rightarrow> [])"

definition deps_of :: "DagGraph \<Rightarrow> TaskId \<Rightarrow> TaskId list" where
  "deps_of g i = (case getNode g i of Some n \<Rightarrow> dependencies n | None \<Rightarrow> [])"

definition edge_rel :: "string \<Rightarrow> DagGraph \<Rightarrow> (TaskId \<times> TaskId) set" where
  "edge_rel r g = {(i, j). i \<in> graph_ids r g \<and> j \<in> set (down_of g i)}"

definition wf_graph :: "string \<Rightarrow> DagGraph \<Rightarrow> bool" where
  "wf_graph r g \<longleftrightarrow>
     finite (graph_ids r g)
   \<and> (\<forall>i \<in> graph_ids r g. \<exists>n. getNode g i = Some n \<and> node_id n = i)
   \<and> (\<forall>i \<in> graph_ids r g. set (down_of g i) \<subseteq> graph_ids r g \<and> set (deps_of g i) \<subseteq> graph_ids r g)
   \<and> (\<forall>i \<in> graph_ids r g. \<forall>j \<in> graph_ids r g.
        count_list (down_of g i) j = count_list (deps_of g j) i)
   \<and> dom (nodes g) = makeKey ` graph_ids r g"

definition fresh_graph :: "string \<Rightarrow> DagGraph \<Rightarrow> bool" where
  "fresh_graph r g \<longleftrightarrow>
     (\<forall>i \<in> graph_ids r g. \<exists>n. getNode g i = Some n \<and> status n = Pending
        \<and> indegree n = int (length (dependencies n)))"

end
