(* ===== verification/Dag_Builder.thy ===== *)
theory Dag_Builder
  imports Dag_Graph "HOL-Library.While_Combinator"
begin

text \<open>
  \<^verbatim>\<open>dag/dag_builder.cpp\<close>: collecting task descriptions, validating them (every dependency
  exists, no cycle) and building the graph.  The loops over \<^verbatim>\<open>std::unordered_map\<close> and
  \<^verbatim>\<open>std::unordered_set\<close> visit the keys in an order the standard leaves open, so that order is an
  argument: \<open>iterM\<close> for \<^verbatim>\<open>indegree\<close>, \<open>iterS\<close> for \<^verbatim>\<open>ids\<close>.  A hash table read with
  \<^verbatim>\<open>operator[]\<close> only is a total function with the default value.  Kahn's loop is
  \<^const>\<open>while_option\<close>; the recursive lambda \<^verbatim>\<open>dfs\<close> takes fuel, one unit per nested call, and
  \<open>validate\<close> hands it one more unit than there are ids (\<open>dfs_enough_fuel\<close>).  Error texts are
  constructors.
\<close>

subsection \<open>Data\<close>

record DagTaskSpec =
  spec_id :: TaskId
  spec_deps :: "TaskId list"
  spec_runnerCfg :: TaskConfig

datatype dag_error = NoError | MissingDependency string | CycleDetected

record DagValidateResult =
  vr_ok :: bool
  vr_errorMessage :: dag_error
  vr_cycleNodes :: "TaskId list"

type_synonym DagBuilder = "DagTaskSpec list"

definition addTask :: "DagTaskSpec \<Rightarrow> DagBuilder \<Rightarrow> DagBuilder" where
  "addTask spec b = b @ [spec]"

subsection \<open>build\<close>

definition build_node :: "DagGraph \<Rightarrow> DagTaskSpec \<Rightarrow> DagGraph" where
  "build_node g spec =
     updNode (spec_id spec) (setRunnerConfig (spec_runnerCfg spec)) (ensureNode (spec_id spec) g)"

definition build_edge :: "TaskId \<Rightarrow> DagGraph \<Rightarrow> TaskId \<Rightarrow> DagGraph" where
  "build_edge i g dep =
     updNode dep (addDownstream i) (ensureNode dep (updNode i (addDependency dep) g))"

definition build_edges :: "DagGraph \<Rightarrow> DagTaskSpec \<Rightarrow> DagGraph" where
  "build_edges g spec =
     foldl (build_edge (spec_id spec)) (ensureNode (spec_id spec) g) (spec_deps spec)"

definition build :: "DagBuilder \<Rightarrow> DagGraph" where
  "build specs =
     recomputeIndegree
       (foldl build_edges (foldl build_node \<lparr>nodes = Map.empty\<rparr> specs) specs)"

subsection \<open>validate: missing dependencies and Kahn's algorithm\<close>

definition spec_values :: "DagBuilder \<Rightarrow> string list" where
  "spec_values specs = map (\<lambda>s. tid_value (spec_id s)) specs"

definition find_missing :: "string set \<Rightarrow> DagBuilder \<Rightarrow> string option" where
  "find_missing ids specs =
     find (\<lambda>d. d \<noteq> [] \<and> d \<notin> ids) (concat (map (\<lambda>s. map tid_value (spec_deps s)) specs))"

type_synonym edges = "string \<Rightarrow> string list"

definition count_edge :: "string \<Rightarrow> edges \<times> (string \<Rightarrow> int) \<Rightarrow> string \<Rightarrow> edges \<times> (string \<Rightarrow> int)" where
  "count_edge v = (\<lambda>(es, deg) d. (es(d := es d @ [v]), deg(v := deg v + 1)))"

definition count_edges :: "edges \<times> (string \<Rightarrow> int) \<Rightarrow> DagTaskSpec \<Rightarrow> edges \<times> (string \<Rightarrow> int)" where
  "count_edges st spec =
     foldl (count_edge (tid_value (spec_id spec))) st (map tid_value (spec_deps spec))"

type_synonym kahn_state = "string list \<times> (string \<Rightarrow> int) \<times> int"

definition kahn_relax :: "string list \<times> (string \<Rightarrow> int) \<Rightarrow> string \<Rightarrow> string list \<times> (string \<Rightarrow> int)" where
  "kahn_relax = (\<lambda>(q, deg) nxt.
     let d = deg nxt - 1 in (if d = 0 then q @ [nxt] else q, deg(nxt := d)))"

definition kahn_step :: "edges \<Rightarrow> kahn_state \<Rightarrow> kahn_state" where
  "kahn_step es = (\<lambda>(q, deg, visited).
     case q of
       [] \<Rightarrow> (q, deg, visited)
     | x # xs \<Rightarrow> (case foldl kahn_relax (xs, deg) (es x) of (q', deg') \<Rightarrow> (q', deg', visited + 1)))"

definition kahn :: "edges \<Rightarrow> kahn_state \<Rightarrow> kahn_state option" where
  "kahn es = while_option (\<lambda>(q, deg, visited). q \<noteq> []) (kahn_step es)"

subsection \<open>validate: naming the nodes of a cycle\<close>

record dfs_state =
  color :: "string \<rightharpoonup> nat"
  stackPos :: "string \<Rightarrow> nat"
  stack :: "string list"
  cycleNodes :: "string list"

definition color_of :: "dfs_state \<Rightarrow> string \<Rightarrow> nat" where
  "color_of s x = (case color s x of None \<Rightarrow> 0 | Some c \<Rightarrow> c)"

definition dfs_enter :: "string \<Rightarrow> dfs_state \<Rightarrow> dfs_state" where
  "dfs_enter node s =
     s\<lparr>color := (color s)(node \<mapsto> 1), stackPos := (stackPos s)(node := length (stack s)),
       stack := stack s @ [node]\<rparr>"

definition dfs_leave :: "string \<Rightarrow> dfs_state \<Rightarrow> dfs_state" where
  "dfs_leave node s =
     s\<lparr>color := (color s)(node \<mapsto> 2), stackPos := (stackPos s)(node := 0),
       stack := butlast (stack s)\<rparr>"

definition dfs_report :: "string \<Rightarrow> dfs_state \<Rightarrow> dfs_state" where
  "dfs_report nxt s = s\<lparr>cycleNodes := cycleNodes s @ drop (stackPos s nxt) (stack s)\<rparr>"

function (sequential)
  dfs :: "edges \<Rightarrow> nat \<Rightarrow> string \<Rightarrow> dfs_state \<Rightarrow> (bool \<times> dfs_state) option"
  and dfs_children :: "edges \<Rightarrow> nat \<Rightarrow> string list \<Rightarrow> dfs_state \<Rightarrow> (bool \<times> dfs_state) option"
where
  "dfs es 0 node s = None"
| "dfs es (Suc fuel) node s =
     (case dfs_children es fuel (es node) (dfs_enter node s) of
        None \<Rightarrow> None
      | Some (found, s') \<Rightarrow> if found then Some (True, s') else Some (False, dfs_leave node s'))"
| "dfs_children es fuel [] s = Some (False, s)"
| "dfs_children es fuel (nxt # xs) s =
     (if color_of s nxt = 0 then
        (case dfs es fuel nxt s of
           None \<Rightarrow> None
         | Some (found, s') \<Rightarrow> if found then Some (True, s') else dfs_children es fuel xs s')
      else if color_of s nxt = 1 then Some (True, dfs_report nxt s)
      else dfs_children es fuel xs s)"
  by pat_completeness auto
termination
  by (relation "measures
        [\<lambda>x. case x of Inl (es, fuel, node, s) \<Rightarrow> fuel | Inr (es, fuel, xs, s) \<Rightarrow> fuel,
         \<lambda>x. case x of Inl _ \<Rightarrow> 0 | Inr (es, fuel, xs, s) \<Rightarrow> Suc (length xs)]") auto

fun dfs_roots :: "edges \<Rightarrow> nat \<Rightarrow> string list \<Rightarrow> dfs_state \<Rightarrow> (bool \<times> dfs_state) option" where
  "dfs_roots es fuel [] s = Some (False, s)"
| "dfs_roots es fuel (i # is) s =
     (if color s i = None then
        (case dfs es fuel i s of
           None \<Rightarrow> None
         | Some (found, s') \<Rightarrow> if found then Some (True, s') else dfs_roots es fuel is s')
      else dfs_roots es fuel is s)"

definition dfs_init :: dfs_state where
  "dfs_init = \<lparr>color = Map.empty, stackPos = (\<lambda>_. 0), stack = [], cycleNodes = []\<rparr>"

subsection \<open>validate\<close>

definition validate :: "string list \<Rightarrow> string list \<Rightarrow> DagBuilder \<Rightarrow> DagValidateResult option" where
  "validate iterM iterS specs =
     (let ids = set (spec_values specs) in
      case find_missing ids specs of
        Some d \<Rightarrow> Some \<lparr>vr_ok = False, vr_errorMessage = MissingDependency d, vr_cycleNodes = []\<rparr>
      | None \<Rightarrow>
          (let (es, deg) = foldl count_edges (\<lambda>_. [], \<lambda>_. 0) specs;
               q = filter (\<lambda>i. deg i = 0) iterM
           in case kahn es (q, deg, 0) of
                None \<Rightarrow> None
              | Some (_, _, visitedCount) \<Rightarrow>
                  if visitedCount \<noteq> int (length (remdups (spec_values specs))) then
                    (case dfs_roots es (Suc (length iterS)) iterS dfs_init of
                       None \<Rightarrow> None
                     | Some (_, s) \<Rightarrow>
                         Some \<lparr>vr_ok = False, vr_errorMessage = CycleDetected,
                               vr_cycleNodes = map (\<lambda>v. TaskId v []) (cycleNodes s)\<rparr>)
                  else Some \<lparr>vr_ok = True, vr_errorMessage = NoError, vr_cycleNodes = []\<rparr>))"

text \<open>The dependency relation the descriptions state: \<open>(d, v)\<close> when \<open>v\<close> lists \<open>d\<close>.\<close>

definition spec_edges :: "DagBuilder \<Rightarrow> (string \<times> string) set" where
  "spec_edges specs =
     {(d, v). \<exists>s \<in> set specs. v = tid_value (spec_id s) \<and> d \<in> tid_value ` set (spec_deps s)}"

definition iterates :: "string list \<Rightarrow> DagBuilder \<Rightarrow> bool" where
  "iterates it specs \<longleftrightarrow> distinct it \<and> set it = set (spec_values specs)"

definition all_deps_exist :: "DagBuilder \<Rightarrow> bool" where
  "all_deps_exist specs \<longleftrightarrow> (\<forall>(d, v) \<in> spec_edges specs. d \<in> set (spec_values specs))"

end
