(* ===== verification/Dag_Validation.thy ===== *)
theory Dag_Validation
  imports Dag_Builder
begin

text \<open>
  Correctness of \<^verbatim>\<open>DagBuilder::validate\<close>: Kahn's loop stops and visits every id exactly when
  all dependencies exist and the dependency relation is acyclic; the depth-first search that
  follows a failure names the nodes of a genuine cycle, and finds one whenever there is one.
\<close>

subsection \<open>Extending an acyclic relation\<close>

lemma acyclic_add_sinks:
  assumes "acyclic R" and "\<And>x y. (x, y) \<in> R' \<Longrightarrow> (x, y) \<in> R \<or> y \<in> N"
    and "\<And>x y. (x, y) \<in> R' \<Longrightarrow> x \<notin> N"
  shows "acyclic R'"
proof -
  have lift: "(x, y) \<in> R'\<^sup>+ \<Longrightarrow> y \<notin> N \<Longrightarrow> (x, y) \<in> R\<^sup>+" for x y
  proof (induction rule: trancl.induct)
    case (r_into_trancl a b)
    then show ?case using assms(2) by blast
  next
    case (trancl_into_trancl a b c)
    then have "(a, b) \<in> R\<^sup>+" using assms(3) by blast
    moreover have "(b, c) \<in> R" using trancl_into_trancl assms(2) by blast
    ultimately show ?case by (rule trancl.trancl_into_trancl)
  qed
  have src: "x \<notin> N" if "(x, y) \<in> R'\<^sup>+" for x y
    using that by (induction rule: trancl.induct) (auto dest: assms(3))
  show ?thesis
  proof (rule acyclicI, rule allI, rule notI)
    fix x assume "(x, x) \<in> R'\<^sup>+"
    with lift src have "(x, x) \<in> R\<^sup>+" by blast
    with assms(1) show False by (simp add: acyclic_def)
  qed
qed

lemma acyclic_add_source:
  assumes "acyclic R" and "\<And>x y. (x, y) \<in> R' \<Longrightarrow> (x, y) \<in> R \<or> x = v"
    and "\<And>x. (x, v) \<notin> R'"
  shows "acyclic R'"
proof -
  have "acyclic (R'\<inverse>)"
  proof (rule acyclic_add_sinks [where R = "R\<inverse>" and N = "{v}"])
    show "acyclic (R\<inverse>)" using assms(1) by simp
  qed (use assms in auto)
  then show ?thesis by simp
qed

lemma acyclic_no_closed_set:
  assumes "acyclic E" and "finite E" and "Y \<noteq> {}" and "\<And>v. v \<in> Y \<Longrightarrow> \<exists>d \<in> Y. (d, v) \<in> E"
  shows False
proof -
  have "wf E" using assms(1,2) by (simp add: finite_acyclic_wf)
  from wfE_min' [OF this assms(3)] obtain z where "z \<in> Y" and "\<And>y. (y, z) \<in> E \<Longrightarrow> y \<notin> Y"
    by blast
  with assms(4) show False by blast
qed

subsection \<open>The adjacency and in-degree tables\<close>

definition dep_values :: "DagBuilder \<Rightarrow> string set" where
  "dep_values specs = (\<Union>s \<in> set specs. tid_value ` set (spec_deps s))"

lemma finite_dep_values [simp]: "finite (dep_values specs)"
  by (simp add: dep_values_def)

lemma finite_spec_edges [simp]: "finite (spec_edges specs)"
proof (rule finite_subset)
  show "spec_edges specs \<subseteq> dep_values specs \<times> set (spec_values specs)"
    by (auto simp: spec_edges_def dep_values_def spec_values_def)
qed simp

definition tables_ok :: "string set \<Rightarrow> (string \<times> string) set \<Rightarrow> edges \<times> (string \<Rightarrow> int) \<Rightarrow> bool" where
  "tables_ok D E = (\<lambda>(es, deg).
     (\<forall>v. deg v = int (\<Sum>d\<in>D. count_list (es d) v)) \<and> (\<forall>d v. v \<in> set (es d) \<longleftrightarrow> (d, v) \<in> E))"

lemma tables_ok_count_edge:
  assumes "finite D" and "d \<in> D" and "tables_ok D E st"
  shows "tables_ok D (insert (d, v) E) (count_edge v st d)"
proof -
  obtain es deg where st: "st = (es, deg)" by fastforce
  let ?es = "es(d := es d @ [v])"
  have sum: "(\<Sum>x\<in>D. count_list (?es x) w) + count_list (es d) w
    = (\<Sum>x\<in>D. count_list (es x) w) + count_list (es d @ [v]) w" for w
    using sum_change_one [OF assms(1,2), of "\<lambda>x. count_list (?es x) w" "\<lambda>x. count_list (es x) w"]
    by simp
  have "int (\<Sum>x\<in>D. count_list (?es x) w) = (deg(v := deg v + 1)) w" for w
    using sum [of w] assms(3) by (auto simp: tables_ok_def st)
  moreover have "w \<in> set (?es x) \<longleftrightarrow> (x, w) \<in> insert (d, v) E" for w x
    using assms(3) by (auto simp: tables_ok_def st)
  ultimately show ?thesis by (simp add: tables_ok_def st count_edge_def)
qed

lemma tables_ok_count_edges:
  assumes "finite D" and "tid_value ` set (spec_deps s) \<subseteq> D" and "tables_ok D E st"
  shows "tables_ok D ((\<lambda>d. (d, tid_value (spec_id s))) ` tid_value ` set (spec_deps s) \<union> E)
    (count_edges st s)"
proof -
  have "tables_ok D ((\<lambda>d. (d, v)) ` set ds \<union> E) (foldl (count_edge v) st ds)"
    if "set ds \<subseteq> D" "tables_ok D E st" for ds v E st
    using that
  proof (induction ds arbitrary: st E)
    case (Cons d ds)
    then have "tables_ok D (insert (d, v) E) (count_edge v st d)"
      by (intro tables_ok_count_edge) (auto simp: assms(1))
    then have "tables_ok D ((\<lambda>d. (d, v)) ` set ds \<union> insert (d, v) E)
        (foldl (count_edge v) (count_edge v st d) ds)"
      using Cons.prems by (intro Cons.IH) auto
    then show ?case by simp
  qed simp
  from this [of "map tid_value (spec_deps s)"] assms(2,3) show ?thesis
    by (simp add: count_edges_def)
qed

lemma tables_ok_fold:
  assumes "finite D" and "dep_values specs \<subseteq> D" and "tables_ok D E st"
  shows "tables_ok D (spec_edges specs \<union> E) (foldl count_edges st specs)"
  using assms(2,3)
proof (induction specs arbitrary: st E)
  case Nil
  then show ?case by (simp add: spec_edges_def)
next
  case (Cons s specs)
  let ?F = "(\<lambda>d. (d, tid_value (spec_id s))) ` tid_value ` set (spec_deps s)"
  have "tables_ok D (?F \<union> E) (count_edges st s)"
    using Cons.prems by (intro tables_ok_count_edges assms(1)) (auto simp: dep_values_def)
  then have "tables_ok D (spec_edges specs \<union> (?F \<union> E)) (foldl count_edges (count_edges st s) specs)"
    using Cons by (auto simp: dep_values_def)
  moreover have "spec_edges specs \<union> (?F \<union> E) = spec_edges (s # specs) \<union> E"
    by (auto simp: spec_edges_def)
  ultimately show ?case by simp
qed

lemma tables_ok_initial: "tables_ok D {} (\<lambda>_. [], \<lambda>_. 0)"
  by (simp add: tables_ok_def)

lemma tables_ok_specs:
  "tables_ok (dep_values specs) (spec_edges specs) (foldl count_edges (\<lambda>_. [], \<lambda>_. 0) specs)"
  using tables_ok_fold [OF finite_dep_values subset_refl tables_ok_initial] by simp

subsection \<open>Kahn's loop\<close>

lemma kahn_relax_fold:
  assumes "\<And>v. int (count_list xs v) \<le> deg v"
  shows "\<exists>new. foldl kahn_relax (q, deg) xs = (q @ new, \<lambda>v. deg v - int (count_list xs v))
     \<and> distinct new \<and> set new = {v \<in> set xs. deg v = int (count_list xs v)}"
  using assms
proof (induction xs arbitrary: q deg)
  case Nil
  then show ?case by simp
next
  case (Cons x xs)
  let ?d = "deg x - 1"
  let ?deg = "deg(x := ?d)"
  let ?q = "if ?d = 0 then q @ [x] else q"
  have le: "int (count_list xs v) \<le> ?deg v" for v
    using Cons.prems [of v] by (auto split: if_splits)
  from Cons.IH [of ?deg ?q, OF le] obtain new where
    f: "foldl kahn_relax (?q, ?deg) xs = (?q @ new, \<lambda>v. ?deg v - int (count_list xs v))"
    and n: "distinct new" "set new = {v \<in> set xs. ?deg v = int (count_list xs v)}"
    by blast
  have fn: "(\<lambda>v. ?deg v - int (count_list xs v)) = (\<lambda>v. deg v - int (count_list (x # xs) v))"
    by (rule ext) simp
  have unfold: "foldl kahn_relax (q, deg) (x # xs) = foldl kahn_relax (?q, ?deg) xs"
    by (simp add: kahn_relax_def)
  show ?case
  proof (cases "?d = 0")
    case True
    with le [of x] have "count_list xs x = 0" by simp
    then have x: "x \<notin> set xs" by (simp add: count_list_0_iff)
    have "v \<in> set (x # new) \<longleftrightarrow> v \<in> set (x # xs) \<and> deg v = int (count_list (x # xs) v)" for v
      by (cases "v = x") (use True x n(2) \<open>count_list xs x = 0\<close> in simp_all)
    then have "set (x # new) = {v \<in> set (x # xs). deg v = int (count_list (x # xs) v)}" by blast
    moreover have "distinct (x # new)" using n x by auto
    ultimately show ?thesis
      unfolding unfold f fn using True by (intro exI [of _ "x # new"]) simp
  next
    case False
    have "v \<in> set new \<longleftrightarrow> v \<in> set (x # xs) \<and> deg v = int (count_list (x # xs) v)" for v
    proof (cases "v = x")
      case True
      then show ?thesis
        using n(2) False by (cases "x \<in> set xs") (auto simp: count_list_0_iff [THEN iffD2])
    qed (simp add: n(2))
    then have "set new = {v \<in> set (x # xs). deg v = int (count_list (x # xs) v)}" by blast
    with n(1) show ?thesis
      unfolding unfold f fn using False by (intro exI [of _ new]) simp
  qed
qed

definition kahn_inv :: "string set \<Rightarrow> string set \<Rightarrow> edges \<Rightarrow> string list \<Rightarrow> kahn_state \<Rightarrow> bool" where
  "kahn_inv V D es os = (\<lambda>(q, deg, n).
     distinct (os @ q) \<and> set (os @ q) \<subseteq> V \<and> n = int (length os)
   \<and> (\<forall>v. deg v = int (\<Sum>d\<in>D - set os. count_list (es d) v))
   \<and> (\<forall>v \<in> V. deg v = 0 \<longleftrightarrow> v \<in> set (os @ q))
   \<and> acyclic {(d, v). v \<in> set (es d) \<and> v \<in> set (os @ q)})"

lemma kahn_inv_deg:
  "kahn_inv V D es os (q, deg, n) \<Longrightarrow> deg v = int (\<Sum>d\<in>D - set os. count_list (es d) v)"
  by (simp add: kahn_inv_def)

lemma kahn_inv_deg_zero:
  "kahn_inv V D es os (q, deg, n) \<Longrightarrow> v \<in> V \<Longrightarrow> deg v = 0 \<longleftrightarrow> v \<in> set (os @ q)"
  unfolding kahn_inv_def prod.case by blast

lemma kahn_inv_zero_sum:
  "kahn_inv V D es os (q, deg, n) \<Longrightarrow> v \<in> V \<Longrightarrow>
   v \<in> set (os @ q) \<longleftrightarrow> (\<Sum>d\<in>D - set os. count_list (es d) v) = 0"
  using kahn_inv_deg [of V D es os q deg n v] kahn_inv_deg_zero [of V D es os q deg n v]
  by (simp del: of_nat_sum)

lemma kahn_inv_sub: "kahn_inv V D es os (q, deg, n) \<Longrightarrow> set (os @ q) \<subseteq> V"
  by (simp add: kahn_inv_def)

lemma kahn_pred_done:
  assumes "kahn_inv V D es os (q, deg, n)" and "finite D" and "v \<in> set (os @ q)"
    and "v \<in> set (es d)" and "d \<in> D"
  shows "d \<in> set os"
proof (rule ccontr)
  assume "d \<notin> set os"
  have "v \<in> V" using kahn_inv_sub [OF assms(1)] assms(3) by blast
  then have "(\<Sum>x\<in>D - set os. count_list (es x) v) = 0"
    using kahn_inv_zero_sum [OF assms(1)] assms(3) by blast
  then have "count_list (es d) v = 0"
    using \<open>d \<notin> set os\<close> assms(2,5) by simp
  with assms(4) show False by (simp add: count_list_0_iff)
qed

lemma kahn_step_inv:
  assumes inv: "kahn_inv V D es os (x # q, deg, n)" and fin: "finite D"
    and tgt: "\<And>d v. v \<in> set (es d) \<Longrightarrow> v \<in> V \<and> d \<in> D"
  shows "kahn_inv V D es (os @ [x]) (kahn_step es (x # q, deg, n))"
proof -
  have deg: "deg v = int (\<Sum>d\<in>D - set os. count_list (es d) v)" for v
    by (rule kahn_inv_deg [OF inv])
  have x: "x \<notin> set os" using inv by (simp add: kahn_inv_def)
  have split: "(\<Sum>d\<in>D - set os. count_list (es d) v)
    = count_list (es x) v + (\<Sum>d\<in>D - set (os @ [x]). count_list (es d) v)" for v
  proof (cases "x \<in> D")
    case True
    have "D - set (os @ [x]) = D - set os - {x}" by auto
    with True x fin show ?thesis by (simp add: sum.remove [of "D - set os" x])
  next
    case False
    then have "es x = []" using tgt [of _ x] by (cases "es x") auto
    moreover have "D - set (os @ [x]) = D - set os" using False by auto
    ultimately show ?thesis by simp
  qed
  have "int (count_list (es x) v) \<le> deg v" for v
    using deg [of v] split [of v] by linarith
  from kahn_relax_fold [OF this, of q] obtain new where
    f: "foldl kahn_relax (q, deg) (es x) = (q @ new, \<lambda>v. deg v - int (count_list (es x) v))"
    and n: "distinct new" "set new = {v \<in> set (es x). deg v = int (count_list (es x) v)}"
    by blast
  have new_pos: "deg v \<noteq> 0" if "v \<in> set new" for v
    using that n(2) by (auto simp: count_list_0_iff)
  have fresh: "v \<notin> set (os @ x # q) \<and> v \<in> V" if "v \<in> set new" for v
  proof
    show "v \<in> V" using that n(2) tgt by auto
    with new_pos [OF that] inv show "v \<notin> set (os @ x # q)" by (auto simp: kahn_inv_def)
  qed
  let ?deg = "\<lambda>v. deg v - int (count_list (es x) v)"
  have deg': "?deg v = int (\<Sum>d\<in>D - set (os @ [x]). count_list (es d) v)" for v
    using deg [of v] split [of v] by linarith
  have zero: "?deg v = 0 \<longleftrightarrow> v \<in> set (os @ x # q) \<or> v \<in> set new" if "v \<in> V" for v
  proof -
    note old = kahn_inv_deg_zero [OF inv that]
    show ?thesis
    proof (cases "v \<in> set (es x)")
      case True
      then have "0 < count_list (es x) v" by (simp add: count_list_pos_iff)
      then have "deg v \<noteq> 0" using deg [of v] split [of v] by linarith
      with old True n(2) show ?thesis by auto
    next
      case False
      then have "count_list (es x) v = 0" by (simp add: count_list_0_iff)
      with old False n(2) show ?thesis by auto
    qed
  qed
  have acyc: "acyclic {(d, v). v \<in> set (es d) \<and> v \<in> set (os @ x # q @ new)}"
  proof (rule acyclic_add_sinks)
    show "acyclic {(d, v). v \<in> set (es d) \<and> v \<in> set (os @ x # q)}"
      using inv unfolding kahn_inv_def prod.case by blast
  next
    fix d v assume *: "(d, v) \<in> {(d, v). v \<in> set (es d) \<and> v \<in> set (os @ x # q @ new)}"
    then show "(d, v) \<in> {(d, v). v \<in> set (es d) \<and> v \<in> set (os @ x # q)} \<or> v \<in> set new" by auto
    have "d \<in> D" using * tgt by auto
    have "d \<in> set (os @ x # q)"
    proof (cases "v \<in> set new")
      case False
      with * \<open>d \<in> D\<close> have "d \<in> set os" by (intro kahn_pred_done [OF inv fin]) auto
      then show ?thesis by simp
    next
      case True
      then have "?deg v = 0" using zero fresh by auto
      then have "(\<Sum>y\<in>D - set (os @ [x]). count_list (es y) v) = 0" using deg' [of v] by (simp del: of_nat_sum)
      with * \<open>d \<in> D\<close> fin show ?thesis by (auto simp: count_list_0_iff)
    qed
    with fresh show "d \<notin> set new" by blast
  qed
  have "distinct ((os @ [x]) @ q @ new)" "set ((os @ [x]) @ q @ new) \<subseteq> V"
    using inv n(1) fresh by (auto simp: kahn_inv_def)
  with zero acyc deg' inv f show ?thesis
    by (simp add: kahn_inv_def kahn_step_def del: of_nat_sum)
qed

lemma kahn_total:
  assumes "kahn_inv V D es [] s" and "finite D" and "finite V"
    and "\<And>d v. v \<in> set (es d) \<Longrightarrow> v \<in> V \<and> d \<in> D"
  shows "\<exists>os deg n. kahn es s = Some ([], deg, n) \<and> kahn_inv V D es os ([], deg, n)"
proof -
  let ?P = "\<lambda>s. \<exists>os. kahn_inv V D es os s"
  let ?b = "\<lambda>(q :: string list, deg :: string \<Rightarrow> int, n :: int). q \<noteq> []"
  let ?f = "\<lambda>(q :: string list, deg :: string \<Rightarrow> int, n :: int). card V - nat n"
  have step: "?P (kahn_step es s) \<and> ?f (kahn_step es s) < ?f s" if "?P s" "?b s" for s
  proof -
    obtain x q deg n where s: "s = (x # q, deg, n)"
      using \<open>?b s\<close> by (cases s) (auto simp: neq_Nil_conv)
    obtain os where os: "kahn_inv V D es os (x # q, deg, n)" using \<open>?P s\<close> s by blast
    have next': "kahn_inv V D es (os @ [x]) (kahn_step es s)"
      unfolding s by (rule kahn_step_inv [OF os assms(2)]) (rule assms(4))
    obtain q' deg' n' where s': "kahn_step es s = (q', deg', n')"
      by (cases "kahn_step es s") auto
    have "card (set (os @ x # q)) \<le> card V"
      using os by (intro card_mono assms(3)) (auto simp: kahn_inv_def)
    moreover have "card (set (os @ x # q)) = length (os @ x # q)"
      using os by (intro distinct_card) (auto simp: kahn_inv_def)
    ultimately have "length os < card V" by simp
    with next' os have "?f (kahn_step es s) < ?f s" by (auto simp: kahn_inv_def s s')
    with next' show ?thesis by blast
  qed
  have "\<exists>t. while_option ?b (kahn_step es) s = Some t"
    by (rule measure_while_option_Some [where P = ?P and f = ?f]) (use step assms(1) in blast)+
  then obtain t where t: "while_option ?b (kahn_step es) s = Some t" ..
  have "?P t" by (rule while_option_rule [OF _ t]) (use step assms(1) in blast)+
  moreover have "\<not> ?b t" using while_option_stop [OF t] .
  ultimately show ?thesis using t by (cases t) (auto simp: kahn_def)
qed

text \<open>Kahn's count reaches the number of ids exactly for sound descriptions.\<close>

lemma kahn_count_iff:
  assumes inv: "kahn_inv V D es os ([], deg, n)" and fin: "finite D" "finite V"
    and tgt: "\<And>d v. v \<in> set (es d) \<Longrightarrow> v \<in> V \<and> d \<in> D"
    and E: "E = {(d, v). v \<in> set (es d)}" and finE: "finite E"
  shows "n = int (card V) \<longleftrightarrow> (\<forall>(d, v) \<in> E. d \<in> V) \<and> acyclic E"
proof
  assume n: "n = int (card V)"
  have "card (set os) = length os" using inv by (intro distinct_card) (auto simp: kahn_inv_def)
  with n inv have "card (set os) = card V" by (auto simp: kahn_inv_def)
  moreover have sub: "set os \<subseteq> V" using inv by (auto simp: kahn_inv_def)
  ultimately have V: "set os = V" by (metis card_subset_eq fin(2))
  have "d \<in> V" if "(d, v) \<in> E" for d v
    using kahn_pred_done [OF inv fin(1), of v d] that V tgt E by auto
  moreover have "E = {(d, v). v \<in> set (es d) \<and> v \<in> set (os @ [])}"
    using V tgt E by auto
  ultimately show "(\<forall>(d, v) \<in> E. d \<in> V) \<and> acyclic E"
    using inv by (auto simp: kahn_inv_def)
next
  assume ok: "(\<forall>(d, v) \<in> E. d \<in> V) \<and> acyclic E"
  have "V - set os = {}"
  proof (rule ccontr)
    assume ne: "V - set os \<noteq> {}"
    have "\<exists>d \<in> V - set os. (d, v) \<in> E" if v: "v \<in> V - set os" for v
    proof -
      have "(\<Sum>d\<in>D - set os. count_list (es d) v) \<noteq> 0"
        using v kahn_inv_zero_sum [OF inv, of v] by simp
      then obtain d where "d \<in> D - set os" "count_list (es d) v \<noteq> 0" by (meson sum.not_neutral_contains_not_neutral)
      then have "(d, v) \<in> E" "d \<notin> set os" by (auto simp: E count_list_0_iff)
      with ok show ?thesis by blast
    qed
    from acyclic_no_closed_set [OF conjunct2 [OF ok] finE ne this] show False .
  qed
  then have "set os = V" using inv by (auto simp: kahn_inv_def)
  moreover have "card (set os) = length os" using inv by (intro distinct_card) (auto simp: kahn_inv_def)
  ultimately show "n = int (card V)" using inv by (auto simp: kahn_inv_def)
qed

subsection \<open>The depth-first search\<close>

definition edge_set :: "edges \<Rightarrow> (string \<times> string) set" where
  "edge_set es = {(d, v). v \<in> set (es d)}"

fun is_path :: "('a \<times> 'a) set \<Rightarrow> 'a list \<Rightarrow> bool" where
  "is_path E (x # y # xs) \<longleftrightarrow> (x, y) \<in> E \<and> is_path E (y # xs)"
| "is_path E xs \<longleftrightarrow> True"

definition is_cycle :: "('a \<times> 'a) set \<Rightarrow> 'a list \<Rightarrow> bool" where
  "is_cycle E c \<longleftrightarrow> c \<noteq> [] \<and> is_path E c \<and> (last c, hd c) \<in> E"

lemma is_path_snoc: "is_path E (xs @ [y]) \<longleftrightarrow> is_path E xs \<and> (xs \<noteq> [] \<longrightarrow> (last xs, y) \<in> E)"
  by (induction E xs rule: is_path.induct) auto

lemma is_path_drop: "is_path E xs \<Longrightarrow> is_path E (drop k xs)"
proof (induction E xs arbitrary: k rule: is_path.induct)
  case (1 E x y xs)
  then show ?case by (cases k) auto
qed (auto simp: drop_Cons split: nat.splits)

lemma is_path_butlast: "is_path E xs \<Longrightarrow> is_path E (butlast xs)"
  by (metis append_butlast_last_id butlast.simps(1) is_path_snoc)

definition black :: "dfs_state \<Rightarrow> string set" where
  "black s = {x. color_of s x \<noteq> 0 \<and> color_of s x \<noteq> 1}"

text \<open>
  The stack is the path of grey nodes, \<^verbatim>\<open>stackPos\<close> gives their places; black nodes only reach
  black nodes and lie on no cycle.
\<close>

definition dfs_inv :: "edges \<Rightarrow> dfs_state \<Rightarrow> bool" where
  "dfs_inv es s \<longleftrightarrow>
     distinct (stack s) \<and> is_path (edge_set es) (stack s) \<and> cycleNodes s = []
   \<and> (\<forall>x. color_of s x = 1 \<longleftrightarrow> x \<in> set (stack s))
   \<and> (\<forall>i < length (stack s). stackPos s (stack s ! i) = i)
   \<and> (\<forall>x \<in> black s. set (es x) \<subseteq> black s)
   \<and> acyclic {(x, y). x \<in> black s \<and> y \<in> set (es x)}"

lemma color_of_enter [simp]: "color_of (dfs_enter x s) y = (if y = x then 1 else color_of s y)"
  by (simp add: color_of_def dfs_enter_def)

lemma color_of_leave [simp]: "color_of (dfs_leave x s) y = (if y = x then 2 else color_of s y)"
  by (simp add: color_of_def dfs_leave_def)

lemma stack_enter_leave [simp]:
  "stack (dfs_enter x s) = stack s @ [x]" "stack (dfs_leave x s) = butlast (stack s)"
  "cycleNodes (dfs_enter x s) = cycleNodes s" "cycleNodes (dfs_leave x s) = cycleNodes s"
  by (simp_all add: dfs_enter_def dfs_leave_def)

lemma black_enter: "color_of s x = 0 \<Longrightarrow> black (dfs_enter x s) = black s"
  by (auto simp: black_def)

lemma dfs_inv_grey: "dfs_inv es s \<Longrightarrow> x \<in> set (stack s) \<longleftrightarrow> color_of s x = 1"
  by (simp add: dfs_inv_def)

lemma dfs_inv_enter:
  assumes "dfs_inv es s" and "color_of s x = 0"
    and "stack s \<noteq> [] \<longrightarrow> (last (stack s), x) \<in> edge_set es"
  shows "dfs_inv es (dfs_enter x s)"
proof -
  have x: "x \<notin> set (stack s)" using assms(1,2) dfs_inv_grey [of es s x] by simp
  then have pos: "stackPos (dfs_enter x s) (stack (dfs_enter x s) ! i) = i"
    if "i < length (stack (dfs_enter x s))" for i
    using that assms(1) by (auto simp: dfs_inv_def dfs_enter_def nth_append less_Suc_eq)
  show ?thesis
    using assms x pos by (simp add: dfs_inv_def black_enter is_path_snoc)
qed

lemma dfs_inv_report:
  assumes "dfs_inv es s" and "color_of s nxt = 1" and "(last (stack s), nxt) \<in> edge_set es"
  shows "is_cycle (edge_set es) (cycleNodes (dfs_report nxt s))"
proof -
  have "nxt \<in> set (stack s)" using assms(1,2) by (simp add: dfs_inv_def)
  then obtain i where i: "i < length (stack s)" "stack s ! i = nxt" by (auto simp: in_set_conv_nth)
  then have "stackPos s nxt = i" using assms(1) by (auto simp: dfs_inv_def)
  then have c: "cycleNodes (dfs_report nxt s) = drop i (stack s)"
    using assms(1) by (simp add: dfs_report_def dfs_inv_def)
  have "is_path (edge_set es) (drop i (stack s))"
    using assms(1) by (simp add: dfs_inv_def is_path_drop)
  with i assms(3) c show ?thesis by (simp add: is_cycle_def hd_drop_conv_nth)
qed

lemma dfs_inv_leave:
  assumes inv: "dfs_inv es s" and st: "stack s = st @ [x]" and ch: "set (es x) \<subseteq> black s"
  shows "dfs_inv es (dfs_leave x s)"
proof -
  have x: "color_of s x = 1" "x \<notin> set st" using inv st by (auto simp: dfs_inv_def)
  then have bl: "black (dfs_leave x s) = insert x (black s)" and xb: "x \<notin> black s"
    by (auto simp: black_def)
  have closed: "set (es y) \<subseteq> black s" if "y \<in> black s" for y
    using that inv by (simp add: dfs_inv_def)
  have "acyclic {(u, v). u \<in> insert x (black s) \<and> v \<in> set (es u)}"
  proof (rule acyclic_add_source)
    show "acyclic {(u, v). u \<in> black s \<and> v \<in> set (es u)}" using inv by (simp add: dfs_inv_def)
  qed (use closed ch xb in auto)
  moreover have "stackPos (dfs_leave x s) (st ! i) = i" if "i < length st" for i
  proof -
    have "st ! i \<noteq> x" using that x(2) nth_mem by blast
    moreover have "stackPos s (stack s ! i) = i" using inv that st by (simp add: dfs_inv_def)
    ultimately show ?thesis using that st by (simp add: dfs_leave_def nth_append)
  qed
  moreover have "color_of s y = 1 \<longleftrightarrow> y \<in> set st \<or> y = x" for y
    using inv st by (auto simp: dfs_inv_def)
  moreover have "set (es y) \<subseteq> insert x (black s)" if "y \<in> insert x (black s)" for y
    using that closed ch by auto
  ultimately show ?thesis
    using inv st x(2) bl by (simp add: dfs_inv_def is_path_snoc)
qed

lemma dfs_leave_black: "insert x (black s) \<subseteq> black (dfs_leave x s)"
  by (auto simp: black_def)

lemma dfs_spec:
  shows "\<lbrakk>dfs es fuel node s = Some (found, s'); dfs_inv es s; color_of s node = 0;
      stack s \<noteq> [] \<longrightarrow> (last (stack s), node) \<in> edge_set es\<rbrakk>
    \<Longrightarrow> (found \<longrightarrow> is_cycle (edge_set es) (cycleNodes s'))
      \<and> (\<not> found \<longrightarrow> dfs_inv es s' \<and> stack s' = stack s \<and> insert node (black s) \<subseteq> black s')"
    and "\<lbrakk>dfs_children es fuel xs s = Some (found, s'); dfs_inv es s; stack s \<noteq> [];
      set xs \<subseteq> set (es (last (stack s)))\<rbrakk>
    \<Longrightarrow> (found \<longrightarrow> is_cycle (edge_set es) (cycleNodes s'))
      \<and> (\<not> found \<longrightarrow> dfs_inv es s' \<and> stack s' = stack s \<and> set xs \<union> black s \<subseteq> black s')"
proof (induction es fuel node s and es fuel xs s arbitrary: found s' and found s'
    rule: dfs_dfs_children.induct)
  case (2 es fuel node s)
  from "2.prems"(1) obtain f t where t: "dfs_children es fuel (es node) (dfs_enter node s) = Some (f, t)"
    by (auto split: option.splits)
  have inv: "dfs_inv es (dfs_enter node s)" using "2.prems" by (intro dfs_inv_enter)
  have IH: "(f \<longrightarrow> is_cycle (edge_set es) (cycleNodes t))
      \<and> (\<not> f \<longrightarrow> dfs_inv es t \<and> stack t = stack s @ [node] \<and> set (es node) \<union> black s \<subseteq> black t)"
    using "2.IH" [OF t inv] "2.prems"(3) by (simp add: black_enter)
  show ?case
  proof (cases f)
    case True
    with IH t "2.prems"(1) show ?thesis by simp
  next
    case False
    with t "2.prems"(1) have "\<not> found" "s' = dfs_leave node t" by auto
    moreover have "dfs_inv es (dfs_leave node t)"
      using IH False by (intro dfs_inv_leave) auto
    ultimately show ?thesis
      using IH False dfs_leave_black [of node t] by auto
  qed
next
  case (4 es fuel nxt xs s)
  have edge: "(last (stack s), nxt) \<in> edge_set es" using "4.prems"(4) by (simp add: edge_set_def)
  consider (white) "color_of s nxt = 0" | (grey) "color_of s nxt = 1"
    | (blk) "color_of s nxt \<noteq> 0" "color_of s nxt \<noteq> 1" by blast
  then show ?case
  proof cases
    case white
    from "4.prems"(1) white obtain f t where t: "dfs es fuel nxt s = Some (f, t)"
      by (auto split: option.splits)
    note IH1 = "4.IH"(1) [OF white t "4.prems"(2) white]
    show ?thesis
    proof (cases f)
      case True
      with IH1 edge white t "4.prems"(1) show ?thesis by simp
    next
      case False
      with IH1 edge have it: "dfs_inv es t" "stack t = stack s" "insert nxt (black s) \<subseteq> black t"
        by auto
      have rest: "dfs_children es fuel xs t = Some (found, s')"
        using "4.prems"(1) white t False by simp
      have "set xs \<subseteq> set (es (last (stack t)))" "stack t \<noteq> []" using "4.prems" it by auto
      from "4.IH"(2) [OF white t refl False rest it(1) this(2,1)] it show ?thesis by auto
    qed
  next
    case grey
    with "4.prems"(1) have "found" "s' = dfs_report nxt s" by auto
    with dfs_inv_report [OF "4.prems"(2) grey edge] show ?thesis by simp
  next
    case blk
    then have "dfs_children es fuel xs s = Some (found, s')" using "4.prems"(1) by simp
    with "4.IH"(3) [OF blk] "4.prems" blk show ?thesis by (auto simp: black_def)
  qed
qed auto

subsection \<open>The fuel is enough\<close>

text \<open>Every nested call of \<^const>\<open>dfs\<close> colours a white id, so the ids not yet coloured bound the
  depth.\<close>

lemma dom_color_enter [simp]: "dom (color (dfs_enter x s)) = insert x (dom (color s))"
  by (simp add: dfs_enter_def)

lemma dom_color_leave [simp]: "dom (color (dfs_leave x s)) = insert x (dom (color s))"
  by (simp add: dfs_leave_def)

lemma color_dom_mono:
  shows "dfs es fuel node s = Some (found, s') \<Longrightarrow> dom (color s) \<subseteq> dom (color s')"
    and "dfs_children es fuel xs s = Some (found, s') \<Longrightarrow> dom (color s) \<subseteq> dom (color s')"
proof (induction es fuel node s and es fuel xs s arbitrary: found s' and found s'
    rule: dfs_dfs_children.induct)
  case (2 es fuel node s)
  then obtain f t where t: "dfs_children es fuel (es node) (dfs_enter node s) = Some (f, t)"
    by (auto split: option.splits)
  then have "s' = (if f then t else dfs_leave node t)" using "2.prems" by (auto split: if_splits)
  moreover have "dom (color s) \<subseteq> dom (color t)" using "2.IH" [OF t] by simp
  ultimately show ?case by (simp add: subset_insertI2)
next
  case (4 es fuel nxt xs s)
  show ?case
  proof (cases "color_of s nxt = 0")
    case True
    then obtain f t where t: "dfs es fuel nxt s = Some (f, t)"
      using "4.prems" by (auto split: option.splits)
    note sub = "4.IH"(1) [OF True t]
    show ?thesis
    proof (cases f)
      case True
      with sub t \<open>color_of s nxt = 0\<close> "4.prems" show ?thesis by simp
    next
      case False
      then have "dfs_children es fuel xs t = Some (found, s')" using t True "4.prems" by simp
      from "4.IH"(2) [OF True t refl False this] sub show ?thesis by blast
    qed
  next
    case False
    with "4.prems" "4.IH"(3) [OF False] show ?thesis
      by (cases "color_of s nxt = 1") (auto simp: dfs_report_def)
  qed
qed auto

definition no_zero :: "dfs_state \<Rightarrow> bool" where
  "no_zero s \<longleftrightarrow> (\<forall>x. color s x \<noteq> Some 0)"

lemma no_zero_enter_leave [simp]:
  "no_zero s \<Longrightarrow> no_zero (dfs_enter x s)" "no_zero s \<Longrightarrow> no_zero (dfs_leave x s)"
  by (auto simp: no_zero_def dfs_enter_def dfs_leave_def)

lemma no_zero_white: "no_zero s \<Longrightarrow> color_of s x = 0 \<longleftrightarrow> x \<notin> dom (color s)"
  by (cases "color s x") (auto simp: no_zero_def color_of_def domIff intro!: gr0I)

lemma dfs_enough_fuel:
  assumes "finite V" and closed: "\<And>x. set (es x) \<subseteq> V"
  shows "\<lbrakk>no_zero s; node \<in> V; node \<notin> dom (color s); card (V - dom (color s)) \<le> fuel\<rbrakk>
      \<Longrightarrow> \<exists>found s'. dfs es fuel node s = Some (found, s') \<and> no_zero s'"
    and "\<lbrakk>no_zero s; set xs \<subseteq> V; card (V - dom (color s)) \<le> fuel\<rbrakk>
      \<Longrightarrow> \<exists>found s'. dfs_children es fuel xs s = Some (found, s') \<and> no_zero s'"
  using closed
proof (induction es fuel node s and es fuel xs s rule: dfs_dfs_children.induct)
  case (1 es node s)
  then have "V - dom (color s) = {}" using assms(1) by simp
  with 1 show ?case by blast
next
  case (2 es fuel node s)
  have "V - insert node (dom (color s)) = V - dom (color s) - {node}" by auto
  then have "card (V - insert node (dom (color s))) \<le> fuel"
    using "2.prems"(2-4) assms(1) by simp
  then have "\<exists>found s'. dfs_children es fuel (es node) (dfs_enter node s) = Some (found, s') \<and> no_zero s'"
    using "2.prems" by (intro "2.IH") auto
  then show ?case by auto
next
  case (4 es fuel nxt xs s)
  show ?case
  proof (cases "color_of s nxt = 0")
    case True
    then have "\<exists>found s'. dfs es fuel nxt s = Some (found, s') \<and> no_zero s'"
      using "4.prems" no_zero_white by (intro "4.IH"(1)) auto
    then obtain f t where t: "dfs es fuel nxt s = Some (f, t)" "no_zero t" by blast
    show ?thesis
    proof (cases f)
      case True
      with t \<open>color_of s nxt = 0\<close> show ?thesis by (intro exI [of _ True] exI [of _ t]) simp
    next
      case False
      have "V - dom (color t) \<subseteq> V - dom (color s)" using color_dom_mono(1) [OF t(1)] by auto
      then have "card (V - dom (color t)) \<le> card (V - dom (color s))"
        using assms(1) by (intro card_mono) auto
      then have "\<exists>found s'. dfs_children es fuel xs t = Some (found, s') \<and> no_zero s'"
        using "4.prems" t(2) by (intro "4.IH"(2) [OF True t(1) refl False]) auto
      with t False True show ?thesis by simp
    qed
  next
    case False
    then show ?thesis using "4.prems" "4.IH"(3) [OF False] by (auto simp: no_zero_def dfs_report_def)
  qed
qed auto

text \<open>The search from every root: either a cycle is named, or every id is black.\<close>

lemma dfs_roots_spec:
  assumes "finite V" and "\<And>x. set (es x) \<subseteq> V" and "card V \<le> fuel"
  shows "\<lbrakk>dfs_inv es s; stack s = []; no_zero s; set rs \<subseteq> V\<rbrakk> \<Longrightarrow>
     \<exists>found s'. dfs_roots es fuel rs s = Some (found, s')
       \<and> (found \<longrightarrow> is_cycle (edge_set es) (cycleNodes s'))
       \<and> (\<not> found \<longrightarrow> dfs_inv es s' \<and> set rs \<union> black s \<subseteq> black s')"
proof (induction rs arbitrary: s)
  case Nil
  then show ?case by (intro exI [of _ False] exI [of _ s]) simp
next
  case (Cons r rs)
  show ?case
  proof (cases "color s r = None")
    case True
    then have white: "color_of s r = 0" by (simp add: color_of_def)
    have "card (V - dom (color s)) \<le> fuel"
      using assms(1,3) card_mono [of V "V - dom (color s)"] by auto
    then have "\<exists>f t. dfs es fuel r s = Some (f, t) \<and> no_zero t"
      using True Cons.prems by (intro dfs_enough_fuel(1) [OF assms(1,2)]) auto
    then obtain f t where t: "dfs es fuel r s = Some (f, t)" "no_zero t" by blast
    note sp = dfs_spec(1) [OF t(1) Cons.prems(1) white]
    show ?thesis
    proof (cases f)
      case True
      with sp Cons.prems t \<open>color s r = None\<close> show ?thesis
        by (intro exI [of _ True] exI [of _ t]) simp
    next
      case False
      with sp Cons.prems have it: "dfs_inv es t" "stack t = []" "insert r (black s) \<subseteq> black t"
        by auto
      have rs: "set rs \<subseteq> V" using Cons.prems(4) by simp
      from Cons.IH [OF it(1,2) t(2) rs] obtain f' s' where
        IH: "dfs_roots es fuel rs t = Some (f', s')" "f' \<longrightarrow> is_cycle (edge_set es) (cycleNodes s')"
          "\<not> f' \<longrightarrow> dfs_inv es s' \<and> set rs \<union> black t \<subseteq> black s'" by blast
      have "dfs_roots es fuel (r # rs) s = Some (f', s')" using t False True IH(1) by simp
      with IH(2,3) it(3) show ?thesis by (intro exI [of _ f'] exI [of _ s']) auto
    qed
  next
    case False
    have "color_of s r \<noteq> 0" using False Cons.prems(3) no_zero_white [of s r] by auto
    moreover have "color_of s r \<noteq> 1"
      using dfs_inv_grey [OF Cons.prems(1), of r] Cons.prems(2) by auto
    ultimately have "r \<in> black s" by (simp add: black_def)
    moreover have rs: "set rs \<subseteq> V" using Cons.prems(4) by simp
    from Cons.IH [OF Cons.prems(1-3) rs] obtain f' s' where
      IH: "dfs_roots es fuel rs s = Some (f', s')" "f' \<longrightarrow> is_cycle (edge_set es) (cycleNodes s')"
        "\<not> f' \<longrightarrow> dfs_inv es s' \<and> set rs \<union> black s \<subseteq> black s'" by blast
    moreover have "dfs_roots es fuel (r # rs) s = Some (f', s')" using False IH(1) by auto
    ultimately show ?thesis by (intro exI [of _ f'] exI [of _ s']) auto
  qed
qed

lemma dfs_inv_init: "dfs_inv es dfs_init" "stack dfs_init = []" "no_zero dfs_init"
  "black dfs_init = {}"
  by (auto simp: dfs_inv_def dfs_init_def black_def color_of_def no_zero_def acyclic_def)

lemma dfs_roots_init:
  assumes "finite V" and "\<And>x. set (es x) \<subseteq> V" and "set rs = V" and "distinct rs"
  shows "\<exists>found s. dfs_roots es (Suc (length rs)) rs dfs_init = Some (found, s)
     \<and> (found \<longrightarrow> is_cycle (edge_set es) (cycleNodes s))
     \<and> (\<not> found \<longrightarrow> cycleNodes s = [] \<and> acyclic {(x, y). x \<in> V \<and> y \<in> set (es x)})"
proof -
  have "card V \<le> Suc (length rs)" using assms(3,4) distinct_card by fastforce
  with dfs_roots_spec [of V es "Suc (length rs)" dfs_init rs] dfs_inv_init assms
  obtain found s where *: "dfs_roots es (Suc (length rs)) rs dfs_init = Some (found, s)"
    "found \<longrightarrow> is_cycle (edge_set es) (cycleNodes s)" "\<not> found \<longrightarrow> dfs_inv es s \<and> V \<subseteq> black s"
    by auto
  have "acyclic {(x, y). x \<in> V \<and> y \<in> set (es x)}" if "\<not> found"
  proof (rule acyclic_subset)
    show "acyclic {(x, y). x \<in> black s \<and> y \<in> set (es x)}" using * that by (simp add: dfs_inv_def)
  qed (use * that in auto)
  with * show ?thesis by (auto simp: dfs_inv_def)
qed

subsection \<open>validate\<close>

lemma find_missing_Some: "find_missing (set (spec_values specs)) specs = Some d \<Longrightarrow> \<not> all_deps_exist specs"
  by (fastforce simp: find_missing_def find_Some_iff all_deps_exist_def spec_edges_def
      dest: nth_mem)

lemma spec_edges_target:
  "(d, v) \<in> spec_edges specs \<Longrightarrow> v \<in> set (spec_values specs) \<and> d \<in> dep_values specs"
  by (auto simp: spec_edges_def spec_values_def dep_values_def)

lemma kahn_inv_start:
  assumes tab: "tables_ok D E (es, deg)" and it: "iterates iterM specs" and fin: "finite D"
    and src: "\<And>d v. (d, v) \<in> E \<Longrightarrow> d \<in> D"
  shows "kahn_inv (set (spec_values specs)) D es [] (filter (\<lambda>i. deg i = 0) iterM, deg, 0)"
proof -
  let ?q = "filter (\<lambda>i. deg i = 0) iterM"
  have deg: "deg v = int (\<Sum>d\<in>D. count_list (es d) v)" for v
    using tab unfolding tables_ok_def prod.case by blast
  have noin: "v \<notin> set (es d)" if "v \<in> set ?q" for d v
  proof
    assume v: "v \<in> set (es d)"
    then have "d \<in> D" using tab src by (auto simp: tables_ok_def)
    have "(\<Sum>d\<in>D. count_list (es d) v) = 0" using that deg [of v] by (simp del: of_nat_sum)
    then have "count_list (es d) v = 0" using fin \<open>d \<in> D\<close> by simp
    with v show False by (simp add: count_list_0_iff)
  qed
  then have none: "{(d, v). v \<in> set (es d) \<and> v \<in> set ([] @ ?q)} = {}" by auto
  have q: "distinct ([] @ ?q)" "set ([] @ ?q) \<subseteq> set (spec_values specs)"
    "\<And>v. v \<in> set (spec_values specs) \<Longrightarrow> deg v = 0 \<longleftrightarrow> v \<in> set ([] @ ?q)"
    using it by (auto simp: iterates_def)
  show ?thesis
    unfolding kahn_inv_def prod.case none
    using q deg by (simp add: acyclic_def del: of_nat_sum)
qed

lemma kahn_verdict:
  assumes "foldl count_edges (\<lambda>_. [], \<lambda>_. 0) specs = (es, deg)" and "iterates iterM specs"
  shows "\<exists>deg' n. kahn es (filter (\<lambda>i. deg i = 0) iterM, deg, 0) = Some ([], deg', n)
    \<and> (n = int (length (remdups (spec_values specs)))
       \<longleftrightarrow> all_deps_exist specs \<and> acyclic (spec_edges specs))"
proof -
  let ?V = "set (spec_values specs)" and ?D = "dep_values specs"
  have tab: "tables_ok ?D (spec_edges specs) (es, deg)"
    using tables_ok_specs [of specs] assms(1) by simp
  then have E: "spec_edges specs = {(d, v). v \<in> set (es d)}" by (auto simp: tables_ok_def)
  have tgt: "v \<in> ?V \<and> d \<in> ?D" if "v \<in> set (es d)" for d v
    using that spec_edges_target [of d v specs] E by auto
  have start: "kahn_inv ?V ?D es [] (filter (\<lambda>i. deg i = 0) iterM, deg, 0)"
    by (rule kahn_inv_start [OF tab assms(2)]) (use spec_edges_target in auto)
  from kahn_total [OF start _ _ tgt] obtain os deg' n where
    k: "kahn es (filter (\<lambda>i. deg i = 0) iterM, deg, 0) = Some ([], deg', n)"
    and inv: "kahn_inv ?V ?D es os ([], deg', n)" by auto
  have "n = int (card ?V) \<longleftrightarrow> (\<forall>(d, v) \<in> spec_edges specs. d \<in> ?V) \<and> acyclic (spec_edges specs)"
    by (rule kahn_count_iff [OF inv finite_dep_values finite_set tgt E finite_spec_edges])
  moreover have "card ?V = length (remdups (spec_values specs))" by (simp add: length_remdups_card_conv)
  ultimately show ?thesis using k by (auto simp: all_deps_exist_def)
qed

lemma dfs_names_cycle:
  assumes "foldl count_edges (\<lambda>_. [], \<lambda>_. 0) specs = (es, deg)" and "iterates iterS specs"
  shows "\<exists>found s. dfs_roots es (Suc (length iterS)) iterS dfs_init = Some (found, s)
     \<and> (found \<longrightarrow> is_cycle (spec_edges specs) (cycleNodes s))
     \<and> (\<not> found \<longrightarrow> cycleNodes s = [] \<and> (all_deps_exist specs \<longrightarrow> acyclic (spec_edges specs)))"
proof -
  let ?V = "set (spec_values specs)"
  have "tables_ok (dep_values specs) (spec_edges specs) (es, deg)"
    using tables_ok_specs [of specs] assms(1) by simp
  then have E: "spec_edges specs = edge_set es" by (auto simp: tables_ok_def edge_set_def)
  have closed: "set (es x) \<subseteq> ?V" for x
    using spec_edges_target [of x _ specs] E by (auto simp: edge_set_def)
  have "set iterS = ?V" "distinct iterS" using assms(2) by (auto simp: iterates_def)
  from dfs_roots_init [of ?V es iterS, OF _ closed this] obtain found s where
    r: "dfs_roots es (Suc (length iterS)) iterS dfs_init = Some (found, s)"
      "found \<longrightarrow> is_cycle (edge_set es) (cycleNodes s)"
      "\<not> found \<longrightarrow> cycleNodes s = [] \<and> acyclic {(x, y). x \<in> ?V \<and> y \<in> set (es x)}" by auto
  have "edge_set es = {(x, y). x \<in> ?V \<and> y \<in> set (es x)}" if "all_deps_exist specs"
    using that E by (auto simp: all_deps_exist_def edge_set_def)
  with r E show ?thesis by (intro exI [of _ found] exI [of _ s]) auto
qed

text \<open>C6. \<^verbatim>\<open>DagBuilder::validate\<close> always returns, whatever order the hash tables are iterated in,
  and accepts exactly the descriptions whose dependencies all exist and whose dependency relation is
  acyclic (an empty dependency name, which the first check lets pass, included).\<close>

theorem validate_correct:
  assumes "iterates iterM specs" and "iterates iterS specs"
  shows "\<exists>r. validate iterM iterS specs = Some r
    \<and> (vr_ok r \<longleftrightarrow> all_deps_exist specs \<and> acyclic (spec_edges specs))"
proof (cases "find_missing (set (spec_values specs)) specs")
  case (Some d)
  then show ?thesis using find_missing_Some [OF Some] by (simp add: validate_def)
next
  case None
  obtain es deg where t: "foldl count_edges (\<lambda>_. [], \<lambda>_. 0) specs = (es, deg)" by fastforce
  from kahn_verdict [OF t assms(1)] dfs_names_cycle [OF t assms(2)] show ?thesis
    by (auto simp: validate_def None t)
qed

text \<open>When \<^verbatim>\<open>validate\<close> reports a cycle and every dependency exists, the nodes it names form a
  cycle of the dependency relation: consecutive ones, and the last with the first, are
  dependencies.\<close>

theorem validate_names_cycle:
  assumes "iterates iterM specs" and "iterates iterS specs" and "all_deps_exist specs"
    and "validate iterM iterS specs = Some r" and "\<not> vr_ok r"
  shows "vr_errorMessage r = CycleDetected
    \<and> is_cycle (spec_edges specs) (map tid_value (vr_cycleNodes r))"
proof -
  obtain es deg where t: "foldl count_edges (\<lambda>_. [], \<lambda>_. 0) specs = (es, deg)" by fastforce
  have none: "find_missing (set (spec_values specs)) specs = None"
    using find_missing_Some assms(3) by (metis option.exhaust)
  from kahn_verdict [OF t assms(1)] dfs_names_cycle [OF t assms(2)] assms(3-5) show ?thesis
    by (auto simp: validate_def none t comp_def split: if_splits)
qed

text \<open>A chain of two tasks and a pair of tasks that wait for each other.\<close>

definition chain_specs :: DagBuilder where
  "chain_specs =
     [\<lparr>spec_id = TaskId ''a'' [], spec_deps = [], spec_runnerCfg = default_TaskConfig\<rparr>,
      \<lparr>spec_id = TaskId ''b'' [], spec_deps = [TaskId ''a'' []], spec_runnerCfg = default_TaskConfig\<rparr>]"

definition loop_specs :: DagBuilder where
  "loop_specs =
     [\<lparr>spec_id = TaskId ''a'' [], spec_deps = [TaskId ''b'' []], spec_runnerCfg = default_TaskConfig\<rparr>,
      \<lparr>spec_id = TaskId ''b'' [], spec_deps = [TaskId ''a'' []], spec_runnerCfg = default_TaskConfig\<rparr>]"

theorem validate_correct_witness:
  "\<exists>r. validate [''b'', ''a''] [''a'', ''b''] chain_specs = Some r
    \<and> (vr_ok r \<longleftrightarrow> all_deps_exist chain_specs \<and> acyclic (spec_edges chain_specs))"
  by (rule validate_correct) (auto simp: iterates_def chain_specs_def spec_values_def)

lemma validate_loop_specs:
  "validate [''a'', ''b''] [''b'', ''a''] loop_specs =
     Some \<lparr>vr_ok = False, vr_errorMessage = CycleDetected,
           vr_cycleNodes = [TaskId ''b'' [], TaskId ''a'' []]\<rparr>"
  by (simp add: validate_def loop_specs_def spec_values_def find_missing_def count_edges_def
      count_edge_def kahn_def while_option_unfold dfs_init_def dfs_enter_def dfs_leave_def
      dfs_report_def color_of_def numeral_nat)

theorem validate_names_cycle_witness:
  "vr_errorMessage (the (validate [''a'', ''b''] [''b'', ''a''] loop_specs)) = CycleDetected
   \<and> is_cycle (spec_edges loop_specs)
       (map tid_value (vr_cycleNodes (the (validate [''a'', ''b''] [''b'', ''a''] loop_specs))))"
proof (rule validate_names_cycle)
  show "iterates [''a'', ''b''] loop_specs" "iterates [''b'', ''a''] loop_specs"
    by (auto simp: iterates_def loop_specs_def spec_values_def)
  show "all_deps_exist loop_specs"
    by (auto simp: all_deps_exist_def spec_edges_def loop_specs_def spec_values_def)
qed (simp_all add: validate_loop_specs)

end
