(* ===== verification/Dag_Build_Correct.thy ===== *)
theory Dag_Build_Correct
  imports Dag_Validation
begin

text \<open>
  What \<^verbatim>\<open>DagBuilder::build\<close> makes of validated descriptions: a well-formed, fresh graph whose
  edges are the dependencies the descriptions state.  Under this contract
  (\<^const>\<open>wf_graph\<close>, \<^const>\<open>fresh_graph\<close>, acyclic \<^const>\<open>edge_rel\<close>) the executor is verified.
\<close>

definition uniform_run :: "string \<Rightarrow> DagBuilder \<Rightarrow> bool" where
  "uniform_run r specs \<longleftrightarrow>
     (\<forall>s \<in> set specs. tid_runId (spec_id s) = r \<and> (\<forall>d \<in> set (spec_deps s). tid_runId d = r))"

text \<open>\<^verbatim>\<open>DagService::runDag(specs, ...)\<close> stamps a non-empty run id on every id and dependency.\<close>

definition stamp_run :: "string \<Rightarrow> DagTaskSpec \<Rightarrow> DagTaskSpec" where
  "stamp_run r spec =
     (if r \<noteq> [] then
        spec\<lparr>spec_id := TaskId (tid_value (spec_id spec)) r,
             spec_deps := map (\<lambda>d. TaskId (tid_value d) r) (spec_deps spec)\<rparr>
      else spec)"

lemma uniform_run_stamp: "r \<noteq> [] \<Longrightarrow> uniform_run r (map (stamp_run r) specs)"
  by (auto simp: uniform_run_def stamp_run_def)

subsection \<open>Nodes seen through their run id\<close>

lemma graph_ids_ensureNode:
  "tid_runId i = r \<Longrightarrow> graph_ids r (ensureNode i g) = insert i (graph_ids r g)"
  by (auto simp: graph_ids_def getNode_ensureNode)

lemma graph_ids_updNode:
  assumes "tid_runId i = r" shows "graph_ids r (updNode i f g) = graph_ids r g"
proof -
  have "getNode (updNode i f g) j \<noteq> None \<longleftrightarrow> getNode g j \<noteq> None" if "tid_runId j = r" for j
    using assms that by (simp add: getNode_updNode)
  then show ?thesis by (auto simp: graph_ids_def)
qed

lemma dom_updNode [simp]: "dom (nodes (updNode i f g)) = dom (nodes g)"
  by (auto simp: updNode_def split: option.splits if_splits)

lemma dom_ensureNode [simp]: "dom (nodes (ensureNode i g)) = insert (makeKey i) (dom (nodes g))"
  by (auto simp: ensureNode_def split: option.splits if_splits)

lemma deps_of_ensureNode:
  "tid_runId i = tid_runId j \<Longrightarrow> deps_of (ensureNode i g) j = deps_of g j"
  by (auto simp: deps_of_def getNode_ensureNode)

lemma down_of_ensureNode:
  "tid_runId i = tid_runId j \<Longrightarrow> down_of (ensureNode i g) j = down_of g j"
  by (auto simp: down_of_def getNode_ensureNode)

lemma deps_of_build_edge:
  assumes "tid_runId i = r" "tid_runId d = r" "tid_runId j = r" "i \<in> graph_ids r g"
  shows "deps_of (build_edge i g d) j = (if j = i then deps_of g j @ [d] else deps_of g j)"
  using assms
  by (auto simp: build_edge_def deps_of_def graph_ids_def getNode_updNode getNode_ensureNode
      split: option.splits)

lemma down_of_build_edge:
  assumes "tid_runId i = r" "tid_runId d = r" "tid_runId j = r"
  shows "down_of (build_edge i g d) j = (if j = d then down_of g j @ [i] else down_of g j)"
  using assms
  by (auto simp: build_edge_def down_of_def getNode_updNode getNode_ensureNode
      split: option.splits)

lemma graph_ids_build_edge:
  assumes "tid_runId i = r" "tid_runId d = r"
  shows "graph_ids r (build_edge i g d) = insert d (graph_ids r g)"
  using assms by (simp add: build_edge_def graph_ids_updNode graph_ids_ensureNode)

subsection \<open>Node ids and statuses\<close>

definition nodes_ok :: "string \<Rightarrow> DagGraph \<Rightarrow> bool" where
  "nodes_ok r g \<longleftrightarrow> finite (graph_ids r g) \<and> dom (nodes g) = makeKey ` graph_ids r g
   \<and> (\<forall>i n. tid_runId i = r \<longrightarrow> getNode g i = Some n \<longrightarrow> node_id n = i \<and> status n = Pending)"

lemma nodes_ok_ensureNode: "nodes_ok r g \<Longrightarrow> tid_runId i = r \<Longrightarrow> nodes_ok r (ensureNode i g)"
  by (auto simp: nodes_ok_def graph_ids_ensureNode getNode_ensureNode split: if_splits)

lemma nodes_ok_updNode:
  assumes "nodes_ok r g" "tid_runId i = r"
    and "\<And>n. node_id (f n) = node_id n" "\<And>n. status (f n) = status n"
  shows "nodes_ok r (updNode i f g)"
  using assms by (auto simp: nodes_ok_def graph_ids_updNode getNode_updNode split: if_splits)

lemma nodes_ok_build_edge:
  "nodes_ok r g \<Longrightarrow> tid_runId i = r \<Longrightarrow> tid_runId d = r \<Longrightarrow> nodes_ok r (build_edge i g d)"
  by (simp add: build_edge_def nodes_ok_updNode nodes_ok_ensureNode)

subsection \<open>Edges\<close>

text \<open>The edges stored so far, both directions at once.\<close>

definition edges_ok :: "string \<Rightarrow> DagGraph \<Rightarrow> (TaskId \<Rightarrow> TaskId list) \<Rightarrow> bool" where
  "edges_ok r g D \<longleftrightarrow>
     (\<forall>j. tid_runId j = r \<longrightarrow> deps_of g j = D j \<and> set (D j) \<subseteq> graph_ids r g
        \<and> set (down_of g j) \<subseteq> graph_ids r g)
   \<and> (\<forall>i j. tid_runId i = r \<longrightarrow> tid_runId j = r \<longrightarrow>
        count_list (down_of g i) j = count_list (D j) i)"

lemma edges_ok_ensureNode:
  "edges_ok r g D \<Longrightarrow> tid_runId i = r \<Longrightarrow> edges_ok r (ensureNode i g) D"
  by (auto simp: edges_ok_def deps_of_ensureNode down_of_ensureNode graph_ids_ensureNode)

lemma edges_ok_setRunnerConfig:
  assumes "edges_ok r g D" "tid_runId i = r"
  shows "edges_ok r (updNode i (setRunnerConfig c) g) D"
proof -
  have "deps_of (updNode i (setRunnerConfig c) g) j = deps_of g j"
    "down_of (updNode i (setRunnerConfig c) g) j = down_of g j" if "tid_runId j = r" for j
    using that assms(2) by (auto simp: deps_of_def down_of_def getNode_updNode split: option.splits)
  with assms show ?thesis by (simp add: edges_ok_def graph_ids_updNode)
qed

lemma edges_ok_build_edge:
  assumes "edges_ok r g D" "tid_runId i = r" "tid_runId d = r" "i \<in> graph_ids r g"
  shows "edges_ok r (build_edge i g d) (D(i := D i @ [d]))"
  using assms
  by (auto simp: edges_ok_def deps_of_build_edge down_of_build_edge graph_ids_build_edge)

lemma build_edge_fold:
  assumes "edges_ok r g D" "nodes_ok r g" "tid_runId i = r" "i \<in> graph_ids r g"
    "\<forall>d \<in> set ds. tid_runId d = r"
  shows "edges_ok r (foldl (build_edge i) g ds) (D(i := D i @ ds))
    \<and> nodes_ok r (foldl (build_edge i) g ds)
    \<and> graph_ids r (foldl (build_edge i) g ds) = graph_ids r g \<union> set ds"
  using assms
proof (induction ds arbitrary: g D)
  case (Cons d ds)
  have "edges_ok r (build_edge i g d) (D(i := D i @ [d]))" "nodes_ok r (build_edge i g d)"
    "i \<in> graph_ids r (build_edge i g d)" "\<forall>d \<in> set ds. tid_runId d = r"
    using Cons.prems by (simp_all add: edges_ok_build_edge nodes_ok_build_edge graph_ids_build_edge)
  note IH = Cons.IH [OF this(1,2) Cons.prems(3) this(3,4)]
  have "(D(i := D i @ [d]))(i := (D(i := D i @ [d])) i @ ds) = D(i := D i @ d # ds)" by simp
  with IH have "edges_ok r (foldl (build_edge i) (build_edge i g d) ds) (D(i := D i @ d # ds))"
    by (simp only:)
  moreover have "graph_ids r (foldl (build_edge i) (build_edge i g d) ds) = graph_ids r g \<union> set (d # ds)"
    using IH Cons.prems by (simp add: graph_ids_build_edge)
  ultimately show ?case using IH by (simp only: foldl_Cons)
qed simp

definition spec_deps_of :: "DagBuilder \<Rightarrow> TaskId \<Rightarrow> TaskId list" where
  "spec_deps_of specs j = concat (map spec_deps (filter (\<lambda>s. spec_id s = j) specs))"

lemma build_edges_fold:
  assumes "edges_ok r g D" "nodes_ok r g" "uniform_run r specs"
  shows "edges_ok r (foldl build_edges g specs) (\<lambda>j. D j @ spec_deps_of specs j)
    \<and> nodes_ok r (foldl build_edges g specs)
    \<and> graph_ids r (foldl build_edges g specs)
        = graph_ids r g \<union> spec_id ` set specs \<union> (\<Union>s \<in> set specs. set (spec_deps s))"
  using assms
proof (induction specs arbitrary: g D)
  case Nil
  then show ?case by (simp add: spec_deps_of_def)
next
  case (Cons s specs)
  have s: "tid_runId (spec_id s) = r" "\<forall>d \<in> set (spec_deps s). tid_runId d = r"
    "uniform_run r specs"
    using Cons.prems(3) by (auto simp: uniform_run_def)
  have "edges_ok r (ensureNode (spec_id s) g) D" "nodes_ok r (ensureNode (spec_id s) g)"
    "spec_id s \<in> graph_ids r (ensureNode (spec_id s) g)"
    using Cons.prems s(1) by (simp_all add: edges_ok_ensureNode nodes_ok_ensureNode graph_ids_ensureNode)
  from build_edge_fold [OF this(1,2) s(1) this(3) s(2)]
  have one: "edges_ok r (build_edges g s) (D(spec_id s := D (spec_id s) @ spec_deps s))"
    "nodes_ok r (build_edges g s)"
    "graph_ids r (build_edges g s) = insert (spec_id s) (graph_ids r g) \<union> set (spec_deps s)"
    using s(1) by (simp_all add: build_edges_def graph_ids_ensureNode)
  have D: "(\<lambda>j. (D(spec_id s := D (spec_id s) @ spec_deps s)) j @ spec_deps_of specs j)
      = (\<lambda>j. D j @ spec_deps_of (s # specs) j)"
    by (auto simp: spec_deps_of_def)
  from Cons.IH [OF one(1,2) s(3)] show ?case
    unfolding D by (auto simp: one(3))
qed

lemma build_node_fold:
  assumes "edges_ok r g (\<lambda>_. [])" "nodes_ok r g" "uniform_run r specs"
  shows "edges_ok r (foldl build_node g specs) (\<lambda>_. []) \<and> nodes_ok r (foldl build_node g specs)
    \<and> graph_ids r (foldl build_node g specs) = graph_ids r g \<union> spec_id ` set specs"
  using assms
proof (induction specs arbitrary: g)
  case (Cons s specs)
  have "tid_runId (spec_id s) = r" "uniform_run r specs"
    using Cons.prems(3) by (auto simp: uniform_run_def)
  with Cons.IH [of "build_node g s"] Cons.prems show ?case
    by (simp add: build_node_def edges_ok_setRunnerConfig edges_ok_ensureNode nodes_ok_updNode
        nodes_ok_ensureNode graph_ids_updNode graph_ids_ensureNode)
qed simp

subsection \<open>The graph build returns\<close>

lemma recomputeIndegree_views [simp]:
  "graph_ids r (recomputeIndegree g) = graph_ids r g"
  "deps_of (recomputeIndegree g) j = deps_of g j"
  "down_of (recomputeIndegree g) j = down_of g j"
  "dom (nodes (recomputeIndegree g)) = dom (nodes g)"
  by (simp_all add: graph_ids_def deps_of_def down_of_def getNode_recomputeIndegree
      split: option.splits)
    (auto simp: recomputeIndegree_def)

lemma empty_graph_ok:
  "edges_ok r \<lparr>nodes = Map.empty\<rparr> (\<lambda>_. [])" "nodes_ok r \<lparr>nodes = Map.empty\<rparr>"
  by (auto simp: edges_ok_def nodes_ok_def graph_ids_def deps_of_def down_of_def getNode_def)

lemma build_views:
  assumes "uniform_run r specs"
  shows "graph_ids r (build specs) = spec_id ` set specs \<union> (\<Union>s \<in> set specs. set (spec_deps s))"
    and "tid_runId j = r \<Longrightarrow> deps_of (build specs) j = spec_deps_of specs j"
    and "wf_graph r (build specs)" and "fresh_graph r (build specs)"
proof -
  define g where "g = foldl build_edges (foldl build_node \<lparr>nodes = Map.empty\<rparr> specs) specs"
  have b: "build specs = recomputeIndegree g" by (simp add: build_def g_def)
  from build_node_fold [OF empty_graph_ok assms]
  have n: "edges_ok r (foldl build_node \<lparr>nodes = Map.empty\<rparr> specs) (\<lambda>_. [])"
    "nodes_ok r (foldl build_node \<lparr>nodes = Map.empty\<rparr> specs)"
    "graph_ids r (foldl build_node \<lparr>nodes = Map.empty\<rparr> specs) = spec_id ` set specs"
    by (auto simp: graph_ids_def getNode_def)
  from build_edges_fold [OF n(1,2) assms]
  have g: "edges_ok r g (spec_deps_of specs)" "nodes_ok r g"
    "graph_ids r g = spec_id ` set specs \<union> (\<Union>s \<in> set specs. set (spec_deps s))"
    by (auto simp: g_def n(3))
  show "graph_ids r (build specs) = spec_id ` set specs \<union> (\<Union>s \<in> set specs. set (spec_deps s))"
    by (simp add: b g(3))
  show "tid_runId j = r \<Longrightarrow> deps_of (build specs) j = spec_deps_of specs j"
    using g(1) by (simp add: b edges_ok_def)
  have ids: "\<exists>n. tid_runId i = r \<and> getNode g i = Some n \<and> node_id n = i \<and> status n = Pending"
    if "i \<in> graph_ids r g" for i
    using that g(2) by (auto simp: graph_ids_def nodes_ok_def)
  have edges: "set (down_of g i) \<subseteq> graph_ids r g" "set (deps_of g i) \<subseteq> graph_ids r g"
    if "i \<in> graph_ids r g" for i
    using ids [OF that] g(1) unfolding edges_ok_def by metis+
  have counts: "count_list (down_of g i) j = count_list (deps_of g j) i"
    if "i \<in> graph_ids r g" "j \<in> graph_ids r g" for i j
    using ids [OF that(1)] ids [OF that(2)] g(1) unfolding edges_ok_def by metis
  have "\<exists>n. getNode (build specs) i = Some n \<and> node_id n = i \<and> status n = Pending
      \<and> indegree n = int (length (dependencies n))" if "i \<in> graph_ids r g" for i
    using ids [OF that] by (auto simp: b getNode_recomputeIndegree)
  then show "wf_graph r (build specs)" "fresh_graph r (build specs)"
    using g(2) edges counts
    by (auto simp: b wf_graph_def fresh_graph_def nodes_ok_def)
qed

lemma edge_rel_iff_deps:
  assumes "wf_graph r g"
  shows "(i, j) \<in> edge_rel r g \<longleftrightarrow> j \<in> graph_ids r g \<and> i \<in> set (deps_of g j)"
proof
  assume "(i, j) \<in> edge_rel r g"
  then have i: "i \<in> graph_ids r g" "j \<in> set (down_of g i)" by (auto simp: edge_rel_def)
  then have j: "j \<in> graph_ids r g" using assms by (auto simp: wf_graph_def)
  with i assms have "count_list (deps_of g j) i = count_list (down_of g i) j"
    by (simp add: wf_graph_def)
  with i(2) j show "j \<in> graph_ids r g \<and> i \<in> set (deps_of g j)"
    by (metis count_list_pos_iff)
next
  assume *: "j \<in> graph_ids r g \<and> i \<in> set (deps_of g j)"
  then have i: "i \<in> graph_ids r g" using assms by (auto simp: wf_graph_def)
  with * assms have "count_list (down_of g i) j = count_list (deps_of g j) i"
    by (simp add: wf_graph_def)
  with * i show "(i, j) \<in> edge_rel r g"
    by (auto simp: edge_rel_def) (metis count_list_pos_iff)
qed

lemma trancl_image: "(x, y) \<in> R\<^sup>+ \<Longrightarrow> (\<And>a b. (a, b) \<in> R \<Longrightarrow> (f a, f b) \<in> S) \<Longrightarrow> (f x, f y) \<in> S\<^sup>+"
  by (induction rule: trancl.induct) (auto intro: trancl.trancl_into_trancl)

lemma build_acyclic:
  assumes "uniform_run r specs" and "acyclic (spec_edges specs)"
  shows "acyclic (edge_rel r (build specs))"
proof (rule acyclicI, rule allI, rule notI)
  fix x assume cyc: "(x, x) \<in> (edge_rel r (build specs))\<^sup>+"
  have "(tid_value i, tid_value j) \<in> spec_edges specs" if "(i, j) \<in> edge_rel r (build specs)" for i j
  proof -
    have "tid_runId j = r" "i \<in> set (deps_of (build specs) j)"
      using that edge_rel_iff_deps [OF build_views(3) [OF assms(1)]] by (auto simp: graph_ids_def)
    then have "i \<in> set (spec_deps_of specs j)" using build_views(2) [OF assms(1)] by simp
    then show ?thesis by (auto simp: spec_deps_of_def spec_edges_def)
  qed
  from trancl_image [OF cyc this] assms(2) show False by (auto simp: acyclic_def)
qed

lemma validated_build:
  assumes "r \<noteq> []" and "iterates iterM (map (stamp_run r) specs)"
    and "iterates iterS (map (stamp_run r) specs)"
    and "validate iterM iterS (map (stamp_run r) specs) = Some v" and "vr_ok v"
  shows "wf_graph r (build (map (stamp_run r) specs)) \<and> fresh_graph r (build (map (stamp_run r) specs))
    \<and> graph_ids r (build (map (stamp_run r) specs)) = (\<lambda>s. TaskId (tid_value (spec_id s)) r) ` set specs
    \<and> acyclic (edge_rel r (build (map (stamp_run r) specs)))"
proof -
  let ?specs = "map (stamp_run r) specs"
  obtain es deg where t: "foldl count_edges (\<lambda>_. [], \<lambda>_. 0) ?specs = (es, deg)" by fastforce
  have none: "find_missing (set (spec_values ?specs)) ?specs = None"
    using assms(4,5) by (auto simp: validate_def split: option.splits)
  have ok: "all_deps_exist ?specs \<and> acyclic (spec_edges ?specs)"
    using kahn_verdict [OF t assms(2)] dfs_names_cycle [OF t assms(3)] assms(4,5)
    by (auto simp: validate_def none t split: if_splits)
  note u = uniform_run_stamp [OF assms(1), of specs]
  have ids: "spec_id ` set ?specs = (\<lambda>s. TaskId (tid_value (spec_id s)) r) ` set specs"
    using assms(1) by (auto simp: stamp_run_def image_iff)
  have "d \<in> spec_id ` set ?specs" if "s \<in> set ?specs" "d \<in> set (spec_deps s)" for s d
  proof -
    have "(tid_value d, tid_value (spec_id s)) \<in> spec_edges ?specs"
      using that by (auto simp: spec_edges_def)
    then have "tid_value d \<in> set (spec_values ?specs)" using ok by (auto simp: all_deps_exist_def)
    then obtain s' where "s' \<in> set ?specs" "tid_value (spec_id s') = tid_value d"
      unfolding spec_values_def set_map by (metis imageE)
    moreover have "tid_runId (spec_id s') = tid_runId d"
      using u that calculation by (auto simp: uniform_run_def)
    ultimately show ?thesis by (metis TaskId.expand imageI)
  qed
  then have "graph_ids r (build ?specs) = spec_id ` set ?specs"
    using build_views(1) [OF u] by blast
  with ids build_views(3,4) [OF u] build_acyclic [OF u conjunct2 [OF ok]] show ?thesis by simp
qed

text \<open>C7. A DAG that \<^verbatim>\<open>validate\<close> accepted is built into a graph the executor can run: a node for
  every description and no other, edges stored consistently in both directions, counters at the
  number of dependencies, statuses Pending, and no cycle.\<close>

theorem build_after_validate:
  assumes "r \<noteq> []" and "iterates iterM (map (stamp_run r) specs)"
    and "iterates iterS (map (stamp_run r) specs)"
    and "validate iterM iterS (map (stamp_run r) specs) = Some v" and "vr_ok v"
  shows "wf_graph r (build (map (stamp_run r) specs)) \<and> fresh_graph r (build (map (stamp_run r) specs))
    \<and> graph_ids r (build (map (stamp_run r) specs)) = (\<lambda>s. TaskId (tid_value (spec_id s)) r) ` set specs
    \<and> acyclic (edge_rel r (build (map (stamp_run r) specs)))"
  by (rule validated_build [OF assms])

theorem build_after_validate_witness:
  "wf_graph ''r'' (build (map (stamp_run ''r'') chain_specs))
    \<and> fresh_graph ''r'' (build (map (stamp_run ''r'') chain_specs))
    \<and> graph_ids ''r'' (build (map (stamp_run ''r'') chain_specs))
        = (\<lambda>s. TaskId (tid_value (spec_id s)) ''r'') ` set chain_specs
    \<and> acyclic (edge_rel ''r'' (build (map (stamp_run ''r'') chain_specs)))"
proof (rule build_after_validate)
  show "validate [''a'', ''b''] [''a'', ''b''] (map (stamp_run ''r'') chain_specs) =
     Some \<lparr>vr_ok = True, vr_errorMessage = NoError, vr_cycleNodes = []\<rparr>"
    by (simp add: validate_def chain_specs_def stamp_run_def spec_values_def find_missing_def
        count_edges_def count_edge_def kahn_def while_option_unfold kahn_step_def kahn_relax_def)
qed (auto simp: iterates_def chain_specs_def stamp_run_def spec_values_def)

end
