(* ===== verification/Dag_Executor.thy ===== *)
theory Dag_Executor
  imports Dag_Graph
begin

text \<open>
  \<^verbatim>\<open>dag/dag_run_context.cpp\<close> and \<^verbatim>\<open>dag/dag_executor.cpp\<close>: one scheduling thread and the jobs
  it posts, over a shared context.  The state holds the program counter of the scheduler
  (\<open>sched_pc\<close>) and of every job in flight (\<open>job_pc\<close>); one step is one access to the data the
  threads share: node statuses, indegrees, the ready queue, the running counter, the failure flag
  and the condition variable.  Writes no other thread reads (results, database rows, web socket
  events, callbacks) belong to the step before them and are recorded, in order, in \<open>trace\<close>.

  The task runner is not fixed: the result a job gets is the argument of its step.  Iteration over
  the graph's hash map is in an order given as an argument, and \<open>isDagWorkerThread\<close> is a flag of the
  state, since it cannot change during \<^verbatim>\<open>execute\<close>.  With the flag set the scheduler waits at
  \<open>SInline\<close> for the job, which is the synchronous call of the source.
\<close>

subsection \<open>DagRunContext\<close>

datatype dag_event =
    NodeStatusChanged TaskId TaskStatus
  | DagFinished bool
  | RepoRunning TaskId
  | RepoFinished TaskId TaskResult
  | RepoSkipped TaskId string
  | WsReady TaskId "string option"
  | WsStart TaskId TaskExecType string
  | WsEnd TaskId TaskResult
  | WsSkipped TaskId string
  | SpawnWorker
  | PostJob TaskId TaskPriority

record DagEventCallbacks =
  has_onNodeStatusChanged :: bool
  has_onDagFinished :: bool

record DagRunContext =
  ctx_config :: DagConfig
  graph :: DagGraph
  callbacks :: DagEventCallbacks
  running :: int
  failed :: bool
  taskResults :: "TaskId \<rightharpoonup> TaskResult"
  trace :: "dag_event list"

definition mk_DagRunContext :: "DagConfig \<Rightarrow> DagGraph \<Rightarrow> DagEventCallbacks \<Rightarrow> DagRunContext" where
  "mk_DagRunContext cfg g cbs =
     \<lparr>ctx_config = cfg, graph = g, callbacks = cbs, running = 0, failed = False,
      taskResults = Map.empty, trace = []\<rparr>"

definition emit :: "dag_event \<Rightarrow> DagRunContext \<Rightarrow> DagRunContext" where
  "emit e c = c\<lparr>trace := trace c @ [e]\<rparr>"

definition incrementRunning :: "DagRunContext \<Rightarrow> DagRunContext" where
  "incrementRunning c = c\<lparr>running := running c + 1\<rparr>"

definition decrementRunning :: "DagRunContext \<Rightarrow> DagRunContext" where
  "decrementRunning c = c\<lparr>running := running c - 1\<rparr>"

definition markFailed :: "DagRunContext \<Rightarrow> DagRunContext" where
  "markFailed c = c\<lparr>failed := True\<rparr>"

definition setNodeStatus :: "TaskId \<Rightarrow> TaskStatus \<Rightarrow> DagRunContext \<Rightarrow> DagRunContext" where
  "setNodeStatus i st c =
     (let c' = c\<lparr>graph := updNode i (setStatus st) (graph c)\<rparr>
      in if has_onNodeStatusChanged (callbacks c) then emit (NodeStatusChanged i st) c' else c')"

definition setTaskResults :: "TaskId \<Rightarrow> TaskResult \<Rightarrow> DagRunContext \<Rightarrow> DagRunContext" where
  "setTaskResults i res c = c\<lparr>taskResults := (taskResults c)(i \<mapsto> res)\<rparr>"

definition ctx_finish :: "bool \<Rightarrow> DagRunContext \<Rightarrow> DagRunContext" where
  "ctx_finish success c =
     (if has_onDagFinished (callbacks c) then emit (DagFinished success) c else c)"

subsection \<open>Executor state\<close>

datatype job_pc =
    JPosted
  | JMark
  | JChildren "TaskId list"
  | JDec TaskId "TaskId list"
  | JPush TaskId "TaskId list"
  | JSkip "TaskId list" "string list"
  | JDecrement
  | JNotify

datatype sched_pc =
    SFill
  | SPop
  | SCheck TaskId
  | SPolicy TaskId
  | SSubmit TaskId
  | SStart TaskId
  | SPost TaskId
  | SInline TaskId
  | SExit
  | SPredQueue
  | SPredCtx
  | SBlock
  | SBlocked
  | SFinish
  | SDone

record DagExecutor =
  ctx :: DagRunContext
  maxParallel :: int
  readyQueue :: "TaskId list"
  jobs :: "(TaskId \<times> job_pc) list"
  sched :: sched_pc
  onDagWorker :: bool
  finalResult :: TaskResult

text \<open>\<^verbatim>\<open>static_cast<int>(std::uint32_t)\<close>, then the guard against values below one.\<close>

definition limit_parallel :: "DagConfig \<Rightarrow> int" where
  "limit_parallel cfg = (let m = sint (maxParallel_cfg cfg) in if m \<le> 0 then 1 else m)"

definition init_ready_node :: "TaskId list \<times> DagRunContext \<Rightarrow> DagNode \<Rightarrow> TaskId list \<times> DagRunContext" where
  "init_ready_node = (\<lambda>(q, c) n.
     if indegree n = 0 then (q @ [node_id n], emit (WsReady (node_id n) None) c) else (q, c))"

definition initReadyQueue :: "string list \<Rightarrow> DagRunContext \<Rightarrow> TaskId list \<times> DagRunContext" where
  "initReadyQueue iterN c =
     foldl init_ready_node ([], c) (List.map_filter (nodes (graph c)) iterN)"

definition execute_init :: "string list \<Rightarrow> bool \<Rightarrow> DagRunContext \<Rightarrow> DagExecutor" where
  "execute_init iterN worker c =
     (let (q, c') = initReadyQueue iterN c
      in \<lparr>ctx = c', maxParallel = limit_parallel (ctx_config c), readyQueue = q, jobs = [],
          sched = SFill, onDagWorker = worker,
          finalResult = default_TaskResult\<lparr>res_status := Success\<rparr>\<rparr>)"

text \<open>The statuses that keep a popped node from being submitted, and those that keep a child from
  being counted down.\<close>

definition not_submittable :: "TaskStatus \<Rightarrow> bool" where
  "not_submittable st \<longleftrightarrow>
     st = Skipped \<or> st = Failed \<or> st = Timeout \<or> st = Canceled \<or> st = Success \<or> st = Running"

definition child_closed :: "TaskStatus \<Rightarrow> bool" where
  "child_closed st \<longleftrightarrow> st = Skipped \<or> st = Failed \<or> st = Timeout \<or> st = Canceled"

definition isFailureLike :: "TaskStatus \<Rightarrow> bool" where
  "isFailureLike st \<longleftrightarrow> st = Failed \<or> st = Timeout \<or> st = Canceled"

subsection \<open>The scheduling thread: execute and submitNodeAsync\<close>

definition submit_effects :: "TaskId \<Rightarrow> DagNode \<Rightarrow> DagRunContext \<Rightarrow> DagRunContext" where
  "submit_effects i n c =
     (let c1 = incrementRunning c;
          c2 = (if tid_runId i \<noteq> [] then emit (RepoRunning i) c1 else c1)
      in emit (WsStart i (execType (runnerConfig n)) (cfg_queue (runnerConfig n))) c2)"

definition post_effects :: "TaskId \<Rightarrow> DagNode \<Rightarrow> DagRunContext \<Rightarrow> DagRunContext" where
  "post_effects i n c =
     (let t = execType (runnerConfig n);
          c1 = (if t = Dag \<or> t = Template then emit SpawnWorker c else c)
      in emit (PostJob i (priority (runnerConfig n))) c1)"

definition sched_post :: "TaskId \<Rightarrow> DagExecutor \<Rightarrow> DagExecutor" where
  "sched_post i s =
     (case getNode (graph (ctx s)) i of
        None \<Rightarrow> s\<lparr>sched := SFill\<rparr>
      | Some n \<Rightarrow>
          if onDagWorker s then
            s\<lparr>ctx := submit_effects i n (ctx s), jobs := jobs s @ [(i, JPosted)], sched := SInline i\<rparr>
          else
            s\<lparr>ctx := post_effects i n (submit_effects i n (ctx s)),
              jobs := jobs s @ [(i, JPosted)], sched := SFill\<rparr>)"

definition sched_check :: "TaskId \<Rightarrow> sched_pc \<Rightarrow> DagExecutor \<Rightarrow> DagExecutor" where
  "sched_check i next s =
     (case getNode (graph (ctx s)) i of
        None \<Rightarrow> s\<lparr>sched := next\<rparr>
      | Some n \<Rightarrow> if not_submittable (status n) then s\<lparr>sched := SFill\<rparr> else s\<lparr>sched := next\<rparr>)"

definition sched_finish :: "DagExecutor \<Rightarrow> DagExecutor" where
  "sched_finish s =
     (let r = (if failed (ctx s)
               then (finalResult s)\<lparr>res_status := Failed, res_message := ''dag failed''\<rparr>
               else finalResult s)
      in s\<lparr>finalResult := r, ctx := ctx_finish (res_ok r) (ctx s), sched := SDone\<rparr>)"

fun sched_step :: "sched_pc \<Rightarrow> DagExecutor \<Rightarrow> DagExecutor option" where
  "sched_step SFill s =
     Some (s\<lparr>sched := (if running (ctx s) < maxParallel s then SPop else SExit)\<rparr>)"
| "sched_step SPop s =
     (case readyQueue s of
        [] \<Rightarrow> Some (s\<lparr>sched := SExit\<rparr>)
      | i # q \<Rightarrow> Some (s\<lparr>readyQueue := q, sched := (if tid_empty i then SExit else SCheck i)\<rparr>))"
| "sched_step (SCheck i) s = Some (sched_check i (SPolicy i) s)"
| "sched_step (SPolicy i) s =
     Some (s\<lparr>sched := (if failPolicy (ctx_config (ctx s)) = FailFast \<and> failed (ctx s)
                     then SFill else SSubmit i)\<rparr>)"
| "sched_step (SSubmit i) s =
     (case getNode (graph (ctx s)) i of
        None \<Rightarrow> Some (s\<lparr>sched := SFill\<rparr>)
      | Some _ \<Rightarrow> Some (sched_check i (SStart i) s))"
| "sched_step (SStart i) s = Some (s\<lparr>ctx := setNodeStatus i Running (ctx s), sched := SPost i\<rparr>)"
| "sched_step (SPost i) s = Some (sched_post i s)"
| "sched_step (SInline i) s =
     (if i \<in> fst ` set (jobs s) then None else Some (s\<lparr>sched := SFill\<rparr>))"
| "sched_step SExit s =
     Some (s\<lparr>sched := (if readyQueue s = [] \<and> running (ctx s) = 0 then SFinish else SPredQueue)\<rparr>)"
| "sched_step SPredQueue s =
     Some (s\<lparr>sched := (if readyQueue s \<noteq> [] then SFill else SPredCtx)\<rparr>)"
| "sched_step SPredCtx s =
     Some (s\<lparr>sched := (if running (ctx s) = 0
                        \<or> failPolicy (ctx_config (ctx s)) = FailFast \<and> failed (ctx s)
                     then SFill else SBlock)\<rparr>)"
| "sched_step SBlock s = Some (s\<lparr>sched := SBlocked\<rparr>)"
| "sched_step SBlocked s = None"
| "sched_step SFinish s = Some (sched_finish s)"
| "sched_step SDone s = None"

subsection \<open>A job: the posted lambda and onNodeFinished\<close>

definition failure_status :: "TaskStatus \<Rightarrow> TaskStatus" where
  "failure_status st = (if st = Timeout then Timeout else if st = Canceled then Canceled else Failed)"

text \<open>Up to and including the first write of the node's status.\<close>

definition node_finished :: "TaskId \<Rightarrow> TaskResult \<Rightarrow> DagRunContext \<Rightarrow> DagRunContext \<times> job_pc" where
  "node_finished i res c =
     (case getNode (graph c) i of
        None \<Rightarrow> (c, JDecrement)
      | Some n \<Rightarrow>
          (let c1 = setTaskResults i res c;
               c2 = (if tid_runId i \<noteq> [] then emit (RepoFinished i res) c1 else c1);
               c3 = emit (WsEnd i res) c2;
               st = res_status res
           in if res_ok res then (setNodeStatus i Success c3, JChildren (downstream n))
              else (setNodeStatus i (failure_status st) c3,
                    if isFailureLike st then JMark else JDecrement)))"

definition run_job :: "TaskId \<Rightarrow> TaskResult \<Rightarrow> DagRunContext \<Rightarrow> DagRunContext \<times> job_pc" where
  "run_job i res c =
     (case getNode (graph c) i of
        Some _ \<Rightarrow> node_finished i res c
      | None \<Rightarrow> node_finished i (default_TaskResult\<lparr>res_status := Failed,
                                    res_message := ''Node not found in graph''\<rparr>) c)"

text \<open>\<^verbatim>\<open>visited.insert(...).second\<close> guards every push on the breadth first queue.\<close>

definition visit :: "TaskId list \<times> string list \<Rightarrow> TaskId \<Rightarrow> TaskId list \<times> string list" where
  "visit = (\<lambda>(q, vis) i.
     if tid_value i \<in> set vis then (q, vis) else (q @ [i], tid_value i # vis))"

definition skip_node :: "TaskId \<Rightarrow> TaskId \<Rightarrow> DagRunContext \<Rightarrow> DagRunContext" where
  "skip_node i child c =
     (let c1 = setNodeStatus child Skipped c;
          c2 = setTaskResults child (default_TaskResult\<lparr>res_status := Skipped\<rparr>) c1;
          c3 = (if tid_runId child \<noteq> []
                then emit (RepoSkipped child (''skip_downstream upstream='' @ tid_value i)) c2 else c2)
      in emit (WsSkipped child (tid_value i)) c3)"

definition after_mark :: "TaskId \<Rightarrow> DagRunContext \<Rightarrow> job_pc" where
  "after_mark i c =
     (case failPolicy (ctx_config c) of
        FailFast \<Rightarrow> JDecrement
      | SkipDownstream \<Rightarrow>
          (case foldl visit ([], []) (down_of (graph c) i) of (q, vis) \<Rightarrow> JSkip q vis))"

fun job_step :: "TaskId \<Rightarrow> job_pc \<Rightarrow> TaskResult \<Rightarrow> DagExecutor \<Rightarrow> DagExecutor \<times> job_pc option" where
  "job_step i JPosted res s =
     (case run_job i res (ctx s) of (c, pc) \<Rightarrow> (s\<lparr>ctx := c\<rparr>, Some pc))"
| "job_step i JMark res s = (s\<lparr>ctx := markFailed (ctx s)\<rparr>, Some (after_mark i (ctx s)))"
| "job_step i (JChildren []) res s = (s, Some JDecrement)"
| "job_step i (JChildren (c # cs)) res s =
     (case getNode (graph (ctx s)) c of
        None \<Rightarrow> (s, Some (JChildren cs))
      | Some n \<Rightarrow> if child_closed (status n) then (s, Some (JChildren cs)) else (s, Some (JDec c cs)))"
| "job_step i (JDec c cs) res s =
     (case getNode (graph (ctx s)) c of
        None \<Rightarrow> (s, Some (JChildren cs))
      | Some n \<Rightarrow>
          (case decrementIndegree n of (newDeg, n') \<Rightarrow>
             (s\<lparr>ctx := (ctx s)\<lparr>graph := updNode c (\<lambda>_. n') (graph (ctx s))\<rparr>\<rparr>,
              Some (if newDeg = 0 then JPush c cs else JChildren cs))))"
| "job_step i (JPush c cs) res s =
     (s\<lparr>readyQueue := readyQueue s @ [c], ctx := emit (WsReady c (Some (tid_value i))) (ctx s)\<rparr>,
      Some (JChildren cs))"
| "job_step i (JSkip [] vis) res s = (s, Some JDecrement)"
| "job_step i (JSkip (c # q) vis) res s =
     (case getNode (graph (ctx s)) c of
        None \<Rightarrow> (s, Some (JSkip q vis))
      | Some n \<Rightarrow>
          (s\<lparr>ctx := skip_node i c (ctx s)\<rparr>,
           Some (case foldl visit (q, vis) (downstream n) of (q', vis') \<Rightarrow> JSkip q' vis')))"
| "job_step i JDecrement res s = (s\<lparr>ctx := decrementRunning (ctx s)\<rparr>, Some JNotify)"
| "job_step i JNotify res s =
     (s\<lparr>sched := (if sched s = SBlocked then SPredQueue else sched s)\<rparr>, None)"

subsection \<open>Interleavings\<close>

datatype choice = Sched | Job nat TaskResult | SpuriousWakeup

definition put_job :: "nat \<Rightarrow> TaskId \<Rightarrow> job_pc option \<Rightarrow> (TaskId \<times> job_pc) list \<Rightarrow> (TaskId \<times> job_pc) list" where
  "put_job k i p js =
     (case p of Some pc \<Rightarrow> js[k := (i, pc)] | None \<Rightarrow> take k js @ drop (Suc k) js)"

fun exec_act :: "choice \<Rightarrow> DagExecutor \<Rightarrow> DagExecutor option" where
  "exec_act Sched s = sched_step (sched s) s"
| "exec_act (Job k res) s =
     (if k < length (jobs s) then
        (case jobs s ! k of (i, pc) \<Rightarrow>
          (case job_step i pc res s of (s', p) \<Rightarrow> Some (s'\<lparr>jobs := put_job k i p (jobs s')\<rparr>)))
      else None)"
| "exec_act SpuriousWakeup s =
     (if sched s = SBlocked then Some (s\<lparr>sched := SPredQueue\<rparr>) else None)"

inductive exec_step :: "DagExecutor \<Rightarrow> DagExecutor \<Rightarrow> bool" where
  exec_stepI: "exec_act c s = Some s' \<Longrightarrow> exec_step s s'"

inductive_simps exec_step_iff: "exec_step s s'"

fun run_choices :: "choice list \<Rightarrow> DagExecutor \<Rightarrow> DagExecutor option" where
  "run_choices [] s = Some s"
| "run_choices (c # cs) s =
     (case exec_act c s of None \<Rightarrow> None | Some s' \<Rightarrow> run_choices cs s')"

lemma run_choices_steps: "run_choices cs s = Some t \<Longrightarrow> steps exec_step s t"
proof (induction cs arbitrary: s)
  case (Cons c cs)
  then obtain u where "exec_act c s = Some u" "run_choices cs u = Some t"
    by (auto split: option.splits)
  with Cons.IH [of u] show ?case
    by (blast intro: steps_trans steps_one exec_stepI)
qed simp

end
