(* ===== verification/Dag_Dataflow.thy ===== *)
theory Dag_Dataflow
  imports Dag_Executor
begin

text \<open>
  The abstract contract of the executor: a dataflow machine over a fixed shape (node ids, edges,
  failure policy).  A node is released into the ready queue when its counter of unfinished
  dependencies reaches zero, the scheduler holds at most one released node, and finished nodes
  either count their children down or spread the skip.  The machine has no limit on parallelism,
  no condition variable and no trace; \<open>Dag_Exec_Correct\<close> shows that every step of
  \<^const>\<open>exec_step\<close> is matched here.  The invariants of the machine are proved operation by
  operation.
\<close>

subsection \<open>The machine\<close>

record flow =
  fV :: "TaskId set"
  fdown :: "TaskId \<Rightarrow> TaskId list"
  fdeps :: "TaskId \<Rightarrow> TaskId list"
  fpol :: FailPolicy

definition fedges :: "flow \<Rightarrow> (TaskId \<times> TaskId) set" where
  "fedges F = {(d, y). d \<in> fV F \<and> y \<in> set (fdown F d)}"

definition flow_ok :: "flow \<Rightarrow> bool" where
  "flow_ok F \<longleftrightarrow> finite (fV F) \<and> inj_on tid_value (fV F)
   \<and> (\<forall>x \<in> fV F. set (fdown F x) \<subseteq> fV F \<and> set (fdeps F x) \<subseteq> fV F)
   \<and> (\<forall>x \<in> fV F. \<forall>y \<in> fV F. count_list (fdown F x) y = count_list (fdeps F y) x)
   \<and> acyclic (fedges F)"

datatype hold = HNone | HPopped TaskId | HStarted TaskId

record aflow =
  a_st :: "TaskId \<Rightarrow> TaskStatus"
  a_deg :: "TaskId \<Rightarrow> int"
  a_pc :: "TaskId \<rightharpoonup> job_pc"
  a_queue :: "TaskId list"
  a_hold :: hold
  a_failed :: bool
  a_res :: "TaskId \<rightharpoonup> TaskStatus"

definition a_drop :: "flow \<Rightarrow> aflow \<Rightarrow> TaskId \<Rightarrow> bool" where
  "a_drop F a i \<longleftrightarrow> tid_empty i \<or> not_submittable (a_st a i) \<or> fpol F = FailFast \<and> a_failed a"

definition a_mark_pc :: "flow \<Rightarrow> TaskId \<Rightarrow> job_pc" where
  "a_mark_pc F i =
     (case fpol F of
        FailFast \<Rightarrow> JDecrement
      | SkipDownstream \<Rightarrow> (case foldl visit ([], []) (fdown F i) of (q, vis) \<Rightarrow> JSkip q vis))"

inductive astep :: "flow \<Rightarrow> aflow \<Rightarrow> aflow \<Rightarrow> bool" for F where
  a_pop: "\<lbrakk>a_queue a = i # q; a_hold a = HNone\<rbrakk> \<Longrightarrow>
    astep F a (a\<lparr>a_queue := q, a_hold := HPopped i\<rparr>)"
| a_dropped: "\<lbrakk>a_hold a = HPopped i; a_drop F a i\<rbrakk> \<Longrightarrow> astep F a (a\<lparr>a_hold := HNone\<rparr>)"
| a_start: "a_hold a = HPopped i \<Longrightarrow>
    astep F a (a\<lparr>a_st := (a_st a)(i := Running), a_hold := HStarted i\<rparr>)"
| a_post: "a_hold a = HStarted i \<Longrightarrow>
    astep F a (a\<lparr>a_pc := (a_pc a)(i \<mapsto> JPosted), a_hold := HNone\<rparr>)"
| a_run_ok: "a_pc a i = Some JPosted \<Longrightarrow>
    astep F a (a\<lparr>a_st := (a_st a)(i := Success), a_res := (a_res a)(i \<mapsto> Success),
                 a_pc := (a_pc a)(i \<mapsto> JChildren (fdown F i))\<rparr>)"
| a_run_fail: "\<lbrakk>a_pc a i = Some JPosted; r \<noteq> Success\<rbrakk> \<Longrightarrow>
    astep F a (a\<lparr>a_st := (a_st a)(i := failure_status r), a_res := (a_res a)(i \<mapsto> r),
                 a_pc := (a_pc a)(i \<mapsto> (if isFailureLike r then JMark else JDecrement))\<rparr>)"
| a_mark: "a_pc a i = Some JMark \<Longrightarrow>
    astep F a (a\<lparr>a_failed := True, a_pc := (a_pc a)(i \<mapsto> a_mark_pc F i)\<rparr>)"
| a_child_nil: "a_pc a i = Some (JChildren []) \<Longrightarrow>
    astep F a (a\<lparr>a_pc := (a_pc a)(i \<mapsto> JDecrement)\<rparr>)"
| a_child_closed: "\<lbrakk>a_pc a i = Some (JChildren (c # cs)); child_closed (a_st a c)\<rbrakk> \<Longrightarrow>
    astep F a (a\<lparr>a_pc := (a_pc a)(i \<mapsto> JChildren cs)\<rparr>)"
| a_child_open: "\<lbrakk>a_pc a i = Some (JChildren (c # cs)); \<not> child_closed (a_st a c)\<rbrakk> \<Longrightarrow>
    astep F a (a\<lparr>a_pc := (a_pc a)(i \<mapsto> JDec c cs)\<rparr>)"
| a_dec: "a_pc a i = Some (JDec c cs) \<Longrightarrow>
    astep F a (a\<lparr>a_deg := (a_deg a)(c := a_deg a c - 1),
                 a_pc := (a_pc a)(i \<mapsto> (if a_deg a c - 1 = 0 then JPush c cs else JChildren cs))\<rparr>)"
| a_push: "a_pc a i = Some (JPush c cs) \<Longrightarrow>
    astep F a (a\<lparr>a_queue := a_queue a @ [c], a_pc := (a_pc a)(i \<mapsto> JChildren cs)\<rparr>)"
| a_skip_nil: "a_pc a i = Some (JSkip [] vis) \<Longrightarrow>
    astep F a (a\<lparr>a_pc := (a_pc a)(i \<mapsto> JDecrement)\<rparr>)"
| a_skip: "\<lbrakk>a_pc a i = Some (JSkip (c # q) vis); foldl visit (q, vis) (fdown F c) = (q', vis')\<rbrakk> \<Longrightarrow>
    astep F a (a\<lparr>a_st := (a_st a)(c := Skipped), a_res := (a_res a)(c \<mapsto> Skipped),
                 a_pc := (a_pc a)(i \<mapsto> JSkip q' vis')\<rparr>)"
| a_decrement: "a_pc a i = Some JDecrement \<Longrightarrow> astep F a (a\<lparr>a_pc := (a_pc a)(i \<mapsto> JNotify)\<rparr>)"
| a_notify: "a_pc a i = Some JNotify \<Longrightarrow> astep F a (a\<lparr>a_pc := (a_pc a)(i := None)\<rparr>)"

inductive_cases astep_cases: "astep F a a'"

text \<open>The machine before its first step.\<close>

definition a_initial :: "flow \<Rightarrow> aflow \<Rightarrow> bool" where
  "a_initial F a \<longleftrightarrow>
     (\<forall>y \<in> fV F. a_st a y = Pending \<and> a_deg a y = int (length (fdeps F y)) \<and> a_res a y = None)
   \<and> (\<forall>y. a_pc a y = None) \<and> a_hold a = HNone \<and> \<not> a_failed a
   \<and> distinct (a_queue a) \<and> set (a_queue a) = {y \<in> fV F. a_deg a y = 0}"

subsection \<open>Invariants\<close>

text \<open>The edges a node has not consumed yet.\<close>

definition rem :: "flow \<Rightarrow> aflow \<Rightarrow> TaskId \<Rightarrow> TaskId list" where
  "rem F a x =
     (case a_pc a x of
        Some (JChildren cs) \<Rightarrow> cs
      | Some (JDec c cs) \<Rightarrow> c # cs
      | Some (JPush c cs) \<Rightarrow> cs
      | _ \<Rightarrow> if a_st a x = Success then [] else fdown F x)"

definition unconsumed :: "flow \<Rightarrow> aflow \<Rightarrow> TaskId \<Rightarrow> nat" where
  "unconsumed F a y = (\<Sum>x \<in> fV F. count_list (rem F a x) y)"

definition tok :: "aflow \<Rightarrow> TaskId \<Rightarrow> bool" where
  "tok a y \<longleftrightarrow> y \<in> set (a_queue a) \<or> a_hold a = HPopped y \<or> a_hold a = HStarted y
     \<or> (\<exists>x cs. a_pc a x = Some (JPush y cs))"

definition bad :: "aflow \<Rightarrow> TaskId \<Rightarrow> bool" where
  "bad a y \<longleftrightarrow> isFailureLike (a_st a y) \<or> a_st a y = Skipped"

fun pc_ids :: "flow \<Rightarrow> TaskId \<Rightarrow> job_pc \<Rightarrow> bool" where
  "pc_ids F i (JChildren cs) \<longleftrightarrow> set cs \<subseteq> set (fdown F i)"
| "pc_ids F i (JDec c cs) \<longleftrightarrow> set (c # cs) \<subseteq> set (fdown F i)"
| "pc_ids F i (JPush c cs) \<longleftrightarrow> set (c # cs) \<subseteq> set (fdown F i)"
| "pc_ids F i (JSkip q vis) \<longleftrightarrow> set q \<subseteq> fV F \<and> fpol F = SkipDownstream"
| "pc_ids F i _ \<longleftrightarrow> True"

fun pc_status :: "job_pc \<Rightarrow> TaskStatus \<Rightarrow> bool" where
  "pc_status JPosted st \<longleftrightarrow> st = Running"
| "pc_status JMark st \<longleftrightarrow> isFailureLike st"
| "pc_status (JSkip q vis) st \<longleftrightarrow> isFailureLike st"
| "pc_status (JChildren cs) st \<longleftrightarrow> st = Success"
| "pc_status (JDec c cs) st \<longleftrightarrow> st = Success"
| "pc_status (JPush c cs) st \<longleftrightarrow> st = Success"
| "pc_status JDecrement st \<longleftrightarrow> st = Success \<or> isFailureLike st"
| "pc_status JNotify st \<longleftrightarrow> st = Success \<or> isFailureLike st"

definition inv_ids :: "flow \<Rightarrow> aflow \<Rightarrow> bool" where
  "inv_ids F a \<longleftrightarrow> set (a_queue a) \<subseteq> fV F
   \<and> (\<forall>i. a_hold a = HPopped i \<or> a_hold a = HStarted i \<longrightarrow> i \<in> fV F)
   \<and> (\<forall>i p. a_pc a i = Some p \<longrightarrow> i \<in> fV F \<and> pc_ids F i p)"

definition inv_st :: "flow \<Rightarrow> aflow \<Rightarrow> bool" where
  "inv_st F a \<longleftrightarrow> (\<forall>i p. a_pc a i = Some p \<longrightarrow> pc_status p (a_st a i))
   \<and> (\<forall>i \<in> fV F. a_st a i = Running \<longrightarrow> a_hold a = HStarted i \<or> a_pc a i = Some JPosted)
   \<and> (\<forall>i. a_hold a = HStarted i \<longrightarrow> a_st a i = Running)
   \<and> (\<forall>i \<in> fV F. named_status (a_st a i))"

definition inv_deg :: "flow \<Rightarrow> aflow \<Rightarrow> bool" where
  "inv_deg F a \<longleftrightarrow> (\<forall>y \<in> fV F. int (unconsumed F a y) \<le> a_deg a y
     \<and> (a_st a y \<noteq> Skipped \<longrightarrow> a_deg a y = int (unconsumed F a y)))"

definition inv_tok :: "flow \<Rightarrow> aflow \<Rightarrow> bool" where
  "inv_tok F a \<longleftrightarrow>
     (\<forall>y \<in> fV F. tok a y \<or> a_pc a y \<noteq> None \<or> a_st a y \<noteq> Pending \<and> a_st a y \<noteq> Skipped
        \<longrightarrow> a_deg a y = 0)
   \<and> (\<forall>y. tok a y \<longrightarrow> a_pc a y = None \<and> (a_st a y = Pending \<or> a_hold a = HStarted y))"

definition inv_once :: "aflow \<Rightarrow> bool" where
  "inv_once a \<longleftrightarrow> distinct (a_queue a)
   \<and> (\<forall>y. a_hold a = HPopped y \<or> a_hold a = HStarted y \<longrightarrow> y \<notin> set (a_queue a))
   \<and> (\<forall>x y cs. a_pc a x = Some (JPush y cs) \<longrightarrow>
        y \<notin> set (a_queue a) \<and> a_hold a \<noteq> HPopped y \<and> a_hold a \<noteq> HStarted y
      \<and> (\<forall>x' cs'. a_pc a x' = Some (JPush y cs') \<longrightarrow> x' = x))"

definition inv_bad :: "flow \<Rightarrow> aflow \<Rightarrow> bool" where
  "inv_bad F a \<longleftrightarrow> (\<forall>y \<in> fV F. a_st a y = Skipped \<longrightarrow> (\<exists>d \<in> set (fdeps F y). bad a d))
   \<and> (\<forall>x q vis. a_pc a x = Some (JSkip q vis) \<longrightarrow> (\<forall>c \<in> set q. \<exists>d \<in> set (fdeps F c). bad a d))"

definition inv :: "flow \<Rightarrow> aflow \<Rightarrow> bool" where
  "inv F a \<longleftrightarrow> inv_ids F a \<and> inv_st F a \<and> inv_deg F a \<and> inv_tok F a \<and> inv_once a \<and> inv_bad F a"

lemmas inv_parts = inv_def inv_ids_def inv_st_def inv_deg_def inv_tok_def inv_once_def inv_bad_def

subsection \<open>Consequences of the invariants\<close>

lemma flow_okD:
  assumes "flow_ok F"
  shows "finite (fV F)" "inj_on tid_value (fV F)" "acyclic (fedges F)"
    and "x \<in> fV F \<Longrightarrow> y \<in> set (fdown F x) \<Longrightarrow> y \<in> fV F"
    and "x \<in> fV F \<Longrightarrow> d \<in> set (fdeps F x) \<Longrightarrow> d \<in> fV F"
  using assms by (auto simp: flow_ok_def)

lemma flow_edge:
  assumes "flow_ok F" "x \<in> fV F" "y \<in> fV F"
  shows "y \<in> set (fdown F x) \<longleftrightarrow> x \<in> set (fdeps F y)"
proof -
  have "count_list (fdown F x) y = count_list (fdeps F y) x" using assms by (simp add: flow_ok_def)
  then show ?thesis using count_list_pos_iff [of "fdown F x" y] count_list_pos_iff [of "fdeps F y" x]
    by simp
qed

lemma failure_status_like [simp]: "isFailureLike (failure_status r)"
  by (simp add: isFailureLike_def failure_status_def)

lemma failure_like_not [simp]:
  "isFailureLike st \<Longrightarrow> st \<noteq> Success \<and> st \<noteq> Pending \<and> st \<noteq> Running \<and> st \<noteq> Skipped \<and> named_status st"
  by (auto simp: isFailureLike_def)

lemma rem_unfinished:
  assumes "inv_st F a" "a_st a d \<noteq> Success" shows "rem F a d = fdown F d"
proof (cases "a_pc a d")
  case (Some p)
  then have "pc_status p (a_st a d)" using assms by (auto simp: inv_st_def)
  with Some assms(2) show ?thesis by (cases p) (auto simp: rem_def)
qed (simp add: rem_def assms(2))

lemma bad_not_success: "bad a d \<Longrightarrow> a_st a d \<noteq> Success"
  by (auto simp: bad_def isFailureLike_def)

lemmas rem_bad = rem_unfinished [OF _ bad_not_success]

lemma rem_subset:
  assumes "inv_ids F a" shows "set (rem F a x) \<subseteq> set (fdown F x)"
proof (cases "a_pc a x")
  case (Some p)
  then have "pc_ids F x p" using assms by (auto simp: inv_ids_def)
  with Some show ?thesis by (cases p) (auto simp: rem_def)
qed (simp add: rem_def)

lemma unconsumed_pos:
  assumes "flow_ok F" "x \<in> fV F" "y \<in> set (rem F a x)"
  shows "1 \<le> unconsumed F a y"
proof -
  have "count_list (rem F a x) y \<le> unconsumed F a y"
    unfolding unconsumed_def using assms by (intro member_le_sum) (auto simp: flow_ok_def)
  with assms(3) show ?thesis using count_list_pos_iff [of "rem F a x" y] by linarith
qed

lemma deg_pos_rem:
  assumes "flow_ok F" "inv_deg F a" "x \<in> fV F" "y \<in> fV F" "y \<in> set (rem F a x)"
  shows "1 \<le> a_deg a y"
proof -
  have "int (unconsumed F a y) \<le> a_deg a y" using assms(2,4) by (simp add: inv_deg_def)
  with unconsumed_pos [OF assms(1,3,5)] show ?thesis by linarith
qed

lemma deg_pos_bad:
  assumes "flow_ok F" "inv_st F a" "inv_deg F a" "y \<in> fV F" "d \<in> set (fdeps F y)" "bad a d"
  shows "1 \<le> a_deg a y"
proof -
  have d: "d \<in> fV F" using flow_okD(5) [OF assms(1,4,5)] .
  then have "y \<in> set (rem F a d)" using flow_edge [OF assms(1) d assms(4)] assms rem_bad by metis
  with deg_pos_rem [OF assms(1,3) d assms(4)] show ?thesis .
qed

lemma deg_zero_deps:
  assumes "flow_ok F" "inv F a" "y \<in> fV F" "a_deg a y = 0" "d \<in> set (fdeps F y)"
  shows "a_st a d = Success"
proof (rule ccontr)
  assume n: "a_st a d \<noteq> Success"
  have d: "d \<in> fV F" using flow_okD(5) [OF assms(1,3,5)] .
  have "rem F a d = fdown F d" using rem_unfinished n assms(2) by (simp add: inv_def)
  then have "y \<in> set (rem F a d)" using flow_edge [OF assms(1) d assms(3)] assms(5) by simp
  from deg_pos_rem [OF assms(1) _ d assms(3) this] assms(2,4) show False by (simp add: inv_def)
qed

text \<open>A node whose counter is positive has not been released.\<close>

lemma not_released:
  assumes "inv F a" "y \<in> fV F" "1 \<le> a_deg a y"
  shows "\<not> tok a y" "a_pc a y = None" "a_st a y = Pending \<or> a_st a y = Skipped"
  using assms by (force simp: inv_def inv_tok_def)+

lemma skip_head:
  assumes "flow_ok F" "inv F a" "a_pc a x = Some (JSkip (c # q) vis)"
  shows "c \<in> fV F" "1 \<le> a_deg a c" "\<exists>d \<in> set (fdeps F c). bad a d" "\<not> tok a c" "a_pc a c = None"
    "a_st a c = Pending \<or> a_st a c = Skipped"
proof -
  show c: "c \<in> fV F" using assms by (force simp: inv_def inv_ids_def)
  show b: "\<exists>d \<in> set (fdeps F c). bad a d" using assms by (force simp: inv_def inv_bad_def)
  then show pos: "1 \<le> a_deg a c" using deg_pos_bad [OF assms(1) _ _ c] assms(2) by (auto simp: inv_def)
  show "\<not> tok a c" "a_pc a c = None" "a_st a c = Pending \<or> a_st a c = Skipped"
    using not_released [OF assms(2) c pos] by auto
qed

lemma dec_head:
  assumes "flow_ok F" "inv F a" "a_pc a x = Some (JDec c cs)"
  shows "c \<in> fV F" "x \<in> fV F" "1 \<le> a_deg a c" "\<not> tok a c" "a_pc a c = None"
    "a_st a c = Pending \<or> a_st a c = Skipped"
proof -
  show x: "x \<in> fV F" using assms by (auto simp: inv_def inv_ids_def)
  have "c \<in> set (fdown F x)" using assms by (force simp: inv_def inv_ids_def)
  with x show c: "c \<in> fV F" using flow_okD(4) [OF assms(1)] by blast
  have "c \<in> set (rem F a x)" using assms(3) by (simp add: rem_def)
  then show pos: "1 \<le> a_deg a c" using deg_pos_rem [OF assms(1) _ x c] assms(2) by (simp add: inv_def)
  show "\<not> tok a c" "a_pc a c = None" "a_st a c = Pending \<or> a_st a c = Skipped"
    using not_released [OF assms(2) c pos] by auto
qed

lemma hold_popped:
  assumes "inv F a" "a_hold a = HPopped i"
  shows "i \<in> fV F" "a_st a i = Pending" "a_pc a i = None" "a_deg a i = 0" "tok a i"
  using assms by (auto simp: inv_def inv_ids_def inv_tok_def tok_def)

lemma hold_started:
  assumes "inv F a" "a_hold a = HStarted i"
  shows "i \<in> fV F" "a_st a i = Running" "a_pc a i = None" "a_deg a i = 0" "tok a i"
  using assms by (auto simp: inv_def inv_ids_def inv_st_def inv_tok_def tok_def)

lemma visit_fold:
  assumes "foldl visit (q, vis) cs = (q', vis')" and "inj_on tid_value V" "set q \<union> set cs \<subseteq> V"
  shows "set q \<subseteq> set q'" "set q' \<subseteq> set q \<union> set cs" "set vis' = set vis \<union> tid_value ` set cs"
    "\<forall>c \<in> set cs. tid_value c \<in> set vis \<or> c \<in> set q'"
proof -
  have "set q \<subseteq> set q' \<and> set q' \<subseteq> set q \<union> set cs \<and> set vis' = set vis \<union> tid_value ` set cs
    \<and> (\<forall>c \<in> set cs. tid_value c \<in> set vis \<or> c \<in> set q')"
    using assms
  proof (induction cs arbitrary: q vis)
    case (Cons c cs)
    show ?case
    proof (cases "tid_value c \<in> set vis")
      case True
      with Cons.prems Cons.IH [of q vis] show ?thesis by (auto simp: visit_def)
    next
      case False
      with Cons.prems have "foldl visit (q @ [c], tid_value c # vis) cs = (q', vis')"
        by (simp add: visit_def)
      from Cons.IH [OF this] Cons.prems(2,3)
      have IH: "set (q @ [c]) \<subseteq> set q'" "set q' \<subseteq> set (q @ [c]) \<union> set cs"
        "set vis' = set (tid_value c # vis) \<union> tid_value ` set cs"
        "\<forall>x \<in> set cs. tid_value x \<in> set (tid_value c # vis) \<or> x \<in> set q'" by auto
      have "tid_value x = tid_value c \<longrightarrow> x = c" if "x \<in> set cs" for x
        using Cons.prems(2,3) that by (auto dest: inj_onD)
      with IH show ?thesis by auto
    qed
  qed simp
  then show "set q \<subseteq> set q'" "set q' \<subseteq> set q \<union> set cs" "set vis' = set vis \<union> tid_value ` set cs"
    "\<forall>c \<in> set cs. tid_value c \<in> set vis \<or> c \<in> set q'" by auto
qed

subsection \<open>Preservation\<close>

lemma inv_ids_step:
  assumes "flow_ok F" "inv F a" "astep F a a'"
  shows "inv_ids F a'"
  using assms(3)
proof cases
  case (a_mark i)
  then have i: "i \<in> fV F" using assms(2) by (auto simp: inv_def inv_ids_def)
  have "pc_ids F i (a_mark_pc F i)"
  proof (cases "fpol F")
    case SkipDownstream
    obtain q vis where v: "foldl visit ([], []) (fdown F i) = (q, vis)" by fastforce
    from visit_fold [OF v flow_okD(2) [OF assms(1)]] flow_okD(4) [OF assms(1) i]
    have "set q \<subseteq> fV F" by auto
    then show ?thesis using SkipDownstream v by (simp add: a_mark_pc_def)
  qed (simp add: a_mark_pc_def)
  with a_mark assms(2) show ?thesis by (auto simp: inv_def inv_ids_def)
next
  case (a_skip i c q vis q' vis')
  have c: "c \<in> fV F" and q: "set q \<subseteq> fV F" "i \<in> fV F" "fpol F = SkipDownstream"
    using a_skip(2) assms(2) by (force simp: inv_def inv_ids_def)+
  have sub: "set q \<union> set (fdown F c) \<subseteq> fV F" using q flow_okD(4) [OF assms(1) c] by auto
  from visit_fold(2) [OF a_skip(3) flow_okD(2) [OF assms(1)] sub] sub have "set q' \<subseteq> fV F" by auto
  with a_skip(1) q assms(2) show ?thesis by (auto simp: inv_def inv_ids_def)
next
  case (a_push i c cs)
  then have "i \<in> fV F" "c \<in> set (fdown F i)" "set cs \<subseteq> set (fdown F i)"
    using assms(2) by (force simp: inv_def inv_ids_def)+
  moreover from this(1,2) have "c \<in> fV F" using flow_okD(4) [OF assms(1)] by blast
  ultimately show ?thesis using a_push assms(2) by (auto simp: inv_def inv_ids_def)
qed (use assms(2) in \<open>force simp: inv_def inv_ids_def\<close>)+

text \<open>Only a node that no job owns and that is not Success changes status, except by its own job.\<close>

lemma inv_st_step:
  assumes "flow_ok F" "inv F a" "astep F a a'"
  shows "inv_st F a'"
  using assms(3)
proof cases
  case (a_skip i c q vis q' vis')
  from skip_head [OF assms(1,2) a_skip(2)] assms(2) a_skip(1,2) show ?thesis
    by (force simp: inv_def inv_st_def tok_def)
next
  case (a_start i)
  from hold_popped [OF assms(2) a_start(2)] assms(2) a_start(1,2) show ?thesis
    by (force simp: inv_def inv_st_def)
next
  case (a_post i)
  from hold_started [OF assms(2) a_post(2)] assms(2) a_post(1,2) show ?thesis
    by (force simp: inv_def inv_st_def)
next
  case (a_mark i)
  then have "pc_status (a_mark_pc F i) (a_st a i)"
    using assms(2) by (force simp: inv_def inv_st_def a_mark_pc_def split: FailPolicy.split prod.split)
  with a_mark assms(2) show ?thesis by (force simp: inv_def inv_st_def)
next
  case (a_run_ok i)
  then have "a_hold a \<noteq> HStarted i" using hold_started(3) [OF assms(2)] by force
  with a_run_ok assms(2) show ?thesis by (force simp: inv_def inv_st_def)
next
  case (a_run_fail i r)
  then have "a_hold a \<noteq> HStarted i" using hold_started(3) [OF assms(2)] by force
  with a_run_fail assms(2) failure_like_not [OF failure_status_like [of r]] show ?thesis
    by (force simp: inv_def inv_st_def)
qed (use assms(2) in \<open>force simp: inv_def inv_st_def\<close>)+

text \<open>How a step changes the unconsumed edges: not at all, or it consumes one.\<close>

lemma rem_step:
  assumes "flow_ok F" "inv F a" "astep F a a'"
  shows "(\<forall>x. rem F a' x = rem F a x) \<and> a_deg a' = a_deg a
         \<and> (\<forall>y. a_st a y = Skipped \<longrightarrow> a_st a' y = Skipped)
    \<or> (\<exists>x c cs. x \<in> fV F \<and> rem F a x = c # cs \<and> (\<forall>y. rem F a' y = (if y = x then cs else rem F a y))
         \<and> a_st a' = a_st a
         \<and> (a_deg a' = a_deg a \<and> a_st a c = Skipped \<or> a_deg a' = (a_deg a)(c := a_deg a c - 1)))"
  using assms(3)
proof cases
  case (a_skip i c q vis q' vis')
  have "a_pc a c = None" "a_st a c \<noteq> Success"
    using skip_head(5,6) [OF assms(1,2) a_skip(2)] by auto
  moreover have "a_pc a i = Some (JSkip (c # q) vis)" "isFailureLike (a_st a i)"
    using a_skip(2) assms(2) by (force simp: inv_def inv_st_def)+
  ultimately have "rem F a' x = rem F a x" for x
    using failure_like_not [of "a_st a i"] unfolding a_skip(1) by (simp add: rem_def)
  then show ?thesis unfolding a_skip(1) by simp
next
  case (a_start i)
  from hold_popped [OF assms(2) a_start(2)] a_start show ?thesis
    by (auto simp: rem_def split: option.split)
next
  case (a_post i)
  from hold_started [OF assms(2) a_post(2)] a_post show ?thesis
    by (auto simp: rem_def split: option.split)
next
  case (a_mark i)
  then have "isFailureLike (a_st a i)" using assms(2) by (force simp: inv_def inv_st_def)
  with a_mark show ?thesis
    by (auto simp: rem_def a_mark_pc_def split: option.split FailPolicy.split prod.split)
next
  case (a_run_ok i)
  then have "a_st a i = Running" using assms(2) by (force simp: inv_def inv_st_def)
  with a_run_ok show ?thesis by (auto simp: rem_def)
next
  case (a_run_fail i r)
  then have "a_st a i = Running" using assms(2) by (force simp: inv_def inv_st_def)
  with a_run_fail failure_like_not [OF failure_status_like [of r]] show ?thesis by (auto simp: rem_def)
next
  case (a_child_closed i c cs)
  then have i: "i \<in> fV F" "c \<in> set (fdown F i)" "rem F a i = c # cs"
    using assms(2) by (force simp: inv_def inv_ids_def rem_def)+
  have c: "c \<in> fV F" using flow_okD(4) [OF assms(1) i(1,2)] .
  from i(3) have "c \<in> set (rem F a i)" by simp
  from deg_pos_rem [OF assms(1) _ i(1) c this] not_released(3) [OF assms(2) c] assms(2)
  have "a_st a c = Pending \<or> a_st a c = Skipped" by (simp add: inv_def)
  with a_child_closed(3) have "a_st a c = Skipped" by (auto simp: child_closed_def)
  with a_child_closed i show ?thesis
    by (intro disjI2 exI [of _ i] exI [of _ c] exI [of _ cs]) (auto simp: rem_def)
next
  case (a_dec i c cs)
  from dec_head(2) [OF assms(1,2) a_dec(2)] a_dec show ?thesis
    by (intro disjI2 exI [of _ i] exI [of _ c] exI [of _ cs]) (auto simp: rem_def)
next
  case (a_child_nil i)
  then have "a_st a i = Success" using assms(2) by (force simp: inv_def inv_st_def)
  with a_child_nil show ?thesis by (auto simp: rem_def)
next
  case (a_skip_nil i vis)
  then have "isFailureLike (a_st a i)" using assms(2) by (force simp: inv_def inv_st_def)
  with a_skip_nil show ?thesis by (auto simp: rem_def)
qed (auto simp: rem_def)

lemma unconsumed_consume:
  assumes "finite (fV F)" "x \<in> fV F" "rem F a x = c # cs"
    and "\<forall>y. rem F a' y = (if y = x then cs else rem F a y)"
  shows "unconsumed F a' y + (if y = c then 1 else 0) = unconsumed F a y"
proof -
  have "unconsumed F a' y + count_list (rem F a x) y = unconsumed F a y + count_list (rem F a' x) y"
    unfolding unconsumed_def by (rule sum_change_one [OF assms(1,2)]) (simp add: assms(4))
  then show ?thesis using assms(3,4) by (auto split: if_splits)
qed

lemma inv_deg_step:
  assumes "flow_ok F" "inv F a" "astep F a a'"
  shows "inv_deg F a'"
proof -
  have old: "int (unconsumed F a y) \<le> a_deg a y"
    "a_st a y \<noteq> Skipped \<Longrightarrow> a_deg a y = int (unconsumed F a y)" if "y \<in> fV F" for y
    using assms(2) that by (auto simp: inv_def inv_deg_def)
  from rem_step [OF assms] show ?thesis
  proof (elim disjE exE conjE)
    assume "\<forall>x. rem F a' x = rem F a x"
    then have "unconsumed F a' y = unconsumed F a y" for y by (simp add: unconsumed_def)
    moreover assume "a_deg a' = a_deg a" "\<forall>y. a_st a y = Skipped \<longrightarrow> a_st a' y = Skipped"
    ultimately show ?thesis using old by (auto simp: inv_deg_def)
  next
    fix x c cs
    assume *: "x \<in> fV F" "rem F a x = c # cs" "\<forall>y. rem F a' y = (if y = x then cs else rem F a y)"
      and st: "a_st a' = a_st a"
    note u = unconsumed_consume [OF flow_okD(1) [OF assms(1)] *]
    show ?thesis if "a_deg a' = a_deg a" "a_st a c = Skipped"
      unfolding inv_deg_def
    proof (intro ballI conjI impI)
      fix y assume y: "y \<in> fV F"
      from u [of y] old(1) [OF y] that(1) show "int (unconsumed F a' y) \<le> a_deg a' y"
        by (simp split: if_splits)
      assume "a_st a' y \<noteq> Skipped"
      then have "y \<noteq> c" using that(2) st by auto
      then show "a_deg a' y = int (unconsumed F a' y)"
        using u [of y] old(2) [OF y] that(1) \<open>a_st a' y \<noteq> Skipped\<close> st by simp
    qed
    show ?thesis if "a_deg a' = (a_deg a)(c := a_deg a c - 1)"
      unfolding inv_deg_def
    proof (intro ballI conjI impI)
      fix y assume y: "y \<in> fV F"
      from u [of y] old(1) [OF y] that show "int (unconsumed F a' y) \<le> a_deg a' y"
        by (simp split: if_splits)
      assume "a_st a' y \<noteq> Skipped"
      with u [of y] old(2) [OF y] that st show "a_deg a' y = int (unconsumed F a' y)"
        by (simp split: if_splits)
    qed
  qed
qed

lemma bad_mono:
  assumes "flow_ok F" "inv F a" "astep F a a'" "bad a d"
  shows "bad a' d"
proof -
  have own: "a_st a i = Running" if "a_pc a i = Some JPosted" for i
    using that assms(2) by (force simp: inv_def inv_st_def)
  have nb: "\<not> bad a i" if "a_st a i = Running \<or> a_st a i = Pending" for i
    using that by (auto simp: bad_def isFailureLike_def)
  from assms(3) show ?thesis
  proof cases
    case (a_start i)
    then have "d \<noteq> i" using hold_popped(2) [OF assms(2)] nb assms(4) by blast
    with a_start assms(4) show ?thesis by (simp add: bad_def)
  next
    case (a_run_ok i)
    then have "d \<noteq> i" using own nb assms(4) by blast
    with a_run_ok assms(4) show ?thesis by (simp add: bad_def)
  qed (use assms(4) in \<open>auto simp: bad_def\<close>)
qed

lemma inv_bad_step:
  assumes "flow_ok F" "inv F a" "astep F a a'"
  shows "inv_bad F a'"
proof -
  have mono: "\<exists>d \<in> set (fdeps F c). bad a' d" if "\<exists>d \<in> set (fdeps F c). bad a d" for c
    using that bad_mono [OF assms] by blast
  have sk: "\<exists>d \<in> set (fdeps F y). bad a d" if "y \<in> fV F" "a_st a y = Skipped" for y
    using assms(2) that by (simp add: inv_def inv_bad_def)
  have qs: "\<exists>d \<in> set (fdeps F c). bad a d" if "a_pc a x = Some (JSkip q vis)" "c \<in> set q" for x q vis c
    using assms(2) that by (force simp: inv_def inv_bad_def)
  have child: "\<exists>d \<in> set (fdeps F c). bad a' d" if "bad a' y" "y \<in> fV F" "c \<in> set (fdown F y)" for y c
    using that flow_edge [OF assms(1)] flow_okD(4) [OF assms(1)] by blast
  from assms(3) show ?thesis
  proof cases
    case (a_skip i c q vis q' vis')
    note h = skip_head [OF assms(1,2) a_skip(2)]
    have sub: "set q \<union> set (fdown F c) \<subseteq> fV F"
      using a_skip(2) assms(2) flow_okD(4) [OF assms(1) h(1)] by (force simp: inv_def inv_ids_def)
    have "bad a' c" using a_skip(1) by (simp add: bad_def)
    then have q': "\<exists>d \<in> set (fdeps F x). bad a' d" if "x \<in> set q'" for x
      using visit_fold(2) [OF a_skip(3) flow_okD(2) [OF assms(1)] sub] that child [OF _ h(1)]
        mono [OF qs [OF a_skip(2)]] by auto
    show ?thesis
      unfolding inv_bad_def
    proof (intro conjI ballI allI impI)
      fix y assume "y \<in> fV F" "a_st a' y = Skipped"
      then show "\<exists>d \<in> set (fdeps F y). bad a' d"
        using mono [OF h(3)] mono [OF sk] a_skip(1) by (cases "y = c") auto
    next
      fix x p v y assume "a_pc a' x = Some (JSkip p v)" "y \<in> set p"
      then show "\<exists>d \<in> set (fdeps F y). bad a' d"
        using q' mono [OF qs [of x p v y]] a_skip(1) by (cases "x = i") auto
    qed
  next
    case (a_mark i)
    have i: "i \<in> fV F" "bad a' i"
      using a_mark assms(2) by (force simp: inv_def inv_ids_def inv_st_def bad_def)+
    have q': "\<exists>d \<in> set (fdeps F x). bad a' d" if "a_mark_pc F i = JSkip q vis" "x \<in> set q" for q vis x
    proof -
      have "foldl visit ([], []) (fdown F i) = (q, vis)"
        using that(1) by (auto simp: a_mark_pc_def split: FailPolicy.splits prod.splits)
      from visit_fold(2) [OF this flow_okD(2) [OF assms(1)]] flow_okD(4) [OF assms(1) i(1)] that(2)
      have "x \<in> set (fdown F i)" by auto
      with child [OF i(2,1)] show ?thesis .
    qed
    show ?thesis
      unfolding inv_bad_def
    proof (intro conjI ballI allI impI)
      fix y assume "y \<in> fV F" "a_st a' y = Skipped"
      then show "\<exists>d \<in> set (fdeps F y). bad a' d" using mono [OF sk] a_mark(1) by auto
    next
      fix x p v y assume "a_pc a' x = Some (JSkip p v)" "y \<in> set p"
      then show "\<exists>d \<in> set (fdeps F y). bad a' d"
        using q' mono [OF qs [of x p v y]] a_mark(1) by (cases "x = i") auto
    qed
  next
    case (a_run_fail i r)
    have "a_st a' y = Skipped \<Longrightarrow> a_st a y = Skipped" for y
      using a_run_fail(1) failure_like_not [OF failure_status_like [of r]] by (auto split: if_splits)
    moreover have "a_pc a' x = Some (JSkip p v) \<Longrightarrow> a_pc a x = Some (JSkip p v)" for x p v
      using a_run_fail(1) by (auto split: if_splits)
    ultimately show ?thesis unfolding inv_bad_def using mono sk qs by blast
  qed (unfold inv_bad_def, use mono sk qs in \<open>(auto split: if_splits)\<close>)
qed

lemma tok_in_flow:
  assumes "flow_ok F" "inv F a" "tok a y" shows "y \<in> fV F"
proof -
  have "y \<in> fV F" if p: "a_pc a x = Some (JPush y cs)" for x cs
  proof -
    have "x \<in> fV F" "y \<in> set (fdown F x)" using p assms(2) by (force simp: inv_def inv_ids_def)+
    then show ?thesis using flow_okD(4) [OF assms(1)] by blast
  qed
  with assms(2,3) show ?thesis by (auto simp: inv_def inv_ids_def tok_def)
qed

lemma inv_tokD:
  assumes "inv F a"
  shows "y \<in> fV F \<Longrightarrow> tok a y \<Longrightarrow> a_deg a y = 0" "y \<in> fV F \<Longrightarrow> a_pc a y \<noteq> None \<Longrightarrow> a_deg a y = 0"
    and "y \<in> fV F \<Longrightarrow> a_st a y \<noteq> Pending \<Longrightarrow> a_st a y \<noteq> Skipped \<Longrightarrow> a_deg a y = 0"
    and "tok a y \<Longrightarrow> a_pc a y = None" "tok a y \<Longrightarrow> a_hold a \<noteq> HStarted y \<Longrightarrow> a_st a y = Pending"
  using assms by (auto simp: inv_def inv_tok_def)

text \<open>The nodes holding a token after a step held one before, except a node just counted down to 0.\<close>

lemma tok_step:
  assumes "flow_ok F" "inv F a" "astep F a a'" "tok a' y"
  shows "tok a y \<and> a_hold a \<noteq> HStarted y \<and> a_st a y = Pending
       \<or> a_hold a = HStarted y \<and> a_hold a' = HStarted y
       \<or> (\<exists>x cs. a_pc a x = Some (JDec y cs) \<and> a_deg a y = 1 \<and> a_deg a' = (a_deg a)(y := 0)
            \<and> a_st a' = a_st a \<and> a_pc a' = (a_pc a)(x \<mapsto> JPush y cs))"
proof -
  have once: "a_hold a = HStarted y \<Longrightarrow> y \<notin> set (a_queue a) \<and> (\<forall>x cs. a_pc a x \<noteq> Some (JPush y cs))"
    using assms(2) by (auto simp: inv_def inv_once_def)
  have "tok a y \<and> (a_hold a = HStarted y \<longrightarrow> a_hold a' = HStarted y)
      \<or> (\<exists>x cs. a_pc a x = Some (JDec y cs) \<and> a_deg a y = 1 \<and> a_deg a' = (a_deg a)(y := 0)
            \<and> a_st a' = a_st a \<and> a_pc a' = (a_pc a)(x \<mapsto> JPush y cs))"
    using assms(3)
  proof cases
    case (a_post i)
    with assms(4) once show ?thesis by (auto simp: tok_def split: if_splits)
  next
    case (a_dec i c cs)
    show ?thesis
    proof (cases "tok a y")
      case False
      with a_dec assms(4) have "a_deg a c = 1" "y = c" by (auto simp: tok_def split: if_splits)
      with a_dec show ?thesis by auto
    qed (use a_dec in simp)
  next
    case (a_mark i)
    have "a_mark_pc F i \<noteq> JPush y cs" for cs
      by (simp add: a_mark_pc_def split: FailPolicy.split prod.split)
    with a_mark assms(4) show ?thesis by (auto simp: tok_def split: if_splits)
  qed (use assms(4) in \<open>auto simp: tok_def split: if_splits\<close>)
  with inv_tokD(5) [OF assms(2)] show ?thesis by blast
qed

lemma inv_tok_step:
  assumes "flow_ok F" "inv F a" "astep F a a'"
  shows "inv_tok F a'"
proof -
  note st' = inv_st_step [OF assms] and deg' = inv_deg_step [OF assms] and bad' = inv_bad_step [OF assms]
  have skipped': "1 \<le> a_deg a' y" if "y \<in> fV F" "a_st a' y = Skipped" for y
    using deg_pos_bad [OF assms(1) st' deg' that(1)] bad' that by (auto simp: inv_bad_def)
  have deg0: "a_deg a' y = 0" if "a_deg a y = 0" "y \<in> fV F" for y
    using assms(3)
  proof cases
    case (a_dec i c cs)
    then have "y \<noteq> c" using dec_head(3) [OF assms(1,2)] that by force
    with a_dec that show ?thesis by simp
  qed (use that in auto)
  have tok': "a_deg a' y = 0 \<and> a_pc a' y = None \<and> (a_st a' y = Pending \<or> a_hold a' = HStarted y)"
    if t: "tok a' y" for y
    using tok_step [OF assms t]
  proof (elim disjE exE conjE)
    assume old: "tok a y" "a_hold a \<noteq> HStarted y" "a_st a y = Pending"
    have y: "y \<in> fV F" using tok_in_flow [OF assms(1,2) old(1)] .
    have d: "a_deg a y = 0" "a_pc a y = None" using inv_tokD(1,4) [OF assms(2)] old y by blast+
    have "a_pc a' y = None \<and> (a_st a' y = Pending \<or> a_hold a' = HStarted y)"
      using assms(3)
    proof cases
      case (a_skip i c q vis q' vis')
      then have "y \<noteq> c" using skip_head(2) [OF assms(1,2)] d by force
      with a_skip old d show ?thesis by auto
    qed (use old d in \<open>auto split: if_splits\<close>)
    with deg0 [OF d(1) y] show ?thesis by simp
  next
    assume h: "a_hold a = HStarted y" "a_hold a' = HStarted y"
    from hold_started [OF assms(2) h(1)] deg0 have "a_deg a' y = 0" "a_pc a y = None" by auto
    moreover have "a_pc a' y = None" using assms(3) h \<open>a_pc a y = None\<close> by cases (auto split: if_splits)
    ultimately show ?thesis using h by simp
  next
    fix x cs
    assume *: "a_pc a x = Some (JDec y cs)" "a_deg a' = (a_deg a)(y := 0)" "a_st a' = a_st a"
      "a_pc a' = (a_pc a)(x \<mapsto> JPush y cs)"
    note h = dec_head [OF assms(1,2) *(1)]
    have "a_st a y \<noteq> Skipped" using skipped' [OF h(1)] * by auto
    with h * show ?thesis by auto
  qed
  have busy: "a_deg a' y = 0" if y: "y \<in> fV F" "a_pc a' y \<noteq> None" for y
  proof (cases "a_pc a y")
    case None
    with assms(3) y(2) have "a_hold a = HStarted y" by cases (auto split: if_splits)
    then show ?thesis using hold_started [OF assms(2)] deg0 by blast
  qed (use inv_tokD(2) [OF assms(2) y(1)] deg0 y in auto)
  have done': "a_deg a' y = 0" if y: "y \<in> fV F" "a_st a' y \<noteq> Pending" "a_st a' y \<noteq> Skipped" for y
  proof (cases "a_st a y = Pending \<or> a_st a y = Skipped")
    case True
    have "a_hold a = HPopped y \<or> a_pc a y \<noteq> None"
      using assms(3) True y by cases (auto split: if_splits)
    then show ?thesis
      using hold_popped(4) [OF assms(2)] inv_tokD(2) [OF assms(2) y(1)] deg0 [OF _ y(1)] by blast
  qed (use inv_tokD(3) [OF assms(2) y(1)] deg0 [OF _ y(1)] in blast)
  from tok' busy done' show ?thesis unfolding inv_tok_def by blast
qed

lemma inv_once_step:
  assumes "flow_ok F" "inv F a" "astep F a a'"
  shows "inv_once a'"
proof -
  have o: "inv_once a" using assms(2) by (simp add: inv_def)
  from assms(3) show ?thesis
  proof cases
    case (a_dec i c cs)
    have "\<not> tok a c" using dec_head(4) [OF assms(1,2) a_dec(2)] .
    with a_dec o show ?thesis by (auto simp: inv_once_def tok_def)
  next
    case (a_mark i)
    have "a_mark_pc F i \<noteq> JPush y cs" for y cs
      by (simp add: a_mark_pc_def split: FailPolicy.split prod.split)
    with a_mark o show ?thesis by (auto simp: inv_once_def)
  qed (use o in \<open>auto simp: inv_once_def\<close>)
qed

theorem inv_step: "flow_ok F \<Longrightarrow> inv F a \<Longrightarrow> astep F a a' \<Longrightarrow> inv F a'"
  by (simp add: inv_def [of F a'] inv_ids_step inv_st_step inv_deg_step inv_tok_step inv_once_step
      inv_bad_step)

lemma inv_initial:
  assumes "flow_ok F" "a_initial F a"
  shows "inv F a"
proof -
  have rem: "rem F a x = fdown F x" if "x \<in> fV F" for x
    using assms(2) that by (simp add: a_initial_def rem_def)
  have "unconsumed F a y = length (fdeps F y)" if y: "y \<in> fV F" for y
  proof -
    have "unconsumed F a y = (\<Sum>x \<in> fV F. count_list (fdeps F y) x)"
      unfolding unconsumed_def using assms(1) y by (intro sum.cong) (auto simp: rem flow_ok_def)
    also have "\<dots> = length (fdeps F y)"
      using assms(1) y by (intro sum_count_set) (auto simp: flow_ok_def)
    finally show ?thesis .
  qed
  with assms(2) have "inv_deg F a" by (simp add: inv_deg_def a_initial_def)
  with assms(2) show ?thesis
    by (auto simp: inv_def a_initial_def inv_ids_def inv_st_def inv_tok_def tok_def inv_once_def inv_bad_def)
qed

end
