(* ===== verification/Dag_Outcome.thy ===== *)
theory Dag_Outcome
  imports Dag_Dataflow
begin

text \<open>
  What the dataflow machine has computed when nothing is left to do: the recorded results, the
  failure flag, and the closure of the skip.  The statuses at the end are the unique solution of
  the equation in \<open>outcome\<close>.
\<close>

definition marked :: "aflow \<Rightarrow> TaskId \<Rightarrow> bool" where
  "marked a y \<longleftrightarrow> (\<exists>r. a_res a y = Some r \<and> isFailureLike r) \<and> a_pc a y \<noteq> Some JMark"

definition to_skip :: "aflow \<Rightarrow> TaskId \<Rightarrow> bool" where
  "to_skip a c \<longleftrightarrow> (\<exists>x q vis. a_pc a x = Some (JSkip q vis) \<and> c \<in> set q)"

definition res_fits :: "TaskStatus option \<Rightarrow> TaskStatus \<Rightarrow> bool" where
  "res_fits ro st \<longleftrightarrow>
     (if st = Pending \<or> st = Running then ro = None
      else if st = Success then ro = Some Success
      else if st = Skipped then ro = Some Skipped
      else \<exists>r. ro = Some r \<and> r \<noteq> Success \<and> st = failure_status r)"

definition inv_res :: "flow \<Rightarrow> aflow \<Rightarrow> bool" where
  "inv_res F a \<longleftrightarrow> (\<forall>y \<in> fV F. res_fits (a_res a y) (a_st a y))
   \<and> (\<forall>i. a_pc a i = Some JMark \<longrightarrow> (\<exists>r. a_res a i = Some r \<and> isFailureLike r))
   \<and> (a_failed a \<longleftrightarrow> (\<exists>y \<in> fV F. marked a y))"

definition inv_skip :: "flow \<Rightarrow> aflow \<Rightarrow> bool" where
  "inv_skip F a \<longleftrightarrow>
     (fpol F = SkipDownstream \<longrightarrow> (\<forall>y \<in> fV F. a_st a y = Skipped \<or> marked a y \<longrightarrow>
        (\<forall>c \<in> set (fdown F y). a_st a c = Skipped \<or> to_skip a c)))
   \<and> (\<forall>x q vis. a_pc a x = Some (JSkip q vis) \<longrightarrow>
        (\<forall>c \<in> fV F. tid_value c \<in> set vis \<longrightarrow> a_st a c = Skipped \<or> c \<in> set q))
   \<and> (fpol F = FailFast \<longrightarrow> (\<forall>y \<in> fV F. a_st a y \<noteq> Skipped))"

definition inv_live :: "flow \<Rightarrow> aflow \<Rightarrow> bool" where
  "inv_live F a \<longleftrightarrow> (\<forall>y \<in> fV F. a_st a y = Pending \<and> a_deg a y = 0 \<and> \<not> tid_empty y \<longrightarrow>
     tok a y \<or> fpol F = FailFast \<and> a_failed a)"

definition inv2 :: "flow \<Rightarrow> aflow \<Rightarrow> bool" where
  "inv2 F a \<longleftrightarrow> inv F a \<and> inv_res F a \<and> inv_skip F a \<and> inv_live F a"

lemma res_fits_simps [simp]:
  "res_fits ro Pending \<longleftrightarrow> ro = None" "res_fits ro Running \<longleftrightarrow> ro = None"
  "res_fits ro Success \<longleftrightarrow> ro = Some Success" "res_fits ro Skipped \<longleftrightarrow> ro = Some Skipped"
  by (simp_all add: res_fits_def)

lemma res_fits_failure [simp]: "r \<noteq> Success \<Longrightarrow> res_fits (Some r) (failure_status r)"
  using failure_like_not [OF failure_status_like [of r]] by (auto simp: res_fits_def)

lemma not_failure_like [simp]:
  "\<not> isFailureLike Skipped" "\<not> isFailureLike Success" "\<not> isFailureLike Pending" "\<not> isFailureLike Running"
  by (simp_all add: isFailureLike_def)

lemma inv_res_frame:
  assumes "inv_res F a" "a_st a' = a_st a" "a_res a' = a_res a" "a_failed a' = a_failed a"
    and "\<And>y. a_pc a' y = Some JMark \<longleftrightarrow> a_pc a y = Some JMark"
  shows "inv_res F a'"
  using assms by (simp add: inv_res_def marked_def)

lemma inv_res_step:
  assumes "flow_ok F" "inv F a" "inv_res F a" "astep F a a'"
  shows "inv_res F a'"
proof -
  have own: "a_st a i = Running \<and> i \<in> fV F" if "a_pc a i = Some JPosted" for i
    using that assms(2) by (force simp: inv_def inv_st_def inv_ids_def)
  have old: "res_fits (a_res a y) (a_st a y)" if "y \<in> fV F" for y
    using assms(3) that by (simp add: inv_res_def)
  have jm: "\<exists>r. a_res a i = Some r \<and> isFailureLike r" if "a_pc a i = Some JMark" for i
    using assms(3) that by (simp add: inv_res_def)
  have fl: "a_failed a \<longleftrightarrow> (\<exists>y \<in> fV F. marked a y)" using assms(3) by (simp add: inv_res_def)
  from assms(4) show ?thesis
  proof cases
    case (a_skip i c q vis q' vis')
    note h = skip_head [OF assms(1,2) a_skip(2)]
    have "marked a' y \<longleftrightarrow> marked a y" if "y \<in> fV F" for y
    proof (cases "y = c")
      case True
      have "\<not> isFailureLike r" if "a_res a c = Some r" for r using old [OF h(1)] h(6) that by auto
      with True a_skip(1) show ?thesis by (auto simp: marked_def)
    next
      case False
      with a_skip show ?thesis by (auto simp: marked_def)
    qed
    then show ?thesis using a_skip old jm fl h(5) by (auto simp: inv_res_def)
  next
    case (a_start i)
    then show ?thesis using hold_popped(2) [OF assms(2) a_start(2)] old jm fl
      by (fastforce simp: inv_res_def marked_def)
  next
    case (a_post i)
    then show ?thesis using hold_started(3) [OF assms(2) a_post(2)] old jm fl
      by (fastforce simp: inv_res_def marked_def)
  next
    case (a_run_ok i)
    have "marked a' y \<longleftrightarrow> marked a y" if "y \<in> fV F" for y
      using a_run_ok own [OF a_run_ok(2)] old [OF that] by (auto simp: marked_def)
    then show ?thesis using a_run_ok old jm fl by (auto simp: inv_res_def)
  next
    case (a_run_fail i r)
    have "marked a' y \<longleftrightarrow> marked a y" if "y \<in> fV F" for y
      using a_run_fail own [OF a_run_fail(2)] old [OF that] by (auto simp: marked_def)
    then show ?thesis using a_run_fail old jm fl by (auto simp: inv_res_def)
  next
    case (a_mark i)
    have "i \<in> fV F" using a_mark assms(2) by (auto simp: inv_def inv_ids_def)
    moreover have "a_mark_pc F i \<noteq> JMark"
      by (simp add: a_mark_pc_def split: FailPolicy.split prod.split)
    ultimately have "marked a' i" "i \<in> fV F" using a_mark jm by (auto simp: marked_def)
    then show ?thesis using a_mark old jm \<open>a_mark_pc F i \<noteq> JMark\<close> by (auto simp: inv_res_def)
  qed (rule inv_res_frame [OF assms(3)]; auto split: if_splits)+
qed

lemma skipped_mono:
  assumes "flow_ok F" "inv F a" "astep F a a'" "a_st a c = Skipped"
  shows "a_st a' c = Skipped"
proof -
  from rem_step [OF assms(1-3)] assms(4) show ?thesis by auto
qed

text \<open>A job that is not skipping leaves the skip alone.\<close>

lemma inv_skip_frame:
  assumes "inv_skip F a"
    and "\<And>y. y \<in> fV F \<Longrightarrow> a_st a' y = Skipped \<longleftrightarrow> a_st a y = Skipped"
    and "\<And>y. y \<in> fV F \<Longrightarrow> marked a' y \<longrightarrow> marked a y"
    and "\<And>x q vis. a_pc a' x = Some (JSkip q vis) \<Longrightarrow> a_pc a x = Some (JSkip q vis)"
    and "\<And>x q vis. a_pc a x = Some (JSkip q vis) \<Longrightarrow> q \<noteq> [] \<Longrightarrow> a_pc a' x = Some (JSkip q vis)"
    and "flow_ok F"
  shows "inv_skip F a'"
proof -
  have "to_skip a c \<longrightarrow> to_skip a' c" for c
    using assms(5) unfolding to_skip_def by (metis empty_iff list.set(1))
  then have ts: "a_st a c = Skipped \<or> to_skip a c \<Longrightarrow> c \<in> fV F \<Longrightarrow> a_st a' c = Skipped \<or> to_skip a' c" for c
    using assms(2) by blast
  have 1: "a_st a' c = Skipped \<or> to_skip a' c"
    if "fpol F = SkipDownstream" "y \<in> fV F" "a_st a' y = Skipped \<or> marked a' y" "c \<in> set (fdown F y)" for y c
  proof (rule ts)
    have "a_st a y = Skipped \<or> marked a y" using that(2,3) assms(2,3) by blast
    then show "a_st a c = Skipped \<or> to_skip a c"
      using assms(1) that(1,2,4) unfolding inv_skip_def by blast
    show "c \<in> fV F" using flow_okD(4) [OF assms(6)] that by blast
  qed
  have 2: "a_st a' c = Skipped \<or> c \<in> set q"
    if "a_pc a' x = Some (JSkip q vis)" "c \<in> fV F" "tid_value c \<in> set vis" for x q vis c
    using assms(1) assms(4) [OF that(1)] that(2,3) assms(2) [OF that(2)] unfolding inv_skip_def by blast
  have 3: "a_st a' y \<noteq> Skipped" if "fpol F = FailFast" "y \<in> fV F" for y
    using assms(1) assms(2) that unfolding inv_skip_def by blast
  from 1 2 3 show ?thesis unfolding inv_skip_def by blast
qed

lemma marked_same:
  assumes "a_res a' = a_res a" "\<And>y. a_pc a' y = Some JMark \<longleftrightarrow> a_pc a y = Some JMark"
  shows "marked a' y = marked a y"
  using assms by (simp add: marked_def)

lemma inv_skip_mark:
  assumes "flow_ok F" "inv F a" "inv_skip F a" "a_pc a i = Some JMark"
  shows "inv_skip F (a\<lparr>a_failed := True, a_pc := (a_pc a)(i \<mapsto> a_mark_pc F i)\<rparr>)"
proof (cases "fpol F")
  case FailFast
  with assms(3,4) show ?thesis by (auto simp: inv_skip_def a_mark_pc_def)
next
  case SkipDownstream
  obtain q vis where v: "foldl visit ([], []) (fdown F i) = (q, vis)" by fastforce
  define a' where "a' = a\<lparr>a_failed := True, a_pc := (a_pc a)(i \<mapsto> JSkip q vis)\<rparr>"
  have i: "i \<in> fV F" using assms by (auto simp: inv_def inv_ids_def)
  then have sub: "set [] \<union> set (fdown F i) \<subseteq> fV F" using flow_okD(4) [OF assms(1)] by auto
  note vf = visit_fold [OF v flow_okD(2) [OF assms(1)] sub]
  have ts: "to_skip a' c" if "to_skip a c \<or> c \<in> set q" for c
  proof (cases "c \<in> set q")
    case False
    with that obtain x p u where x: "a_pc a x = Some (JSkip p u)" "c \<in> set p" by (auto simp: to_skip_def)
    then have "x \<noteq> i" using assms(4) by auto
    with x have "a_pc a' x = Some (JSkip p u)" by (simp add: a'_def)
    with x(2) show ?thesis unfolding to_skip_def by blast
  next
    case True
    have "a_pc a' i = Some (JSkip q vis)" by (simp add: a'_def)
    with True show ?thesis unfolding to_skip_def by blast
  qed
  have mk: "marked a y" if "marked a' y" "y \<noteq> i" for y
    using that by (auto simp: marked_def a'_def)
  have "inv_skip F a'"
    unfolding inv_skip_def
  proof (intro conjI impI ballI allI)
    fix y c assume y: "y \<in> fV F" "a_st a' y = Skipped \<or> marked a' y" "c \<in> set (fdown F y)"
    show "a_st a' c = Skipped \<or> to_skip a' c"
    proof (cases "y = i")
      case True
      with y(3) vf(4) have "c \<in> set q" by auto
      then show ?thesis using ts by blast
    next
      case False
      then have "a_st a y = Skipped \<or> marked a y" using y(2) mk by (auto simp: a'_def)
      with assms(3) SkipDownstream y(1,3) have "a_st a c = Skipped \<or> to_skip a c"
        by (auto simp: inv_skip_def)
      then show ?thesis using ts by (auto simp: a'_def)
    qed
  next
    fix x p u c assume x: "a_pc a' x = Some (JSkip p u)" "c \<in> fV F" "tid_value c \<in> set u"
    show "a_st a' c = Skipped \<or> c \<in> set p"
    proof (cases "x = i")
      case True
      with x have "p = q" "u = vis" by (auto simp: a'_def)
      with x(3) vf(3) obtain c' where c': "c' \<in> set (fdown F i)" "tid_value c' = tid_value c" by auto
      then have "c' = c" using sub x(2) flow_okD(2) [OF assms(1)] by (auto dest: inj_onD)
      with c' vf(4) \<open>p = q\<close> show ?thesis by auto
    next
      case False
      with x have "a_pc a x = Some (JSkip p u)" by (simp add: a'_def)
      with assms(3) x(2,3) have "a_st a c = Skipped \<or> c \<in> set p" unfolding inv_skip_def by blast
      then show ?thesis by (simp add: a'_def)
    qed
  qed (simp add: SkipDownstream)
  then show ?thesis using v SkipDownstream by (simp add: a'_def a_mark_pc_def)
qed

lemma inv_skip_skip:
  assumes "flow_ok F" "inv F a" "inv_res F a" "inv_skip F a" "a_pc a i = Some (JSkip (c # q) vis)"
    and v: "foldl visit (q, vis) (fdown F c) = (q', vis')"
    and a': "a' = a\<lparr>a_st := (a_st a)(c := Skipped), a_res := (a_res a)(c \<mapsto> Skipped),
                    a_pc := (a_pc a)(i \<mapsto> JSkip q' vis')\<rparr>"
  shows "inv_skip F a'"
proof -
  note h = skip_head [OF assms(1,2,5)]
  have pol: "fpol F = SkipDownstream" and qV: "set q \<subseteq> fV F"
    using assms(2,5) by (force simp: inv_def inv_ids_def)+
  then have sub: "set q \<union> set (fdown F c) \<subseteq> fV F" using flow_okD(4) [OF assms(1) h(1)] by auto
  note vf = visit_fold [OF v flow_okD(2) [OF assms(1)] sub]
  have old_vis: "a_st a y = Skipped \<or> y \<in> set p"
    if "a_pc a x = Some (JSkip p u)" "y \<in> fV F" "tid_value y \<in> set u" for x p u y
    using assms(4) that unfolding inv_skip_def by blast
  have keep: "a_st a' y = Skipped \<or> to_skip a' y" if "a_st a y = Skipped \<or> to_skip a y" for y
  proof -
    have "a_st a' y = Skipped \<or> to_skip a' y" if p: "a_pc a x = Some (JSkip p u)" "y \<in> set p" for x p u
    proof (cases "x = i")
      case True
      with p assms(5) have "y = c \<or> y \<in> set q" by auto
      then show ?thesis using vf(1) by (auto simp: a' to_skip_def)
    next
      case False
      with p have "a_pc a' x = Some (JSkip p u)" by (simp add: a')
      with p(2) show ?thesis by (auto simp: to_skip_def)
    qed
    moreover have "a_st a y = Skipped \<Longrightarrow> a_st a' y = Skipped" by (simp add: a')
    ultimately show ?thesis using that unfolding to_skip_def [of a] by blast
  qed
  have new: "a_st a' y = Skipped \<or> y \<in> set q'"
    if "y \<in> fV F" "tid_value y \<in> set vis \<or> y \<in> set (fdown F c)" for y
    using that vf(1,4) old_vis [OF assms(5), of y] by (auto simp: a')
  show ?thesis
    unfolding inv_skip_def
  proof (intro conjI impI ballI allI)
    fix y z assume y: "y \<in> fV F" "a_st a' y = Skipped \<or> marked a' y" "z \<in> set (fdown F y)"
    show "a_st a' z = Skipped \<or> to_skip a' z"
    proof (cases "y = c")
      case True
      with y(3) sub have "z \<in> fV F" by auto
      with new [of z] y(3) True have "a_st a' z = Skipped \<or> z \<in> set q'" by blast
      moreover have "a_pc a' i = Some (JSkip q' vis')" by (simp add: a')
      ultimately show ?thesis unfolding to_skip_def by blast
    next
      case False
      then have "a_st a y = Skipped \<or> marked a y" using y(2) assms(5) by (auto simp: a' marked_def split: if_splits)
      with assms(4) pol y(1,3) have "a_st a z = Skipped \<or> to_skip a z" by (auto simp: inv_skip_def)
      then show ?thesis by (rule keep)
    qed
  next
    fix x p u y assume x: "a_pc a' x = Some (JSkip p u)" "y \<in> fV F" "tid_value y \<in> set u"
    show "a_st a' y = Skipped \<or> y \<in> set p"
    proof (cases "x = i")
      case True
      with x(1) have pu: "p = q'" "u = vis'" by (auto simp: a')
      have "tid_value y \<in> set vis \<or> y \<in> set (fdown F c)"
        using x(2,3) pu vf(3) sub flow_okD(2) [OF assms(1)] by (auto dest: inj_onD)
      with new [OF x(2)] pu show ?thesis by simp
    next
      case False
      with x old_vis [of x p u y] show ?thesis by (auto simp: a')
    qed
  qed (simp add: pol)
qed

lemma inv_skip_step:
  assumes "flow_ok F" "inv F a" "inv_res F a" "inv_skip F a" "astep F a a'"
  shows "inv_skip F a'"
proof -
  have own: "a_st a i = Running \<and> i \<in> fV F" if "a_pc a i = Some JPosted" for i
    using that assms(2) by (force simp: inv_def inv_st_def inv_ids_def)
  have hs: "a_pc a i = None" if "a_hold a = HStarted i" for i using hold_started(3) [OF assms(2) that] .
  have hp: "a_st a i = Pending" if "a_hold a = HPopped i" for i using hold_popped(2) [OF assms(2) that] .
  note frame = inv_skip_frame [OF assms(4) _ _ _ _ assms(1)]
  from assms(5) show ?thesis
  proof cases
    case (a_skip i c q vis q' vis')
    then show ?thesis using inv_skip_skip [OF assms(1-4)] by blast
  next
    case (a_mark i)
    then show ?thesis using inv_skip_mark [OF assms(1,2,4)] by blast
  next
    case (a_run_fail i r)
    then show ?thesis using own [OF a_run_fail(2)] failure_like_not [OF failure_status_like [of r]]
      by (intro frame) (auto simp: marked_def split: if_splits)
  next
    case (a_run_ok i)
    then show ?thesis using own [OF a_run_ok(2)]
      by (intro frame) (auto simp: marked_def split: if_splits)
  next
    case (a_start i)
    then show ?thesis using hp [OF a_start(2)] by (intro frame) (auto simp: marked_def)
  next
    case (a_post i)
    then show ?thesis using hs [OF a_post(2)]
      by (intro frame) (auto simp: marked_def split: if_splits)
  qed (intro frame; auto simp: marked_def split: if_splits)+
qed

lemma tok_frame:
  assumes "tok a y" "set (a_queue a) \<subseteq> set (a_queue a')" "a_hold a' = a_hold a"
    and "\<And>x cs. a_pc a x = Some (JPush y cs) \<Longrightarrow> a_pc a' x = Some (JPush y cs) \<or> y \<in> set (a_queue a')"
  shows "tok a' y"
  using assms unfolding tok_def by (metis subsetD)

lemma inv_live_frame:
  assumes "inv_live F a" "\<And>y. a_st a' y = Pending \<Longrightarrow> a_st a y = Pending" "a_deg a' = a_deg a"
    and "a_failed a \<Longrightarrow> a_failed a'" "\<And>y. tok a y \<Longrightarrow> a_st a' y = Pending \<Longrightarrow> tok a' y"
  shows "inv_live F a'"
  using assms unfolding inv_live_def by metis

lemma inv_live_step:
  assumes "flow_ok F" "inv F a" "inv_live F a" "astep F a a'"
  shows "inv_live F a'"
proof -
  have old: "tok a y \<or> fpol F = FailFast \<and> a_failed a"
    if "y \<in> fV F" "a_st a y = Pending" "a_deg a y = 0" "\<not> tid_empty y" for y
    using assms(3) that by (auto simp: inv_live_def)
  note frame = inv_live_frame [OF assms(3)]
  from assms(4) show ?thesis
  proof cases
    case (a_dropped i)
    then show ?thesis using hold_popped(2) [OF assms(2) a_dropped(2)] old
      by (fastforce simp: inv_live_def tok_def a_drop_def not_submittable_def)
  next
    case (a_pop i q)
    then show ?thesis by (intro frame) (auto simp: tok_def)
  next
    case (a_start i)
    then show ?thesis by (intro frame) (auto simp: tok_def split: if_splits)
  next
    case (a_post i)
    show ?thesis
    proof (rule frame)
      fix y assume t: "tok a y" and p: "a_st a' y = Pending"
      have "y \<noteq> i" using p a_post hold_started(2) [OF assms(2) a_post(2)] by auto
      moreover have "a_pc a' x = Some (JPush y cs)" if "a_pc a x = Some (JPush y cs)" for x cs
        using that a_post(1) hold_started(3) [OF assms(2) a_post(2)] by auto
      moreover have "a_queue a' = a_queue a" using a_post by simp
      ultimately show "tok a' y" using t a_post(2) unfolding tok_def by (metis hold.distinct(5) hold.inject(2))
    qed (use a_post in auto)
  next
    case (a_dec i c cs)
    have "tok a' y \<or> fpol F = FailFast \<and> a_failed a'"
      if "y \<in> fV F" "a_st a' y = Pending" "a_deg a' y = 0" "\<not> tid_empty y" for y
    proof (cases "y = c")
      case True
      with a_dec that have "a_pc a' i = Some (JPush c cs)" by simp
      with True show ?thesis by (auto simp: tok_def)
    next
      case False
      with a_dec that old [of y] have "tok a y \<or> fpol F = FailFast \<and> a_failed a" by simp
      moreover have "tok a' y" if "tok a y"
        using that by (rule tok_frame) (use a_dec in auto)
      ultimately show ?thesis using a_dec(1) by auto
    qed
    then show ?thesis by (simp add: inv_live_def)
  qed (intro frame; (erule tok_frame)?; auto split: if_splits)+
qed

lemma inv2_step: "flow_ok F \<Longrightarrow> inv2 F a \<Longrightarrow> astep F a a' \<Longrightarrow> inv2 F a'"
  unfolding inv2_def using inv_step inv_res_step inv_skip_step inv_live_step by blast

lemma inv2_initial:
  assumes "flow_ok F" "a_initial F a"
  shows "inv2 F a"
  using inv_initial [OF assms] assms(2)
  by (auto simp: inv2_def a_initial_def inv_res_def inv_skip_def inv_live_def marked_def tok_def)

subsection \<open>The end of a run\<close>

text \<open>Nothing is queued, held or owned by a job that still has shared writes to do.\<close>

definition quiescent :: "aflow \<Rightarrow> bool" where
  "quiescent a \<longleftrightarrow> a_queue a = [] \<and> a_hold a = HNone \<and> (\<forall>i p. a_pc a i = Some p \<longrightarrow> p = JNotify)"

text \<open>Every node that ran returned Success or one of the three failures.\<close>

definition proper_results :: "flow \<Rightarrow> aflow \<Rightarrow> bool" where
  "proper_results F a \<longleftrightarrow>
     (\<forall>y \<in> fV F. \<forall>r. a_st a y \<noteq> Skipped \<and> a_res a y = Some r \<longrightarrow> r = Success \<or> isFailureLike r)"

definition outcome :: "flow \<Rightarrow> aflow \<Rightarrow> TaskId \<Rightarrow> TaskStatus" where
  "outcome F a y =
     (if \<forall>d \<in> set (fdeps F y). a_st a d = Success then
        (case a_res a y of
           None \<Rightarrow> Pending | Some r \<Rightarrow> if r = Success then Success else failure_status r)
      else Skipped)"

lemma quiescent_no_token: "quiescent a \<Longrightarrow> \<not> tok a y"
  by (auto simp: quiescent_def tok_def)

lemma quiescent_not_running:
  assumes "inv F a" "quiescent a" "y \<in> fV F" shows "a_st a y \<noteq> Running"
  using assms by (force simp: inv_def inv_st_def quiescent_def)

lemma quiescent_rem: "quiescent a \<Longrightarrow> a_st a x = Success \<Longrightarrow> rem F a x = []"
  by (auto simp: quiescent_def rem_def split: option.split job_pc.split)

lemma status_cases:
  assumes "named_status st"
  obtains "st = Pending" | "st = Running" | "st = Success" | "isFailureLike st" | "st = Skipped"
  using assms by (cases st) (auto simp: isFailureLike_def)

lemma quiescent_deg_zero:
  assumes "flow_ok F" "inv F a" "quiescent a" "y \<in> fV F" "a_st a y \<noteq> Skipped"
    and "\<forall>d \<in> set (fdeps F y). a_st a d = Success"
  shows "a_deg a y = 0"
proof -
  have "count_list (rem F a x) y = 0" if x: "x \<in> fV F" for x
  proof (rule ccontr)
    assume "count_list (rem F a x) y \<noteq> 0"
    then have y: "y \<in> set (rem F a x)" using count_list_pos_iff [of "rem F a x" y] by simp
    then have "x \<in> set (fdeps F y)"
      using rem_subset [of F a x] flow_edge [OF assms(1) x assms(4)] assms(2) by (auto simp: inv_def)
    with assms(6) quiescent_rem [OF assms(3)] y show False by fastforce
  qed
  then have "unconsumed F a y = 0" by (simp add: unconsumed_def)
  with assms(2,4,5) show ?thesis by (simp add: inv_def inv_deg_def)
qed

lemma failed_marked:
  assumes "inv2 F a" "quiescent a" "proper_results F a" "d \<in> fV F" "isFailureLike (a_st a d)"
  shows "marked a d"
proof -
  have "res_fits (a_res a d) (a_st a d)" using assms(1,4) by (simp add: inv2_def inv_res_def)
  with assms(5) obtain r where r: "a_res a d = Some r" "r \<noteq> Success"
    by (auto simp: res_fits_def split: if_splits)
  with assms(3-5) have "isFailureLike r" by (auto simp: proper_results_def)
  with r assms(2) show ?thesis by (fastforce simp: marked_def quiescent_def)
qed

lemma failed_children_skipped:
  assumes "flow_ok F" "inv2 F a" "quiescent a" "proper_results F a" "fpol F = SkipDownstream"
    and "y \<in> fV F" "d \<in> set (fdeps F y)" "bad a d"
  shows "a_st a y = Skipped"
proof -
  have d: "d \<in> fV F" using flow_okD(5) [OF assms(1,6,7)] .
  have "a_st a d = Skipped \<or> marked a d"
    using assms(8) failed_marked [OF assms(2-4) d] by (auto simp: bad_def)
  moreover have "y \<in> set (fdown F d)" using flow_edge [OF assms(1) d assms(6)] assms(7) by simp
  ultimately have "a_st a y = Skipped \<or> to_skip a y"
    using assms(2,5) d unfolding inv2_def inv_skip_def by blast
  moreover have "\<not> to_skip a y" using assms(3) by (fastforce simp: quiescent_def to_skip_def)
  ultimately show ?thesis by blast
qed

lemma wf_flow:
  assumes "flow_ok F" shows "wf (fedges F)"
proof -
  have "fedges F \<subseteq> fV F \<times> fV F" using flow_okD(4) [OF assms] by (auto simp: fedges_def)
  then have "finite (fedges F)" using flow_okD(1) [OF assms] by (auto intro: finite_subset)
  then show ?thesis using finite_acyclic_wf flow_okD(3) [OF assms] by blast
qed

lemma settled:
  assumes "flow_ok F" "inv2 F a" "quiescent a" "proper_results F a"
    and "\<forall>y \<in> fV F. \<not> tid_empty y" and "fpol F = SkipDownstream \<or> \<not> a_failed a"
    and "y \<in> fV F"
  shows "a_st a y \<noteq> Pending"
  using assms(7)
proof (induction y rule: wf_induct_rule [OF wf_flow [OF assms(1)]])
  case (1 y)
  have inv: "inv F a" using assms(2) by (simp add: inv2_def)
  show ?case
  proof
    assume p: "a_st a y = Pending"
    have deps: "a_st a d = Success" if d: "d \<in> set (fdeps F y)" for d
    proof -
      have dV: "d \<in> fV F" using flow_okD(5) [OF assms(1) "1.prems" d] .
      have "(d, y) \<in> fedges F"
        using flow_edge [OF assms(1) dV "1.prems"] d dV by (simp add: fedges_def)
      with "1.IH" dV have np: "a_st a d \<noteq> Pending" by blast
      have "named_status (a_st a d)" using inv dV by (simp add: inv_def inv_st_def)
      moreover have "\<not> bad a d"
      proof
        assume b: "bad a d"
        show False
        proof (cases "fpol F")
          case SkipDownstream
          with failed_children_skipped [OF assms(1-4) _ "1.prems" d b] p show False by simp
        next
          case FailFast
          then have "a_st a d \<noteq> Skipped" using assms(2) dV by (auto simp: inv2_def inv_skip_def)
          then have "marked a d" using b failed_marked [OF assms(2-4) dV] by (simp add: bad_def)
          with assms(2) dV have "a_failed a" by (auto simp: inv2_def inv_res_def)
          with assms(6) FailFast show False by simp
        qed
      qed
      ultimately show ?thesis
        using np quiescent_not_running [OF inv assms(3) dV]
        by (cases rule: status_cases) (auto simp: bad_def)
    qed
    from quiescent_deg_zero [OF assms(1) inv assms(3) "1.prems"] p deps have "a_deg a y = 0" by simp
    with p "1.prems" assms(2,5,6) quiescent_no_token [OF assms(3)] show False
      by (auto simp: inv2_def inv_live_def)
  qed
qed

lemma final_outcome:
  assumes "flow_ok F" "inv2 F a" "quiescent a" "proper_results F a"
    and "\<forall>y \<in> fV F. \<not> tid_empty y" and "fpol F = SkipDownstream" and y: "y \<in> fV F"
  shows "a_st a y = outcome F a y \<and> a_st a y \<noteq> Pending"
proof -
  have inv: "inv F a" using assms(2) by (simp add: inv2_def)
  have np: "a_st a y \<noteq> Pending" using settled [OF assms(1-5) _ y] assms(6) by blast
  have fits: "res_fits (a_res a y) (a_st a y)" using assms(2) y by (simp add: inv2_def inv_res_def)
  have "a_st a y = outcome F a y"
  proof (cases "a_st a y = Skipped")
    case True
    then obtain d where "d \<in> set (fdeps F y)" "bad a d" using inv y by (auto simp: inv_def inv_bad_def)
    with bad_not_success True show ?thesis by (auto simp: outcome_def)
  next
    case False
    with np inv_tokD(3) [OF inv y] have "a_deg a y = 0" by blast
    with deg_zero_deps [OF assms(1) inv y] have "\<forall>d \<in> set (fdeps F y). a_st a d = Success" by blast
    then show ?thesis
      using fits np False quiescent_not_running [OF inv assms(3) y]
      by (auto simp: outcome_def res_fits_def split: if_splits)
  qed
  with np show ?thesis by blast
qed

lemma final_all_success:
  assumes "flow_ok F" "inv2 F a" "quiescent a" "proper_results F a"
    and "\<forall>y \<in> fV F. \<not> tid_empty y" and "\<not> a_failed a" and y: "y \<in> fV F"
  shows "a_st a y = Success"
proof -
  have inv: "inv F a" using assms(2) by (simp add: inv2_def)
  have nf: "\<not> isFailureLike (a_st a z)" if z: "z \<in> fV F" for z
    using failed_marked [OF assms(2-4) z] assms(2,6) z by (auto simp: inv2_def inv_res_def)
  have ns: "a_st a z \<noteq> Skipped" if "z \<in> fV F" for z
    using that
  proof (induction z rule: wf_induct_rule [OF wf_flow [OF assms(1)]])
    case (1 z)
    show ?case
    proof
      assume "a_st a z = Skipped"
      then obtain d where d: "d \<in> set (fdeps F z)" "bad a d"
        using inv "1.prems" by (auto simp: inv_def inv_bad_def)
      have dV: "d \<in> fV F" using flow_okD(5) [OF assms(1) "1.prems" d(1)] .
      have "(d, z) \<in> fedges F" using flow_edge [OF assms(1) dV "1.prems"] d dV by (simp add: fedges_def)
      with "1.IH" dV d(2) nf [OF dV] show False by (auto simp: bad_def)
    qed
  qed
  have "named_status (a_st a y)" using inv y by (simp add: inv_def inv_st_def)
  then show ?thesis
    using nf [OF y] ns [OF y] settled [OF assms(1-5) _ y] assms(6) quiescent_not_running [OF inv assms(3) y]
    by (cases rule: status_cases) auto
qed

end
