(* ===== verification/Dag_Exec_Correct.thy ===== *)
theory Dag_Exec_Correct
  imports Dag_Outcome Dag_Build_Correct
begin

text \<open>
  The executor refines the dataflow machine: \<open>abs\<close> reads off the machine state, every step of
  \<^const>\<open>exec_step\<close> is matched by zero or more machine steps, and so the machine's invariants hold of
  every interleaving of the scheduler and its jobs.
\<close>

subsection \<open>Views of the context\<close>

lemma ctx_op_simps [simp, frame_simps]:
  "graph (emit e c) = graph c" "failed (emit e c) = failed c" "running (emit e c) = running c"
  "taskResults (emit e c) = taskResults c" "ctx_config (emit e c) = ctx_config c"
  "graph (setTaskResults i res c) = graph c" "failed (setTaskResults i res c) = failed c"
  "running (setTaskResults i res c) = running c" "ctx_config (setTaskResults i res c) = ctx_config c"
  "taskResults (setTaskResults i res c) = (taskResults c)(i \<mapsto> res)"
  "graph (incrementRunning c) = graph c" "failed (incrementRunning c) = failed c"
  "running (incrementRunning c) = running c + 1" "taskResults (incrementRunning c) = taskResults c"
  "ctx_config (incrementRunning c) = ctx_config c"
  "graph (decrementRunning c) = graph c" "failed (decrementRunning c) = failed c"
  "running (decrementRunning c) = running c - 1" "taskResults (decrementRunning c) = taskResults c"
  "ctx_config (decrementRunning c) = ctx_config c"
  "graph (markFailed c) = graph c" "failed (markFailed c)" "running (markFailed c) = running c"
  "taskResults (markFailed c) = taskResults c" "ctx_config (markFailed c) = ctx_config c"
  "graph (ctx_finish b c) = graph c" "failed (ctx_finish b c) = failed c"
  "running (ctx_finish b c) = running c" "taskResults (ctx_finish b c) = taskResults c"
  "ctx_config (ctx_finish b c) = ctx_config c"
  by (simp_all add: emit_def setTaskResults_def incrementRunning_def decrementRunning_def
      markFailed_def ctx_finish_def)

lemma setNodeStatus_simps [simp, frame_simps]:
  "graph (setNodeStatus i st c) = updNode i (setStatus st) (graph c)"
  "failed (setNodeStatus i st c) = failed c" "running (setNodeStatus i st c) = running c"
  "taskResults (setNodeStatus i st c) = taskResults c" "ctx_config (setNodeStatus i st c) = ctx_config c"
  by (simp_all add: setNodeStatus_def Let_def emit_def)

lemma submit_effects_simps [simp, frame_simps]:
  "graph (submit_effects i n c) = graph c" "failed (submit_effects i n c) = failed c"
  "running (submit_effects i n c) = running c + 1" "taskResults (submit_effects i n c) = taskResults c"
  "ctx_config (submit_effects i n c) = ctx_config c"
  "graph (post_effects i n c) = graph c" "failed (post_effects i n c) = failed c"
  "running (post_effects i n c) = running c" "taskResults (post_effects i n c) = taskResults c"
  "ctx_config (post_effects i n c) = ctx_config c"
  by (simp_all add: submit_effects_def post_effects_def Let_def)

lemma skip_node_simps [simp, frame_simps]:
  "graph (skip_node i c x) = updNode c (setStatus Skipped) (graph x)"
  "failed (skip_node i c x) = failed x" "running (skip_node i c x) = running x"
  "taskResults (skip_node i c x) = (taskResults x)(c \<mapsto> default_TaskResult\<lparr>res_status := Skipped\<rparr>)"
  "ctx_config (skip_node i c x) = ctx_config x"
  by (simp_all add: skip_node_def Let_def)

subsection \<open>Abstraction\<close>

definition nst :: "string \<Rightarrow> DagGraph \<Rightarrow> TaskId \<Rightarrow> TaskStatus" where
  "nst r g i = (if tid_runId i = r then (case getNode g i of None \<Rightarrow> Pending | Some n \<Rightarrow> status n) else Pending)"

definition ndeg :: "string \<Rightarrow> DagGraph \<Rightarrow> TaskId \<Rightarrow> int" where
  "ndeg r g i = (if tid_runId i = r then (case getNode g i of None \<Rightarrow> 0 | Some n \<Rightarrow> indegree n) else 0)"

definition shape :: "string \<Rightarrow> flow \<Rightarrow> DagGraph \<Rightarrow> bool" where
  "shape r F g \<longleftrightarrow> fV F = graph_ids r g
     \<and> (\<forall>i \<in> fV F. down_of g i = fdown F i \<and> deps_of g i = fdeps F i)"

lemma nst_setStatus:
  "i \<in> graph_ids r g \<Longrightarrow> nst r (updNode i (setStatus x) g) = (nst r g)(i := x)"
  by (rule ext) (auto simp: nst_def graph_ids_def getNode_updNode split: option.splits)

lemma ndeg_setStatus:
  "i \<in> graph_ids r g \<Longrightarrow> ndeg r (updNode i (setStatus x) g) = ndeg r g"
  by (rule ext) (auto simp: ndeg_def graph_ids_def getNode_updNode split: option.splits)

lemma nst_decrement:
  assumes "getNode g c = Some n" "tid_runId c = r"
  shows "nst r (updNode c (\<lambda>_. n\<lparr>indegree := d\<rparr>) g) = nst r g"
    "ndeg r (updNode c (\<lambda>_. n\<lparr>indegree := d\<rparr>) g) = (ndeg r g)(c := d)"
  using assms by (auto simp: nst_def ndeg_def getNode_updNode fun_eq_iff)

lemma shape_updNode:
  assumes "shape r F g" "tid_runId i = r"
    and "\<And>n. getNode g i = Some n \<Longrightarrow> downstream (f n) = downstream n \<and> dependencies (f n) = dependencies n"
  shows "shape r F (updNode i f g)"
proof -
  have "down_of (updNode i f g) j = down_of g j" "deps_of (updNode i f g) j = deps_of g j"
    if "tid_runId j = r" for j
    using that assms(2,3) by (auto simp: down_of_def deps_of_def getNode_updNode split: option.split)
  moreover have "tid_runId j = r" if "j \<in> graph_ids r g" for j using that by (simp add: graph_ids_def)
  ultimately show ?thesis using assms(1,2) by (simp add: shape_def graph_ids_updNode)
qed

lemma shape_setStatus:
  "shape r F g \<Longrightarrow> tid_runId i = r \<Longrightarrow> shape r F (updNode i (setStatus x) g)"
  by (rule shape_updNode) auto

lemma shape_decrement:
  "shape r F g \<Longrightarrow> getNode g c = Some n \<Longrightarrow> tid_runId c = r \<Longrightarrow>
   shape r F (updNode c (\<lambda>_. n\<lparr>indegree := d\<rparr>) g)"
  by (rule shape_updNode) auto

fun hold_of :: "sched_pc \<Rightarrow> hold" where
  "hold_of (SCheck i) = HPopped i"
| "hold_of (SPolicy i) = HPopped i"
| "hold_of (SSubmit i) = HPopped i"
| "hold_of (SStart i) = HPopped i"
| "hold_of (SPost i) = HStarted i"
| "hold_of _ = HNone"

definition abs_exec :: "string \<Rightarrow> DagExecutor \<Rightarrow> aflow" where
  "abs_exec r s =
     \<lparr>a_st = nst r (graph (ctx s)), a_deg = ndeg r (graph (ctx s)), a_pc = map_of (jobs s),
      a_queue = readyQueue s, a_hold = hold_of (sched s), a_failed = failed (ctx s),
      a_res = map_option res_status \<circ> taskResults (ctx s)\<rparr>"

lemma abs_exec_simps [simp]:
  "a_st (abs_exec r s) = nst r (graph (ctx s))" "a_deg (abs_exec r s) = ndeg r (graph (ctx s))"
  "a_pc (abs_exec r s) = map_of (jobs s)" "a_queue (abs_exec r s) = readyQueue s"
  "a_hold (abs_exec r s) = hold_of (sched s)" "a_failed (abs_exec r s) = failed (ctx s)"
  "a_res (abs_exec r s) = map_option res_status \<circ> taskResults (ctx s)"
  by (simp_all add: abs_exec_def)

definition exec_ok :: "string \<Rightarrow> flow \<Rightarrow> DagExecutor \<Rightarrow> bool" where
  "exec_ok r F s \<longleftrightarrow> shape r F (graph (ctx s)) \<and> fpol F = failPolicy (ctx_config (ctx s))
   \<and> distinct (map fst (jobs s)) \<and> inv2 F (abs_exec r s)"

subsection \<open>The job table\<close>

lemma map_of_update_nth:
  assumes "distinct (map fst js)" "k < length js" "js ! k = (i, pc)"
  shows "map_of (js[k := (i, pc')]) = (map_of js)(i \<mapsto> pc')"
    "map_of (take k js @ drop (Suc k) js) = (map_of js)(i := None)"
proof -
  have js: "js = take k js @ (i, pc) # drop (Suc k) js" using assms(2,3) by (metis id_take_nth_drop)
  have d: "distinct (map fst (take k js @ (i, pc) # drop (Suc k) js))" using assms(1) js by metis
  have n: "map_of (take k js) i = None" "map_of (drop (Suc k) js) i = None"
    using d by (auto simp: map_of_eq_None_iff)
  have u: "js[k := (i, pc')] = take k js @ (i, pc') # drop (Suc k) js"
    using assms(2) by (simp add: upd_conv_take_nth_drop)
  have "map_of js = map_of (take k js @ (i, pc) # drop (Suc k) js)" using js by simp
  then have m: "map_of js = map_of (drop (Suc k) js) ++ [i \<mapsto> pc] ++ map_of (take k js)"
    by (simp add: fun_eq_iff map_add_def split: option.split)
  show "map_of (js[k := (i, pc')]) = (map_of js)(i \<mapsto> pc')"
    unfolding u m using n by (auto simp: fun_eq_iff map_add_def split: option.split)
  show "map_of (take k js @ drop (Suc k) js) = (map_of js)(i := None)"
    unfolding m using n by (auto simp: fun_eq_iff map_add_def split: option.split)
qed

lemma distinct_put_job:
  assumes "distinct (map fst js)" "k < length js" "js ! k = (i, pc)"
  shows "distinct (map fst (put_job k i p js))"
proof (cases p)
  case (Some pc')
  have "map fst (js[k := (i, pc')]) = map fst js"
    using assms(2,3) by (simp add: map_update list_update_same_conv)
  with Some assms(1) show ?thesis by (simp add: put_job_def)
next
  case None
  have "js = take k js @ (i, pc) # drop (Suc k) js" using assms(2,3) by (metis id_take_nth_drop)
  then have "distinct (map fst (take k js @ (i, pc) # drop (Suc k) js))" using assms(1) by metis
  with None show ?thesis by (simp add: put_job_def)
qed

subsection \<open>Every step is matched\<close>

lemma exec_okD:
  assumes "exec_ok r F s" "i \<in> fV F"
  shows "tid_runId i = r" "i \<in> graph_ids r (graph (ctx s))"
    "\<exists>n. getNode (graph (ctx s)) i = Some n \<and> status n = a_st (abs_exec r s) i
       \<and> indegree n = a_deg (abs_exec r s) i \<and> downstream n = fdown F i"
proof -
  show g: "i \<in> graph_ids r (graph (ctx s))" using assms by (simp add: exec_ok_def shape_def)
  then show r: "tid_runId i = r" by (simp add: graph_ids_def)
  from g obtain n where n: "getNode (graph (ctx s)) i = Some n" by (auto simp: graph_ids_def)
  have "down_of (graph (ctx s)) i = fdown F i" using assms by (simp add: exec_ok_def shape_def)
  with n r show "\<exists>n. getNode (graph (ctx s)) i = Some n \<and> status n = a_st (abs_exec r s) i
       \<and> indegree n = a_deg (abs_exec r s) i \<and> downstream n = fdown F i"
    by (simp add: nst_def ndeg_def down_of_def)
qed

definition matched :: "string \<Rightarrow> flow \<Rightarrow> DagExecutor \<Rightarrow> DagExecutor \<Rightarrow> bool" where
  "matched r F s s' \<longleftrightarrow> steps (astep F) (abs_exec r s) (abs_exec r s')
     \<and> shape r F (graph (ctx s')) \<and> ctx_config (ctx s') = ctx_config (ctx s)
     \<and> distinct (map fst (jobs s'))"

lemma matched_same:
  assumes "exec_ok r F s" "abs_exec r s' = abs_exec r s" "graph (ctx s') = graph (ctx s)"
    "ctx_config (ctx s') = ctx_config (ctx s)" "jobs s' = jobs s"
  shows "matched r F s s'"
  using assms by (simp add: matched_def exec_ok_def)

lemma hold_in_flow:
  assumes "exec_ok r F s" "hold_of (sched s) = HPopped i \<or> hold_of (sched s) = HStarted i"
  shows "i \<in> fV F"
  using assms by (auto simp: exec_ok_def inv2_def inv_def inv_ids_def)

lemma matched_check:
  assumes "exec_ok r F s" "hold_of (sched s) = HPopped i" "hold_of next = HPopped i"
  shows "matched r F s (sched_check i next s)"
proof -
  have iV: "i \<in> fV F" using hold_in_flow assms by blast
  from exec_okD(3) [OF assms(1) this] obtain n where
    n: "getNode (graph (ctx s)) i = Some n" "status n = nst r (graph (ctx s)) i" by auto
  show ?thesis
  proof (cases "not_submittable (status n)")
    case True
    then have "a_drop F (abs_exec r s) i" using n by (simp add: a_drop_def)
    then have "astep F (abs_exec r s) (abs_exec r (s\<lparr>sched := SFill\<rparr>))"
      using astep.a_dropped [of "abs_exec r s" i F] assms(2) by (simp add: abs_exec_def)
    with True n assms(1) show ?thesis by (simp add: matched_def sched_check_def steps_one exec_ok_def)
  next
    case False
    have "abs_exec r (s\<lparr>sched := next\<rparr>) = abs_exec r s" using assms(2,3) by (simp add: abs_exec_def)
    then show ?thesis using False n matched_same [OF assms(1)] by (simp add: sched_check_def)
  qed
qed

lemma matched_pop:
  assumes "exec_ok r F s" "sched s = SPop" "sched_step SPop s = Some s'"
  shows "matched r F s s'"
proof (cases "readyQueue s")
  case Nil
  with assms show ?thesis by (auto intro!: matched_same simp: abs_exec_def)
next
  case (Cons i q)
  have pop: "astep F (abs_exec r s) ((abs_exec r s)\<lparr>a_queue := q, a_hold := HPopped i\<rparr>)"
    using Cons assms(2) by (intro astep.a_pop) simp_all
  show ?thesis
  proof (cases "tid_empty i")
    case True
    then have "astep F ((abs_exec r s)\<lparr>a_queue := q, a_hold := HPopped i\<rparr>)
        ((abs_exec r s)\<lparr>a_queue := q, a_hold := HNone\<rparr>)"
      using astep.a_dropped [of "(abs_exec r s)\<lparr>a_queue := q, a_hold := HPopped i\<rparr>" i F]
      by (simp add: a_drop_def)
    with pop have "steps (astep F) (abs_exec r s) ((abs_exec r s)\<lparr>a_queue := q, a_hold := HNone\<rparr>)"
      by (blast intro: steps_snoc steps_one)
    with True Cons assms show ?thesis
      by (auto simp: matched_def exec_ok_def abs_exec_def)
  next
    case False
    with pop Cons assms show ?thesis
      by (auto simp: matched_def exec_ok_def abs_exec_def intro: steps_one)
  qed
qed

lemma matched_start:
  assumes "exec_ok r F s" "sched s = SStart i"
  shows "matched r F s (s\<lparr>ctx := setNodeStatus i Running (ctx s), sched := SPost i\<rparr>)"
proof -
  have iV: "i \<in> fV F" using hold_in_flow [OF assms(1)] assms(2) by simp
  note i = exec_okD(1,2) [OF assms(1) iV]
  have "astep F (abs_exec r s) ((abs_exec r s)\<lparr>a_st := (a_st (abs_exec r s))(i := Running), a_hold := HStarted i\<rparr>)"
    using assms(2) by (intro astep.a_start) simp
  then show ?thesis using assms i
    by (simp add: matched_def exec_ok_def abs_exec_def nst_setStatus ndeg_setStatus shape_setStatus steps_one)
qed

lemma matched_post:
  assumes "exec_ok r F s" "sched s = SPost i"
  shows "matched r F s (sched_post i s)"
proof -
  have iV: "i \<in> fV F" using hold_in_flow [OF assms(1)] assms(2) by simp
  then obtain n where n: "getNode (graph (ctx s)) i = Some n" using exec_okD(3) [OF assms(1)] by blast
  have inv: "inv F (abs_exec r s)" using assms(1) by (simp add: exec_ok_def inv2_def)
  have none: "map_of (jobs s) i = None"
    using hold_started(3) [OF inv, of i] assms(2) by simp
  then have m: "map_of (jobs s @ [(i, JPosted)]) = (map_of (jobs s))(i \<mapsto> JPosted)"
    by (auto simp: fun_eq_iff map_add_def split: option.split)
  have "astep F (abs_exec r s) ((abs_exec r s)\<lparr>a_pc := (a_pc (abs_exec r s))(i \<mapsto> JPosted), a_hold := HNone\<rparr>)"
    using assms(2) by (intro astep.a_post) simp
  moreover have "abs_exec r (sched_post i s)
      = (abs_exec r s)\<lparr>a_pc := (a_pc (abs_exec r s))(i \<mapsto> JPosted), a_hold := HNone\<rparr>"
    using m n by (simp add: abs_exec_def sched_post_def)
  moreover have "distinct (map fst (jobs s @ [(i, JPosted)]))"
    using assms(1) none by (auto simp: exec_ok_def map_of_eq_None_iff)
  ultimately show ?thesis using assms(1) n
    by (auto simp: matched_def exec_ok_def sched_post_def intro: steps_one)
qed

lemma matched_sched:
  assumes "exec_ok r F s" "sched_step (sched s) s = Some s'"
  shows "matched r F s s'"
proof (cases "sched s")
  case SPop
  with matched_pop assms show ?thesis by simp
next
  case (SCheck i)
  with matched_check [OF assms(1), of i "SPolicy i"] assms(2) show ?thesis by auto
next
  case (SSubmit i)
  have "i \<in> fV F" using hold_in_flow [OF assms(1)] SSubmit by simp
  then obtain n where "getNode (graph (ctx s)) i = Some n" using exec_okD(3) [OF assms(1)] by blast
  with SSubmit matched_check [OF assms(1), of i "SStart i"] assms(2) show ?thesis by auto
next
  case (SPolicy i)
  have "astep F (abs_exec r s) (abs_exec r (s\<lparr>sched := SFill\<rparr>))"
    if "failPolicy (ctx_config (ctx s)) = FailFast" "failed (ctx s)"
    using astep.a_dropped [of "abs_exec r s" i F] that SPolicy assms(1)
    by (simp add: abs_exec_def a_drop_def exec_ok_def)
  then have "matched r F s (s\<lparr>sched := SFill\<rparr>)"
    if "failPolicy (ctx_config (ctx s)) = FailFast" "failed (ctx s)"
    using that assms(1) by (simp add: matched_def exec_ok_def steps_one)
  moreover have "matched r F s (s\<lparr>sched := SSubmit i\<rparr>)"
    by (rule matched_same [OF assms(1)]) (simp_all add: abs_exec_def SPolicy)
  ultimately show ?thesis using SPolicy assms(2) by (auto split: if_splits)
next
  case (SStart i)
  with matched_start [OF assms(1)] assms(2) show ?thesis by auto
next
  case (SPost i)
  with matched_post [OF assms(1)] assms(2) show ?thesis by auto
next
  case (SInline i)
  with assms show ?thesis by (auto simp: abs_exec_def split: if_splits intro!: matched_same)
next
  case SFinish
  with assms show ?thesis
    by (auto simp: abs_exec_def sched_finish_def Let_def intro!: matched_same)
qed (use assms in \<open>auto simp: abs_exec_def intro!: matched_same\<close>)

lemma map_of_put_job:
  assumes "distinct (map fst js)" "k < length js" "js ! k = (i, pc)"
  shows "map_of (put_job k i p js) = (map_of js)(i := p)"
  using map_of_update_nth [OF assms] by (simp add: put_job_def split: option.split)

lemma matched_jobI:
  assumes "exec_ok r F s" "k < length (jobs s)" "jobs s ! k = (i, pc)" "jobs s1 = jobs s"
    and "astep F (abs_exec r s) ((abs_exec r s1)\<lparr>a_pc := (map_of (jobs s))(i := p)\<rparr>)"
    and "shape r F (graph (ctx s1))" "ctx_config (ctx s1) = ctx_config (ctx s)"
  shows "matched r F s (s1\<lparr>jobs := put_job k i p (jobs s1)\<rparr>)"
proof -
  have d: "distinct (map fst (jobs s))" using assms(1) by (simp add: exec_ok_def)
  have "abs_exec r (s1\<lparr>jobs := put_job k i p (jobs s1)\<rparr>)
      = (abs_exec r s1)\<lparr>a_pc := (map_of (jobs s))(i := p)\<rparr>"
    using map_of_put_job [OF d assms(2,3)] assms(4) by (simp add: abs_exec_def)
  with assms(4-7) distinct_put_job [OF d assms(2,3)] show ?thesis
    by (simp add: matched_def steps_one)
qed

lemma job_in_flow:
  assumes "exec_ok r F s" "k < length (jobs s)" "jobs s ! k = (i, pc)"
  shows "map_of (jobs s) i = Some pc" "i \<in> fV F" "pc_ids F i pc"
proof -
  have "distinct (map fst (jobs s))" "(i, pc) \<in> set (jobs s)"
    using assms by (auto simp: exec_ok_def in_set_conv_nth)
  then show m: "map_of (jobs s) i = Some pc" by simp
  then show "i \<in> fV F" "pc_ids F i pc" using assms(1) by (auto simp: exec_ok_def inv2_def inv_def inv_ids_def)
qed

lemma map_option_upd [simp]: "map_option f \<circ> m(i \<mapsto> x) = (map_option f \<circ> m)(i \<mapsto> f x)"
  by auto

lemma matched_job:
  assumes "flow_ok F" "exec_ok r F s" "k < length (jobs s)" "jobs s ! k = (i, pc)"
    and "job_step i pc res s = (s1, p)"
  shows "matched r F s (s1\<lparr>jobs := put_job k i p (jobs s1)\<rparr>)"
proof -
  note job = job_in_flow [OF assms(2-4)]
  note i = exec_okD [OF assms(2) job(2)]
  obtain n where n: "getNode (graph (ctx s)) i = Some n" "downstream n = fdown F i" using i(3) by blast
  have sh: "shape r F (graph (ctx s))" and pol: "fpol F = failPolicy (ctx_config (ctx s))"
    using assms(2) by (auto simp: exec_ok_def)
  have down: "down_of (graph (ctx s)) i = fdown F i" using sh job(2) by (simp add: shape_def)
  have child: "\<exists>m. getNode (graph (ctx s)) c = Some m \<and> status m = nst r (graph (ctx s)) c
      \<and> indegree m = ndeg r (graph (ctx s)) c \<and> downstream m = fdown F c
      \<and> tid_runId c = r \<and> c \<in> graph_ids r (graph (ctx s))" if "c \<in> fV F" for c
    using exec_okD [OF assms(2) that] by auto
  have inV: "c \<in> fV F" if "c \<in> set (fdown F i)" for c using flow_okD(4) [OF assms(1) job(2) that] .
  note I = matched_jobI [OF assms(2-4)]
  let ?a = "abs_exec r s"
  show ?thesis
  proof (cases pc)
    case JPosted
    show ?thesis
    proof (cases "res_ok res")
      case True
      then have s1: "s1 = s\<lparr>ctx := fst (run_job i res (ctx s))\<rparr>" "p = Some (JChildren (fdown F i))"
        using assms(5) JPosted n by (auto simp: run_job_def node_finished_def Let_def split: prod.splits)
      show ?thesis
        using astep.a_run_ok [of ?a i F] job(1) JPosted True n i sh unfolding s1
        by (intro I) (auto simp: abs_exec_def run_job_def node_finished_def Let_def nst_setStatus
            ndeg_setStatus shape_setStatus res_ok_def)
    next
      case False
      then have s1: "s1 = s\<lparr>ctx := fst (run_job i res (ctx s))\<rparr>"
          "p = Some (if isFailureLike (res_status res) then JMark else JDecrement)"
        using assms(5) JPosted n by (auto simp: run_job_def node_finished_def Let_def split: prod.splits)
      show ?thesis
        using astep.a_run_fail [of ?a i "res_status res" F] job(1) JPosted False n i sh unfolding s1
        by (intro I) (auto simp: abs_exec_def run_job_def node_finished_def Let_def nst_setStatus
            ndeg_setStatus shape_setStatus res_ok_def)
    qed
  next
    case JMark
    have "after_mark i (ctx s) = a_mark_pc F i" unfolding after_mark_def a_mark_pc_def pol down ..
    then have "s1 = s\<lparr>ctx := markFailed (ctx s)\<rparr>" "p = Some (a_mark_pc F i)"
      using assms(5) JMark by auto
    then show ?thesis using astep.a_mark [of ?a i F] job(1) JMark sh
      by (intro I) (auto simp: abs_exec_def)
  next
    case (JChildren cs)
    show ?thesis
    proof (cases cs)
      case Nil
      with JChildren assms(5) job(1) sh show ?thesis
        using astep.a_child_nil [of ?a i F] by (intro I) (auto simp: abs_exec_def)
    next
      case (Cons c cs')
      then have "c \<in> fV F" using inV job(3) JChildren by auto
      from child [OF this] obtain m where
        m: "getNode (graph (ctx s)) c = Some m" "status m = nst r (graph (ctx s)) c" by blast
      have "s1 = s" "p = Some (if child_closed (status m) then JChildren cs' else JDec c cs')"
        using assms(5) JChildren Cons m by (auto split: if_splits)
      then show ?thesis using astep.a_child_closed [of ?a i c cs' F] astep.a_child_open [of ?a i c cs' F]
          job(1) JChildren Cons m sh
        by (intro I) (auto simp: abs_exec_def)
    qed
  next
    case (JDec c cs)
    then have "c \<in> fV F" using inV job(3) by auto
    from child [OF this] obtain m where
      m: "getNode (graph (ctx s)) c = Some m" "indegree m = ndeg r (graph (ctx s)) c" "tid_runId c = r" by blast
    have s1: "s1 = s\<lparr>ctx := (ctx s)\<lparr>graph := updNode c (\<lambda>_. m\<lparr>indegree := indegree m - 1\<rparr>) (graph (ctx s))\<rparr>\<rparr>"
      "p = Some (if indegree m - 1 = 0 then JPush c cs else JChildren cs)"
      using assms(5) JDec m(1) by (auto simp: decrementIndegree_def Let_def)
    show ?thesis using astep.a_dec [of ?a i c cs F] job(1) JDec sh m unfolding s1
      by (intro I) (auto simp: abs_exec_def nst_decrement shape_decrement)
  next
    case (JPush c cs)
    with assms(5) job(1) sh show ?thesis
      using astep.a_push [of ?a i c cs F] by (intro I) (auto simp: abs_exec_def)
  next
    case (JSkip q vis)
    show ?thesis
    proof (cases q)
      case Nil
      with JSkip assms(5) job(1) sh show ?thesis
        using astep.a_skip_nil [of ?a i vis F] by (intro I) (auto simp: abs_exec_def)
    next
      case (Cons c q0)
      then have "c \<in> fV F" using job(3) JSkip by auto
      from child [OF this] obtain m where
        m: "getNode (graph (ctx s)) c = Some m" "downstream m = fdown F c" "tid_runId c = r"
          "c \<in> graph_ids r (graph (ctx s))" by blast
      obtain q' vis' where v: "foldl visit (q0, vis) (fdown F c) = (q', vis')" by fastforce
      have "s1 = s\<lparr>ctx := skip_node i c (ctx s)\<rparr>" "p = Some (JSkip q' vis')"
        using assms(5) JSkip Cons m v by auto
      then show ?thesis using astep.a_skip [of ?a i c q0 vis F q' vis'] job(1) JSkip Cons sh m v
        by (intro I) (auto simp: abs_exec_def nst_setStatus ndeg_setStatus shape_setStatus)
    qed
  next
    case JDecrement
    with assms(5) job(1) sh show ?thesis
      using astep.a_decrement [of ?a i F] by (intro I) (auto simp: abs_exec_def)
  next
    case JNotify
    have h: "hold_of (if sched s = SBlocked then SPredQueue else sched s) = hold_of (sched s)" by simp
    from JNotify assms(5) job(1) sh show ?thesis
      using astep.a_notify [of ?a i F] by (intro I) (auto simp: abs_exec_def)
  qed
qed

lemma exec_ok_step:
  assumes "flow_ok F" "exec_ok r F s" "exec_step s s'"
  shows "exec_ok r F s' \<and> matched r F s s'"
proof -
  from assms(3) obtain c where c: "exec_act c s = Some s'" by (auto simp: exec_step_iff)
  have m: "matched r F s s'"
  proof (cases c)
    case Sched
    with c matched_sched [OF assms(2)] show ?thesis by simp
  next
    case (Job k res)
    with c show ?thesis using matched_job [OF assms(1,2)] by (auto split: if_splits prod.splits)
  next
    case SpuriousWakeup
    with c assms(2) show ?thesis by (auto split: if_splits simp: abs_exec_def intro!: matched_same)
  qed
  have "inv2 F (abs_exec r s')"
    by (rule steps_invariant [of "astep F" "abs_exec r s"])
      (use m assms in \<open>auto simp: matched_def exec_ok_def intro: inv2_step\<close>)
  with m assms(2) show ?thesis by (auto simp: matched_def exec_ok_def)
qed

subsection \<open>The start\<close>

text \<open>What \<^verbatim>\<open>execute\<close> is called on: a fresh, acyclic graph, its nodes iterated in any order.\<close>

definition runnable :: "string \<Rightarrow> DagGraph \<Rightarrow> string list \<Rightarrow> bool" where
  "runnable r g iterN \<longleftrightarrow> wf_graph r g \<and> fresh_graph r g \<and> acyclic (edge_rel r g)
     \<and> distinct iterN \<and> set iterN = dom (nodes g)"

definition flow_of :: "string \<Rightarrow> DagConfig \<Rightarrow> DagGraph \<Rightarrow> flow" where
  "flow_of r cfg g = \<lparr>fV = graph_ids r g, fdown = down_of g, fdeps = deps_of g, fpol = failPolicy cfg\<rparr>"

lemma flow_of_simps [simp]:
  "fV (flow_of r cfg g) = graph_ids r g" "fdown (flow_of r cfg g) = down_of g"
  "fdeps (flow_of r cfg g) = deps_of g" "fpol (flow_of r cfg g) = failPolicy cfg"
  by (simp_all add: flow_of_def)

lemma flow_ok_flow_of:
  assumes "runnable r g iterN" shows "flow_ok (flow_of r cfg g)"
proof -
  have "inj_on tid_value (graph_ids r g)"
    by (rule inj_onI) (auto simp: graph_ids_def intro: TaskId.expand)
  moreover have "fedges (flow_of r cfg g) = edge_rel r g" by (auto simp: fedges_def edge_rel_def)
  ultimately show ?thesis using assms by (auto simp: flow_ok_def runnable_def wf_graph_def)
qed

lemma initReadyQueue_simps:
  "fst (foldl init_ready_node (q, c) ns) = q @ map node_id (filter (\<lambda>n. indegree n = 0) ns)"
  "graph (snd (foldl init_ready_node (q, c) ns)) = graph c"
  "failed (snd (foldl init_ready_node (q, c) ns)) = failed c"
  "running (snd (foldl init_ready_node (q, c) ns)) = running c"
  "taskResults (snd (foldl init_ready_node (q, c) ns)) = taskResults c"
  "ctx_config (snd (foldl init_ready_node (q, c) ns)) = ctx_config c"
  by (induction ns arbitrary: q c) (simp_all add: init_ready_node_def)

lemma execute_init_simps:
  "readyQueue (execute_init iterN w c) =
     map node_id (filter (\<lambda>n. indegree n = 0) (List.map_filter (nodes (graph c)) iterN))"
  "graph (ctx (execute_init iterN w c)) = graph c" "failed (ctx (execute_init iterN w c)) = failed c"
  "running (ctx (execute_init iterN w c)) = running c"
  "taskResults (ctx (execute_init iterN w c)) = taskResults c"
  "ctx_config (ctx (execute_init iterN w c)) = ctx_config c"
  "jobs (execute_init iterN w c) = []" "sched (execute_init iterN w c) = SFill"
  "maxParallel (execute_init iterN w c) = limit_parallel (ctx_config c)"
  "finalResult (execute_init iterN w c) = default_TaskResult\<lparr>res_status := Success\<rparr>"
  using initReadyQueue_simps [of "[]" c "List.map_filter (nodes (graph c)) iterN"]
  by (auto simp: execute_init_def initReadyQueue_def split: prod.split)

lemma key_node:
  assumes "wf_graph r g" "k \<in> dom (nodes g)"
  shows "\<exists>i n. i \<in> graph_ids r g \<and> makeKey i = k \<and> nodes g k = Some n \<and> getNode g i = Some n \<and> node_id n = i"
proof -
  obtain i where i: "i \<in> graph_ids r g" "makeKey i = k" using assms by (auto simp: wf_graph_def)
  then obtain n where "getNode g i = Some n" "node_id n = i" using assms(1) by (auto simp: wf_graph_def)
  with i show ?thesis by (auto simp: getNode_def)
qed

lemma map_filter_nodes:
  assumes "wf_graph r g" "set ks \<subseteq> dom (nodes g)"
  shows "map makeKey (map node_id (List.map_filter (nodes g) ks)) = ks"
  using assms(2)
proof (induction ks)
  case (Cons k ks)
  then obtain i n where "makeKey i = k" "nodes g k = Some n" "node_id n = i"
    using key_node [OF assms(1), of k] by auto
  with Cons show ?case by (simp add: List.map_filter_simps)
qed (simp add: List.map_filter_simps)

lemma ready_nodes:
  assumes "runnable r g iterN"
  defines "q \<equiv> map node_id (filter (\<lambda>n. indegree n = 0) (List.map_filter (nodes g) iterN))"
  shows "distinct q" "set q = {i \<in> graph_ids r g. ndeg r g i = 0}"
proof -
  have w: "wf_graph r g" and k: "distinct iterN" "set iterN = dom (nodes g)"
    using assms(1) by (auto simp: runnable_def)
  have "distinct (map node_id (List.map_filter (nodes g) iterN))"
    using map_filter_nodes [OF w, of iterN] k by (metis distinct_map order_refl)
  then show "distinct q" unfolding q_def by (rule distinct_map_filter)
  show "set q = {i \<in> graph_ids r g. ndeg r g i = 0}"
  proof
    show "set q \<subseteq> {i \<in> graph_ids r g. ndeg r g i = 0}"
    proof
      fix i assume "i \<in> set q"
      then obtain n x where n: "nodes g x = Some n" "indegree n = 0" "i = node_id n" "x \<in> dom (nodes g)"
        by (auto simp: q_def set_map_filter)
      with key_node [OF w, of x] have "i \<in> graph_ids r g" "getNode g i = Some n" by auto
      then show "i \<in> {i \<in> graph_ids r g. ndeg r g i = 0}" using n by (simp add: ndeg_def graph_ids_def)
    qed
    show "{i \<in> graph_ids r g. ndeg r g i = 0} \<subseteq> set q"
    proof
      fix i assume i: "i \<in> {i \<in> graph_ids r g. ndeg r g i = 0}"
      then obtain n where n: "getNode g i = Some n" "node_id n = i" using w by (auto simp: wf_graph_def)
      then have "indegree n = 0" using i by (auto simp: ndeg_def graph_ids_def)
      moreover have "makeKey i \<in> set iterN" using n k by (auto simp: getNode_def)
      ultimately show "i \<in> set q" using n by (auto simp: q_def set_map_filter getNode_def image_iff)
    qed
  qed
qed

abbreviation start_exec :: "string list \<Rightarrow> bool \<Rightarrow> DagConfig \<Rightarrow> DagEventCallbacks \<Rightarrow> DagGraph \<Rightarrow> DagExecutor" where
  "start_exec iterN w cfg cbs g \<equiv> execute_init iterN w (mk_DagRunContext cfg g cbs)"

lemma mk_ctx_simps [simp]:
  "graph (mk_DagRunContext cfg g cbs) = g" "ctx_config (mk_DagRunContext cfg g cbs) = cfg"
  "running (mk_DagRunContext cfg g cbs) = 0" "\<not> failed (mk_DagRunContext cfg g cbs)"
  "taskResults (mk_DagRunContext cfg g cbs) = Map.empty" "trace (mk_DagRunContext cfg g cbs) = []"
  by (simp_all add: mk_DagRunContext_def)

lemma exec_ok_init:
  assumes "runnable r g iterN"
  shows "exec_ok r (flow_of r cfg g) (start_exec iterN w cfg cbs g)"
proof -
  have fresh: "nst r g i = Pending \<and> ndeg r g i = int (length (deps_of g i))" if "i \<in> graph_ids r g" for i
    using assms that by (fastforce simp: runnable_def fresh_graph_def nst_def ndeg_def deps_of_def graph_ids_def)
  have "a_initial (flow_of r cfg g) (abs_exec r (start_exec iterN w cfg cbs g))"
    using ready_nodes [OF assms] fresh by (simp add: a_initial_def execute_init_simps)
  from inv2_initial [OF flow_ok_flow_of [OF assms] this]
  show ?thesis by (simp add: exec_ok_def execute_init_simps shape_def)
qed

theorem exec_ok_reach:
  assumes "runnable r g iterN" "steps exec_step (start_exec iterN w cfg cbs g) s"
  shows "exec_ok r (flow_of r cfg g) s"
  using assms(2) exec_ok_init [OF assms(1)]
  by (rule steps_invariant) (use exec_ok_step [OF flow_ok_flow_of [OF assms(1)]] in blast)

end
