(* ===== verification/Dag_Exec_Props.thy ===== *)
theory Dag_Exec_Props
  imports Dag_Exec_Correct
begin

text \<open>
  The properties of \<^verbatim>\<open>DagExecutor::execute\<close> over all interleavings: the order of starts, one start
  per node, the limit on parallelism, the outcome of a finished run under both failure policies,
  and the two defects of the shut-down protocol (a wake-up that can be lost, a notification that
  can reach a destroyed executor).
\<close>

subsection \<open>The running counter\<close>

definition active :: "DagExecutor \<Rightarrow> nat" where
  "active s = length (filter (\<lambda>(i, p). p \<noteq> JNotify) (jobs s))"

fun filling :: "sched_pc \<Rightarrow> bool" where
  "filling SPop = True"
| "filling (SCheck i) = True"
| "filling (SPolicy i) = True"
| "filling (SSubmit i) = True"
| "filling (SStart i) = True"
| "filling (SPost i) = True"
| "filling _ = False"

definition inv_run :: "DagExecutor \<Rightarrow> bool" where
  "inv_run s \<longleftrightarrow> running (ctx s) = int (active s) \<and> running (ctx s) \<le> maxParallel s
     \<and> (filling (sched s) \<longrightarrow> running (ctx s) < maxParallel s)"

lemma filter_update_nth:
  assumes "k < length js"
  shows "length (filter P (js[k := y])) + (if P (js ! k) then 1 else 0)
       = length (filter P js) + (if P y then 1 else 0)"
    and "length (filter P (take k js @ drop (Suc k) js)) + (if P (js ! k) then 1 else 0)
       = length (filter P js)"
proof -
  have js: "filter P js = filter P (take k js @ js ! k # drop (Suc k) js)"
    using assms by (metis id_take_nth_drop)
  show "length (filter P (js[k := y])) + (if P (js ! k) then 1 else 0)
       = length (filter P js) + (if P y then 1 else 0)"
    unfolding js using assms by (simp add: upd_conv_take_nth_drop)
  show "length (filter P (take k js @ drop (Suc k) js)) + (if P (js ! k) then 1 else 0)
       = length (filter P js)"
    unfolding js by simp
qed

lemma active_put_job:
  assumes "k < length (jobs s)" "jobs s ! k = (i, pc)"
  shows "active (s\<lparr>jobs := put_job k i p (jobs s)\<rparr>) + (if pc \<noteq> JNotify then 1 else 0)
       = active s + (if p \<noteq> None \<and> p \<noteq> Some JNotify then 1 else 0)"
proof (cases p)
  case (Some pc')
  with filter_update_nth(1) [OF assms(1), of "\<lambda>(i, p). p \<noteq> JNotify" "(i, pc')"] assms(2)
  show ?thesis by (simp add: active_def put_job_def)
next
  case None
  with filter_update_nth(2) [OF assms(1), of "\<lambda>(i, p). p \<noteq> JNotify"] assms(2)
  show ?thesis by (simp add: active_def put_job_def)
qed

text \<open>Only \<open>JDecrement\<close> touches the counter; the last step of a job removes it.\<close>

lemma job_step_frame:
  assumes "job_step i pc res s = (s1, p)"
  shows "jobs s1 = jobs s" "maxParallel s1 = maxParallel s"
    "running (ctx s1) = running (ctx s) - (if pc = JDecrement then 1 else 0)"
    "p = None \<longleftrightarrow> pc = JNotify" "p = Some JNotify \<longleftrightarrow> pc = JDecrement"
    "sched s1 = (if pc = JNotify \<and> sched s = SBlocked then SPredQueue else sched s)"
    "finalResult s1 = finalResult s" "onDagWorker s1 = onDagWorker s"
  using assms
  by (cases "(i, pc, res, s)" rule: job_step.cases;
      auto simp: run_job_def node_finished_def after_mark_def decrementIndegree_def Let_def
        split: option.splits prod.splits if_splits FailPolicy.splits)+

lemma sched_post_frame:
  "maxParallel (sched_post i s) = maxParallel s"
  "running (ctx (sched_post i s)) = running (ctx s) + int (length (jobs (sched_post i s)) - length (jobs s))"
  "jobs (sched_post i s) = jobs s \<or> jobs (sched_post i s) = jobs s @ [(i, JPosted)]"
  "\<not> filling (sched (sched_post i s))"
  by (simp_all add: sched_post_def split: option.split)

lemma sched_check_frame [simp]:
  "jobs (sched_check i n s) = jobs s" "ctx (sched_check i n s) = ctx s"
  "maxParallel (sched_check i n s) = maxParallel s"
  by (simp_all add: sched_check_def split: option.split)

lemma sched_check_next: "sched (sched_check i n s) = SFill \<or> sched (sched_check i n s) = n"
  by (simp add: sched_check_def split: option.split)

lemma sched_check_not_post [simp]: "n \<noteq> SPost j \<Longrightarrow> sched (sched_check i n s) \<noteq> SPost j"
  using sched_check_next [of i n s] by auto

lemma inv_run_step:
  assumes "inv_run s" "exec_step s s'"
  shows "inv_run s'"
proof -
  from assms(2) obtain c where c: "exec_act c s = Some s'" by (auto simp: exec_step_iff)
  show ?thesis
  proof (cases c)
    case (Job k res)
    obtain i pc where j: "k < length (jobs s)" "jobs s ! k = (i, pc)"
      using c Job by (cases "jobs s ! k") (auto split: if_splits)
    obtain s1 p where st: "job_step i pc res s = (s1, p)" by fastforce
    note f = job_step_frame [OF st]
    have s': "s' = s1\<lparr>jobs := put_job k i p (jobs s1)\<rparr>" using c Job j st by auto
    have "active s' + (if pc \<noteq> JNotify then 1 else 0)
        = active s + (if p \<noteq> None \<and> p \<noteq> Some JNotify then 1 else 0)"
      using active_put_job [OF j] f(1) unfolding s' active_def by simp
    with f assms(1) show ?thesis unfolding s' inv_run_def by (auto split: if_splits)
  next
    case Sched
    show ?thesis
    proof (cases "sched s")
      case (SPost i)
      then have s': "s' = sched_post i s" using c Sched by simp
      from sched_post_frame [of i s] assms(1) SPost show ?thesis
        unfolding s' inv_run_def active_def by auto
    next
      case (SCheck i)
      then have s': "s' = sched_check i (SPolicy i) s" using c Sched by simp
      then show ?thesis using assms(1) SCheck sched_check_next [of i "SPolicy i" s]
        by (auto simp: inv_run_def active_def)
    next
      case (SSubmit i)
      then have "s' = sched_check i (SStart i) s \<or> s' = s\<lparr>sched := SFill\<rparr>"
        using c Sched by (auto split: option.splits)
      then show ?thesis using assms(1) SSubmit sched_check_next [of i "SStart i" s]
        by (auto simp: inv_run_def active_def)
    next
      case SPop
      then show ?thesis using c Sched assms(1)
        by (auto simp: inv_run_def active_def split: list.splits)
    qed (use c Sched assms(1) in
        \<open>auto simp: inv_run_def active_def sched_finish_def Let_def split: if_splits\<close>)
  next
    case SpuriousWakeup
    with c assms(1) show ?thesis by (auto simp: inv_run_def active_def split: if_splits)
  qed
qed

lemma maxParallel_step: "exec_step s s' \<Longrightarrow> maxParallel s' = maxParallel s"
proof -
  assume "exec_step s s'"
  then obtain c where c: "exec_act c s = Some s'" by (auto simp: exec_step_iff)
  show ?thesis
  proof (cases c)
    case (Job k res)
    then show ?thesis using c job_step_frame(2) by (auto split: if_splits prod.splits)
  next
    case Sched
    with c show ?thesis
      by (cases "sched s") (auto simp: sched_post_frame sched_finish_def Let_def
          split: if_splits list.splits option.splits)
  qed (use c in \<open>auto split: if_splits\<close>)
qed

lemma limit_parallel_pos: "1 \<le> limit_parallel cfg"
  by (simp add: limit_parallel_def Let_def)

lemma inv_run_reach:
  assumes "steps exec_step (start_exec iterN w cfg cbs g) s"
  shows "inv_run s \<and> maxParallel s = limit_parallel cfg"
proof -
  have init: "inv_run (start_exec iterN w cfg cbs g)
      \<and> maxParallel (start_exec iterN w cfg cbs g) = limit_parallel cfg"
    using limit_parallel_pos [of cfg] by (simp add: inv_run_def active_def execute_init_simps)
  show ?thesis using assms init
    by (rule steps_invariant) (use inv_run_step maxParallel_step in auto)
qed

subsection \<open>Starts in the trace\<close>

fun is_start :: "TaskId \<Rightarrow> dag_event \<Rightarrow> bool" where
  "is_start i (WsStart j t q) = (j = i)"
| "is_start i _ = False"

definition starts :: "TaskId \<Rightarrow> DagRunContext \<Rightarrow> nat" where
  "starts i c = length (filter (is_start i) (trace c))"

lemma starts_emit [simp]: "starts i (emit e c) = starts i c + (if is_start i e then 1 else 0)"
  by (simp add: starts_def emit_def)

lemma starts_frame [simp, frame_simps]:
  "starts i (incrementRunning c) = starts i c" "starts i (decrementRunning c) = starts i c"
  "starts i (markFailed c) = starts i c" "starts i (setTaskResults j res c) = starts i c"
  "starts i (c\<lparr>graph := g\<rparr>) = starts i c"
  by (simp_all add: starts_def incrementRunning_def decrementRunning_def markFailed_def setTaskResults_def)

lemma starts_setNodeStatus [simp]: "starts i (setNodeStatus j st c) = starts i c"
  by (simp add: setNodeStatus_def Let_def)

lemma starts_ops [simp]:
  "starts i (ctx_finish b c) = starts i c" "starts i (skip_node j k c) = starts i c"
  "starts i (submit_effects j n c) = starts i c + (if j = i then 1 else 0)"
  "starts i (post_effects j n c) = starts i c"
  by (simp_all add: ctx_finish_def skip_node_def submit_effects_def post_effects_def Let_def)

lemma starts_job: "job_step j pc res s = (s1, p) \<Longrightarrow> starts i (ctx s1) = starts i (ctx s)"
  by (cases "(j, pc, res, s)" rule: job_step.cases)
    (auto simp: run_job_def node_finished_def Let_def decrementIndegree_def
      split: option.splits prod.splits if_splits)

text \<open>Which statuses one step can change.\<close>

lemma nst_other:
  "tid_runId j = r \<Longrightarrow> i \<noteq> j \<Longrightarrow> nst r (updNode j f g) i = nst r g i"
  by (simp add: nst_def getNode_updNode)

lemma nst_job:
  assumes "job_step j pc res s = (s1, p)" "exec_ok r F s" "flow_ok F" "k < length (jobs s)" "jobs s ! k = (j, pc)"
    and "pc = JPosted \<longrightarrow> i \<noteq> j" "\<forall>c q vis. pc = JSkip (c # q) vis \<longrightarrow> i \<noteq> c"
  shows "nst r (graph (ctx s1)) i = nst r (graph (ctx s)) i"
proof -
  note job = job_in_flow [OF assms(2,4,5)]
  have run: "tid_runId c = r" if "c \<in> fV F" for c using exec_okD(1) [OF assms(2) that] .
  have down: "tid_runId c = r" if "c \<in> set (fdown F j)" for c
    using run flow_okD(4) [OF assms(3) job(2) that] by blast
  show ?thesis
    using assms(1,6,7) job(3) run [OF job(2)] run down
    by (cases "(j, pc, res, s)" rule: job_step.cases)
      (auto simp: run_job_def node_finished_def Let_def decrementIndegree_def nst_other nst_decrement
        split: option.splits prod.splits if_splits)
qed

definition inv_starts :: "string \<Rightarrow> flow \<Rightarrow> DagExecutor \<Rightarrow> bool" where
  "inv_starts r F s \<longleftrightarrow> (\<forall>i \<in> fV F. starts i (ctx s)
     = (if nst r (graph (ctx s)) i \<in> {Pending, Skipped} \<or> sched s = SPost i then 0 else 1))"

lemma inv_starts_job:
  assumes ok: "flow_ok F" "exec_ok r F s" and inv: "inv_starts r F s"
    and j: "k < length (jobs s)" "jobs s ! k = (j, pc)" and st: "job_step j pc res s = (s1, p)"
  shows "inv_starts r F (s1\<lparr>jobs := js\<rparr>)"
proof -
  note job = job_in_flow [OF ok(2) j] and f = job_step_frame [OF st]
  have a: "inv F (abs_exec r s)" using ok(2) by (simp add: exec_ok_def inv2_def)
  have post: "sched s1 = SPost i \<longleftrightarrow> sched s = SPost i" for i using f(6) by auto
  have "nst r (graph (ctx s1)) i \<in> {Pending, Skipped} \<longleftrightarrow> nst r (graph (ctx s)) i \<in> {Pending, Skipped}"
    if i: "i \<in> fV F" for i
  proof (cases "(pc = JPosted \<longrightarrow> i \<noteq> j) \<and> (\<forall>c q vis. pc = JSkip (c # q) vis \<longrightarrow> i \<noteq> c)")
    case True
    then show ?thesis using nst_job [OF st ok(2,1) j, of i] by auto
  next
    case False
    show ?thesis
    proof (cases "pc = JPosted")
      case True
      with False have ij: "i = j" by auto
      obtain n where n: "getNode (graph (ctx s)) j = Some n" using exec_okD(3) [OF ok(2) job(2)] by blast
      have g: "j \<in> graph_ids r (graph (ctx s))" using exec_okD(2) [OF ok(2) job(2)] .
      have "nst r (graph (ctx s)) j = Running"
        using a job(1) True by (force simp: inv_def inv_st_def)
      moreover have "nst r (graph (ctx s1)) j \<notin> {Pending, Skipped}"
        using st True n g failure_like_not [OF failure_status_like [of "res_status res"]]
        by (auto simp: run_job_def node_finished_def Let_def nst_setStatus split: if_splits)
      ultimately show ?thesis using ij by simp
    next
      case notpost: False
      with False obtain q vis where pc: "pc = JSkip (i # q) vis" by auto
      then have "a_pc (abs_exec r s) j = Some (JSkip (i # q) vis)" using job(1) by simp
      from skip_head(6) [OF ok(1) a this] have "nst r (graph (ctx s)) i \<in> {Pending, Skipped}" by simp
      moreover have "nst r (graph (ctx s1)) i \<in> {Pending, Skipped}"
      proof -
        obtain n where n: "getNode (graph (ctx s)) i = Some n" using exec_okD(3) [OF ok(2) i] by blast
        have "graph (ctx s1) = updNode i (setStatus Skipped) (graph (ctx s))"
          using st pc n by auto
        then show ?thesis using exec_okD(2) [OF ok(2) i] by (simp add: nst_setStatus)
      qed
      ultimately show ?thesis by blast
    qed
  qed
  with inv post starts_job [OF st] show ?thesis by (simp add: inv_starts_def)
qed

lemma inv_starts_step:
  assumes "flow_ok F" "exec_ok r F s" "inv_starts r F s" "exec_step s s'"
  shows "inv_starts r F s'"
proof -
  from assms(4) obtain c where c: "exec_act c s = Some s'" by (auto simp: exec_step_iff)
  have a: "inv F (abs_exec r s)" using assms(2) by (simp add: exec_ok_def inv2_def)
  show ?thesis
  proof (cases c)
    case (Job k res)
    then show ?thesis using c inv_starts_job [OF assms(1-3)] by (auto split: if_splits prod.splits)
  next
    case Sched
    show ?thesis
    proof (cases "sched s")
      case (SPost i)
      have h: "a_hold (abs_exec r s) = HStarted i" using SPost by simp
      from hold_started [OF a h] have i: "i \<in> fV F" "nst r (graph (ctx s)) i = Running" by auto
      obtain n where "getNode (graph (ctx s)) i = Some n" using exec_okD(3) [OF assms(2) i(1)] by blast
      then have "graph (ctx s') = graph (ctx s)" "sched s' = SFill \<or> sched s' = SInline i"
        "starts j (ctx s') = starts j (ctx s) + (if i = j then 1 else 0)" for j
        using c Sched SPost by (auto simp: sched_post_def split: if_splits)
      with assms(3) SPost i show ?thesis by (auto simp: inv_starts_def)
    next
      case (SStart i)
      have h: "a_hold (abs_exec r s) = HPopped i" using SStart by simp
      from hold_popped [OF a h] have i: "i \<in> fV F" "nst r (graph (ctx s)) i = Pending" by auto
      have s': "s' = s\<lparr>ctx := setNodeStatus i Running (ctx s), sched := SPost i\<rparr>" using c Sched SStart by simp
      show ?thesis using assms(3) SStart i exec_okD(2) [OF assms(2) i(1)]
        unfolding s' by (auto simp: inv_starts_def nst_setStatus)
    next
      case (SCheck i)
      then show ?thesis using c Sched assms(3) sched_check_next [of i "SPolicy i" s]
        by (auto simp: inv_starts_def)
    next
      case (SSubmit i)
      then show ?thesis using c Sched assms(3) sched_check_next [of i "SStart i" s]
        by (auto simp: inv_starts_def split: option.splits)
    qed (use c Sched assms(3) in
        \<open>auto simp: inv_starts_def sched_finish_def Let_def split: if_splits list.splits\<close>)
  next
    case SpuriousWakeup
    with c assms(3) show ?thesis by (auto simp: inv_starts_def split: if_splits)
  qed
qed

lemma starts_init:
  "starts i c = 0 \<Longrightarrow> starts i (snd (foldl init_ready_node (q, c) ns)) = 0"
  by (induction ns arbitrary: q c) (simp_all add: init_ready_node_def)

lemma inv_starts_reach:
  assumes "runnable r g iterN" "steps exec_step (start_exec iterN w cfg cbs g) s"
  shows "exec_ok r (flow_of r cfg g) s \<and> inv_starts r (flow_of r cfg g) s"
proof -
  let ?F = "flow_of r cfg g" and ?s = "start_exec iterN w cfg cbs g"
  have "nst r g i = Pending" if "i \<in> graph_ids r g" for i
    using assms(1) that by (fastforce simp: runnable_def fresh_graph_def nst_def graph_ids_def)
  moreover have "starts i (ctx ?s) = 0" for i
    using starts_init [of i "mk_DagRunContext cfg g cbs" "[]"]
    by (simp add: execute_init_def initReadyQueue_def starts_def split: prod.split)
       (metis snd_conv)
  ultimately have "exec_ok r ?F ?s \<and> inv_starts r ?F ?s"
    using exec_ok_init [OF assms(1)] by (simp add: inv_starts_def execute_init_simps)
  from assms(2) this show ?thesis
    by (rule steps_invariant)
      (use exec_ok_step [OF flow_ok_flow_of [OF assms(1)]] inv_starts_step [OF flow_ok_flow_of [OF assms(1)]] in blast)
qed

end
