(* ===== verification/Dag_Exec_Theorems.thy ===== *)
theory Dag_Exec_Theorems
  imports Dag_Exec_Props
begin

text \<open>
  The properties of \<^verbatim>\<open>DagExecutor::execute\<close>, stated over every interleaving of the scheduling
  thread and the jobs, on a chain of two nodes as the concrete run.
\<close>

subsection \<open>A finished run\<close>

definition ended :: "sched_pc \<Rightarrow> bool" where
  "ended pc \<longleftrightarrow> pc = SFinish \<or> pc = SDone"

definition inv_end :: "DagExecutor \<Rightarrow> bool" where
  "inv_end s \<longleftrightarrow> (ended (sched s) \<longrightarrow> readyQueue s = [] \<and> active s = 0)
   \<and> finalResult s = (if sched s = SDone \<and> failed (ctx s)
        then default_TaskResult\<lparr>res_status := Failed, res_message := ''dag failed''\<rparr>
        else default_TaskResult\<lparr>res_status := Success\<rparr>)"

lemma active_zero: "active s = 0 \<longleftrightarrow> (\<forall>(i, p) \<in> set (jobs s). p = JNotify)"
  by (auto simp: active_def filter_empty_conv)

lemma inv_end_step:
  assumes "inv_run s" "inv_end s" "exec_step s s'"
  shows "inv_end s'"
proof -
  from assms(3) obtain c where c: "exec_act c s = Some s'" by (auto simp: exec_step_iff)
  show ?thesis
  proof (cases c)
    case (Job k res)
    obtain i pc where j: "k < length (jobs s)" "jobs s ! k = (i, pc)"
      using c Job by (cases "jobs s ! k") (auto split: if_splits)
    obtain s1 p where st: "job_step i pc res s = (s1, p)" by fastforce
    note f = job_step_frame [OF st]
    have s': "s' = s1\<lparr>jobs := put_job k i p (jobs s)\<rparr>" using c Job j st f(1) by auto
    show ?thesis
    proof (cases "ended (sched s)")
      case True
      then have z: "active s = 0" "readyQueue s = []" using assms(2) by (auto simp: inv_end_def)
      have "(i, pc) \<in> set (jobs s)" using j by (metis nth_mem)
      with z(1) have pc: "pc = JNotify" by (auto simp: active_zero)
      with st True have s1: "s1 = s" "p = None" by (auto simp: ended_def)
      have "active s' = 0"
        using active_put_job [OF j, of p] z(1) pc s1 unfolding s' by simp
      with z assms(2) s1 show ?thesis unfolding s' by (simp add: inv_end_def)
    next
      case False
      with f(6,7) assms(2) show ?thesis unfolding s'
        by (auto simp: inv_end_def ended_def split: if_splits)
    qed
  next
    case Sched
    show ?thesis
    proof (cases "sched s")
      case SExit
      then show ?thesis using c Sched assms(1,2)
        by (auto simp: inv_end_def ended_def inv_run_def active_def split: if_splits)
    next
      case SFinish
      then show ?thesis using c Sched assms(2)
        by (auto simp: inv_end_def ended_def sched_finish_def Let_def active_def)
    next
      case (SPost i)
      then show ?thesis using c Sched assms(2)
        by (auto simp: inv_end_def ended_def sched_post_def split: option.splits if_splits)
    next
      case (SCheck i)
      then show ?thesis using c Sched assms(2)
        by (auto simp: inv_end_def ended_def sched_check_def split: option.splits if_splits)
    next
      case (SSubmit i)
      then show ?thesis using c Sched assms(2)
        by (auto simp: inv_end_def ended_def sched_check_def split: option.splits if_splits)
    qed (use c Sched assms(2) in \<open>auto simp: inv_end_def ended_def split: if_splits list.splits\<close>)
  next
    case SpuriousWakeup
    with c assms(2) show ?thesis by (auto simp: inv_end_def ended_def split: if_splits)
  qed
qed

lemma inv_end_reach:
  assumes "steps exec_step (start_exec iterN w cfg cbs g) s"
  shows "inv_run s \<and> inv_end s"
proof -
  have "inv_run (start_exec iterN w cfg cbs g)" using inv_run_reach steps_refl by blast
  then have "inv_run (start_exec iterN w cfg cbs g) \<and> inv_end (start_exec iterN w cfg cbs g)"
    by (simp add: inv_end_def ended_def execute_init_simps)
  from assms this show ?thesis
    by (rule steps_invariant) (use inv_run_step inv_end_step in blast)
qed

lemma quiescent_end:
  assumes "inv_end s" "sched s = SDone" "distinct (map fst (jobs s))"
  shows "quiescent (abs_exec r s)"
proof -
  have "readyQueue s = []" "\<forall>(i, p) \<in> set (jobs s). p = JNotify"
    using assms(1,2) active_zero by (auto simp: inv_end_def ended_def)
  then show ?thesis using assms(2) by (auto simp: quiescent_def dest!: map_of_SomeD)
qed

subsection \<open>Results of the runner\<close>

text \<open>Every node that was run got Success, Failed, Timeout or Canceled from the runner.\<close>

definition results_proper :: "string \<Rightarrow> DagExecutor \<Rightarrow> bool" where
  "results_proper r s \<longleftrightarrow>
     (\<forall>i \<in> graph_ids r (graph (ctx s)). \<forall>res. nst r (graph (ctx s)) i \<noteq> Skipped
        \<and> taskResults (ctx s) i = Some res \<longrightarrow> res_ok res \<or> isFailureLike (res_status res))"

lemma done_facts:
  assumes "runnable r g iterN" "steps exec_step (start_exec iterN w cfg cbs g) s" "sched s = SDone"
  shows "inv2 (flow_of r cfg g) (abs_exec r s)" "quiescent (abs_exec r s)"
    "graph_ids r (graph (ctx s)) = graph_ids r g"
    "results_proper r s \<Longrightarrow> proper_results (flow_of r cfg g) (abs_exec r s)"
    "finalResult s = (if failed (ctx s)
        then default_TaskResult\<lparr>res_status := Failed, res_message := ''dag failed''\<rparr>
        else default_TaskResult\<lparr>res_status := Success\<rparr>)"
proof -
  note ok = exec_ok_reach [OF assms(1,2)]
  have e: "inv_end s" using inv_end_reach [OF assms(2)] by blast
  show "inv2 (flow_of r cfg g) (abs_exec r s)" using ok by (simp add: exec_ok_def)
  show "quiescent (abs_exec r s)" using quiescent_end [OF e assms(3)] ok by (simp add: exec_ok_def)
  show ids: "graph_ids r (graph (ctx s)) = graph_ids r g" using ok by (simp add: exec_ok_def shape_def)
  show "results_proper r s \<Longrightarrow> proper_results (flow_of r cfg g) (abs_exec r s)"
    using ids by (auto simp: results_proper_def proper_results_def res_ok_def)
  show "finalResult s = (if failed (ctx s)
        then default_TaskResult\<lparr>res_status := Failed, res_message := ''dag failed''\<rparr>
        else default_TaskResult\<lparr>res_status := Success\<rparr>)"
    using e assms(3) by (simp add: inv_end_def)
qed

subsection \<open>A concrete run: the chain of two nodes\<close>

definition demo_graph :: DagGraph where
  "demo_graph = build (map (stamp_run ''r'') chain_specs)"

definition demo_cfg :: "FailPolicy \<Rightarrow> DagConfig" where
  "demo_cfg p = \<lparr>dagId = ''r'', dag_name = ''demo'', failPolicy = p, maxParallel_cfg = 4\<rparr>"

definition demo_cbs :: DagEventCallbacks where
  "demo_cbs = \<lparr>has_onNodeStatusChanged = True, has_onDagFinished = True\<rparr>"

definition demo_start :: "FailPolicy \<Rightarrow> DagExecutor" where
  "demo_start p = start_exec [''r:a'', ''r:b''] False (demo_cfg p) demo_cbs demo_graph"

definition demo_result :: "TaskStatus \<Rightarrow> TaskResult" where
  "demo_result st = default_TaskResult\<lparr>res_status := st\<rparr>"

abbreviation node_a :: TaskId where "node_a \<equiv> TaskId ''a'' ''r''"
abbreviation node_b :: TaskId where "node_b \<equiv> TaskId ''b'' ''r''"

lemma demo_graph_ids: "graph_ids ''r'' demo_graph = {node_a, node_b}"
  unfolding demo_graph_def using build_views(1) [OF uniform_run_stamp [of "''r''" chain_specs]]
  by (simp add: chain_specs_def stamp_run_def insert_commute)

lemma acyclic_chain: "acyclic (spec_edges (map (stamp_run ''r'') chain_specs))"
proof -
  have "spec_edges (map (stamp_run ''r'') chain_specs) = {(''a'', ''b'')}"
    by (auto simp: spec_edges_def chain_specs_def stamp_run_def)
  then show ?thesis by (simp add: acyclic_insert) (simp add: acyclic_def)
qed

lemma demo_runnable: "runnable ''r'' demo_graph [''r:a'', ''r:b'']"
proof -
  note u = uniform_run_stamp [of "''r''" chain_specs, simplified]
  have w: "wf_graph ''r'' demo_graph" "fresh_graph ''r'' demo_graph" "acyclic (edge_rel ''r'' demo_graph)"
    using build_views(3,4) [OF u] build_acyclic [OF u acyclic_chain] by (simp_all add: demo_graph_def)
  then have "dom (nodes demo_graph) = {''r:a'', ''r:b''}"
    using demo_graph_ids by (simp add: wf_graph_def makeKey_def)
  with w show ?thesis by (auto simp: runnable_def)
qed

lemma demo_deps: "deps_of demo_graph node_b = [node_a]" "deps_of demo_graph node_a = []"
  by code_simp+

definition demo_ok :: "choice list" where
  "demo_ok = replicate 7 Sched @ replicate 7 (Job 0 (demo_result Success))
     @ replicate 7 Sched @ replicate 4 (Job 0 (demo_result Success)) @ replicate 4 Sched"

definition demo_fail :: "choice list" where
  "demo_fail = replicate 7 Sched @ replicate 6 (Job 0 (demo_result Failed)) @ replicate 4 Sched"

definition demo_lost :: "choice list" where
  "demo_lost = replicate 12 Sched @ replicate 6 (Job 0 (demo_result Failed)) @ [Sched]"

definition demo_late :: "choice list" where
  "demo_late = replicate 7 Sched @ replicate 5 (Job 0 (demo_result Failed)) @ replicate 4 Sched"

definition demo_ff :: "choice list" where
  "demo_ff = replicate 7 Sched @ replicate 2 (Job 0 (demo_result Failed))"

type_synonym view = "sched_pc \<times> (TaskId \<times> job_pc) list \<times> TaskId list \<times> TaskStatus \<times> TaskStatus
  \<times> TaskStatus option \<times> TaskStatus option \<times> bool"

definition demo_view :: "DagExecutor \<Rightarrow> view" where
  "demo_view s = (sched s, jobs s, readyQueue s, nst ''r'' (graph (ctx s)) node_a,
     nst ''r'' (graph (ctx s)) node_b, map_option res_status (taskResults (ctx s) node_a),
     map_option res_status (taskResults (ctx s) node_b), failed (ctx s))"

lemma demo_runs:
  "map_option demo_view (run_choices demo_ok (demo_start SkipDownstream)) =
     Some (SDone, [], [], Success, Success, Some Success, Some Success, False)"
  "map_option demo_view (run_choices demo_fail (demo_start SkipDownstream)) =
     Some (SDone, [], [], Failed, Skipped, Some Failed, Some Skipped, True)"
  "map_option demo_view (run_choices demo_lost (demo_start SkipDownstream)) =
     Some (SBlocked, [], [], Failed, Skipped, Some Failed, Some Skipped, True)"
  "map_option demo_view (run_choices demo_late (demo_start SkipDownstream)) =
     Some (SDone, [(node_a, JNotify)], [], Failed, Skipped, Some Failed, Some Skipped, True)"
  "map_option demo_view (run_choices demo_ff (demo_start FailFast)) =
     Some (SFill, [(node_a, JDecrement)], [], Failed, Pending, Some Failed, None, True)"
  by code_simp+

lemma demo_reach:
  assumes "map_option demo_view (run_choices cs (demo_start p)) = Some v"
  shows "\<exists>s. steps exec_step (demo_start p) s \<and> demo_view s = v"
  using assms run_choices_steps by blast

lemma demo_failed_run:
  "\<exists>s. steps exec_step (demo_start SkipDownstream) s \<and> sched s = SDone
     \<and> nst ''r'' (graph (ctx s)) node_a = Failed \<and> nst ''r'' (graph (ctx s)) node_b = Skipped
     \<and> results_proper ''r'' s"
proof -
  obtain s where s: "steps exec_step (demo_start SkipDownstream) s"
    "demo_view s = (SDone, [], [], Failed, Skipped, Some Failed, Some Skipped, True)"
    using demo_reach [OF demo_runs(2)] by blast
  then have v: "sched s = SDone" "nst ''r'' (graph (ctx s)) node_a = Failed"
    "nst ''r'' (graph (ctx s)) node_b = Skipped"
    "map_option res_status (taskResults (ctx s) node_a) = Some Failed"
    by (simp_all add: demo_view_def)
  have ids: "graph_ids ''r'' (graph (ctx s)) = {node_a, node_b}"
    using done_facts(3) [OF demo_runnable s(1) [unfolded demo_start_def] v(1)] demo_graph_ids by simp
  have "isFailureLike (res_status res)"
    if "i \<in> {node_a, node_b}" "nst ''r'' (graph (ctx s)) i \<noteq> Skipped" "taskResults (ctx s) i = Some res" for i res
  proof -
    have "i = node_a" using that(1,2) v(3) by blast
    with that(3) v(4) show ?thesis by (simp add: isFailureLike_def)
  qed
  then have "results_proper ''r'' s" unfolding results_proper_def ids by blast
  with s(1) v show ?thesis by blast
qed

subsection \<open>FailFast\<close>

lemma job_failed_mono: "job_step i pc res s = (s1, p) \<Longrightarrow> failed (ctx s) \<Longrightarrow> failed (ctx s1)"
  by (cases "(i, pc, res, s)" rule: job_step.cases)
    (auto simp: run_job_def node_finished_def Let_def decrementIndegree_def
      split: option.splits prod.splits if_splits)

lemma fail_fast_step:
  assumes "flow_ok F" "exec_ok r F s" "fpol F = FailFast" "failed (ctx s)"
    "\<forall>j. sched s \<noteq> SSubmit j \<and> sched s \<noteq> SStart j" "i \<in> fV F \<and> nst r (graph (ctx s)) i = Pending"
    and "exec_step s s'"
  shows "failed (ctx s') \<and> (\<forall>j. sched s' \<noteq> SSubmit j \<and> sched s' \<noteq> SStart j)
    \<and> nst r (graph (ctx s')) i = Pending"
proof -
  from assms(7) obtain c where c: "exec_act c s = Some s'" by (auto simp: exec_step_iff)
  have a: "inv F (abs_exec r s)" and pol: "failPolicy (ctx_config (ctx s)) = FailFast"
    using assms(2,3) by (auto simp: exec_ok_def inv2_def)
  show ?thesis
  proof (cases c)
    case (Job k res)
    obtain j pc where j: "k < length (jobs s)" "jobs s ! k = (j, pc)"
      using c Job by (cases "jobs s ! k") (auto split: if_splits)
    obtain s1 p where st: "job_step j pc res s = (s1, p)" by fastforce
    have s': "s' = s1\<lparr>jobs := put_job k j p (jobs s1)\<rparr>" using c Job j st by auto
    note job = job_in_flow [OF assms(2) j]
    have "pc = JPosted \<longrightarrow> i \<noteq> j"
      using a job(1) assms(6) by (force simp: inv_def inv_st_def)
    moreover have "pc \<noteq> JSkip q vis" for q vis using job(3) assms(3) by auto
    ultimately have "nst r (graph (ctx s1)) i = Pending"
      using nst_job [OF st assms(2,1) j, of i] assms(6) by auto
    with assms(4,5) job_failed_mono [OF st] job_step_frame(6) [OF st] show ?thesis
      unfolding s' by auto
  next
    case Sched
    show ?thesis
    proof (cases "sched s")
      case (SPost j)
      then show ?thesis using c Sched assms(4,6) by (auto simp: sched_post_def split: option.splits if_splits)
    next
      case (SCheck j)
      then show ?thesis using c Sched assms(4,6) sched_check_next [of j "SPolicy j" s] by auto
    qed (use c Sched assms(4-6) pol in \<open>auto simp: sched_finish_def Let_def split: if_splits list.splits\<close>)
  next
    case SpuriousWakeup
    with c assms(4-6) show ?thesis by (auto split: if_splits)
  qed
qed

subsection \<open>Properties\<close>

text \<open>C1. No node is started before all its dependencies have succeeded: in every state any
  interleaving of the scheduler and the jobs can reach, the dependencies of a node that is running
  or has finished are all Success.\<close>

theorem dag_respects_dependencies:
  assumes "runnable r g iterN" and "steps exec_step (start_exec iterN w cfg cbs g) s"
    and "i \<in> graph_ids r g" and "nst r (graph (ctx s)) i \<notin> {Pending, Skipped}"
    and "d \<in> set (deps_of g i)"
  shows "nst r (graph (ctx s)) d = Success"
proof -
  have inv: "inv (flow_of r cfg g) (abs_exec r s)"
    using exec_ok_reach [OF assms(1,2)] by (simp add: exec_ok_def inv2_def)
  have "a_deg (abs_exec r s) i = 0" using inv_tokD(3) [OF inv] assms(3,4) by simp
  with deg_zero_deps [OF flow_ok_flow_of [OF assms(1)] inv] assms(3,5) show ?thesis by auto
qed

theorem dag_respects_dependencies_witness:
  "\<exists>s. steps exec_step (demo_start SkipDownstream) s \<and> nst ''r'' (graph (ctx s)) node_b = Success
     \<and> nst ''r'' (graph (ctx s)) node_a = Success"
proof -
  obtain s where s: "steps exec_step (demo_start SkipDownstream) s"
    "demo_view s = (SDone, [], [], Success, Success, Some Success, Some Success, False)"
    using demo_reach [OF demo_runs(1)] by blast
  then have b: "nst ''r'' (graph (ctx s)) node_b = Success" by (simp add: demo_view_def)
  then have "nst ''r'' (graph (ctx s)) node_a = Success"
    using dag_respects_dependencies [OF demo_runnable s(1) [unfolded demo_start_def], of node_b node_a]
    by (simp add: demo_graph_ids demo_deps)
  with s(1) b show ?thesis by blast
qed

text \<open>A node is submitted at most once: the trace holds one start event for a node that is
  running or has finished, and none for a node that is pending or skipped (or whose status was just
  set to Running and whose submission is the scheduler's next step).\<close>

theorem dag_starts_once:
  assumes "runnable r g iterN" and "steps exec_step (start_exec iterN w cfg cbs g) s"
    and "i \<in> graph_ids r g"
  shows "starts i (ctx s)
    = (if nst r (graph (ctx s)) i \<in> {Pending, Skipped} \<or> sched s = SPost i then 0 else 1)"
  using inv_starts_reach [OF assms(1,2)] assms(3) by (simp add: inv_starts_def)

theorem dag_starts_once_witness:
  "\<exists>s. steps exec_step (demo_start SkipDownstream) s \<and> starts node_a (ctx s) = 1
     \<and> starts node_b (ctx s) = 0"
proof -
  obtain s where s: "steps exec_step (demo_start SkipDownstream) s"
    "demo_view s = (SDone, [], [], Failed, Skipped, Some Failed, Some Skipped, True)"
    using demo_reach [OF demo_runs(2)] by blast
  with dag_starts_once [OF demo_runnable s(1) [unfolded demo_start_def], of node_a]
    dag_starts_once [OF demo_runnable s(1) [unfolded demo_start_def], of node_b]
  show ?thesis by (auto simp: demo_graph_ids demo_view_def)
qed

text \<open>C4. The number of jobs between their submission and \<^verbatim>\<open>decrementRunning\<close> is the running
  counter and never exceeds the configured parallelism, which is at least one.\<close>

theorem dag_parallel_bound:
  assumes "steps exec_step (start_exec iterN w cfg cbs g) s"
  shows "running (ctx s) = int (active s) \<and> int (active s) \<le> limit_parallel cfg \<and> 1 \<le> limit_parallel cfg"
  using inv_run_reach [OF assms] limit_parallel_pos [of cfg] by (auto simp: inv_run_def)

theorem dag_parallel_bound_witness:
  "running (ctx (demo_start FailFast)) = int (active (demo_start FailFast))
   \<and> int (active (demo_start FailFast)) \<le> limit_parallel (demo_cfg FailFast)
   \<and> 1 \<le> limit_parallel (demo_cfg FailFast)"
  unfolding demo_start_def by (rule dag_parallel_bound [OF steps_refl])



lemma final_result_iff:
  assumes "runnable r g iterN" and "steps exec_step (start_exec iterN w cfg cbs g) s"
    and "sched s = SDone" and "results_proper r s" and "\<forall>i \<in> graph_ids r g. \<not> tid_empty i"
  shows "(res_status (finalResult s) = Failed \<longleftrightarrow>
            (\<exists>i \<in> graph_ids r g. isFailureLike (nst r (graph (ctx s)) i)))
       \<and> (res_status (finalResult s) = Success \<longleftrightarrow>
            (\<forall>i \<in> graph_ids r g. nst r (graph (ctx s)) i = Success))"
proof -
  note d = done_facts [OF assms(1-3)]
  note F = flow_ok_flow_of [OF assms(1)]
  have fail: "failed (ctx s) \<longleftrightarrow> (\<exists>i \<in> graph_ids r g. isFailureLike (nst r (graph (ctx s)) i))"
  proof
    assume "failed (ctx s)"
    then obtain i where i: "i \<in> graph_ids r g" "marked (abs_exec r s) i"
      using d(1) by (auto simp: inv2_def inv_res_def)
    then obtain q where q: "a_res (abs_exec r s) i = Some q" "isFailureLike q" by (auto simp: marked_def)
    moreover have "res_fits (a_res (abs_exec r s) i) (nst r (graph (ctx s)) i)"
      using d(1) i(1) by (simp add: inv2_def inv_res_def)
    ultimately have "isFailureLike (nst r (graph (ctx s)) i)"
      by (auto simp: res_fits_def split: if_splits)
    with i(1) show "\<exists>i \<in> graph_ids r g. isFailureLike (nst r (graph (ctx s)) i)" by blast
  next
    assume "\<exists>i \<in> graph_ids r g. isFailureLike (nst r (graph (ctx s)) i)"
    then obtain i where i: "i \<in> graph_ids r g" "isFailureLike (nst r (graph (ctx s)) i)" by blast
    with failed_marked [OF d(1,2) d(4) [OF assms(4)], of i] have "marked (abs_exec r s) i" by simp
    with i(1) d(1) show "failed (ctx s)" by (auto simp: inv2_def inv_res_def)
  qed
  have "nst r (graph (ctx s)) i = Success" if "\<not> failed (ctx s)" "i \<in> graph_ids r g" for i
    using final_all_success [OF F d(1,2) d(4) [OF assms(4)]] that assms(5) by simp
  moreover have "st \<noteq> Success" if "isFailureLike st" for st using that by auto
  ultimately show ?thesis using fail d(5) by (cases "failed (ctx s)") (fastforce simp: default_TaskResult_def)+
qed



text \<open>FailFast: once the failure flag is set, and the scheduler is not already past its check of
  the flag, no further node is started, whatever the threads do: a node that is Pending stays
  Pending for the rest of the run.\<close>

theorem dag_fail_fast_stops:
  assumes "runnable r g iterN" and "steps exec_step (start_exec iterN w cfg cbs g) s"
    and "failPolicy cfg = FailFast" and "failed (ctx s)"
    and "\<forall>j. sched s \<noteq> SSubmit j \<and> sched s \<noteq> SStart j" and "steps exec_step s t"
    and "i \<in> graph_ids r g" and "nst r (graph (ctx s)) i = Pending"
  shows "nst r (graph (ctx t)) i = Pending"
proof -
  have "exec_ok r (flow_of r cfg g) t \<and> failed (ctx t) \<and> (\<forall>j. sched t \<noteq> SSubmit j \<and> sched t \<noteq> SStart j)
      \<and> nst r (graph (ctx t)) i = Pending"
    using assms(6)
  proof (rule steps_invariant)
    show "exec_ok r (flow_of r cfg g) s \<and> failed (ctx s) \<and> (\<forall>j. sched s \<noteq> SSubmit j \<and> sched s \<noteq> SStart j)
      \<and> nst r (graph (ctx s)) i = Pending"
      using exec_ok_reach [OF assms(1,2)] assms(4,5,8) by blast
    fix a b
    assume a: "exec_ok r (flow_of r cfg g) a \<and> failed (ctx a) \<and> (\<forall>j. sched a \<noteq> SSubmit j \<and> sched a \<noteq> SStart j)
      \<and> nst r (graph (ctx a)) i = Pending" and step: "exec_step a b"
    have "failed (ctx b) \<and> (\<forall>j. sched b \<noteq> SSubmit j \<and> sched b \<noteq> SStart j) \<and> nst r (graph (ctx b)) i = Pending"
      by (rule fail_fast_step [OF flow_ok_flow_of [OF assms(1)] _ _ _ _ _ step])
        (use a assms(3,7) in auto)
    then show "exec_ok r (flow_of r cfg g) b \<and> failed (ctx b) \<and> (\<forall>j. sched b \<noteq> SSubmit j \<and> sched b \<noteq> SStart j)
      \<and> nst r (graph (ctx b)) i = Pending"
      using exec_ok_step [OF flow_ok_flow_of [OF assms(1)] _ step] a by blast
  qed
  then show ?thesis by blast
qed

theorem dag_fail_fast_stops_witness:
  "\<exists>s. steps exec_step (demo_start FailFast) s \<and> failed (ctx s)
     \<and> (\<forall>t. steps exec_step s t \<longrightarrow> nst ''r'' (graph (ctx t)) node_b = Pending)"
proof -
  obtain s where s: "steps exec_step (demo_start FailFast) s"
    "demo_view s = (SFill, [(node_a, JDecrement)], [], Failed, Pending, Some Failed, None, True)"
    using demo_reach [OF demo_runs(5)] by blast
  then have v: "sched s = SFill" "failed (ctx s)" "nst ''r'' (graph (ctx s)) node_b = Pending"
    by (simp_all add: demo_view_def)
  have "nst ''r'' (graph (ctx t)) node_b = Pending" if "steps exec_step s t" for t
    using dag_fail_fast_stops [OF demo_runnable s(1) [unfolded demo_start_def] _ v(2) _ that, of node_b] v
    by (simp add: demo_graph_ids demo_cfg_def)
  with s(1) v(2) show ?thesis by blast
qed


lemma demo_lost_stuck:
  assumes "demo_view s = (SBlocked, [], [], Failed, Skipped, Some Failed, Some Skipped, True)"
    and "c \<noteq> SpuriousWakeup"
  shows "exec_act c s = None"
  using assms by (cases c) (auto simp: demo_view_def)


text \<open>The wake-up can be lost: \<^verbatim>\<open>onNodeFinished\<close> changes the predicate and notifies without
  holding \<^verbatim>\<open>_cvMutex\<close>, so a notification between the scheduler's evaluation of the predicate and
  its blocking reaches nobody.  A chain of two nodes ends in a state where every node is settled,
  nothing runs, and \<^verbatim>\<open>execute\<close> waits for a notification no thread will send.\<close>

theorem dag_wakeup_can_be_lost:
  "\<exists>s. steps exec_step (demo_start SkipDownstream) s \<and> sched s = SBlocked
     \<and> jobs s = [] \<and> readyQueue s = []
     \<and> nst ''r'' (graph (ctx s)) node_a = Failed \<and> nst ''r'' (graph (ctx s)) node_b = Skipped
     \<and> (\<forall>c. c \<noteq> SpuriousWakeup \<longrightarrow> exec_act c s = None)"
proof -
  obtain s where s: "steps exec_step (demo_start SkipDownstream) s"
    "demo_view s = (SBlocked, [], [], Failed, Skipped, Some Failed, Some Skipped, True)"
    using demo_reach [OF demo_runs(3)] by blast
  then show ?thesis using demo_lost_stuck [OF s(2)] by (intro exI [of _ s]) (auto simp: demo_view_def)
qed

theorem dag_wakeup_can_be_lost_witness:
  "\<exists>s. steps exec_step (demo_start SkipDownstream) s \<and> sched s = SBlocked \<and> exec_act Sched s = None"
  using dag_wakeup_can_be_lost by blast

text \<open>A job may outlive the executor: after \<^verbatim>\<open>decrementRunning\<close> the scheduler can see a zero
  counter and return from \<^verbatim>\<open>execute\<close> (whose caller destroys the executor and the context) while the
  job has still to call \<^verbatim>\<open>_cv.notify_one()\<close>.\<close>

theorem dag_job_outlives_executor:
  "\<exists>s. steps exec_step (demo_start SkipDownstream) s \<and> sched s = SDone \<and> jobs s = [(node_a, JNotify)]"
  using demo_reach [OF demo_runs(4)] by (auto simp: demo_view_def)

end
