(* ===== verification/Job_Queue.thy ===== *)
theory Job_Queue
  imports Prelude
begin

text \<open>
  \<^verbatim>\<open>core/blocking_queue.h\<close> and the contract a pool of workers relies on when it takes its jobs
  from a queue: jobs wait in numbered classes, a job is taken from the first class that has one,
  first in, first out.  The locale is interpreted for the blocking queue (one class) here and for
  the four priority queues of \<^verbatim>\<open>DagThreadPool\<close> in \<open>Dag_Thread_Pool\<close>.
\<close>

subsection \<open>The contract\<close>

text \<open>Taking jobs until none is left, at most \<open>n\<close> of them.\<close>

fun drain :: "('q \<Rightarrow> ('j \<times> 'q) option) \<Rightarrow> nat \<Rightarrow> 'q \<Rightarrow> 'j list" where
  "drain deq 0 q = []"
| "drain deq (Suc n) q = (case deq q of None \<Rightarrow> [] | Some (j, q') \<Rightarrow> j # drain deq n q')"

lemma upt_split: "k < n \<Longrightarrow> [0..<n] = [0..<k] @ k # [Suc k..<n]"
  using upt_add_eq_append [of 0 k "n - k"] by (simp add: upt_conv_Cons)

locale job_queue =
  fixes enq :: "nat \<Rightarrow> 'j \<Rightarrow> 'q \<Rightarrow> 'q"
    and deq :: "'q \<Rightarrow> ('j \<times> 'q) option"
    and waiting :: "nat \<Rightarrow> 'q \<Rightarrow> 'j list"
    and accepts :: "'q \<Rightarrow> bool"
    and classes :: nat
  assumes enq_waiting: "accepts q \<Longrightarrow> k < classes \<Longrightarrow>
      waiting k' (enq k j q) = (if k' = k then waiting k' q @ [j] else waiting k' q)"
    and enq_refused: "\<not> accepts q \<Longrightarrow> enq k j q = q"
    and deq_empty: "deq q = None \<longleftrightarrow> (\<forall>k < classes. waiting k q = [])"
    and deq_first: "deq q = Some (j, q') \<Longrightarrow>
      \<exists>k < classes. (\<forall>k' < k. waiting k' q = []) \<and> waiting k q = j # waiting k q'
        \<and> (\<forall>k'. k' \<noteq> k \<longrightarrow> waiting k' q' = waiting k' q)"
begin

definition all_jobs :: "'q \<Rightarrow> 'j list" where
  "all_jobs q = concat (map (\<lambda>k. waiting k q) [0..<classes])"

lemma concat_first:
  assumes "k < n" "\<forall>k' < k. f k' = []" "f k = j # g k" "\<forall>k'. k' \<noteq> k \<longrightarrow> g k' = f k'"
  shows "concat (map f [0..<n]) = j # concat (map g [0..<n])"
proof -
  have c: "concat (map f [0..<k]) = []" "concat (map g [0..<k]) = []"
    using assms(2,4) by auto
  have m: "map f [Suc k..<n] = map g [Suc k..<n]" using assms(4) by auto
  show ?thesis
    by (simp only: upt_split [OF assms(1)] map_append concat_append list.map concat.simps c m assms(3)
        append_Nil append_Cons)
qed

text \<open>A job taken is the head of the queue read class by class.\<close>

lemma deq_all_jobs: "deq q = Some (j, q') \<Longrightarrow> all_jobs q = j # all_jobs q'"
  using deq_first concat_first [of _ classes "\<lambda>k. waiting k q" j "\<lambda>k. waiting k q'"]
  unfolding all_jobs_def by blast

lemma deq_None_all_jobs: "deq q = None \<longleftrightarrow> all_jobs q = []"
  by (auto simp: deq_empty all_jobs_def)

lemma enq_all_jobs:
  assumes "accepts q" "k < classes"
  shows "set (all_jobs (enq k j q)) = insert j (set (all_jobs q))"
    "length (all_jobs (enq k j q)) = Suc (length (all_jobs q))"
proof -
  have s: "[0..<classes] = [0..<k] @ k # [Suc k..<classes]"
    using assms(2) by (rule upt_split)
  have m: "map (\<lambda>k'. waiting k' (enq k j q)) [0..<k] = map (\<lambda>k'. waiting k' q) [0..<k]"
    "map (\<lambda>k'. waiting k' (enq k j q)) [Suc k..<classes] = map (\<lambda>k'. waiting k' q) [Suc k..<classes]"
    using enq_waiting [OF assms] by auto
  have w: "waiting k (enq k j q) = waiting k q @ [j]" using enq_waiting [OF assms] by simp
  show "set (all_jobs (enq k j q)) = insert j (set (all_jobs q))"
    "length (all_jobs (enq k j q)) = Suc (length (all_jobs q))"
    unfolding all_jobs_def s map_append list.map concat_append concat.simps m w by auto
qed

text \<open>Without further submissions the jobs come out class by class, in the order they went in.\<close>

lemma drain_order: "length (all_jobs q) \<le> n \<Longrightarrow> drain deq n q = all_jobs q"
proof (induction n arbitrary: q)
  case (Suc n)
  show ?case
  proof (cases "deq q")
    case None
    then show ?thesis using deq_None_all_jobs [of q] by simp
  next
    case (Some p)
    then obtain j q' where p: "deq q = Some (j, q')" by (cases p) auto
    with deq_all_jobs [OF p] Suc show ?thesis by simp
  qed
qed simp

end

subsection \<open>BlockingQueue\<close>

record 'a BlockingQueue =
  m_queue :: "'a list"
  m_stopped :: bool

definition bq_empty :: "'a BlockingQueue" where
  "bq_empty = \<lparr>m_queue = [], m_stopped = False\<rparr>"

definition bq_push :: "'a \<Rightarrow> 'a BlockingQueue \<Rightarrow> 'a BlockingQueue" where
  "bq_push x q = (if m_stopped q then q else q\<lparr>m_queue := m_queue q @ [x]\<rparr>)"

text \<open>\<^verbatim>\<open>pop\<close> is called by a thread that blocks until the queue has an element or is stopped.
  \<open>PopBlocked\<close> is the thread still waiting.\<close>

datatype 'a pop_result = PopBlocked | PopClosed | PopValue 'a

definition bq_pop :: "'a BlockingQueue \<Rightarrow> 'a pop_result \<times> 'a BlockingQueue" where
  "bq_pop q =
     (if \<not> (m_stopped q \<or> m_queue q \<noteq> []) then (PopBlocked, q)
      else case m_queue q of
             [] \<Rightarrow> (PopClosed, q)
           | x # xs \<Rightarrow> (PopValue x, q\<lparr>m_queue := xs\<rparr>))"

definition bq_shutdown :: "'a BlockingQueue \<Rightarrow> 'a BlockingQueue" where
  "bq_shutdown q = q\<lparr>m_stopped := True\<rparr>"

definition bq_size :: "'a BlockingQueue \<Rightarrow> nat" where
  "bq_size q = length (m_queue q)"

text \<open>The blocking queue as a queue with one class.\<close>

definition bq_take :: "'a BlockingQueue \<Rightarrow> ('a \<times> 'a BlockingQueue) option" where
  "bq_take q = (case bq_pop q of (PopValue x, q') \<Rightarrow> Some (x, q') | _ \<Rightarrow> None)"

interpretation bq: job_queue "\<lambda>_. bq_push" bq_take "\<lambda>k q. if k = 0 then m_queue q else []"
  "\<lambda>q. \<not> m_stopped q" 1
  by unfold_locales
    (auto simp: bq_push_def bq_take_def bq_pop_def split: list.splits if_splits)

text \<open>A blocking queue hands out what was pushed, in order and once each, keeps what was pushed
  before a shutdown and takes nothing after it: after pushes \<open>xs\<close>, a shutdown and pushes \<open>ys\<close> the
  readers get exactly \<open>xs\<close> and are then told that the queue is closed, and a reader waits only while
  the queue is open and empty.\<close>

theorem blocking_queue_fifo:
  fixes xs ys :: "'a list"
  shows "drain bq_take (length xs + length ys) (fold bq_push ys (bq_shutdown (fold bq_push xs bq_empty))) = xs
    \<and> fst (bq_pop (fold bq_push ys (bq_shutdown (fold bq_push xs bq_empty))))
        = (case xs of [] \<Rightarrow> PopClosed | x # _ \<Rightarrow> PopValue x)
    \<and> fst (bq_pop (fold bq_push xs bq_empty)) = (case xs of [] \<Rightarrow> PopBlocked | x # _ \<Rightarrow> PopValue x)"
proof -
  have push: "m_queue (fold bq_push zs q) = m_queue q @ zs \<and> \<not> m_stopped (fold bq_push zs q)"
    if "\<not> m_stopped q" for zs :: "'a list" and q :: "'a BlockingQueue"
    using that by (induction zs arbitrary: q) (auto simp: bq_push_def)
  have refuse: "fold bq_push zs q = q" if "m_stopped q" for zs :: "'a list" and q :: "'a BlockingQueue"
    using that by (induction zs arbitrary: q) (auto simp: bq_push_def)
  let ?q = "bq_shutdown (fold bq_push xs bq_empty)"
  have q: "m_queue ?q = xs" "m_stopped ?q" "fold bq_push ys ?q = ?q"
    using push [of bq_empty xs] refuse [of ?q ys] by (auto simp: bq_shutdown_def bq_empty_def)
  have "bq.all_jobs ?q = xs" unfolding bq.all_jobs_def by (simp add: q(1))
  then have "drain bq_take (length xs + length ys) ?q = xs" using bq.drain_order [of ?q] by simp
  moreover have "m_queue (fold bq_push xs bq_empty) = xs" "\<not> m_stopped (fold bq_push xs bq_empty)"
    using push [of bq_empty xs] by (auto simp: bq_empty_def)
  ultimately show ?thesis using q by (simp add: bq_pop_def split: list.split)
qed

end
