(* ===== verification/Dag_Thread_Pool.thy ===== *)
theory Dag_Thread_Pool
  imports Task_Common Job_Queue "HOL-Library.Multiset"
begin

text \<open>
  \<^verbatim>\<open>dag/dag_thread_pool.cpp\<close>: four queues by priority, workers that take from the most urgent
  non-empty one, growth up to four times the initial size, and an orderly stop.  One step is one
  critical section or one atomic update of a thread: a poster between pushing its job and growing
  the pool is counted in \<open>spawners\<close> (before the check of \<^verbatim>\<open>_stopping\<close>) or \<open>checked\<close> (after it).
  \<open>accepted\<close>, \<open>executed\<close> and \<open>dropped\<close> record the history of jobs.  A worker at \<open>WIdle\<close> whose
  predicate is false is blocked in \<^verbatim>\<open>_cv.wait\<close>: pushes happen under \<^verbatim>\<open>_mtx\<close>, so it cannot miss
  one.  \<^verbatim>\<open>start\<close> is called when no \<^verbatim>\<open>stop\<close> is in progress, as \<^verbatim>\<open>ServerApp\<close> does.
\<close>

subsection \<open>Queues\<close>

fun priority_index :: "TaskPriority \<Rightarrow> nat" where
  "priority_index Critical = 0"
| "priority_index High = 1"
| "priority_index Normal = 2"
| "priority_index Low = 3"
| "priority_index (PriorityOther n) = 2"

type_synonym 'j queues = "nat \<Rightarrow> 'j list"

definition no_queues :: "'j queues" where
  "no_queues = (\<lambda>_. [])"

definition q_push :: "nat \<Rightarrow> 'j \<Rightarrow> 'j queues \<Rightarrow> 'j queues" where
  "q_push k j q = q(k := q k @ [j])"

definition has_jobs :: "'j queues \<Rightarrow> bool" where
  "has_jobs q \<longleftrightarrow> list_ex (\<lambda>k. q k \<noteq> []) [0, 1, 2, 3]"

fun take_in :: "TaskPriority list \<Rightarrow> 'j queues \<Rightarrow> ('j \<times> 'j queues) option" where
  "take_in [] q = None"
| "take_in (p # ps) q =
     (case q (priority_index p) of
        j # js \<Rightarrow> Some (j, q(priority_index p := js))
      | [] \<Rightarrow> take_in ps q)"

definition take_order :: "TaskPriority list" where
  "take_order = [Critical, High, Normal, Low]"

definition q_take :: "'j queues \<Rightarrow> ('j \<times> 'j queues) option" where
  "q_take q = take_in take_order q"

definition queuedJobs :: "'j queues \<Rightarrow> nat" where
  "queuedJobs q = length (q 0) + length (q 1) + length (q 2) + length (q 3)"

definition waiting_jobs :: "'j queues \<Rightarrow> 'j list" where
  "waiting_jobs q = q 0 @ q 1 @ q 2 @ q 3"

lemma less_four: "k < (4 :: nat) \<longleftrightarrow> k = 0 \<or> k = 1 \<or> k = 2 \<or> k = 3"
  by auto

lemma priority_index_less: "priority_index p < 4"
  by (cases p) auto

lemma all_below:
  "(\<forall>k < (1 :: nat). P k) \<longleftrightarrow> P 0" "(\<forall>k < (2 :: nat). P k) \<longleftrightarrow> P 0 \<and> P 1"
  "(\<forall>k < (3 :: nat). P k) \<longleftrightarrow> P 0 \<and> P 1 \<and> P 2"
  by (auto simp: less_Suc_eq numeral_2_eq_2 numeral_3_eq_3)

lemma q_take_first:
  assumes "q_take q = Some (j, q')"
  shows "\<exists>k < 4. (\<forall>k' < k. q k' = []) \<and> q k = j # q' k \<and> (\<forall>k'. k' \<noteq> k \<longrightarrow> q' k' = q k')"
proof -
  consider "q 0 \<noteq> []" | "q 0 = []" "q 1 \<noteq> []" | "q 0 = []" "q 1 = []" "q 2 \<noteq> []"
    | "q 0 = []" "q 1 = []" "q 2 = []" by blast
  then show ?thesis
  proof cases
    case 1
    then show ?thesis using assms
      by (intro exI [of _ 0]) (auto simp: q_take_def take_order_def split: list.splits)
  next
    case 2
    then show ?thesis using assms
      by (intro exI [of _ 1]) (auto simp: q_take_def take_order_def split: list.splits)
  next
    case 3
    then show ?thesis using assms unfolding less_four
      by (intro exI [of _ 2]) (auto simp: all_below q_take_def take_order_def split: list.splits)
  next
    case 4
    then show ?thesis using assms unfolding less_four
      by (intro exI [of _ 3]) (auto simp: all_below q_take_def take_order_def split: list.splits)
  qed
qed

text \<open>The four deques meet the queue contract, most urgent class first.\<close>

interpretation pq: job_queue q_push q_take "\<lambda>k q. q k" "\<lambda>_. True" 4
proof
  fix q :: "'j queues"
  show "(q_take q = None) = (\<forall>k < 4. q k = [])"
    by (auto simp: q_take_def take_order_def less_four split: list.splits)
qed (auto simp: q_push_def intro: q_take_first)

lemma waiting_jobs_eq: "pq.all_jobs q = waiting_jobs q"
proof -
  have "[0..<4] = [0, 1, 2, 3 :: nat]" by code_simp
  then show ?thesis by (simp add: pq.all_jobs_def waiting_jobs_def)
qed

lemmas q_take_waiting = pq.deq_all_jobs [unfolded waiting_jobs_eq]

lemma queuedJobs_all: "queuedJobs q = length (waiting_jobs q)"
  by (simp add: queuedJobs_def waiting_jobs_def)

lemma has_jobs_iff: "has_jobs q \<longleftrightarrow> waiting_jobs q \<noteq> []" "has_jobs q \<longleftrightarrow> q_take q \<noteq> None"
  by (auto simp: has_jobs_def waiting_jobs_def q_take_def take_order_def split: list.splits)

lemma mset_push: "k < 4 \<Longrightarrow> mset (waiting_jobs (q_push k j q)) = add_mset j (mset (waiting_jobs q))"
  by (auto simp: waiting_jobs_def q_push_def less_four)

subsection \<open>The pool\<close>

datatype 'j worker = WStart | WIdle | WTook 'j | WRunning 'j | WExited

datatype stop_pc = NotStopping | Flagged | Joining

record 'j DagThreadPool =
  workers :: "'j worker list"
  queues :: "'j queues"
  stopping :: bool
  activeWorkers :: nat
  busyWorkers :: nat
  maxWorkers :: nat
  stop_state :: stop_pc
  spawners :: nat
  checked :: nat
  accepted :: "'j list"
  executed :: "'j list"
  dropped :: "'j list"

definition pool_new :: "'j DagThreadPool" where
  "pool_new = \<lparr>workers = [], queues = no_queues, stopping = False, activeWorkers = 0,
     busyWorkers = 0, maxWorkers = 0, stop_state = NotStopping, spawners = 0, checked = 0,
     accepted = [], executed = [], dropped = []\<rparr>"

definition pool_start :: "nat \<Rightarrow> 'j DagThreadPool \<Rightarrow> 'j DagThreadPool" where
  "pool_start n p =
     (if workers p \<noteq> [] then p
      else p\<lparr>stopping := False, maxWorkers := n * 4, dropped := dropped p @ waiting_jobs (queues p),
             queues := no_queues, workers := replicate n WStart\<rparr>)"

text \<open>The critical section of \<^verbatim>\<open>post\<close>; a null job (\<open>None\<close>) and a stopping pool return early.\<close>

definition pool_post :: "'j option \<Rightarrow> TaskPriority \<Rightarrow> 'j DagThreadPool \<Rightarrow> 'j DagThreadPool" where
  "pool_post job pr p =
     (case job of
        None \<Rightarrow> p
      | Some j \<Rightarrow>
          if stopping p then p
          else p\<lparr>queues := q_push (priority_index pr) j (queues p),
                 accepted := accepted p @ [j], spawners := Suc (spawners p)\<rparr>)"

text \<open>\<^verbatim>\<open>maybeSpawnWorker\<close>: the unlocked check, then the locked decision.\<close>

definition spawn_call :: "'j DagThreadPool \<Rightarrow> 'j DagThreadPool" where
  "spawn_call p = p\<lparr>spawners := Suc (spawners p)\<rparr>"

definition spawn_check :: "'j DagThreadPool \<Rightarrow> 'j DagThreadPool option" where
  "spawn_check p =
     (if spawners p = 0 then None
      else if stopping p then Some (p\<lparr>spawners := spawners p - 1\<rparr>)
      else Some (p\<lparr>spawners := spawners p - 1, checked := Suc (checked p)\<rparr>))"

definition spare :: "'j DagThreadPool \<Rightarrow> nat" where
  "spare p = (if length (workers p) > busyWorkers p then length (workers p) - busyWorkers p else 0)"

definition grow :: "'j DagThreadPool \<Rightarrow> 'j DagThreadPool" where
  "grow p =
     (if length (workers p) \<ge> maxWorkers p then p
      else if 0 < queuedJobs (queues p) \<and> spare p < queuedJobs (queues p)
           then p\<lparr>workers := workers p @ [WStart]\<rparr>
      else p)"

definition spawn_locked :: "'j DagThreadPool \<Rightarrow> 'j DagThreadPool option" where
  "spawn_locked p = (if checked p = 0 then None else Some ((grow p)\<lparr>checked := checked p - 1\<rparr>))"

text \<open>\<^verbatim>\<open>worker_loop\<close> with \<^verbatim>\<open>take_job\<close>.\<close>

fun worker_act :: "nat \<Rightarrow> 'j worker \<Rightarrow> 'j DagThreadPool \<Rightarrow> 'j DagThreadPool option" where
  "worker_act k WStart p =
     Some (p\<lparr>activeWorkers := Suc (activeWorkers p), workers := (workers p)[k := WIdle]\<rparr>)"
| "worker_act k WIdle p =
     (if stopping p \<and> \<not> has_jobs (queues p) then
        Some (p\<lparr>activeWorkers := activeWorkers p - 1, workers := (workers p)[k := WExited]\<rparr>)
      else (case q_take (queues p) of
              None \<Rightarrow> None
            | Some (j, q) \<Rightarrow> Some (p\<lparr>queues := q, workers := (workers p)[k := WTook j]\<rparr>)))"
| "worker_act k (WTook j) p =
     Some (p\<lparr>busyWorkers := Suc (busyWorkers p), workers := (workers p)[k := WRunning j]\<rparr>)"
| "worker_act k (WRunning j) p =
     Some (p\<lparr>busyWorkers := busyWorkers p - 1, executed := executed p @ [j],
             workers := (workers p)[k := WIdle]\<rparr>)"
| "worker_act k WExited p = None"

definition stop_begin :: "'j DagThreadPool \<Rightarrow> 'j DagThreadPool" where
  "stop_begin p = (if stopping p then p else p\<lparr>stopping := True, stop_state := Flagged\<rparr>)"

definition stop_clear :: "'j DagThreadPool \<Rightarrow> 'j DagThreadPool option" where
  "stop_clear p =
     (if stop_state p = Flagged
      then Some (p\<lparr>dropped := dropped p @ waiting_jobs (queues p), queues := no_queues,
                   stop_state := Joining\<rparr>)
      else None)"

definition stop_join :: "'j DagThreadPool \<Rightarrow> 'j DagThreadPool option" where
  "stop_join p =
     (if stop_state p = Joining \<and> list_all (\<lambda>w. w = WExited) (workers p)
      then Some (p\<lparr>workers := [], activeWorkers := 0, busyWorkers := 0, maxWorkers := 0,
                   stop_state := NotStopping\<rparr>)
      else None)"

inductive pool_step :: "'j DagThreadPool \<Rightarrow> 'j DagThreadPool \<Rightarrow> bool" where
  p_start: "stop_state p = NotStopping \<Longrightarrow> pool_step p (pool_start n p)"
| p_post: "pool_step p (pool_post job pr p)"
| p_call: "pool_step p (spawn_call p)"
| p_check: "spawn_check p = Some p' \<Longrightarrow> pool_step p p'"
| p_grow: "spawn_locked p = Some p' \<Longrightarrow> pool_step p p'"
| p_worker: "\<lbrakk>k < length (workers p); worker_act k (workers p ! k) p = Some p'\<rbrakk> \<Longrightarrow> pool_step p p'"
| p_stop: "stop_state p = NotStopping \<Longrightarrow> pool_step p (stop_begin p)"
| p_clear: "stop_clear p = Some p' \<Longrightarrow> pool_step p p'"
| p_join: "stop_join p = Some p' \<Longrightarrow> pool_step p p'"

inductive_cases pool_stepE: "pool_step p p'"

subsection \<open>Invariants\<close>

fun job_of :: "'j worker \<Rightarrow> 'j list" where
  "job_of (WTook j) = [j]"
| "job_of (WRunning j) = [j]"
| "job_of _ = []"

definition in_hand :: "'j DagThreadPool \<Rightarrow> 'j list" where
  "in_hand p = concat (map job_of (workers p))"

fun is_running :: "'j worker \<Rightarrow> bool" where
  "is_running (WRunning j) = True"
| "is_running _ = False"

definition pool_inv :: "'j DagThreadPool \<Rightarrow> bool" where
  "pool_inv p \<longleftrightarrow>
     mset (accepted p) = mset (waiting_jobs (queues p)) + mset (in_hand p) + mset (executed p) + mset (dropped p)
   \<and> busyWorkers p = length (filter is_running (workers p))
   \<and> length (workers p) \<le> maxWorkers p
   \<and> (stop_state p \<noteq> NotStopping \<longrightarrow> stopping p)
   \<and> (stop_state p = Joining \<longrightarrow> waiting_jobs (queues p) = [])"

lemma in_hand_update:
  assumes "k < length ws"
  shows "mset (concat (map job_of (ws[k := w]))) + mset (job_of (ws ! k))
       = mset (concat (map job_of ws)) + mset (job_of w)"
proof -
  have "ws = take k ws @ ws ! k # drop (Suc k) ws" using assms by (simp add: id_take_nth_drop)
  then have "mset (concat (map job_of ws)) = mset (concat (map job_of (take k ws @ ws ! k # drop (Suc k) ws)))"
    by simp
  then show ?thesis using assms by (simp add: upd_conv_take_nth_drop ac_simps)
qed

lemma running_update:
  assumes "k < length ws"
  shows "length (filter is_running (ws[k := w])) + (if is_running (ws ! k) then 1 else 0)
       = length (filter is_running ws) + (if is_running w then 1 else 0)"
proof -
  have "ws = take k ws @ ws ! k # drop (Suc k) ws" using assms by (simp add: id_take_nth_drop)
  then have "filter is_running ws = filter is_running (take k ws @ ws ! k # drop (Suc k) ws)" by simp
  then show ?thesis using assms by (simp add: upd_conv_take_nth_drop)
qed

lemma no_queues_jobs [simp]: "waiting_jobs no_queues = []"
  by (simp add: waiting_jobs_def no_queues_def)

lemma pool_inv_worker:
  assumes "pool_inv p" "k < length (workers p)" "worker_act k (workers p ! k) p = Some p'"
  shows "pool_inv p'"
proof -
  note ih = in_hand_update [OF assms(2)] and ru = running_update [OF assms(2)]
  show ?thesis
  proof (cases "workers p ! k")
    case WStart
    with assms ih [of WIdle] ru [of WIdle] show ?thesis by (auto simp: pool_inv_def in_hand_def)
  next
    case WIdle
    show ?thesis
    proof (cases "stopping p \<and> \<not> has_jobs (queues p)")
      case True
      with WIdle assms ih [of WExited] ru [of WExited] show ?thesis by (auto simp: pool_inv_def in_hand_def)
    next
      case False
      with WIdle assms(3) obtain j q where q: "q_take (queues p) = Some (j, q)"
        and p': "p' = p\<lparr>queues := q, workers := (workers p)[k := WTook j]\<rparr>"
        by (auto split: option.splits)
      from q_take_waiting [OF q] WIdle assms(1) ih [of "WTook j"] ru [of "WTook j"] show ?thesis
        unfolding p' by (auto simp: pool_inv_def in_hand_def)
    qed
  next
    case (WTook j)
    with assms ih [of "WRunning j"] ru [of "WRunning j"] show ?thesis
      by (auto simp: pool_inv_def in_hand_def)
  next
    case (WRunning j)
    with assms ih [of WIdle] ru [of WIdle] show ?thesis by (auto simp: pool_inv_def in_hand_def)
  next
    case WExited
    with assms(3) show ?thesis by simp
  qed
qed

lemma pool_inv_step:
  assumes "pool_inv p" "pool_step p p'"
  shows "pool_inv p'"
  using assms(2)
proof cases
  case (p_worker k)
  then show ?thesis using pool_inv_worker assms(1) by blast
next
  case (p_start n)
  then show ?thesis using assms(1)
    by (auto simp: pool_inv_def pool_start_def in_hand_def)
next
  case (p_post job pr)
  then show ?thesis using assms(1)
    by (auto simp: pool_inv_def pool_post_def in_hand_def mset_push [OF priority_index_less] split: option.split)
next
  case p_join
  then have "list_all (\<lambda>w. w = WExited) (workers p)" by (auto simp: stop_join_def split: if_splits)
  then have "concat (map job_of (workers p)) = []" "filter is_running (workers p) = []"
    by (induction "workers p") (auto simp: list_all_iff filter_empty_conv)
  then show ?thesis using p_join assms(1)
    by (auto simp: pool_inv_def stop_join_def in_hand_def split: if_splits)
qed (use assms(1) in \<open>auto simp: pool_inv_def in_hand_def spawn_call_def spawn_check_def spawn_locked_def
      grow_def stop_begin_def stop_clear_def split: if_splits\<close>)

lemma pool_inv_reach:
  assumes "steps pool_step pool_new p" shows "pool_inv p"
proof -
  have "pool_inv pool_new" by (simp add: pool_inv_def pool_new_def in_hand_def)
  from assms this show ?thesis by (rule steps_invariant) (rule pool_inv_step)
qed

text \<open>C8. Every job the pool accepted is waiting, in the hands of one worker, executed, or dropped by
  a stop or restart, and it is counted once: no job is lost and none runs twice.\<close>

theorem pool_conserves_jobs:
  assumes "steps pool_step pool_new p"
  shows "mset (accepted p)
    = mset (waiting_jobs (queues p)) + mset (in_hand p) + mset (executed p) + mset (dropped p)"
  using pool_inv_reach [OF assms] by (simp add: pool_inv_def)

definition demo_pool :: "nat DagThreadPool" where
  "demo_pool = pool_post (Some 7) High (pool_start 2 pool_new)"

lemma demo_pool_reach: "steps pool_step pool_new demo_pool"
  unfolding demo_pool_def
  by (rule steps_snoc [OF steps_snoc [OF steps_refl]])
    (rule p_start, simp add: pool_new_def, rule p_post)

theorem pool_conserves_jobs_witness:
  "accepted demo_pool = [7] \<and> mset (accepted demo_pool)
    = mset (waiting_jobs (queues demo_pool)) + mset (in_hand demo_pool)
      + mset (executed demo_pool) + mset (dropped demo_pool)"
  using pool_conserves_jobs [OF demo_pool_reach]
  by (simp add: demo_pool_def pool_post_def pool_start_def pool_new_def)

text \<open>The pool never has more threads than four times the number it was started with, the busy
  counter is the number of threads running a job, and it does not exceed the number of threads.\<close>

theorem pool_bounds:
  assumes "steps pool_step pool_new p"
  shows "length (workers p) \<le> maxWorkers p
    \<and> busyWorkers p = length (filter is_running (workers p)) \<and> busyWorkers p \<le> length (workers p)"
  using pool_inv_reach [OF assms] by (simp add: pool_inv_def)

theorem pool_bounds_witness:
  "length (workers demo_pool) \<le> maxWorkers demo_pool
    \<and> busyWorkers demo_pool = length (filter is_running (workers demo_pool))
    \<and> busyWorkers demo_pool \<le> length (workers demo_pool)"
  by (rule pool_bounds [OF demo_pool_reach])

text \<open>An idle worker takes the oldest job of the most urgent class that has one, leaves the other
  jobs in their order, and blocks only when no job waits: a queued job and an idle worker always
  have a step together.\<close>

theorem pool_takes_most_urgent:
  assumes "k < length (workers p)" and "workers p ! k = WIdle"
  shows "case worker_act k WIdle p of
      None \<Rightarrow> waiting_jobs (queues p) = [] \<and> \<not> stopping p
    | Some p' \<Rightarrow>
        if waiting_jobs (queues p) = [] then stopping p \<and> workers p' ! k = WExited
        else \<exists>c j. c < 4 \<and> workers p' ! k = WTook j \<and> (\<forall>c' < c. queues p c' = [])
               \<and> queues p c = j # queues p' c \<and> (\<forall>c'. c' \<noteq> c \<longrightarrow> queues p' c' = queues p c')"
proof (cases "q_take (queues p)")
  case None
  then have "waiting_jobs (queues p) = []" "\<not> has_jobs (queues p)"
    using has_jobs_iff [of "queues p"] by auto
  with None assms show ?thesis by simp
next
  case (Some jq)
  then obtain j q where q: "q_take (queues p) = Some (j, q)" by (cases jq) auto
  then have "waiting_jobs (queues p) \<noteq> []" "has_jobs (queues p)"
    using has_jobs_iff [of "queues p"] by auto
  with q pq.deq_first [OF q] assms show ?thesis by auto
qed

theorem pool_takes_most_urgent_witness:
  "\<exists>c j. c < 4 \<and> workers (the (worker_act 0 WIdle (demo_pool\<lparr>workers := [WIdle]\<rparr>))) ! 0 = WTook j
     \<and> queues demo_pool c = j # queues (the (worker_act 0 WIdle (demo_pool\<lparr>workers := [WIdle]\<rparr>))) c"
proof -
  let ?p = "demo_pool\<lparr>workers := [WIdle]\<rparr>"
  have w: "waiting_jobs (queues ?p) = [7]" by code_simp
  have "\<not> Option.is_none (worker_act 0 WIdle ?p)" by code_simp
  then obtain p' where p': "worker_act 0 WIdle ?p = Some p'" by (auto simp: Option.is_none_def)
  have "case worker_act 0 WIdle ?p of
      None \<Rightarrow> waiting_jobs (queues ?p) = [] \<and> \<not> stopping ?p
    | Some p' \<Rightarrow>
        if waiting_jobs (queues ?p) = [] then stopping ?p \<and> workers p' ! 0 = WExited
        else \<exists>c j. c < 4 \<and> workers p' ! 0 = WTook j \<and> (\<forall>c' < c. queues ?p c' = [])
               \<and> queues ?p c = j # queues p' c \<and> (\<forall>c'. c' \<noteq> c \<longrightarrow> queues p' c' = queues ?p c')"
    by (rule pool_takes_most_urgent) simp_all
  then have "\<exists>c j. c < 4 \<and> workers p' ! 0 = WTook j \<and> queues ?p c = j # queues p' c"
    unfolding p' w by auto
  then show ?thesis by (simp only: p' option.sel) simp
qed

text \<open>Stopping is safe and can complete: once \<^verbatim>\<open>stop\<close> has cleared the queues no step adds a
  worker to the vector it is joining, no job is taken any more, and while some worker has not
  exited that worker can move, so the join is never waiting on a blocked thread.\<close>

theorem pool_stop_safe:
  assumes "steps pool_step pool_new p" and "stop_state p = Joining"
  shows "(\<forall>p'. pool_step p p' \<longrightarrow> length (workers p') \<le> length (workers p)
            \<and> waiting_jobs (queues p') = [] \<and> accepted p' = accepted p)
    \<and> (\<forall>k < length (workers p). workers p ! k \<noteq> WExited \<longrightarrow> (\<exists>p'. worker_act k (workers p ! k) p = Some p'))
    \<and> ((\<forall>k < length (workers p). workers p ! k = WExited) \<longrightarrow> (\<exists>p'. stop_join p = Some p' \<and> workers p' = []))"
proof -
  have inv: "stopping p" "waiting_jobs (queues p) = []"
    using pool_inv_reach [OF assms(1)] assms(2) by (auto simp: pool_inv_def)
  then have q: "queuedJobs (queues p) = 0" "\<not> has_jobs (queues p)" "q_take (queues p) = None"
    using has_jobs_iff [of "queues p"] by (simp add: queuedJobs_def waiting_jobs_def, blast, metis)
  have one: "length (workers p') \<le> length (workers p) \<and> waiting_jobs (queues p') = [] \<and> accepted p' = accepted p"
    if "pool_step p p'" for p'
    using that
  proof cases
    case (p_worker k)
    then show ?thesis using inv q by (cases "workers p ! k") (auto split: if_splits)
  qed (use inv q assms(2) in \<open>auto simp: pool_post_def spawn_call_def spawn_check_def spawn_locked_def grow_def
        stop_clear_def stop_join_def split: option.splits if_splits\<close>)
  moreover have "\<exists>p'. worker_act k (workers p ! k) p = Some p'" if "workers p ! k \<noteq> WExited" for k
    using that inv q by (cases "workers p ! k") auto
  moreover have "\<exists>p'. stop_join p = Some p' \<and> workers p' = []"
    if "\<forall>k < length (workers p). workers p ! k = WExited"
    using that assms(2) by (auto simp: stop_join_def list_all_length)
  ultimately show ?thesis by blast
qed

definition demo_stopping :: "nat DagThreadPool" where
  "demo_stopping = the (stop_clear (stop_begin demo_pool))"

theorem pool_stop_safe_witness:
  "\<exists>p'. worker_act 0 WStart demo_stopping = Some p'"
proof -
  have c: "stop_clear (stop_begin demo_pool) = Some demo_stopping" "stop_state demo_stopping = Joining"
    "workers demo_stopping = [WStart, WStart]" "stop_state demo_pool = NotStopping"
    by (simp_all add: demo_stopping_def demo_pool_def stop_clear_def stop_begin_def pool_post_def
        pool_start_def pool_new_def numeral_2_eq_2)
  have "steps pool_step pool_new demo_stopping"
    by (rule steps_snoc [OF steps_snoc [OF demo_pool_reach p_stop [OF c(4)]] p_clear [OF c(1)]])
  from pool_stop_safe [OF this c(2)] c(3) show ?thesis by fastforce
qed

end
