(* ===== verification/Json.thy ===== *)
theory Json
  imports Complex_Main Prelude
begin

text \<open>
  The part of \<^verbatim>\<open>nlohmann::json\<close> the server uses: values, the type tests, \<^verbatim>\<open>contains\<close>,
  \<^verbatim>\<open>value(key, default)\<close> and the conversions behind it, with the exceptions they raise
  (\<^verbatim>\<open>type_error\<close> 302 for a value of the wrong type, 306 for \<^verbatim>\<open>value\<close> on something that is no
  object).  An object is a finite map from member names.  Numbers are integers or the rationals a
  \<^verbatim>\<open>double\<close> denotes; a conversion to a narrower integer type keeps the low bits.  Printing and
  parsing of text (\<^verbatim>\<open>dump\<close>, \<^verbatim>\<open>parse\<close>) are arguments of the functions that call them.
\<close>

datatype json =
    JNull
  | JBool bool
  | JInt int
  | JFloat rat
  | JStr string
  | JArr "json list"
  | JObj "string \<rightharpoonup> json"

fun is_object :: "json \<Rightarrow> bool" where
  "is_object (JObj m) = True"
| "is_object _ = False"

fun is_array :: "json \<Rightarrow> bool" where
  "is_array (JArr xs) = True"
| "is_array _ = False"

fun is_string :: "json \<Rightarrow> bool" where
  "is_string (JStr s) = True"
| "is_string _ = False"

fun is_number :: "json \<Rightarrow> bool" where
  "is_number (JInt n) = True"
| "is_number (JFloat q) = True"
| "is_number _ = False"

fun is_boolean :: "json \<Rightarrow> bool" where
  "is_boolean (JBool b) = True"
| "is_boolean _ = False"

text \<open>A member, if the value is an object that has it: \<^verbatim>\<open>contains\<close> and the look-up after it.\<close>

fun member :: "string \<Rightarrow> json \<Rightarrow> json option" where
  "member k (JObj m) = m k"
| "member k _ = None"

definition contains :: "string \<Rightarrow> json \<Rightarrow> bool" where
  "contains k j \<longleftrightarrow> member k j \<noteq> None"

subsection \<open>Conversions\<close>

definition wrap_signed :: "nat \<Rightarrow> int \<Rightarrow> int" where
  "wrap_signed w n = (n + 2 ^ (w - 1)) mod 2 ^ w - 2 ^ (w - 1)"

lemma wrap_signed_id:
  assumes "0 < w" "- (2 ^ (w - 1)) \<le> n" "n < 2 ^ (w - 1)" shows "wrap_signed w n = n"
proof -
  have "(2 :: int) ^ w = 2 * 2 ^ (w - 1)" using assms(1) by (metis power_eq_if not_gr_zero)
  then have "(n + 2 ^ (w - 1)) mod 2 ^ w = n + 2 ^ (w - 1)" using assms by (intro mod_pos_pos_trivial) auto
  then show ?thesis by (simp add: wrap_signed_def)
qed

definition trunc_rat :: "rat \<Rightarrow> int" where
  "trunc_rat q = (if q < 0 then - \<lfloor>- q\<rfloor> else \<lfloor>q\<rfloor>)"

fun get_number :: "(int \<Rightarrow> int) \<Rightarrow> json \<Rightarrow> int result" where
  "get_number wrap (JInt n) = Inr (wrap n)"
| "get_number wrap (JFloat q) = Inr (wrap (trunc_rat q))"
| "get_number wrap (JBool b) = Inr (if b then 1 else 0)"
| "get_number wrap _ = Inl (JsonTypeError 302)"

definition get_int :: "json \<Rightarrow> int result" where
  "get_int = get_number (wrap_signed 32)"

definition get_ll :: "json \<Rightarrow> int result" where
  "get_ll = get_number (wrap_signed 64)"

definition get_uint :: "json \<Rightarrow> int result" where
  "get_uint = get_number (\<lambda>n. n mod 2 ^ 32)"

fun get_bool :: "json \<Rightarrow> bool result" where
  "get_bool (JBool b) = Inr b"
| "get_bool _ = Inl (JsonTypeError 302)"

fun get_string :: "json \<Rightarrow> string result" where
  "get_string (JStr s) = Inr s"
| "get_string _ = Inl (JsonTypeError 302)"

definition value_or :: "(json \<Rightarrow> 'a result) \<Rightarrow> string \<Rightarrow> 'a \<Rightarrow> json \<Rightarrow> 'a result" where
  "value_or get k dflt j =
     (case j of
        JObj m \<Rightarrow> (case m k of None \<Rightarrow> Inr dflt | Some v \<Rightarrow> get v)
      | _ \<Rightarrow> Inl (JsonTypeError 306))"

definition bind :: "'a result \<Rightarrow> ('a \<Rightarrow> 'b result) \<Rightarrow> 'b result" where
  "bind r f = (case r of Inl e \<Rightarrow> Inl e | Inr x \<Rightarrow> f x)"

lemma bind_simps [simp]: "bind (Inl e) f = Inl e" "bind (Inr x) f = f x"
  by (simp_all add: bind_def)

lemma bind_eq_Inr: "bind r f = Inr y \<longleftrightarrow> (\<exists>x. r = Inr x \<and> f x = Inr y)"
  by (cases r) auto

text \<open>Members as strings: a string as it is, anything else as its text.\<close>

definition as_text :: "(json \<Rightarrow> string) \<Rightarrow> json \<Rightarrow> string" where
  "as_text dump v = (case v of JStr s \<Rightarrow> s | _ \<Rightarrow> dump v)"

lemma as_text_JStr [simp]: "as_text dump (JStr s) = s"
  by (simp add: as_text_def)

definition string_members :: "(json \<Rightarrow> string) \<Rightarrow> string \<Rightarrow> json \<Rightarrow> (string \<rightharpoonup> string)" where
  "string_members dump k j =
     (case member k j of
        Some (JObj m) \<Rightarrow> (\<lambda>x. map_option (as_text dump) (m x))
      | _ \<Rightarrow> Map.empty)"

definition strings_obj :: "(string \<rightharpoonup> string) \<Rightarrow> json" where
  "strings_obj m = JObj (\<lambda>k. map_option JStr (m k))"

lemma string_members_obj:
  "member k j = Some (strings_obj m) \<Longrightarrow> string_members dump k j = m"
  by (auto simp: string_members_def strings_obj_def option.map_comp comp_def option.map_ident)

end
