(* ===== verification/Task_Json.thy ===== *)
theory Task_Json
  imports Task_Common Json
begin

text \<open>
  The wire formats of \<^verbatim>\<open>runner/task_config.h\<close> and \<^verbatim>\<open>runner/task_result.h\<close>: a task
  configuration and a task result as JSON, and what is read back from such JSON; and the
  \<^verbatim>\<open>ExecutionContext\<close> handed to an execution strategy.
\<close>

subsection \<open>Task configurations\<close>

text \<open>\<^verbatim>\<open>jTask\<close>, the members of the task object.\<close>

definition task_members :: "TaskConfig \<Rightarrow> (string \<rightharpoonup> json)" where
  "task_members cfg =
     [''id'' \<mapsto> JStr (tid_value (cfg_id cfg)),
      ''name'' \<mapsto> JStr (cfg_name cfg),
      ''exec_type'' \<mapsto> JStr (TaskExecTypetoString (execType cfg)),
      ''exec_command'' \<mapsto> JStr (execCommand cfg),
      ''exec_params'' \<mapsto> strings_obj (execParams cfg),
      ''timeout_ms'' \<mapsto> JInt (cfg_timeout cfg),
      ''retry_count'' \<mapsto> JInt (retryCount cfg),
      ''retry_delay_ms'' \<mapsto> JInt (retryDelay cfg),
      ''retry_exp_backoff'' \<mapsto> JBool (retryUseExponentialBackoff cfg),
      ''priority'' \<mapsto> JInt (toPriorityInt (priority cfg)),
      ''queue'' \<mapsto> JStr (cfg_queue cfg),
      ''capture_output'' \<mapsto> JBool (captureOutput cfg),
      ''metadata'' \<mapsto> strings_obj (cfg_metadata cfg)]"

definition buildRequestJson :: "TaskConfig \<Rightarrow> json" where
  "buildRequestJson cfg = JObj [''task'' \<mapsto> JObj (task_members cfg)]"

definition task_json :: "json \<Rightarrow> json" where
  "task_json jReq =
     (case member ''task'' jReq of Some jt \<Rightarrow> if is_object jt then jt else jReq | None \<Rightarrow> jReq)"

definition cap_priority :: "TaskPriority \<Rightarrow> TaskPriority" where
  "cap_priority p = (if p = Critical then High else p)"

definition parseTaskConfigFromReq :: "(json \<Rightarrow> string) \<Rightarrow> json \<Rightarrow> TaskConfig result" where
  "parseTaskConfigFromReq dump jReq =
     (let jt = task_json jReq in
      bind (value_or get_string ''id'' [] jt) (\<lambda>i.
      bind (value_or get_string ''name'' [] jt) (\<lambda>nm.
      bind (value_or get_string ''exec_type'' ''Local'' jt) (\<lambda>et.
      bind (value_or get_string ''exec_command'' [] jt) (\<lambda>cmd.
      bind (value_or get_string ''queue'' [] jt) (\<lambda>q.
      bind (value_or get_bool ''capture_output'' True jt) (\<lambda>cap.
      bind (value_or get_ll ''timeout_ms'' 0 jt) (\<lambda>tmo.
      bind (value_or get_int ''retry_count'' 0 jt) (\<lambda>rc.
      bind (value_or get_ll ''retry_delay_ms'' 1000 jt) (\<lambda>rd.
      bind (value_or get_bool ''retry_exp_backoff'' True jt) (\<lambda>rb.
      bind (value_or get_int ''priority'' 0 jt) (\<lambda>pr.
        Inr (default_TaskConfig
          \<lparr>cfg_id := TaskId i [], cfg_name := nm, execType := StringToTaskExecType et,
           execCommand := cmd, cfg_queue := q, captureOutput := cap, cfg_timeout := tmo,
           retryCount := rc, retryDelay := rd, retryUseExponentialBackoff := rb,
           priority := cap_priority (priority_of_int pr),
           execParams := string_members dump ''exec_params'' jt,
           cfg_metadata := string_members dump ''metadata'' jt\<rparr>)))))))))))))"

subsection \<open>Task results\<close>

definition taskResultToJson :: "TaskResult \<Rightarrow> json" where
  "taskResultToJson r =
     JObj
       [''status'' \<mapsto> JInt (status_int (res_status r)),
        ''message'' \<mapsto> JStr (res_message r),
        ''exit_code'' \<mapsto> JInt (exitCode r),
        ''duration_ms'' \<mapsto> JInt (durationMs r),
        ''stdout'' \<mapsto> JStr (stdoutData r),
        ''stderr'' \<mapsto> JStr (stderrData r),
        ''attempt'' \<mapsto> JInt (attempt r),
        ''max_attempts'' \<mapsto> JInt (maxAttempts r),
        ''metadata'' \<mapsto> strings_obj (res_metadata r)]"

definition result_json :: "json \<Rightarrow> json" where
  "result_json j =
     (case member ''result'' j of Some jr \<Rightarrow> if is_object jr then jr else j | None \<Rightarrow> j)"

definition parseResultJson :: "(json \<Rightarrow> string) \<Rightarrow> json \<Rightarrow> TaskResult result" where
  "parseResultJson dump j =
     (let jr = result_json j in
      bind (value_or get_int ''status'' 3 jr) (\<lambda>st.
      bind (value_or get_string ''message'' [] jr) (\<lambda>msg.
      bind (value_or get_int ''exit_code'' 0 jr) (\<lambda>ec.
      bind (value_or get_ll ''duration_ms'' 0 jr) (\<lambda>dur.
      bind (value_or get_string ''stdout'' [] jr) (\<lambda>so.
      bind (value_or get_string ''stderr'' [] jr) (\<lambda>se.
      bind (value_or get_int ''attempt'' 1 jr) (\<lambda>att.
      bind (value_or get_int ''max_attempts'' 1 jr) (\<lambda>matt.
        Inr (default_TaskResult
          \<lparr>res_status := status_of_int st, res_message := msg, exitCode := ec, durationMs := dur,
           stdoutData := so, stderrData := se, attempt := att, maxAttempts := matt,
           res_metadata := string_members dump ''metadata'' jr\<rparr>))))))))))"

subsection \<open>Execution contexts\<close>

abbreviation MAX_NESTING_DEPTH :: int where "MAX_NESTING_DEPTH \<equiv> 10"

text \<open>\<open>deadline = None\<close> is \<^verbatim>\<open>time_point::max()\<close>; \<open>cancelFlag = None\<close> is a null pointer.\<close>

record ExecutionContext =
  config :: TaskConfig
  cancelFlag :: "bool option"
  deadline :: "int option"
  nestingDepth :: int

definition ctx_get :: "ExecutionContext \<Rightarrow> string \<Rightarrow> string \<Rightarrow> string" where
  "ctx_get c k dflt = getParam (execParams (config c)) k dflt"

definition getInt :: "ExecutionContext \<Rightarrow> string \<Rightarrow> int \<Rightarrow> int" where
  "getInt c k dflt =
     (let s = ctx_get c k [] in
      if s = [] then dflt else (case stoi s of Inr n \<Rightarrow> n | Inl _ \<Rightarrow> dflt))"

definition getBool :: "ExecutionContext \<Rightarrow> string \<Rightarrow> bool \<Rightarrow> bool" where
  "getBool c k dflt =
     (let s = ctx_get c k [] in
      if s = [] then dflt else s = ''true'' \<or> s = ''1'' \<or> s = ''yes'')"

definition isCanceled :: "ExecutionContext \<Rightarrow> bool" where
  "isCanceled c = (case cancelFlag c of None \<Rightarrow> False | Some b \<Rightarrow> b)"

definition isTimeout :: "int \<Rightarrow> ExecutionContext \<Rightarrow> bool" where
  "isTimeout now c = (case deadline c of None \<Rightarrow> False | Some d \<Rightarrow> d \<le> now)"

definition withIncrementedDepth :: "ExecutionContext \<Rightarrow> ExecutionContext" where
  "withIncrementedDepth c = c\<lparr>nestingDepth := nestingDepth c + 1\<rparr>"

definition result_of :: "TaskStatus \<Rightarrow> string \<Rightarrow> TaskResult" where
  "result_of st msg = default_TaskResult\<lparr>res_status := st, res_message := msg\<rparr>"

subsection \<open>Round trips\<close>

lemma StringToTaskExecType_name [simp]: "StringToTaskExecType (TaskExecTypetoString t) = t"
  by (cases t) (simp_all add: StringToTaskExecType_def tolower_exec_type_names
      del: TaskExecTypetoString.simps)

lemma value_or_JObj: "value_or get k dflt (JObj m) = (case m k of None \<Rightarrow> Inr dflt | Some v \<Rightarrow> get v)"
  by (simp add: value_or_def)

definition int_range :: "nat \<Rightarrow> int \<Rightarrow> bool" where
  "int_range w n \<longleftrightarrow> - (2 ^ (w - 1)) \<le> n \<and> n < 2 ^ (w - 1)"

lemma get_int_JInt: "int_range 32 n \<Longrightarrow> get_int (JInt n) = Inr n"
  by (simp add: get_int_def int_range_def wrap_signed_id)

lemma get_ll_JInt: "int_range 64 n \<Longrightarrow> get_ll (JInt n) = Inr n"
  by (simp add: get_ll_def int_range_def wrap_signed_id)

text \<open>The fields of a configuration fit their C++ types, and the priority is a value of its enum.\<close>

definition config_fits :: "TaskConfig \<Rightarrow> bool" where
  "config_fits cfg \<longleftrightarrow> int_range 64 (cfg_timeout cfg) \<and> int_range 32 (retryCount cfg)
     \<and> int_range 64 (retryDelay cfg) \<and> int_range 32 (toPriorityInt (priority cfg))
     \<and> priority_of_int (toPriorityInt (priority cfg)) = priority cfg"

definition result_fits :: "TaskResult \<Rightarrow> bool" where
  "result_fits r \<longleftrightarrow> int_range 32 (status_int (res_status r)) \<and> int_range 32 (exitCode r)
     \<and> int_range 64 (durationMs r) \<and> int_range 32 (attempt r) \<and> int_range 32 (maxAttempts r)
     \<and> status_of_int (status_int (res_status r)) = res_status r"

lemma member_task: "task_json (JObj [''task'' \<mapsto> JObj m]) = JObj m"
  by (simp add: task_json_def)

text \<open>An object that has the members of a task object, among others, and possibly another id.\<close>

lemma parse_task_members:
  assumes "config_fits cfg" and "m ''task'' = None" and "m ''id'' = Some (JStr i)"
    and eq: "\<And>k. k \<in> dom (task_members cfg) \<Longrightarrow> k \<noteq> ''id'' \<Longrightarrow> m k = task_members cfg k"
  shows "parseTaskConfigFromReq dump (JObj m) =
    Inr (cfg\<lparr>cfg_id := TaskId i [], cfg_description := [], cancelable := True,
             priority := cap_priority (priority cfg)\<rparr>)"
proof -
  have j: "task_json (JObj m) = JObj m" using assms(2) by (simp add: task_json_def)
  have v: "value_or get_string ''id'' [] (JObj m) = Inr i"
    "value_or get_string ''name'' [] (JObj m) = Inr (cfg_name cfg)"
    "value_or get_string ''exec_type'' ''Local'' (JObj m) = Inr (TaskExecTypetoString (execType cfg))"
    "value_or get_string ''exec_command'' [] (JObj m) = Inr (execCommand cfg)"
    "value_or get_string ''queue'' [] (JObj m) = Inr (cfg_queue cfg)"
    "value_or get_bool ''capture_output'' True (JObj m) = Inr (captureOutput cfg)"
    "value_or get_bool ''retry_exp_backoff'' True (JObj m) = Inr (retryUseExponentialBackoff cfg)"
    using assms(3) by (simp_all add: value_or_JObj eq task_members_def)
  have n: "value_or get_ll ''timeout_ms'' 0 (JObj m) = Inr (cfg_timeout cfg)"
    "value_or get_int ''retry_count'' 0 (JObj m) = Inr (retryCount cfg)"
    "value_or get_ll ''retry_delay_ms'' 1000 (JObj m) = Inr (retryDelay cfg)"
    "value_or get_int ''priority'' 0 (JObj m) = Inr (toPriorityInt (priority cfg))"
    using assms(1) by (simp_all add: value_or_JObj eq task_members_def config_fits_def get_int_JInt get_ll_JInt)
  have s: "string_members dump ''exec_params'' (JObj m) = execParams cfg"
    "string_members dump ''metadata'' (JObj m) = cfg_metadata cfg"
    by (rule string_members_obj, simp add: eq task_members_def)+
  have p: "priority_of_int (toPriorityInt (priority cfg)) = priority cfg"
    using assms(1) by (simp add: config_fits_def)
  show ?thesis
    unfolding parseTaskConfigFromReq_def Let_def j v n s bind_simps p
    by (simp add: default_TaskConfig_def)
qed

lemma parse_request:
  "parseTaskConfigFromReq dump (buildRequestJson cfg) = parseTaskConfigFromReq dump (JObj (task_members cfg))"
  by (simp add: parseTaskConfigFromReq_def buildRequestJson_def member_task)
    (simp add: task_json_def task_members_def)

text \<open>C9. A task sent to a worker arrives as it was: parsing the request that
  \<^verbatim>\<open>buildRequestJson\<close> builds gives back the configuration, except that the run id, the
  description and the cancelable flag are not transmitted and Critical priority is capped to High.\<close>

theorem task_config_roundtrip:
  assumes "config_fits cfg"
  shows "parseTaskConfigFromReq dump (buildRequestJson cfg) =
    Inr (cfg\<lparr>cfg_id := TaskId (tid_value (cfg_id cfg)) [], cfg_description := [], cancelable := True,
             priority := cap_priority (priority cfg)\<rparr>)"
  unfolding parse_request by (rule parse_task_members [OF assms]) (simp_all add: task_members_def)

theorem task_config_roundtrip_witness:
  "parseTaskConfigFromReq (\<lambda>_. [])
     (buildRequestJson (default_TaskConfig\<lparr>priority := Critical, execType := Shell\<rparr>)) =
   Inr (default_TaskConfig\<lparr>priority := High, execType := Shell\<rparr>)"
proof -
  have "config_fits (default_TaskConfig\<lparr>priority := Critical, execType := Shell\<rparr>)"
    by (simp add: config_fits_def default_TaskConfig_def int_range_def priority_of_int_def)
  from task_config_roundtrip [OF this, of "\<lambda>_. []"] show ?thesis
    by (simp add: default_TaskConfig_def cap_priority_def)
qed

text \<open>A result a worker sends is read back as it was (the worker's own address apart, which is
  not transmitted), bare or wrapped in a member \<^verbatim>\<open>result\<close>, and an object without a status is read as
  Failed, never as Success.\<close>

theorem task_result_roundtrip:
  assumes "result_fits r"
  shows "parseResultJson dump (taskResultToJson r) =
           Inr (r\<lparr>workerId := [], workerHost := [], workerPort := 0\<rparr>)
       \<and> parseResultJson dump (JObj [''result'' \<mapsto> taskResultToJson r]) =
           Inr (r\<lparr>workerId := [], workerHost := [], workerPort := 0\<rparr>)
       \<and> (\<forall>m r'. m ''status'' = None \<and> m ''result'' = None \<and> parseResultJson dump (JObj m) = Inr r'
            \<longrightarrow> res_status r' = Failed)"
proof -
  define m where "m = [''status'' \<mapsto> JInt (status_int (res_status r)),
        ''message'' \<mapsto> JStr (res_message r),
        ''exit_code'' \<mapsto> JInt (exitCode r),
        ''duration_ms'' \<mapsto> JInt (durationMs r),
        ''stdout'' \<mapsto> JStr (stdoutData r),
        ''stderr'' \<mapsto> JStr (stderrData r),
        ''attempt'' \<mapsto> JInt (attempt r),
        ''max_attempts'' \<mapsto> JInt (maxAttempts r),
        ''metadata'' \<mapsto> strings_obj (res_metadata r)]"
  have t: "taskResultToJson r = JObj m" by (simp add: taskResultToJson_def m_def)
  have j: "result_json (JObj m) = JObj m" "result_json (JObj [''result'' \<mapsto> JObj m]) = JObj m"
    by (simp_all add: result_json_def m_def)
  have v: "value_or get_int ''status'' 3 (JObj m) = Inr (status_int (res_status r))"
    "value_or get_string ''message'' [] (JObj m) = Inr (res_message r)"
    "value_or get_int ''exit_code'' 0 (JObj m) = Inr (exitCode r)"
    "value_or get_ll ''duration_ms'' 0 (JObj m) = Inr (durationMs r)"
    "value_or get_string ''stdout'' [] (JObj m) = Inr (stdoutData r)"
    "value_or get_string ''stderr'' [] (JObj m) = Inr (stderrData r)"
    "value_or get_int ''attempt'' 1 (JObj m) = Inr (attempt r)"
    "value_or get_int ''max_attempts'' 1 (JObj m) = Inr (maxAttempts r)"
    using assms by (simp_all add: value_or_JObj m_def result_fits_def get_int_JInt get_ll_JInt)
  have s: "string_members dump ''metadata'' (JObj m) = res_metadata r"
    by (rule string_members_obj) (simp add: m_def)
  have p: "status_of_int (status_int (res_status r)) = res_status r"
    using assms by (simp add: result_fits_def)
  have "res_status r' = Failed"
    if "m' ''status'' = None" "m' ''result'' = None" "parseResultJson dump (JObj m') = Inr r'" for m' r'
    using that by (auto simp: parseResultJson_def result_json_def value_or_JObj bind_eq_Inr Let_def
        status_of_int_def default_TaskResult_def)
  then show ?thesis
    unfolding t parseResultJson_def Let_def j v s bind_simps p by (auto simp: default_TaskResult_def)
qed

theorem task_result_roundtrip_witness:
  "parseResultJson (\<lambda>_. []) (taskResultToJson (default_TaskResult\<lparr>res_status := Timeout, exitCode := 124\<rparr>)) =
   Inr (default_TaskResult\<lparr>res_status := Timeout, exitCode := 124\<rparr>)"
proof -
  have "result_fits (default_TaskResult\<lparr>res_status := Timeout, exitCode := 124\<rparr>)"
    by (simp add: result_fits_def default_TaskResult_def int_range_def status_of_int_def)
  from task_result_roundtrip [OF this, of "\<lambda>_. []"] show ?thesis by (simp add: default_TaskResult_def)
qed

end
