(* ===== verification/Task_Runner.thy ===== *)
theory Task_Runner
  imports Task_Json
begin

text \<open>
  \<^verbatim>\<open>runner/task_runner.cpp\<close>: running one task with retries, backoff, cancellation and time-outs.
  What the runner reads from outside (the clock, the cancel flags, the registered strategies) is a
  record of functions over a world \<open>'w\<close> (\<open>env_new_cancel\<close> is the construction of
  the attempt's own flag, \<open>env_what\<close> the text of an exception that is a \<^verbatim>\<open>std::exception\<close>): reading the clock twice may give two values, and a strategy
  may do anything to the world.  The waiting loop runs until the clock passes its target, so
  \<open>wait_until\<close> is a partial function, and results are options; \<open>clock_advances\<close> states that sleeping
  moves the clock on.  Events are recorded in order.
\<close>

subsection \<open>The world\<close>

type_synonym 'w strategy = "ExecutionContext \<Rightarrow> 'w \<Rightarrow> TaskResult result \<times> 'w"

record 'w env =
  env_now :: "'w \<Rightarrow> int"
  env_external :: "'w \<Rightarrow> bool option"
  env_new_cancel :: "'w \<Rightarrow> 'w"
  env_internal :: "'w \<Rightarrow> bool"
  env_set_cancel :: "'w \<Rightarrow> 'w"
  env_sleep :: "int \<Rightarrow> 'w \<Rightarrow> 'w"
  env_strategy :: "TaskExecType \<Rightarrow> 'w strategy option"
  env_what :: "cpp_error \<Rightarrow> string option"

definition ext_canceled :: "('w, 'z) env_scheme \<Rightarrow> 'w \<Rightarrow> bool" where
  "ext_canceled E w = (case env_external E w of None \<Rightarrow> False | Some b \<Rightarrow> b)"

text \<open>\<^verbatim>\<open>effectiveCancel\<close>: the external flag if there is one, else the runner's own.\<close>

definition eff_canceled :: "('w, 'z) env_scheme \<Rightarrow> 'w \<Rightarrow> bool" where
  "eff_canceled E w = (case env_external E w of None \<Rightarrow> env_internal E w | Some b \<Rightarrow> b)"

datatype run_event =
    RunStart TaskExecType
  | CanceledBefore int int
  | AttemptStart int int
  | AttemptEnd int TaskStatus string
  | StopTerminal TaskStatus
  | Backoff int
  | CanceledInBackoff
  | RunEnd "(string \<times> string) list" int

subsection \<open>One attempt\<close>

definition nesting_of :: "(string \<rightharpoonup> string) \<Rightarrow> int" where
  "nesting_of params =
     (case params ''_nesting_depth'' of
        None \<Rightarrow> 0
      | Some s \<Rightarrow> (case stoi s of Inr n \<Rightarrow> n | Inl _ \<Rightarrow> 0))"

text \<open>The unregistered-strategy message ends in the number of the execution type.\<close>

fun exec_type_int :: "TaskExecType \<Rightarrow> int" where
  "exec_type_int Local = 0"
| "exec_type_int Remote = 1"
| "exec_type_int Script = 2"
| "exec_type_int HttpCall = 3"
| "exec_type_int Shell = 4"
| "exec_type_int Dag = 5"
| "exec_type_int Template = 6"

text \<open>The message is UTF-8 text in the source; this is its bytes up to the colon.\<close>

definition no_strategy_text :: string where
  "no_strategy_text = bytes [0xE6,0xB2,0xA1,0xE6,0x9C,0x89,0xE4,0xB8,0xBA] @ ''execType''
     @ bytes [0xE6,0xB3,0xA8,0xE5,0x86,0x8C,0xE6,0x89,0xA7,0xE8,0xA1,0x8C,0xE7,0xAD,0x96,0xE7,0x95,0xA5] @ '':''"

definition dispatchExec ::
  "('w, 'z) env_scheme \<Rightarrow> TaskConfig \<Rightarrow> int option \<Rightarrow> 'w \<Rightarrow> TaskResult result \<times> 'w" where
  "dispatchExec E cfg dl w =
     (case env_strategy E (execType cfg) of
        None \<Rightarrow> (Inr (result_of Failed (no_strategy_text @ to_string_int (exec_type_int (execType cfg)))), w)
      | Some strategy \<Rightarrow>
          strategy \<lparr>config = cfg, cancelFlag = Some (eff_canceled E w), deadline = dl,
                    nestingDepth = nesting_of (execParams cfg)\<rparr> w)"

definition caught_text :: "('w, 'z) env_scheme \<Rightarrow> cpp_error \<Rightarrow> string" where
  "caught_text E e =
     (case env_what E e of Some s \<Rightarrow> ''TaskRunner: exception: '' @ s | None \<Rightarrow> ''TaskRunner: unknown exception'')"

definition runOneAttempt :: "('w, 'z) env_scheme \<Rightarrow> TaskConfig \<Rightarrow> int option \<Rightarrow> 'w \<Rightarrow> TaskResult \<times> 'w" where
  "runOneAttempt E cfg dl w0 =
     (let w = env_new_cancel E w0
      in if hasTimeout cfg \<and> (case dl of None \<Rightarrow> False | Some d \<Rightarrow> d \<le> env_now E w) then
        (result_of Timeout ''TaskRunner: timeout before execution'', env_set_cancel E w)
      else
        (case dispatchExec E cfg dl w of (res, w') \<Rightarrow>
           let r = (case res of Inr r \<Rightarrow> r | Inl e \<Rightarrow> result_of Failed (caught_text E e))
           in if eff_canceled E w' \<and> res_status r = Success
              then (r\<lparr>res_status := Canceled, res_message := ''TaskRunner: canceled''\<rparr>, w')
              else (r, w')))"

subsection \<open>Retries\<close>

partial_function (option) wait_until ::
  "('w, 'z) env_scheme \<Rightarrow> int \<Rightarrow> 'w \<Rightarrow> (bool \<times> 'w) option" where
  "wait_until E target w =
     (if target \<le> env_now E w then Some (False, w)
      else if ext_canceled E w then Some (True, w)
      else wait_until E target (env_sleep E 50 w))"

definition max_attempts_of :: "TaskConfig \<Rightarrow> int" where
  "max_attempts_of cfg = (let m = wrap_signed 32 (retryCount cfg + 1) in if m \<le> 0 then 1 else m)"

definition base_delay :: "TaskConfig \<Rightarrow> int" where
  "base_delay cfg = (if retryDelay cfg \<le> 0 then 1000 else retryDelay cfg)"

text \<open>\<^verbatim>\<open>1 << attempt\<close> on a 32-bit \<^verbatim>\<open>int\<close>.\<close>

definition shl_one :: "nat \<Rightarrow> int" where
  "shl_one k = wrap_signed 32 (2 ^ k)"

definition backoff_delay :: "TaskConfig \<Rightarrow> nat \<Rightarrow> int" where
  "backoff_delay cfg k =
     (if retryUseExponentialBackoff cfg then base_delay cfg * shl_one k else base_delay cfg)"

text \<open>The loop with \<open>n\<close> attempts left, the next one being number \<open>k\<close> (from 0).\<close>

fun retry_loop ::
  "('w, 'z) env_scheme \<Rightarrow> TaskConfig \<Rightarrow> int \<Rightarrow> nat \<Rightarrow> nat \<Rightarrow> TaskResult \<Rightarrow> 'w
    \<Rightarrow> (TaskResult \<times> run_event list \<times> 'w) option" where
  "retry_loop E cfg m 0 k lastResult w = Some (lastResult, [], w)"
| "retry_loop E cfg m (Suc n) k lastResult w =
     (if ext_canceled E w then
        Some (lastResult\<lparr>res_status := Canceled, res_message := ''TaskRunner: canceled before attempt''\<rparr>,
              [CanceledBefore (int k + 1) m], w)
      else
        (let dl = (if hasTimeout cfg then Some (env_now E w + cfg_timeout cfg) else None);
             (r0, w') = runOneAttempt E cfg dl w;
             r = r0\<lparr>attempt := int k + 1\<rparr>;
             ev = [AttemptStart (int k + 1) m, AttemptEnd (int k + 1) (res_status r0) (res_message r0)]
         in if res_ok r then Some (r, ev, w')
            else if res_status r = Canceled \<or> res_status r = Timeout then
              Some (r, ev @ [StopTerminal (res_status r)], w')
            else if n = 0 then Some (r, ev, w')
            else (let d = backoff_delay cfg k in
                  case wait_until E (env_now E w' + d) w' of
                    None \<Rightarrow> None
                  | Some (canceled, w'') \<Rightarrow>
                      if canceled then
                        Some (r\<lparr>res_status := Canceled,
                                res_message := ''TaskRunner: canceled during retry backoff''\<rparr>,
                              ev @ [Backoff d, CanceledInBackoff], w'')
                      else
                        (case retry_loop E cfg m n (Suc k) r w'' of
                           None \<Rightarrow> None
                         | Some (r', ev', w3) \<Rightarrow> Some (r', ev @ [Backoff d] @ ev', w3)))))"

definition runWithRetry ::
  "('w, 'z) env_scheme \<Rightarrow> TaskConfig \<Rightarrow> 'w \<Rightarrow> (TaskResult \<times> run_event list \<times> 'w) option" where
  "runWithRetry E cfg w =
     (let m = max_attempts_of cfg
      in retry_loop E cfg m (nat m) 0 (default_TaskResult\<lparr>maxAttempts := m\<rparr>) w)"

definition end_fields :: "TaskConfig \<Rightarrow> TaskResult \<Rightarrow> (string \<times> string) list" where
  "end_fields cfg r =
     [(''status'', to_string_int (status_int (res_status r))), (''message'', res_message r),
      (''exec_type'', to_string_int (exec_type_int (execType cfg))),
      (''exit_code'', to_string_int (exitCode r)), (''attempt'', to_string_int (attempt r)),
      (''max_attempts'', to_string_int (maxAttempts r)),
      (''stdout_bytes'', to_string_int (int (length (stdoutData r)))),
      (''stderr_bytes'', to_string_int (int (length (stderrData r))))]
     @ (if workerId r \<noteq> [] then [(''worker_id'', workerId r)] else [])
     @ (if workerHost r \<noteq> [] then [(''worker_host'', workerHost r)] else [])
     @ (if workerPort r \<noteq> 0 then [(''worker_port'', to_string_int (workerPort r))] else [])"

definition run :: "('w, 'z) env_scheme \<Rightarrow> TaskConfig \<Rightarrow> 'w \<Rightarrow> (TaskResult \<times> run_event list \<times> 'w) option" where
  "run E cfg w =
     (case runWithRetry E cfg w of
        None \<Rightarrow> None
      | Some (r, ev, w') \<Rightarrow>
          Some (r, [RunStart (execType cfg)] @ ev
                   @ [RunEnd (end_fields cfg r)
                        (if 0 < durationMs r then durationMs r else env_now E w' - env_now E w)], w'))"

subsection \<open>What a run of the loop looks like\<close>

definition clock_advances :: "('w, 'z) env_scheme \<Rightarrow> bool" where
  "clock_advances E \<longleftrightarrow> (\<forall>d w. 0 < d \<longrightarrow> env_now E w < env_now E (env_sleep E d w))"

lemma wait_until_returns:
  assumes "clock_advances E"
  shows "\<exists>c w'. wait_until E target w = Some (c, w') \<and> (c \<longrightarrow> ext_canceled E w') \<and> (\<not> c \<longrightarrow> target \<le> env_now E w')"
proof (induction "nat (target - env_now E w)" arbitrary: w rule: less_induct)
  case less
  show ?case
  proof (cases "target \<le> env_now E w \<or> ext_canceled E w")
    case True
    then show ?thesis by (subst wait_until.simps) auto
  next
    case False
    have "env_now E w < env_now E (env_sleep E 50 w)" using assms by (simp add: clock_advances_def)
    then have "nat (target - env_now E (env_sleep E 50 w)) < nat (target - env_now E w)" using False by simp
    from less [OF this] show ?thesis using False by (subst wait_until.simps) simp
  qed
qed

fun ends :: "run_event list \<Rightarrow> TaskStatus list" where
  "ends (AttemptEnd k st msg # es) = st # ends es"
| "ends (_ # es) = ends es"
| "ends [] = []"

fun starts_of :: "run_event list \<Rightarrow> int list" where
  "starts_of (AttemptStart k m # es) = k # starts_of es"
| "starts_of (_ # es) = starts_of es"
| "starts_of [] = []"

fun delays :: "run_event list \<Rightarrow> int list" where
  "delays (Backoff d # es) = d # delays es"
| "delays (_ # es) = delays es"
| "delays [] = []"

definition stops_retry :: "TaskStatus \<Rightarrow> bool" where
  "stops_retry st \<longleftrightarrow> st = Success \<or> st = Canceled \<or> st = Timeout"

lemma ends_append [simp]: "ends (xs @ ys) = ends xs @ ends ys"
  by (induction xs rule: ends.induct) auto

lemma starts_append [simp]: "starts_of (xs @ ys) = starts_of xs @ starts_of ys"
  by (induction xs rule: starts_of.induct) auto

lemma delays_append [simp]: "delays (xs @ ys) = delays xs @ delays ys"
  by (induction xs rule: delays.induct) auto

text \<open>The shape of the events of a loop that starts with attempt \<open>k\<close> and has \<open>n\<close> left.\<close>

definition loop_shape :: "TaskConfig \<Rightarrow> nat \<Rightarrow> nat \<Rightarrow> TaskResult \<Rightarrow> run_event list \<Rightarrow> bool" where
  "loop_shape cfg n k r ev \<longleftrightarrow>
     length (ends ev) \<le> n
   \<and> starts_of ev = map (\<lambda>i. int (k + i) + 1) [0..<length (ends ev)]
   \<and> (\<exists>j. delays ev = map (\<lambda>i. backoff_delay cfg (k + i)) [0..<j] \<and> j \<le> length (ends ev) \<and> length (ends ev) \<le> Suc j)
   \<and> (\<forall>st \<in> set (butlast (ends ev)). \<not> stops_retry st)
   \<and> (ends ev \<noteq> [] \<longrightarrow> attempt r = int (k + length (ends ev)))
   \<and> (res_status r = Canceled \<or> ends ev \<noteq> [] \<and> res_status r = last (ends ev)
        \<and> (stops_retry (res_status r) \<or> length (ends ev) = n))"

lemma map_upt_Suc: "map f [0..<Suc n] = f 0 # map (\<lambda>i. f (Suc i)) [0..<n]"
  by (simp only: upt_conv_Cons zero_less_Suc map_Suc_upt [symmetric] list.map map_map comp_def)

text \<open>One more attempt in front: it ended in a status that does not stop the loop, and the wait was
  not interrupted.\<close>

lemma loop_shape_Cons:
  assumes "loop_shape cfg n (Suc k) r ev" and "\<not> stops_retry st" and "0 < n"
    and "ends ev = [] \<Longrightarrow> attempt r = int k + 1"
  shows "loop_shape cfg (Suc n) k r
    ([AttemptStart (int k + 1) m, AttemptEnd (int k + 1) st msg] @ [Backoff (backoff_delay cfg k)] @ ev)"
proof -
  let ?e = "[AttemptStart (int k + 1) m, AttemptEnd (int k + 1) st msg] @ [Backoff (backoff_delay cfg k)] @ ev"
  have e: "ends ?e = st # ends ev" "starts_of ?e = (int k + 1) # starts_of ev"
    "delays ?e = backoff_delay cfg k # delays ev" by simp_all
  obtain j where j: "delays ev = map (\<lambda>i. backoff_delay cfg (Suc k + i)) [0..<j]"
    "j \<le> length (ends ev)" "length (ends ev) \<le> Suc j"
    using assms(1) by (auto simp: loop_shape_def)
  have "delays ?e = map (\<lambda>i. backoff_delay cfg (k + i)) [0..<Suc j]"
    unfolding e map_upt_Suc by (simp add: j)
  then have d: "\<exists>j. delays ?e = map (\<lambda>i. backoff_delay cfg (k + i)) [0..<j] \<and> j \<le> length (ends ?e)
      \<and> length (ends ?e) \<le> Suc j"
    using j(2,3) by (intro exI [of _ "Suc j"]) (auto simp: e)
  have s: "starts_of ?e = map (\<lambda>i. int (k + i) + 1) [0..<length (ends ?e)]"
    unfolding e list.size add_0_right add_Suc_right map_upt_Suc
    using assms(1) by (simp add: loop_shape_def)
  have b: "\<forall>x \<in> set (butlast (ends ?e)). \<not> stops_retry x"
    using assms(1,2) unfolding e by (auto simp: loop_shape_def split: if_splits)
  show ?thesis
    unfolding loop_shape_def
    using d s b assms(1,3,4) unfolding e by (auto simp: loop_shape_def)
qed

lemma retry_loop_shape:
  assumes "clock_advances E" and "0 < n"
  shows "\<exists>r ev w'. retry_loop E cfg m n k r0 w = Some (r, ev, w') \<and> loop_shape cfg n k r ev
           \<and> (ends ev = [] \<longrightarrow> attempt r = attempt r0)"
  using assms(2)
proof (induction n arbitrary: k r0 w)
  case (Suc n)
  show ?case
  proof (cases "ext_canceled E w")
    case True
    then show ?thesis by (auto simp: loop_shape_def)
  next
    case False
    obtain r1 w1 where one: "runOneAttempt E cfg
        (if hasTimeout cfg then Some (env_now E w + cfg_timeout cfg) else None) w = (r1, w1)" by fastforce
    let ?r = "r1\<lparr>attempt := int k + 1\<rparr>"
    let ?ev = "[AttemptStart (int k + 1) m, AttemptEnd (int k + 1) (res_status r1) (res_message r1)]"
    show ?thesis
    proof (cases "stops_retry (res_status r1) \<or> n = 0")
      case True
      then show ?thesis using False one
        by (auto simp: loop_shape_def res_ok_def stops_retry_def Let_def)
    next
      case go: False
      obtain c w2 where w2: "wait_until E (env_now E w1 + backoff_delay cfg k) w1 = Some (c, w2)"
        using wait_until_returns [OF assms(1)] by blast
      show ?thesis
      proof (cases c)
        case True
        with False one go w2 show ?thesis
          by (auto simp: loop_shape_def res_ok_def stops_retry_def Let_def intro: exI [of _ 1])
      next
        case nc: False
        obtain r ev w3 where rest: "retry_loop E cfg m n (Suc k) ?r w2 = Some (r, ev, w3)"
          "loop_shape cfg n (Suc k) r ev" "ends ev = [] \<longrightarrow> attempt r = attempt ?r"
          using Suc.IH [of "Suc k" ?r w2] go by auto
        have "retry_loop E cfg m (Suc n) k r0 w = Some (r, ?ev @ [Backoff (backoff_delay cfg k)] @ ev, w3)"
          using False one go w2 nc rest(1) by (auto simp: res_ok_def stops_retry_def Let_def)
        moreover have "loop_shape cfg (Suc n) k r (?ev @ [Backoff (backoff_delay cfg k)] @ ev)"
          using rest go by (intro loop_shape_Cons) auto
        ultimately show ?thesis by auto
      qed
    qed
  qed
qed simp

lemma shl_one_small: "k < 31 \<Longrightarrow> shl_one k = 2 ^ k"
  using power_increasing [of k 30 "2::int"] by (simp add: shl_one_def wrap_signed_def)

lemma max_attempts_pos: "0 < max_attempts_of cfg"
  by (simp add: max_attempts_of_def Let_def)

text \<open>C12. Running a task ends and its retries are bounded: if sleeping moves the clock on, \<^verbatim>\<open>run\<close>
  returns; it makes at most \<^verbatim>\<open>max(1, retryCount + 1)\<close> attempts, numbered from 1; the waits between
  them are the base delay, doubled each time under exponential backoff (while \<^verbatim>\<open>1 << attempt\<close> stays
  an \<^verbatim>\<open>int\<close>); only an attempt that failed is retried; and the result is Canceled or the status of the
  last attempt, which either may not be retried or was the last one allowed.\<close>

theorem run_retries_bounded:
  assumes "clock_advances E"
  shows "\<exists>r ev w' t. run E cfg w = Some (r, [RunStart (execType cfg)] @ ev @ [RunEnd (end_fields cfg r) t], w')
     \<and> length (ends ev) \<le> nat (max_attempts_of cfg)
     \<and> starts_of ev = map (\<lambda>i. int i + 1) [0..<length (ends ev)]
     \<and> (\<forall>i < length (delays ev). i < 31 \<longrightarrow>
          delays ev ! i = base_delay cfg * (if retryUseExponentialBackoff cfg then 2 ^ i else 1))
     \<and> length (delays ev) \<le> length (ends ev) \<and> length (ends ev) \<le> length (delays ev) + 1
     \<and> (\<forall>st \<in> set (butlast (ends ev)). \<not> stops_retry st)
     \<and> (res_status r = Canceled \<or> ends ev \<noteq> [] \<and> res_status r = last (ends ev)
          \<and> attempt r = int (length (ends ev))
          \<and> (stops_retry (res_status r) \<or> length (ends ev) = nat (max_attempts_of cfg)))"
proof -
  let ?m = "max_attempts_of cfg"
  obtain r ev w' where r: "retry_loop E cfg ?m (nat ?m) 0 (default_TaskResult\<lparr>maxAttempts := ?m\<rparr>) w = Some (r, ev, w')"
    and shape: "loop_shape cfg (nat ?m) 0 r ev"
    using retry_loop_shape [OF assms, of "nat ?m"] max_attempts_pos [of cfg] by fastforce
  obtain t where run: "run E cfg w = Some (r, [RunStart (execType cfg)] @ ev @ [RunEnd (end_fields cfg r) t], w')"
    by (simp add: run_def runWithRetry_def Let_def r)
  obtain j where j: "delays ev = map (backoff_delay cfg) [0..<j]" "j \<le> length (ends ev)"
    "length (ends ev) \<le> Suc j"
    using shape by (auto simp: loop_shape_def)
  have d: "\<forall>i < length (delays ev). i < 31 \<longrightarrow>
          delays ev ! i = base_delay cfg * (if retryUseExponentialBackoff cfg then 2 ^ i else 1)"
    by (simp add: j(1) backoff_delay_def shl_one_small)
  have l: "length (delays ev) \<le> length (ends ev)" "length (ends ev) \<le> length (delays ev) + 1"
    using j by auto
  have "length (ends ev) \<le> nat ?m" "starts_of ev = map (\<lambda>i. int i + 1) [0..<length (ends ev)]"
    "\<forall>st \<in> set (butlast (ends ev)). \<not> stops_retry st"
    "res_status r = Canceled \<or> ends ev \<noteq> [] \<and> res_status r = last (ends ev)
          \<and> attempt r = int (length (ends ev)) \<and> (stops_retry (res_status r) \<or> length (ends ev) = nat ?m)"
    using shape unfolding loop_shape_def by auto
  with run d l show ?thesis by blast
qed

text \<open>A clock in milliseconds and a strategy that fails once and then succeeds.\<close>

definition demo_env :: "(int \<times> nat) env" where
  "demo_env = \<lparr>env_now = fst, env_external = (\<lambda>_. None), env_new_cancel = id, env_internal = (\<lambda>_. False),
     env_set_cancel = id, env_sleep = (\<lambda>d (t, k). (t + d, k)),
     env_strategy = (\<lambda>ty. Some (\<lambda>c (t, k). (Inr (result_of (if k = 0 then Failed else Success) []), (t + 7, k + 1)))),
     env_what = (\<lambda>_. None)\<rparr>"

definition demo_retry_cfg :: TaskConfig where
  "demo_retry_cfg = default_TaskConfig\<lparr>retryCount := 2, retryDelay := 100\<rparr>"

lemma demo_env_clock: "clock_advances demo_env"
  by (simp add: clock_advances_def demo_env_def)

theorem run_retries_bounded_witness:
  "clock_advances demo_env \<and> max_attempts_of demo_retry_cfg = 3
   \<and> (\<exists>r ev w'. run demo_env demo_retry_cfg (0, 0) = Some (r, ev, w') \<and> length (ends ev) \<le> 3)"
proof -
  have m: "max_attempts_of demo_retry_cfg = 3"
    by (simp add: max_attempts_of_def demo_retry_cfg_def default_TaskConfig_def wrap_signed_def)
  obtain r ev w' t where "run demo_env demo_retry_cfg (0, 0)
      = Some (r, [RunStart (execType demo_retry_cfg)] @ ev @ [RunEnd (end_fields demo_retry_cfg r) t], w')"
    "length (ends ev) \<le> nat (max_attempts_of demo_retry_cfg)"
    using run_retries_bounded [OF demo_env_clock, of demo_retry_cfg "(0, 0)"] by blast
  then show ?thesis using demo_env_clock m by fastforce
qed

end
