(* ===== verification/Log_Record.thy ===== *)
theory Log_Record
  imports Task_Common
begin

text \<open>
  \<^verbatim>\<open>log/logger.h\<close>, \<^verbatim>\<open>log/log_record.h\<close>, the two \<^verbatim>\<open>emitEvent\<close> functions of
  \<^verbatim>\<open>log/log_manager.cpp\<close> and \<^verbatim>\<open>log/log_formatter.cpp\<close>: log records, how events become records, and
  the text line of a record.  The time stamp a record is created with is an argument, and so is its
  text and the order in which a hash map of fields is printed.
\<close>

datatype LogLevel = Debug | Info | Warn | Error

datatype LogStream = StreamNone | Stdout | Stderr | Event

record LogRecord =
  rec_taskId :: TaskId
  rec_dagRunId :: string
  rec_cronJobId :: string
  rec_workerId :: string
  rec_runId :: string
  rec_level :: LogLevel
  rec_stream :: LogStream
  rec_message :: string
  rec_ts :: int
  rec_durationMs :: int
  rec_attempt :: int
  rec_fields :: "string \<rightharpoonup> string"
  rec_seq :: nat

definition mk_LogRecord :: "int \<Rightarrow> LogRecord" where
  "mk_LogRecord ts =
     \<lparr>rec_taskId = TaskId [] [], rec_dagRunId = [], rec_cronJobId = [], rec_workerId = [], rec_runId = [],
      rec_level = Info, rec_stream = Event, rec_message = [], rec_ts = ts, rec_durationMs = 0,
      rec_attempt = 0, rec_fields = Map.empty, rec_seq = 0\<rparr>"

text \<open>The record \<^verbatim>\<open>emitEvent(taskId, level, msg)\<close> emits, and the one of the overload on a
  configuration.\<close>

definition event_record :: "int \<Rightarrow> TaskId \<Rightarrow> LogLevel \<Rightarrow> string \<Rightarrow> LogRecord" where
  "event_record ts i lvl msg =
     (mk_LogRecord ts)\<lparr>rec_taskId := i, rec_stream := Event, rec_level := lvl, rec_message := msg\<rparr>"

definition event_record_cfg ::
  "int \<Rightarrow> TaskConfig \<Rightarrow> LogLevel \<Rightarrow> string \<Rightarrow> int \<Rightarrow> int \<Rightarrow> (string \<rightharpoonup> string) \<Rightarrow> LogRecord" where
  "event_record_cfg ts cfg lvl msg dur att extra =
     (mk_LogRecord ts)
       \<lparr>rec_taskId := cfg_id cfg, rec_level := lvl, rec_stream := Event, rec_message := msg,
        rec_durationMs := dur, rec_attempt := att,
        rec_fields := [''exec_type'' \<mapsto> TaskExecTypetoString (execType cfg),
                       ''exec_command'' \<mapsto> execCommand cfg,
                       ''queue'' \<mapsto> cfg_queue cfg,
                       ''capture_output'' \<mapsto> (if captureOutput cfg then ''true'' else ''false'')] ++ extra\<rparr>"

subsection \<open>Formatting\<close>

fun levelName :: "LogLevel \<Rightarrow> string" where
  "levelName Debug = ''DEBUG''"
| "levelName Info = ''INFO''"
| "levelName Warn = ''WARN''"
| "levelName Error = ''ERROR''"

fun streamName :: "LogStream \<Rightarrow> string" where
  "streamName Stdout = ''STDOUT''"
| "streamName Stderr = ''STDERR''"
| "streamName Event = ''EVENT''"
| "streamName StreamNone = ''None''"

definition escape_char :: "char \<Rightarrow> string" where
  "escape_char c =
     (let b = CHR 0x5C in
      if c = CHR 0x0A then [b, CHR ''n'']
      else if c = CHR 0x0D then [b, CHR ''r'']
      else if c = CHR 0x09 then [b, CHR ''t'']
      else if c = CHR 0x22 then [b, CHR 0x22]
      else [c])"

definition escapeMsg :: "string \<Rightarrow> string" where
  "escapeMsg s = concat (map escape_char s)"

definition opt_field :: "bool \<Rightarrow> string \<Rightarrow> string \<Rightarrow> string" where
  "opt_field b k v = (if b then k @ v else [])"

definition formatLine :: "(int \<Rightarrow> string) \<Rightarrow> string list \<Rightarrow> LogRecord \<Rightarrow> string" where
  "formatLine fmt_ts order r =
     ''ts_ms=['' @ fmt_ts (rec_ts r) @ '']'' @ '' level=['' @ levelName (rec_level r) @ '']''
     @ '' stream='' @ streamName (rec_stream r) @ '' task_id='' @ tid_value (rec_taskId r)
     @ '' seq='' @ to_string_int (int (rec_seq r))
     @ opt_field (rec_dagRunId r \<noteq> []) '' dag_run_id='' (rec_dagRunId r)
     @ opt_field (rec_cronJobId r \<noteq> []) '' cron_job_id='' (rec_cronJobId r)
     @ opt_field (rec_workerId r \<noteq> []) '' worker_id='' (rec_workerId r)
     @ opt_field (0 < rec_attempt r) '' attempt='' (to_string_int (rec_attempt r))
     @ opt_field (0 < rec_durationMs r) '' duration_ms='' (to_string_int (rec_durationMs r))
     @ '' msg='' @ [CHR 0x22] @ escapeMsg (rec_message r) @ [CHR 0x22]
     @ concat (map (\<lambda>k. '' '' @ k @ ''='' @ escapeMsg (the (rec_fields r k)))
         (filter (\<lambda>k. rec_fields r k \<noteq> None) order))"

lemma escape_char_plain: "CHR 0x0A \<notin> set (escape_char c)" "CHR 0x0D \<notin> set (escape_char c)"
  by (auto simp: escape_char_def Let_def)

lemma escapeMsg_one_line: "CHR 0x0A \<notin> set (escapeMsg s)" "CHR 0x0D \<notin> set (escapeMsg s)"
  by (auto simp: escapeMsg_def escape_char_plain)

end
