(* ===== verification/Dag_Service.thy ===== *)
theory Dag_Service
  imports Dag_Exec_Theorems Task_Runner Log_Record
begin

text \<open>
  \<^verbatim>\<open>dag/dag_service.cpp\<close>, \<^verbatim>\<open>dag/dag_types.h\<close>, \<^verbatim>\<open>dag/dag_run_utils.h\<close>, \<^verbatim>\<open>extractDagBody\<close> of
  \<^verbatim>\<open>runner/task_config.h\<close> and \<^verbatim>\<open>execution/dag_strategy.cpp\<close>: from a JSON description of a DAG to a
  run of the executor.  Text parsing (\<open>parse\<close>, \<open>None\<close> for malformed text) and printing (\<open>dump\<close>), the
  text of an exception (\<open>what\<close>) and the generated run id are arguments.  Database writes are events, in order.
  The part before the executor is a function; a run of the executor is a path of \<^const>\<open>exec_step\<close>
  from the state \<open>runDag_specs\<close> gives.
\<close>

subsection \<open>Configurations and results\<close>

definition default_DagConfig :: DagConfig where
  "default_DagConfig = \<lparr>dagId = [], dag_name = [], failPolicy = SkipDownstream, maxParallel_cfg = 4\<rparr>"

definition from_json :: "json \<Rightarrow> string \<Rightarrow> DagConfig result" where
  "from_json j fallbackName =
     bind (case member ''config'' j of
             Some (JObj m) \<Rightarrow>
               bind (value_or get_string ''fail_policy'' ''SkipDownstream'' (JObj m)) (\<lambda>policy.
               bind (value_or get_uint ''max_parallel'' 4 (JObj m)) (\<lambda>mp.
               bind (value_or get_string ''name'' [] (JObj m)) (\<lambda>nm.
                 Inr (default_DagConfig
                   \<lparr>failPolicy := (if policy = ''FailFast'' then FailFast else SkipDownstream),
                    maxParallel_cfg := word_of_int mp, dag_name := nm\<rparr>))))
           | _ \<Rightarrow> Inr default_DagConfig)
       (\<lambda>cfg. if dag_name cfg = [] then
                bind (value_or get_string ''name'' fallbackName j) (\<lambda>nm. Inr (cfg\<lparr>dag_name := nm\<rparr>))
              else Inr cfg)"

record DagResult =
  dr_success :: bool
  dr_message :: string
  dr_taskIds :: "TaskId list"
  dr_taskResults :: "TaskId \<rightharpoonup> TaskResult"

definition failed_result :: "string \<Rightarrow> DagResult" where
  "failed_result msg = \<lparr>dr_success = False, dr_message = msg, dr_taskIds = [], dr_taskResults = Map.empty\<rparr>"

definition result_item :: "TaskId \<Rightarrow> TaskResult \<Rightarrow> json" where
  "result_item i r =
     JObj ((if tid_runId i \<noteq> [] then [''run_id'' \<mapsto> JStr (tid_runId i)] else Map.empty)
             (''id'' \<mapsto> JStr (tid_value i), ''result'' \<mapsto> taskResultToJson r))"

definition dagResult_to_json :: "DagResult \<Rightarrow> json" where
  "dagResult_to_json dr =
     JArr (List.map_filter (\<lambda>i. map_option (result_item i) (dr_taskResults dr i)) (dr_taskIds dr))"

subsection \<open>Where the description comes from\<close>

definition put_opt :: "string \<Rightarrow> json option \<Rightarrow> (string \<rightharpoonup> json) \<Rightarrow> (string \<rightharpoonup> json)" where
  "put_opt k v m = (case v of None \<Rightarrow> m | Some x \<Rightarrow> m(k \<mapsto> x))"

definition flat_config :: "TaskConfig \<Rightarrow> json" where
  "flat_config cfg =
     JObj ((put_opt ''max_parallel''
              (map_option (\<lambda>s. JInt (case stoi s of Inr n \<Rightarrow> n | Inl _ \<Rightarrow> 4))
                 (execParams cfg ''config.max_parallel''))
              (put_opt ''fail_policy'' (map_option JStr (execParams cfg ''config.fail_policy'')) Map.empty))
            (''name'' \<mapsto> JStr (cfg_name cfg)))"

definition structured_error :: "string \<Rightarrow> string" where
  "structured_error e = ''extractDagBody: failed to parse structured exec_params: '' @ e"

text \<open>\<open>parse\<close> gives the text of the exception for text that is no JSON.\<close>

definition extractDagBody :: "(string \<Rightarrow> string + json) \<Rightarrow> TaskConfig \<Rightarrow> string + json" where
  "extractDagBody parse cfg =
     (case execParams cfg ''tasks'' of
        Some ts \<Rightarrow>
          (case parse ts of
             Inl e \<Rightarrow> Inl (structured_error e)
           | Inr jt \<Rightarrow>
               (case (case execParams cfg ''config'' of Some s \<Rightarrow> parse s | None \<Rightarrow> Inr (flat_config cfg)) of
                  Inl e \<Rightarrow> Inl (structured_error e)
                | Inr jc \<Rightarrow>
                    Inr (JObj (put_opt ''run_id'' (map_option JStr (execParams cfg ''run_id''))
                      [''tasks'' \<mapsto> jt, ''config'' \<mapsto> jc]))))
      | None \<Rightarrow>
          (let raw = (case execParams cfg ''dag_json'' of Some s \<Rightarrow> s | None \<Rightarrow> execCommand cfg)
           in if raw = [] then Inl ''extractDagBody: missing dag_json or tasks array''
              else (case parse raw of
                      Inr (JObj m) \<Rightarrow> Inr (JObj m)
                    | _ \<Rightarrow> Inl ''extractDagBody: invalid dag_json or structured payload'')))"

subsection \<open>Database writes\<close>

datatype svc_event =
    InsertRun string json string string
  | UpsertTask string json
  | FinishRun string int int int int int string

definition persistRunAndTasks :: "string \<Rightarrow> json \<Rightarrow> string \<Rightarrow> string \<Rightarrow> svc_event list" where
  "persistRunAndTasks runId body source workflowJson =
     InsertRun runId body source workflowJson #
     (case (member ''tasks'' body, member ''task'' body) of
        (Some (JArr ts), _) \<Rightarrow> map (UpsertTask runId) ts
      | (_, Some (JObj m)) \<Rightarrow> [UpsertTask runId (JObj m)]
      | _ \<Rightarrow> if contains ''id'' body then [UpsertTask runId body] else [])"

subsection \<open>Task descriptions\<close>

fun collect :: "('a \<Rightarrow> 'b result) \<Rightarrow> 'a list \<Rightarrow> 'b list result" where
  "collect f [] = Inr []"
| "collect f (x # xs) = bind (f x) (\<lambda>y. bind (collect f xs) (\<lambda>ys. Inr (y # ys)))"

definition deps_json :: "string \<Rightarrow> json \<Rightarrow> TaskId list result" where
  "deps_json runId jtask =
     (case member ''deps'' jtask of
        Some (JArr ds) \<Rightarrow> collect (\<lambda>d. bind (get_string d) (\<lambda>s. Inr (TaskId s runId))) ds
      | _ \<Rightarrow> Inr [])"

definition task_spec :: "(json \<Rightarrow> string) \<Rightarrow> string \<Rightarrow> int \<Rightarrow> json \<Rightarrow> DagTaskSpec result" where
  "task_spec dump runId depth jtask =
     bind (parseTaskConfigFromReq dump jtask) (\<lambda>c.
       let cfg = c\<lparr>cfg_id := TaskId (tid_value (cfg_id c)) runId,
                   execParams := (execParams c)(''_nesting_depth'' \<mapsto> to_string_int depth)\<rparr>
       in bind (deps_json runId jtask) (\<lambda>ds.
            Inr \<lparr>spec_id = cfg_id cfg, spec_deps = ds, spec_runnerCfg = cfg\<rparr>))"

definition tasks_of :: "json \<Rightarrow> json list option" where
  "tasks_of body =
     (case (member ''tasks'' body, member ''task'' body) of
        (Some (JArr ts), _) \<Rightarrow> Some ts
      | (_, Some (JObj m)) \<Rightarrow> Some [JObj m]
      | _ \<Rightarrow> None)"

definition parent_depth :: "json \<Rightarrow> int" where
  "parent_depth body =
     (case member ''_nesting_depth'' body of
        Some v \<Rightarrow> if is_number v then (case get_int v of Inr n \<Rightarrow> n | Inl _ \<Rightarrow> 0) else 0
      | None \<Rightarrow> 0)"

definition fresh_run_id :: "int \<Rightarrow> string \<Rightarrow> string" where
  "fresh_run_id now rnd = to_string_int now @ ''_'' @ rnd"

subsection \<open>runDag up to the executor\<close>

datatype prepared =
    Rejected DagResult
  | Ready "DagTaskSpec list" DagConfig string

definition runDag_body ::
  "(json \<Rightarrow> string) \<Rightarrow> (cpp_error \<Rightarrow> string) \<Rightarrow> string \<Rightarrow> json \<Rightarrow> string \<Rightarrow> string
    \<Rightarrow> svc_event list \<times> prepared result" where
  "runDag_body dump what fresh body source inputRunId =
     (let runId = (if inputRunId = [] then fresh else inputRunId);
          ev = persistRunAndTasks runId body source []
      in case from_json body [] of
           Inl e \<Rightarrow> (ev, Inl e)
         | Inr cfg0 \<Rightarrow>
             (let cfg = cfg0\<lparr>dagId := runId\<rparr>
              in case tasks_of body of
                   None \<Rightarrow>
                     (let msg = ''missing or invalid tasks array or object''
                      in (ev @ [FinishRun runId 2 0 0 0 0 msg], Inr (Rejected (failed_result msg))))
                 | Some jTasks \<Rightarrow>
                     (let depth = wrap_signed 32 (parent_depth body + 1);
                          total = wrap_signed 32 (int (length jTasks))
                      in case collect (task_spec dump runId depth) jTasks of
                           Inl e \<Rightarrow>
                             (let msg = ''parse task failed: '' @ what e
                              in (ev @ [FinishRun runId 2 total 0 total 0 msg], Inr (Rejected (failed_result msg))))
                         | Inr specs \<Rightarrow> (ev, Inr (Ready specs cfg runId)))))"

text \<open>The overload on a task configuration, which hands the nesting depth down.\<close>

definition runDag_cfg ::
  "(string \<Rightarrow> string + json) \<Rightarrow> (json \<Rightarrow> string) \<Rightarrow> (cpp_error \<Rightarrow> string) \<Rightarrow> string \<Rightarrow> TaskConfig \<Rightarrow> string
    \<Rightarrow> svc_event list \<times> prepared result" where
  "runDag_cfg parse dump what fresh cfg runId =
     (case extractDagBody parse cfg of
        Inl err \<Rightarrow> ([], Inr (Rejected (failed_result (''extractDagBody failed: '' @ err))))
      | Inr body \<Rightarrow>
          (let body' = (case execParams cfg ''_nesting_depth'' of
                          None \<Rightarrow> body
                        | Some s \<Rightarrow>
                            (case (stoi s, body) of
                               (Inr n, JObj m) \<Rightarrow> JObj (m(''_nesting_depth'' \<mapsto> JInt n))
                             | _ \<Rightarrow> body))
           in runDag_body dump what fresh body' ''execution'' runId))"

text \<open>The overload on task descriptions: a verdict of \<^verbatim>\<open>validate\<close>, or the executor's first state.\<close>

fun dag_error_text :: "dag_error \<Rightarrow> string" where
  "dag_error_text NoError = []"
| "dag_error_text (MissingDependency d) = ''DagBuilder::validate()''
     @ bytes [0xE5,0xA4,0xB1,0xE8,0xB4,0xA5,0xEF,0xBC,0x9A,0xE6,0x9C,0xAA,0xE6,0x89,0xBE,0xE5,0x88,0xB0,
              0xE4,0xBE,0x9D,0xE8,0xB5,0x96,0xE9,0xA1,0xB9] @ '': '' @ d"
| "dag_error_text CycleDetected = ''DagBuilder::validate()''
     @ bytes [0xE5,0xA4,0xB1,0xE8,0xB4,0xA5,0xEF,0xBC,0x9A,0xE5,0x9C,0xA8] @ ''DAG''
     @ bytes [0xE4,0xB8,0xAD,0xE6,0xA3,0x80,0xE6,0xB5,0x8B,0xE5,0x88,0xB0,0xE7,0x8E,0xAF]"

datatype started = Refused TaskResult | Started DagExecutor

definition runDag_specs ::
  "string list \<Rightarrow> string list \<Rightarrow> string list \<Rightarrow> bool \<Rightarrow> DagTaskSpec list \<Rightarrow> DagConfig
    \<Rightarrow> DagEventCallbacks \<Rightarrow> string \<Rightarrow> started option" where
  "runDag_specs iterM iterS iterN worker specs cfg cbs runId =
     (let b = fold addTask (map (stamp_run runId) specs) []
      in case validate iterM iterS b of
           None \<Rightarrow> None
         | Some v \<Rightarrow>
             Some (if \<not> vr_ok v then Refused (result_of Failed (dag_error_text (vr_errorMessage v)))
                   else Started (execute_init iterN worker (mk_DagRunContext cfg (build b) cbs))))"

definition service_callbacks :: DagEventCallbacks where
  "service_callbacks = \<lparr>has_onNodeStatusChanged = True, has_onDagFinished = True\<rparr>"

definition summary :: "TaskResult \<Rightarrow> DagResult" where
  "summary r = \<lparr>dr_success = (res_status r = Success), dr_message = res_message r,
                dr_taskIds = [], dr_taskResults = Map.empty\<rparr>"

subsection \<open>The DAG execution strategy\<close>

text \<open>\<^verbatim>\<open>DagExecutionStrategy::execute\<close>.  The service is an argument (a function on the world, which
  may throw), as are the clock and the generated run id.\<close>

definition end_level :: "TaskStatus \<Rightarrow> LogLevel" where
  "end_level st = (if st = Failed then Error else if st = Timeout \<or> st = Canceled then Warn else Info)"

definition dag_end_text :: "TaskResult \<Rightarrow> string" where
  "dag_end_text r =
     ''DagExecution end: status='' @ to_string_int (status_int (res_status r)) @ '', durationMs=''
     @ to_string_int (durationMs r)
     @ (if res_message r \<noteq> [] then '', message='' @ res_message r else [])"

definition depth_error :: string where
  "depth_error = ''DAG nesting depth exceeds limit ('' @ to_string_int MAX_NESTING_DEPTH @ '')''"

definition dag_result_of :: "string \<Rightarrow> int \<Rightarrow> DagResult \<Rightarrow> TaskResult" where
  "dag_result_of runId dur dr =
     default_TaskResult
       \<lparr>res_metadata := [''run_id'' \<mapsto> runId], durationMs := dur,
        res_status := (if dr_success dr then Success else Failed), res_message := dr_message dr,
        exitCode := (if dr_success dr then 0 else 1)\<rparr>"

definition dag_execute ::
  "('w \<Rightarrow> int) \<Rightarrow> (TaskConfig \<Rightarrow> string \<Rightarrow> 'w \<Rightarrow> DagResult result \<times> 'w) \<Rightarrow> string \<Rightarrow> ExecutionContext \<Rightarrow> 'w
    \<Rightarrow> TaskResult result \<times> (LogLevel \<times> string) list \<times> 'w" where
  "dag_execute now runDag fresh c w =
     (if isCanceled c then (Inr (result_of Canceled ''DagExecution: canceled before start''), [], w)
      else if isTimeout (now w) c then (Inr (result_of Timeout ''DagExecution: timeout before start''), [], w)
      else if MAX_NESTING_DEPTH \<le> nestingDepth c then (Inr (result_of Failed depth_error), [], w)
      else
        (let runId = (if ctx_get c ''run_id'' [] = [] then fresh else ctx_get c ''run_id'' []);
             ev = [(Info, ''DagExecution start: runId='' @ runId @ '', nestingDepth=''
                      @ to_string_int (nestingDepth c))]
         in case runDag (config c) runId w of
              (Inl e, w') \<Rightarrow> (Inl e, ev, w')
            | (Inr dr, w') \<Rightarrow>
                (let r = dag_result_of runId (now w' - now w) dr
                 in (Inr r, ev @ [(end_level (res_status r), dag_end_text r)], w'))))"

subsection \<open>Nesting is bounded\<close>

lemma collect_mem: "collect f xs = Inr ys \<Longrightarrow> y \<in> set ys \<Longrightarrow> \<exists>x \<in> set xs. f x = Inr y"
  by (induction xs arbitrary: ys) (auto simp: bind_eq_Inr)

lemma runDag_body_param:
  assumes "runDag_body dump what fresh body src rid = (ev, Inr (Ready specs cfg r))" and "s \<in> set specs"
  shows "execParams (spec_runnerCfg s) ''_nesting_depth''
    = Some (to_string_int (wrap_signed 32 (parent_depth body + 1)))"
proof -
  obtain ts where "collect (task_spec dump r (wrap_signed 32 (parent_depth body + 1))) ts = Inr specs"
    using assms(1) by (auto simp: runDag_body_def Let_def split: sum.splits option.splits)
  then obtain jt where "task_spec dump r (wrap_signed 32 (parent_depth body + 1)) jt = Inr s"
    using collect_mem assms(2) by metis
  then show ?thesis by (auto simp: task_spec_def bind_eq_Inr Let_def)
qed

text \<open>A task the DAG strategy of \<open>c\<close> hands to the executor: the strategy got past its depth check and
  the service accepted the description.\<close>

inductive nested :: "TaskConfig \<Rightarrow> TaskConfig \<Rightarrow> bool" where
  nestedI: "nesting_of (execParams c) < MAX_NESTING_DEPTH \<Longrightarrow>
     runDag_cfg parse dump what fresh c rid = (ev, Inr (Ready specs dcfg r)) \<Longrightarrow> s \<in> set specs \<Longrightarrow>
     nested c (spec_runnerCfg s)"

lemma extractDagBody_object: "extractDagBody parse cfg = Inr body \<Longrightarrow> \<exists>m. body = JObj m"
  by (auto simp: extractDagBody_def Let_def split: option.splits sum.splits if_splits json.splits)

lemma nested_depth:
  assumes "nested c c'" and "execParams c ''_nesting_depth'' = Some (to_string_int d)" and "0 \<le> d" "d < 2 ^ 31"
  shows "d < MAX_NESTING_DEPTH \<and> execParams c' ''_nesting_depth'' = Some (to_string_int (d + 1))"
  using assms(1)
proof cases
  case (nestedI parse dump what fresh rid ev specs dcfg r s)
  have d: "stoi (to_string_int d) = Inr d" using stoi_to_string_int [of d] assms(3,4) by simp
  then have lt: "d < MAX_NESTING_DEPTH" using nestedI(2) assms(2) by (simp add: nesting_of_def)
  obtain m where "extractDagBody parse c = Inr (JObj m)"
    using nestedI(3) extractDagBody_object [of parse c] by (auto simp: runDag_cfg_def split: sum.splits)
  then have b: "runDag_body dump what fresh (JObj (m(''_nesting_depth'' \<mapsto> JInt d))) ''execution'' rid
      = (ev, Inr (Ready specs dcfg r))"
    using nestedI(3) assms(2) d by (simp add: runDag_cfg_def)
  have "parent_depth (JObj (m(''_nesting_depth'' \<mapsto> JInt d))) = d"
    using assms(3) lt by (simp add: parent_depth_def get_int_def wrap_signed_id)
  then have w: "wrap_signed 32 (parent_depth (JObj (m(''_nesting_depth'' \<mapsto> JInt d))) + 1) = d + 1"
    using assms(3) lt by (simp add: wrap_signed_id)
  then have "execParams c' ''_nesting_depth'' = Some (to_string_int (d + 1))"
    using runDag_body_param [OF b nestedI(4)] nestedI(1) by simp
  with lt show ?thesis by blast
qed

text \<open>A parent at depth 3 whose description has one task.\<close>

definition demo_body :: json where
  "demo_body = JObj [''tasks'' \<mapsto> JArr [JObj [''id'' \<mapsto> JStr ''a'']]]"

definition demo_parent :: TaskConfig where
  "demo_parent = default_TaskConfig\<lparr>execType := Dag, execCommand := ''{}'',
     execParams := [''_nesting_depth'' \<mapsto> to_string_int 3]\<rparr>"

lemma demo_nested: "\<exists>c. nested demo_parent c"
proof -
  have s: "stoi (to_string_int 3) = Inr 3" by (rule stoi_to_string_int) simp_all
  let ?b = "JObj [''tasks'' \<mapsto> JArr [JObj [''id'' \<mapsto> JStr ''a'']], ''_nesting_depth'' \<mapsto> JInt 3]"
  have "runDag_cfg (\<lambda>_. Inr demo_body) (\<lambda>_. []) (\<lambda>_. []) ''f'' demo_parent ''r''
      = runDag_body (\<lambda>_. []) (\<lambda>_. []) ''f'' ?b ''execution'' ''r''"
    by (simp add: runDag_cfg_def extractDagBody_def demo_parent_def default_TaskConfig_def demo_body_def s)
  moreover have "\<exists>ev specs dcfg. runDag_body (\<lambda>_. []) (\<lambda>_. []) ''f'' ?b ''execution'' ''r''
      = (ev, Inr (Ready specs dcfg ''r'')) \<and> specs \<noteq> []"
    by (simp add: runDag_body_def from_json_def value_or_def tasks_of_def task_spec_def deps_json_def
        parseTaskConfigFromReq_def task_json_def Let_def default_DagConfig_def)
  ultimately obtain ev specs dcfg where "runDag_cfg (\<lambda>_. Inr demo_body) (\<lambda>_. []) (\<lambda>_. []) ''f'' demo_parent ''r''
      = (ev, Inr (Ready specs dcfg ''r''))" "specs \<noteq> []" by auto
  with nestedI [OF _ this(1), of "hd specs"] show ?thesis
    by (auto simp: demo_parent_def nesting_of_def s)
qed

subsection \<open>From the request to the verdict\<close>

lemma fold_addTask: "fold addTask xs b = b @ xs"
  by (induction xs arbitrary: b) (simp_all add: addTask_def)


definition svc_prepared :: "svc_event list \<times> prepared result" where
  "svc_prepared = runDag_body (\<lambda>_. []) (\<lambda>_. []) ''f'' demo_body ''manual'' ''r''"

definition svc_specs :: "DagTaskSpec list" where
  "svc_specs = (case snd svc_prepared of Inr (Ready specs _ _) \<Rightarrow> specs | _ \<Rightarrow> [])"

definition svc_cfg :: DagConfig where
  "svc_cfg = (case snd svc_prepared of Inr (Ready _ cfg _) \<Rightarrow> cfg | _ \<Rightarrow> default_DagConfig)"

definition svc_start :: DagExecutor where
  "svc_start = start_exec [''r:a''] False svc_cfg service_callbacks (build (map (stamp_run ''r'') svc_specs))"

definition svc_run :: "choice list" where
  "svc_run = replicate 7 Sched @ replicate 4 (Job 0 (demo_result Success)) @ replicate 4 Sched"

lemma svc_ready: "runDag_body (\<lambda>_. []) (\<lambda>_. []) ''f'' demo_body ''manual'' ''r''
   = (fst svc_prepared, Inr (Ready svc_specs svc_cfg ''r''))"
  by (simp add: svc_prepared_def svc_specs_def svc_cfg_def runDag_body_def from_json_def value_or_def
      tasks_of_def task_spec_def deps_json_def parseTaskConfigFromReq_def task_json_def Let_def
      default_DagConfig_def demo_body_def)

lemma svc_runs: "map_option (\<lambda>s. (sched s, nst ''r'' (graph (ctx s)) node_a,
     map_option res_status (taskResults (ctx s) node_a))) (run_choices svc_run svc_start)
   = Some (SDone, Success, Some Success)"
  by code_simp

lemma svc_one_task: "map (tid_value \<circ> spec_id) svc_specs = [''a'']" "spec_values (map (stamp_run ''r'') svc_specs) = [''a'']"
  by code_simp+

lemma svc_valid: "map_option vr_ok (validate [''a''] [''a''] (map (stamp_run ''r'') svc_specs)) = Some True"
  by code_simp

lemma svc_started: "runDag_specs [''a''] [''a''] [''r:a''] False svc_specs svc_cfg service_callbacks ''r''
   = Some (Started svc_start)"
  using svc_valid by (auto simp: runDag_specs_def fold_addTask Let_def svc_start_def)

lemma svc_ids: "graph_ids ''r'' (build (map (stamp_run ''r'') svc_specs)) = {node_a}"
  "dom (nodes (build (map (stamp_run ''r'') svc_specs))) = {''r:a''}"
proof -
  obtain v where v: "validate [''a''] [''a''] (map (stamp_run ''r'') svc_specs) = Some v" "vr_ok v"
    using svc_valid by auto
  have it: "iterates [''a''] (map (stamp_run ''r'') svc_specs)"
    by (auto simp: iterates_def svc_one_task)
  have "(\<lambda>s. TaskId (tid_value (spec_id s)) ''r'') ` set svc_specs
      = (\<lambda>x. TaskId x ''r'') ` set (map (tid_value \<circ> spec_id) svc_specs)" by auto
  then have im: "(\<lambda>s. TaskId (tid_value (spec_id s)) ''r'') ` set svc_specs = {node_a}"
    unfolding svc_one_task by simp
  show ids: "graph_ids ''r'' (build (map (stamp_run ''r'') svc_specs)) = {node_a}"
    using validated_build [OF _ it it v] im by simp
  then show "dom (nodes (build (map (stamp_run ''r'') svc_specs))) = {''r:a''}"
    using validated_build [OF _ it it v] by (simp add: wf_graph_def makeKey_def)
qed


end
