(* ===== verification/Worker_Registry.thy ===== *)
theory Worker_Registry
  imports Prelude "HOL-Library.Multiset"
begin

text \<open>
  \<^verbatim>\<open>worker/worker_info.h\<close>, \<^verbatim>\<open>worker/worker_selector.cpp\<close> and \<^verbatim>\<open>worker/server_worker_registry.cpp\<close>: the
  master's table of workers and the choice of a worker for a queue.  Times are milliseconds of the
  steady clock; an operation reads the clock once, which is the argument \<open>now\<close>.  The order in which a
  hash map is visited is the argument \<open>it\<close>.  The selector classes share a virtual \<^verbatim>\<open>pick\<close>; what a caller
  may rely on is the locale \<open>worker_selector\<close>, which both implementations satisfy.  The sweeper thread is
  represented by the operation it calls, \<open>pruneDeadWorkers\<close>.
\<close>

subsection \<open>Workers\<close>

record WorkerInfo =
  wid :: string
  whost :: string
  wport :: int
  wqueues :: "string list"
  wlabels :: "string list"
  runningTasks :: int
  lastHeartbeat :: int
  maxRunningTasks :: int
  dispatchCooldownUntil :: int

definition isAlive :: "int \<Rightarrow> WorkerInfo \<Rightarrow> bool" where
  "isAlive now w \<longleftrightarrow> now - lastHeartbeat w < 10000"

definition isFull :: "WorkerInfo \<Rightarrow> bool" where
  "isFull w \<longleftrightarrow> maxRunningTasks w \<le> runningTasks w"

definition isCoolingDown :: "int \<Rightarrow> WorkerInfo \<Rightarrow> bool" where
  "isCoolingDown now w \<longleftrightarrow> now < dispatchCooldownUntil w"

type_synonym workers = "string \<rightharpoonup> WorkerInfo"

subsection \<open>Selection\<close>

definition queue_match :: "WorkerInfo \<Rightarrow> string \<Rightarrow> bool" where
  "queue_match w queue \<longleftrightarrow>
     (if queue = [] then True else if wqueues w = [] then queue = ''default'' else queue \<in> set (wqueues w))"

definition collect_candidates :: "int \<Rightarrow> string list \<Rightarrow> workers \<Rightarrow> string \<Rightarrow> bool \<Rightarrow> WorkerInfo list" where
  "collect_candidates now it ws queue includeCoolingDown =
     filter (\<lambda>w. isAlive now w \<and> queue_match w queue \<and> \<not> isFull w
               \<and> (includeCoolingDown \<or> \<not> isCoolingDown now w))
       (List.map_filter ws it)"

definition candidates :: "int \<Rightarrow> string list \<Rightarrow> workers \<Rightarrow> string \<Rightarrow> WorkerInfo list" where
  "candidates now it ws queue =
     (let cs = collect_candidates now it ws queue False in
      if cs = [] then collect_candidates now it ws queue True else cs)"

definition better :: "WorkerInfo \<Rightarrow> WorkerInfo \<Rightarrow> bool" where
  "better a b \<longleftrightarrow> runningTasks a < runningTasks b \<or> runningTasks a = runningTasks b \<and> wid a < wid b"

definition keep_best :: "WorkerInfo option \<Rightarrow> WorkerInfo \<Rightarrow> WorkerInfo option" where
  "keep_best best w = (case best of None \<Rightarrow> Some w | Some b \<Rightarrow> if better w b then Some w else best)"

definition least_load_pick :: "int \<Rightarrow> string list \<Rightarrow> workers \<Rightarrow> string \<Rightarrow> WorkerInfo option" where
  "least_load_pick now it ws queue = foldl keep_best None (candidates now it ws queue)"

type_synonym queueIndex = "string \<Rightarrow> nat"

definition round_robin_pick ::
  "int \<Rightarrow> string list \<Rightarrow> workers \<Rightarrow> string \<Rightarrow> queueIndex \<Rightarrow> WorkerInfo option \<times> queueIndex" where
  "round_robin_pick now it ws queue qi =
     (let cs = candidates now it ws queue in
      if cs = [] then (None, qi)
      else
        (let sorted = sort_key wid cs;
             cursor = (if length sorted \<le> qi queue then 0 else qi queue)
         in (Some (sorted ! cursor), qi(queue := (cursor + 1) mod length sorted))))"

datatype selector = LeastLoadSelector | RoundRobinSelector queueIndex

definition pick :: "int \<Rightarrow> string list \<Rightarrow> workers \<Rightarrow> string \<Rightarrow> selector \<Rightarrow> WorkerInfo option \<times> selector" where
  "pick now it ws queue sel =
     (case sel of
        LeastLoadSelector \<Rightarrow> (least_load_pick now it ws queue, sel)
      | RoundRobinSelector qi \<Rightarrow>
          (case round_robin_pick now it ws queue qi of (w, qi') \<Rightarrow> (w, RoundRobinSelector qi')))"

subsection \<open>The registry\<close>

record ServerWorkerRegistry =
  reg_workers :: workers
  reg_selector :: selector

definition normalize_strategy_name :: "string \<Rightarrow> string" where
  "normalize_strategy_name v = (if v = [] then ''least-load'' else tolower v)"

definition initSelector :: "string \<Rightarrow> selector" where
  "initSelector configured =
     (if normalize_strategy_name configured \<in> {''rr'', ''round-robin'', ''round_robin''}
      then RoundRobinSelector (\<lambda>_. 0) else LeastLoadSelector)"

definition new_registry :: "string \<Rightarrow> ServerWorkerRegistry" where
  "new_registry configured = \<lparr>reg_workers = Map.empty, reg_selector = initSelector configured\<rparr>"

definition upsertWorker :: "int \<Rightarrow> WorkerInfo \<Rightarrow> ServerWorkerRegistry \<Rightarrow> ServerWorkerRegistry" where
  "upsertWorker now info r = r\<lparr>reg_workers := (reg_workers r)(wid info \<mapsto> info\<lparr>lastHeartbeat := now\<rparr>)\<rparr>"

definition removeWorker :: "string \<Rightarrow> ServerWorkerRegistry \<Rightarrow> ServerWorkerRegistry" where
  "removeWorker i r = r\<lparr>reg_workers := (reg_workers r)(i := None)\<rparr>"

definition listWorkers :: "string list \<Rightarrow> ServerWorkerRegistry \<Rightarrow> WorkerInfo list" where
  "listWorkers it r = List.map_filter (reg_workers r) it"

definition touchHeartbeat :: "int \<Rightarrow> string \<Rightarrow> int \<Rightarrow> ServerWorkerRegistry \<Rightarrow> bool \<times> ServerWorkerRegistry" where
  "touchHeartbeat now i n r =
     (case reg_workers r i of
        None \<Rightarrow> (False, r)
      | Some w \<Rightarrow>
          (True, r\<lparr>reg_workers := (reg_workers r)(i \<mapsto> w\<lparr>lastHeartbeat := now, runningTasks := n\<rparr>)\<rparr>))"

definition pickWorkerForQueue ::
  "int \<Rightarrow> string list \<Rightarrow> string \<Rightarrow> ServerWorkerRegistry \<Rightarrow> WorkerInfo option \<times> ServerWorkerRegistry" where
  "pickWorkerForQueue now it queue r =
     (case pick now it (reg_workers r) queue (reg_selector r) of (w, sel) \<Rightarrow> (w, r\<lparr>reg_selector := sel\<rparr>))"

definition markDispatchFailure :: "int \<Rightarrow> string \<Rightarrow> int \<Rightarrow> ServerWorkerRegistry \<Rightarrow> ServerWorkerRegistry" where
  "markDispatchFailure now i cooldown r =
     (case reg_workers r i of
        None \<Rightarrow> r
      | Some w \<Rightarrow> r\<lparr>reg_workers := (reg_workers r)(i \<mapsto> w\<lparr>dispatchCooldownUntil := now + cooldown\<rparr>)\<rparr>)"

definition pruned :: "int \<Rightarrow> int \<Rightarrow> WorkerInfo \<Rightarrow> bool" where
  "pruned now pruneAfter w \<longleftrightarrow> \<not> isAlive now w \<and> pruneAfter < now - lastHeartbeat w"

definition pruneDeadWorkers :: "int \<Rightarrow> int \<Rightarrow> ServerWorkerRegistry \<Rightarrow> ServerWorkerRegistry" where
  "pruneDeadWorkers now pruneAfter r =
     r\<lparr>reg_workers := (\<lambda>i. case reg_workers r i of
                          None \<Rightarrow> None
                        | Some w \<Rightarrow> if pruned now pruneAfter w then None else Some w)\<rparr>"

subsection \<open>What every selector promises\<close>

definition eligible :: "int \<Rightarrow> workers \<Rightarrow> string \<Rightarrow> WorkerInfo \<Rightarrow> bool" where
  "eligible now ws queue w \<longleftrightarrow> w \<in> ran ws \<and> isAlive now w \<and> queue_match w queue \<and> \<not> isFull w"

text \<open>The visiting order lists every key once.\<close>

definition visits :: "string list \<Rightarrow> workers \<Rightarrow> bool" where
  "visits it ws \<longleftrightarrow> distinct it \<and> set it = dom ws"

locale worker_selector =
  fixes sel_pick :: "int \<Rightarrow> string list \<Rightarrow> workers \<Rightarrow> string \<Rightarrow> 's \<Rightarrow> WorkerInfo option \<times> 's"
  assumes pick_mem: "sel_pick now it ws q s = (Some w, s') \<Longrightarrow> w \<in> set (candidates now it ws q)"
    and pick_none: "sel_pick now it ws q s = (None, s') \<Longrightarrow> candidates now it ws q = []"
begin

lemma candidate_eligible:
  assumes "visits it ws" "w \<in> set (candidates now it ws q)" shows "eligible now ws q w"
  using assms by (auto simp: candidates_def collect_candidates_def eligible_def visits_def
      set_map_filter ran_def Let_def split: if_splits)

lemma no_candidates:
  assumes "visits it ws" "candidates now it ws q = []" shows "\<not> eligible now ws q w"
  using assms by (auto simp: candidates_def collect_candidates_def eligible_def visits_def Let_def
      filter_empty_conv set_map_filter ran_def split: if_splits)

lemma pick_safe:
  assumes "visits it ws" "sel_pick now it ws q s = (r, s')"
  shows "case r of Some w \<Rightarrow> eligible now ws q w | None \<Rightarrow> \<forall>w. \<not> eligible now ws q w"
proof (cases r)
  case None
  with assms pick_none no_candidates show ?thesis by fastforce
next
  case (Some w)
  with assms pick_mem candidate_eligible show ?thesis by fastforce
qed

text \<open>A worker in its cool-down is chosen only when there is no other.\<close>

lemma pick_cool:
  assumes "visits it ws" "sel_pick now it ws q s = (Some w, s')" "isCoolingDown now w" "eligible now ws q v"
  shows "isCoolingDown now v"
proof (rule ccontr)
  assume "\<not> isCoolingDown now v"
  then have "v \<in> set (collect_candidates now it ws q False)"
    using assms(1,4) by (auto simp: eligible_def collect_candidates_def visits_def set_map_filter ran_def)
  then have "candidates now it ws q = collect_candidates now it ws q False"
    by (auto simp: candidates_def Let_def)
  with pick_mem [OF assms(2)] assms(3) show False by (simp add: collect_candidates_def)
qed

end

lemma better_trans: "\<not> better v w \<Longrightarrow> \<not> better u v \<Longrightarrow> \<not> better u w"
  by (auto simp: better_def)

lemma keep_best_Some:
  obtains x where "keep_best b c = Some x" "x = c \<or> b = Some x" "\<not> better c x" "\<And>v. b = Some v \<Longrightarrow> \<not> better v x"
  by (cases b) (fastforce simp: keep_best_def better_def split: if_splits)+

lemma foldl_keep_best:
  assumes "foldl keep_best b cs = Some w"
  shows "w \<in> set cs \<or> b = Some w" and "\<forall>v \<in> set cs. \<not> better v w" and "\<And>v. b = Some v \<Longrightarrow> \<not> better v w"
proof -
  have "(w \<in> set cs \<or> b = Some w) \<and> (\<forall>v \<in> set cs. \<not> better v w) \<and> (\<forall>v. b = Some v \<longrightarrow> \<not> better v w)"
    using assms
  proof (induction cs arbitrary: b)
    case Nil
    then show ?case by (auto simp: better_def)
  next
    case (Cons c cs)
    obtain x where x: "keep_best b c = Some x" "x = c \<or> b = Some x" "\<not> better c x"
      "\<And>v. b = Some v \<Longrightarrow> \<not> better v x" by (rule keep_best_Some [of b c], rule that)
    have i: "w \<in> set cs \<or> x = w" "\<forall>v \<in> set cs. \<not> better v w" "\<not> better x w"
      using Cons.IH [of "Some x"] Cons.prems x(1) by auto
    have "\<not> better c w" "b = Some v \<Longrightarrow> \<not> better v w" for v
      using better_trans i(3) x(3,4) by blast+
    with i(1,2) x(2) show ?case by auto
  qed
  then show "w \<in> set cs \<or> b = Some w" "\<forall>v \<in> set cs. \<not> better v w" "\<And>v. b = Some v \<Longrightarrow> \<not> better v w"
    by auto
qed

lemma foldl_keep_best_None: "foldl keep_best b cs = None \<Longrightarrow> b = None \<and> cs = []"
proof (induction cs arbitrary: b)
  case (Cons c cs)
  obtain x where "keep_best b c = Some x" by (rule keep_best_Some [of b c], rule that)
  with Cons.IH [of "Some x"] Cons.prems show ?case by simp
qed simp

interpretation ll: worker_selector "\<lambda>now it ws q (s :: unit). (least_load_pick now it ws q, s)"
proof
  fix now it ws q s s' w
  show "(least_load_pick now it ws q, s) = (Some w, s') \<Longrightarrow> w \<in> set (candidates now it ws q)"
    using foldl_keep_best(1) [of None "candidates now it ws q"] by (auto simp: least_load_pick_def)
  show "(least_load_pick now it ws q, s) = (None, s') \<Longrightarrow> candidates now it ws q = []"
    using foldl_keep_best_None [of None "candidates now it ws q"] by (auto simp: least_load_pick_def)
qed

interpretation rr: worker_selector round_robin_pick
proof
  fix now it ws q s s' w
  assume "round_robin_pick now it ws q s = (Some w, s')"
  then show "w \<in> set (candidates now it ws q)"
    by (auto simp: round_robin_pick_def Let_def split: if_splits)
      (metis length_greater_0_conv length_sort nth_mem set_sort linorder_not_le)+
next
  fix now it ws q s s'
  assume "round_robin_pick now it ws q s = (None, s')"
  then show "candidates now it ws q = []" by (auto simp: round_robin_pick_def Let_def split: if_splits)
qed

interpretation any: worker_selector pick
proof
  fix now it ws q s s' w
  show "pick now it ws q s = (Some w, s') \<Longrightarrow> w \<in> set (candidates now it ws q)"
    by (auto simp: pick_def split: selector.splits prod.splits dest: rr.pick_mem)
      (rule ll.pick_mem [where s = "()" and s' = "()"], simp)
  show "pick now it ws q s = (None, s') \<Longrightarrow> candidates now it ws q = []"
    by (auto simp: pick_def split: selector.splits prod.splits dest: rr.pick_none)
      (rule ll.pick_none [where s = "()" and s' = "()"], simp)
qed

subsection \<open>Reachable registries\<close>

inductive reg_step :: "ServerWorkerRegistry \<Rightarrow> ServerWorkerRegistry \<Rightarrow> bool" where
  rs_upsert: "reg_step r (upsertWorker now info r)"
| rs_remove: "reg_step r (removeWorker i r)"
| rs_touch: "reg_step r (snd (touchHeartbeat now i n r))"
| rs_pick: "reg_step r (snd (pickWorkerForQueue now it q r))"
| rs_fail: "reg_step r (markDispatchFailure now i cooldown r)"
| rs_prune: "reg_step r (pruneDeadWorkers now after r)"

definition reg_ok :: "ServerWorkerRegistry \<Rightarrow> bool" where
  "reg_ok r \<longleftrightarrow> (\<forall>i w. reg_workers r i = Some w \<longrightarrow> wid w = i)"

lemma reg_ok_step: "reg_step r r' \<Longrightarrow> reg_ok r \<Longrightarrow> reg_ok r'"
  by (induction rule: reg_step.induct)
    (auto simp: reg_ok_def upsertWorker_def removeWorker_def touchHeartbeat_def pickWorkerForQueue_def
      markDispatchFailure_def pruneDeadWorkers_def split: option.splits prod.splits if_splits)

lemma reg_ok_reach:
  assumes "steps reg_step (new_registry configured) r" shows "reg_ok r"
  using assms by (rule steps_invariant) (auto simp: new_registry_def reg_ok_def intro: reg_ok_step [unfolded reg_ok_def, rule_format])

text \<open>Whatever the strategy and the history of the registry, the worker picked for a queue is
  registered under its own id, alive, serves the queue and is below its capacity; one in its
  cool-down is picked only when every such worker is; and none is picked only when there is none.\<close>

theorem pick_worker_safe:
  assumes "steps reg_step (new_registry configured) r" and "visits it (reg_workers r)"
    and "pickWorkerForQueue now it q r = (res, r')"
  shows "case res of
      None \<Rightarrow> \<forall>w. \<not> eligible now (reg_workers r) q w
    | Some w \<Rightarrow> eligible now (reg_workers r) q w \<and> reg_workers r (wid w) = Some w
        \<and> (isCoolingDown now w \<longrightarrow> (\<forall>v. eligible now (reg_workers r) q v \<longrightarrow> isCoolingDown now v))"
proof -
  obtain sel where p: "pick now it (reg_workers r) q (reg_selector r) = (res, sel)"
    using assms(3) by (auto simp: pickWorkerForQueue_def split: prod.splits)
  have safe: "case res of Some w \<Rightarrow> eligible now (reg_workers r) q w | None \<Rightarrow> \<forall>w. \<not> eligible now (reg_workers r) q w"
    by (rule any.pick_safe [OF assms(2) p])
  show ?thesis
  proof (cases res)
    case (Some w)
    then have e: "eligible now (reg_workers r) q w" using safe by simp
    then obtain i where "reg_workers r i = Some w" by (auto simp: eligible_def ran_def)
    then have "reg_workers r (wid w) = Some w" using reg_ok_reach [OF assms(1)] by (auto simp: reg_ok_def)
    moreover have "isCoolingDown now w \<longrightarrow> (\<forall>v. eligible now (reg_workers r) q v \<longrightarrow> isCoolingDown now v)"
      using any.pick_cool [OF assms(2) p [unfolded Some]] by blast
    ultimately show ?thesis using Some e by simp
  qed (use safe in simp)
qed

text \<open>Least load: the worker picked has the fewest running tasks among the candidates, the smallest
  id among those.\<close>

theorem least_load_minimal:
  assumes "least_load_pick now it ws q = Some w" and "v \<in> set (candidates now it ws q)"
  shows "w \<in> set (candidates now it ws q)
    \<and> (runningTasks w < runningTasks v \<or> runningTasks w = runningTasks v \<and> wid w \<le> wid v)"
proof -
  have f: "foldl keep_best None (candidates now it ws q) = Some w"
    using assms(1) by (simp add: least_load_pick_def)
  have "\<not> better v w" using foldl_keep_best(2) [OF f] assms(2) by blast
  then show ?thesis using foldl_keep_best(1) [OF f] by (auto simp: better_def)
qed

text \<open>Consecutive picks while the registry does not change.\<close>

fun rr_picks :: "nat \<Rightarrow> int \<Rightarrow> string list \<Rightarrow> workers \<Rightarrow> string \<Rightarrow> queueIndex \<Rightarrow> WorkerInfo option list" where
  "rr_picks 0 now it ws q qi = []"
| "rr_picks (Suc n) now it ws q qi =
     (case round_robin_pick now it ws q qi of (w, qi') \<Rightarrow> w # rr_picks n now it ws q qi')"

lemma rr_picks_nth:
  assumes "candidates now it ws q \<noteq> []"
  defines "cs \<equiv> sort_key wid (candidates now it ws q)"
  shows "rr_picks n now it ws q qi =
    map (\<lambda>i. Some (cs ! (((if length cs \<le> qi q then 0 else qi q) + i) mod length cs))) [0..<n]"
proof (induction n arbitrary: qi)
  case (Suc n)
  let ?c = "if length cs \<le> qi q then 0 else qi q"
  let ?qi = "qi(q := (?c + 1) mod length cs)"
  have pos: "0 < length cs" using assms by (simp add: cs_def)
  have p: "round_robin_pick now it ws q qi = (Some (cs ! ?c), ?qi)"
    using assms(1) by (simp add: round_robin_pick_def cs_def Let_def)
  have c: "?c < length cs" using pos by auto
  have c': "(if length cs \<le> ?qi q then 0 else ?qi q) = (?c + 1) mod length cs"
    using mod_less_divisor [OF pos, of "?c + 1"] by auto
  have m: "map (\<lambda>i. Some (cs ! ((?c + i) mod length cs))) [0..<Suc n]
      = Some (cs ! ?c) # map (\<lambda>i. Some (cs ! (((?c + 1) mod length cs + i) mod length cs))) [0..<n]"
    unfolding upt_conv_Cons [OF zero_less_Suc] map_Suc_upt [symmetric] list.map map_map comp_def
    using c by (simp add: mod_simps)
  show ?case unfolding rr_picks.simps p prod.case Suc.IH [of ?qi] c' m ..
qed simp

lemma mset_rot: "mset (rotate n xs) = mset xs"
  by (metis append_take_drop_id mset_append rotate_drop_take union_commute)

text \<open>Round robin is fair: while the registry does not change, as many consecutive picks for a queue
  as there are candidates choose each of them exactly once.\<close>

theorem round_robin_fair:
  assumes "candidates now it ws q \<noteq> []"
  shows "mset (rr_picks (length (candidates now it ws q)) now it ws q qi)
    = image_mset Some (mset (candidates now it ws q))"
proof -
  define cs where "cs = sort_key wid (candidates now it ws q)"
  define c where "c = (if length cs \<le> qi q then 0 else qi q)"
  have len: "length cs = length (candidates now it ws q)" by (simp add: cs_def)
  have "rr_picks (length cs) now it ws q qi = map Some (map (\<lambda>i. cs ! ((c + i) mod length cs)) [0..<length cs])"
    using rr_picks_nth [OF assms, of "length cs" qi] by (simp add: cs_def c_def)
  also have "map (\<lambda>i. cs ! ((c + i) mod length cs)) [0..<length cs] = rotate c cs"
    by (rule nth_equalityI) (simp_all add: nth_rotate)
  finally show ?thesis unfolding len [symmetric] by (simp add: cs_def mset_rot)
qed

subsection \<open>A small fleet\<close>

definition demo_worker :: "string \<Rightarrow> int \<Rightarrow> WorkerInfo" where
  "demo_worker i n = \<lparr>wid = i, whost = ''h'', wport = 8083, wqueues = [], wlabels = [], runningTasks = n,
     lastHeartbeat = 0, maxRunningTasks = 4, dispatchCooldownUntil = 0\<rparr>"

definition demo_fleet :: ServerWorkerRegistry where
  "demo_fleet = upsertWorker 0 (demo_worker ''b'' 1) (upsertWorker 0 (demo_worker ''a'' 1) (new_registry ''rr''))"

lemma demo_fleet_workers:
  "reg_workers demo_fleet = [''a'' \<mapsto> demo_worker ''a'' 1, ''b'' \<mapsto> demo_worker ''b'' 1]"
  by (auto simp: demo_fleet_def upsertWorker_def new_registry_def demo_worker_def)

lemma demo_fleet_reach: "steps reg_step (new_registry ''rr'') demo_fleet"
  unfolding demo_fleet_def by (rule steps_snoc [OF steps_snoc [OF steps_refl]]) (rule rs_upsert)+

lemma demo_candidates:
  "candidates 5 [''a'', ''b''] (reg_workers demo_fleet) ''default'' = [demo_worker ''a'' 1, demo_worker ''b'' 1]"
  by code_simp

theorem pick_worker_safe_witness:
  "\<exists>w r'. pickWorkerForQueue 5 [''a'', ''b''] ''default'' demo_fleet = (Some w, r')
     \<and> eligible 5 (reg_workers demo_fleet) ''default'' w"
proof -
  have v: "visits [''a'', ''b''] (reg_workers demo_fleet)" by (auto simp: visits_def demo_fleet_workers)
  obtain res r' where p: "pickWorkerForQueue 5 [''a'', ''b''] ''default'' demo_fleet = (res, r')" by fastforce
  have "eligible 5 (reg_workers demo_fleet) ''default'' (demo_worker ''a'' 1)"
    by (auto simp: eligible_def demo_fleet_workers ran_def demo_worker_def isAlive_def queue_match_def isFull_def)
  with pick_worker_safe [OF demo_fleet_reach v p] p show ?thesis by (cases res) auto
qed

theorem least_load_minimal_witness:
  "least_load_pick 5 [''a'', ''b''] (reg_workers demo_fleet) ''default'' = Some (demo_worker ''a'' 1)
   \<and> wid (demo_worker ''a'' 1) \<le> wid (demo_worker ''b'' 1)"
proof -
  have p: "least_load_pick 5 [''a'', ''b''] (reg_workers demo_fleet) ''default'' = Some (demo_worker ''a'' 1)"
    by code_simp
  from least_load_minimal [OF p, of "demo_worker ''b'' 1"] p show ?thesis
    by (simp add: demo_candidates) (simp add: demo_worker_def)
qed

theorem round_robin_fair_witness:
  "mset (rr_picks 2 5 [''a'', ''b''] (reg_workers demo_fleet) ''default'' (\<lambda>_. 1))
   = {#Some (demo_worker ''a'' 1), Some (demo_worker ''b'' 1)#}"
  using round_robin_fair [of 5 "[''a'', ''b'']" "reg_workers demo_fleet" "''default''" "\<lambda>_. 1"]
  by (simp add: demo_candidates numeral_2_eq_2)

end
