(* ===== verification/Remote_Strategy.thy ===== *)
theory Remote_Strategy
  imports Dag_Service Worker_Registry
begin

text \<open>
  \<^verbatim>\<open>execution/remote_strategy.cpp\<close> and \<^verbatim>\<open>utils/http_params.h\<close>: dispatching a task to a worker over HTTP,
  with retries on other workers.  The clock, the cancel flag, the registry and the HTTP client are
  operations on a world \<open>'w\<close>; what the client returns is unrestricted.  The configured number of
  retries, text parsing and printing are arguments.  Log events, web socket events, output lines and
  requests are recorded in order.
\<close>

subsection \<open>HTTP replies\<close>

datatype http_error =
    Connection | Read | Write | ConnectionTimeout | ErrCanceled | SSLConnection
  | SSLServerVerification | SSLServerHostnameVerification | OtherError int

fun http_error_to_string :: "http_error \<Rightarrow> string" where
  "http_error_to_string Connection = ''connection''"
| "http_error_to_string Read = ''read''"
| "http_error_to_string Write = ''write''"
| "http_error_to_string ConnectionTimeout = ''timeout''"
| "http_error_to_string ErrCanceled = ''canceled''"
| "http_error_to_string SSLConnection = ''ssl_connection''"
| "http_error_to_string SSLServerVerification = ''ssl_verify''"
| "http_error_to_string SSLServerHostnameVerification = ''ssl_hostname_verify''"
| "http_error_to_string (OtherError n) = ''error_'' @ to_string_int n"

definition is_retryable_http_status :: "int \<Rightarrow> bool" where
  "is_retryable_http_status st \<longleftrightarrow> 500 \<le> st \<and> st \<le> 599"

definition http_get_int :: "(string \<Rightarrow> string option) \<Rightarrow> string \<Rightarrow> int \<Rightarrow> int" where
  "http_get_int params key dflt =
     (case params key of
        None \<Rightarrow> dflt
      | Some s \<Rightarrow> (case stoi s of Inr n \<Rightarrow> n | Inl _ \<Rightarrow> dflt))"

datatype http_reply = NoResponse http_error | Response int string

record 'w remote_env =
  rm_now :: "'w \<Rightarrow> int"
  rm_canceled :: "'w \<Rightarrow> bool"
  rm_pick :: "string \<Rightarrow> 'w \<Rightarrow> WorkerInfo option \<times> 'w"
  rm_mark_failure :: "string \<Rightarrow> int \<Rightarrow> 'w \<Rightarrow> 'w"
  rm_post :: "WorkerInfo \<Rightarrow> string \<Rightarrow> string \<Rightarrow> int \<times> int \<Rightarrow> 'w \<Rightarrow> http_reply \<times> 'w"

datatype remote_event =
    EvLog LogLevel string "string \<rightharpoonup> string"
  | EvWs string "(string \<times> string) list"
  | EvLine bool string
  | EvPost WorkerInfo string http_reply

subsection \<open>Helpers\<close>

text \<open>\<^verbatim>\<open>push_lines_to_buffer\<close>: the lines of a text, without the empty one after a final newline.\<close>

function lines_of :: "string \<Rightarrow> string list" where
  "lines_of text =
     (case split_at CHR 0x0A text of
        (line, None) \<Rightarrow> if line = [] then [] else [line]
      | (line, Some rest) \<Rightarrow> line # lines_of rest)"
  by auto
termination by (relation "measure length") (auto dest: split_at_Some [OF sym])

declare lines_of.simps [simp del]

definition push_lines_to_buffer :: "bool \<Rightarrow> string \<Rightarrow> remote_event list" where
  "push_lines_to_buffer isStdout text = map (EvLine isStdout) (lines_of text)"

definition base_remote_fields :: "TaskConfig \<Rightarrow> string \<Rightarrow> string \<Rightarrow> string \<Rightarrow> int \<Rightarrow> (string \<rightharpoonup> string)" where
  "base_remote_fields cfg queue wId wHost wPort =
     (let put = (\<lambda>b k v m. if b then m(k \<mapsto> v) else m)
      in put (0 < wPort) ''worker_port'' (to_string_int wPort)
          (put (wHost \<noteq> []) ''worker_host'' wHost
            (put (wId \<noteq> []) ''worker_id'' wId
              [''exec_type'' \<mapsto> TaskExecTypetoString (execType cfg), ''queue'' \<mapsto> queue])))"

definition worker_fields :: "TaskConfig \<Rightarrow> string \<Rightarrow> WorkerInfo \<Rightarrow> (string \<rightharpoonup> string)" where
  "worker_fields cfg queue wi = base_remote_fields cfg queue (wid wi) (whost wi) (wport wi)"

definition emit_dispatch_end :: "LogLevel \<Rightarrow> string \<Rightarrow> (string \<rightharpoonup> string) \<Rightarrow> string \<Rightarrow> remote_event list" where
  "emit_dispatch_end lvl headline f msg = [EvLog lvl headline f, EvLog lvl msg f]"

definition push_ws_task_event :: "string \<Rightarrow> WorkerInfo \<Rightarrow> (string \<times> string) list \<Rightarrow> remote_event" where
  "push_ws_task_event event wi extra =
     EvWs event ([(''worker_id'', wid wi), (''worker_host'', whost wi), (''worker_port'', to_string_int (wport wi))] @ extra)"

definition pre_dispatch_abort :: "('w, 'z) remote_env_scheme \<Rightarrow> ExecutionContext \<Rightarrow> 'w \<Rightarrow> TaskResult option" where
  "pre_dispatch_abort E c w =
     (if rm_canceled E w then Some (result_of Canceled ''RemoteExecution: canceled before dispatch'')
      else if isTimeout (rm_now E w) c then Some (result_of Timeout ''RemoteExecution: timeout before dispatch'')
      else None)"

definition read_dispatch_max_retries :: "int \<Rightarrow> int" where
  "read_dispatch_max_retries v = (if v < 0 then 0 else v)"

definition string_member :: "string \<Rightarrow> json \<Rightarrow> string option" where
  "string_member k j = (case member k j of Some (JStr s) \<Rightarrow> Some s | _ \<Rightarrow> None)"

definition build_dispatch_ack_result :: "(json \<Rightarrow> string) \<Rightarrow> json \<Rightarrow> TaskResult result" where
  "build_dispatch_ack_result dump payload =
     bind (value_or get_bool ''ok'' False payload) (\<lambda>ok0.
       let run = string_member ''run_id'' payload;
           ok = (ok0 \<or> run \<noteq> None);
           msg = (case string_member ''message'' payload of
                    Some s \<Rightarrow> s
                  | None \<Rightarrow> (case string_member ''error'' payload of
                               Some s \<Rightarrow> s
                             | None \<Rightarrow> if ok then ''remote dispatch ok'' else ''remote dispatch failed''));
           m1 = (case run of Some s \<Rightarrow> [''run_id'' \<mapsto> s] | None \<Rightarrow> Map.empty);
           m2 = (case member ''task_ids'' payload of Some v \<Rightarrow> m1(''task_ids'' \<mapsto> dump v) | None \<Rightarrow> m1)
       in Inr (default_TaskResult\<lparr>res_status := (if ok then Success else Failed),
                 exitCode := (if ok then 0 else 1), res_message := msg, res_metadata := m2\<rparr>))"

subsection \<open>One dispatch\<close>

record DispatchAttemptResult =
  at_result :: TaskResult
  at_retryable :: bool
  at_reason :: string

definition payload_with_run :: "TaskConfig \<Rightarrow> json \<Rightarrow> json" where
  "payload_with_run cfg payload =
     (let r = tid_runId (cfg_id cfg) in
      if r \<noteq> [] \<and> (case string_member ''run_id'' payload of None \<Rightarrow> True | Some s \<Rightarrow> s = []) then
        (case payload of JObj m \<Rightarrow> JObj (m(''run_id'' \<mapsto> JStr r)) | j \<Rightarrow> j)
      else payload)"

definition read_timeout :: "int option \<Rightarrow> int \<Rightarrow> int \<times> int" where
  "read_timeout dl now =
     (case dl of
        None \<Rightarrow> (60, 0)
      | Some d \<Rightarrow> (let remain = (if d - now \<le> 0 then 1 else d - now)
                  in (wrap_signed 32 (remain div 1000), remain mod 1000 * 1000)))"

definition attempt_base :: "WorkerInfo \<Rightarrow> TaskResult" where
  "attempt_base wi = default_TaskResult\<lparr>workerId := wid wi, workerHost := whost wi, workerPort := wport wi\<rparr>"

definition no_response ::
  "('w, 'z) remote_env_scheme \<Rightarrow> WorkerInfo \<Rightarrow> ExecutionContext \<Rightarrow> string \<Rightarrow> int \<Rightarrow> http_error \<Rightarrow> 'w
    \<Rightarrow> DispatchAttemptResult \<times> remote_event list" where
  "no_response E wi c queue dur err w =
     (let (st, msg, reason, retry, why) =
            (if rm_canceled E w then
               (Canceled, ''RemoteExecution: canceled during http call'', ''canceled'', False, [])
             else if isTimeout (rm_now E w) c then
               (Timeout, ''RemoteExecution: timeout during http call'', ''timeout'', False, [])
             else
               (Failed, ''RemoteExecution: HTTP failed (no response)'', ''no_response'', True,
                http_error_to_string err));
          f = (worker_fields (config c) queue wi)
                (''status'' \<mapsto> TaskStatusTypetoString st, ''duration_ms'' \<mapsto> to_string_int dur)
      in (\<lparr>at_result = (attempt_base wi)\<lparr>durationMs := dur, res_status := st, res_message := msg\<rparr>,
           at_retryable = retry, at_reason = why\<rparr>,
          emit_dispatch_end Error ''RemoteExecution: dispatch end (http no response)'' f msg
          @ [push_ws_task_event ''remote_failed'' wi [(''reason'', reason)]]))"

definition bad_status ::
  "WorkerInfo \<Rightarrow> ExecutionContext \<Rightarrow> string \<Rightarrow> int \<Rightarrow> int \<Rightarrow> string \<Rightarrow> DispatchAttemptResult \<times> remote_event list" where
  "bad_status wi c queue dur st body =
     (let msg = ''RemoteExecution: HTTP status='' @ to_string_int st;
          retry = is_retryable_http_status st;
          f = (worker_fields (config c) queue wi)
                (''http_status'' \<mapsto> to_string_int st, ''status'' \<mapsto> TaskStatusTypetoString Failed,
                 ''duration_ms'' \<mapsto> to_string_int dur)
      in (\<lparr>at_result = (attempt_base wi)\<lparr>durationMs := dur, res_status := Failed, res_message := msg, stderrData := body\<rparr>,
           at_retryable = retry, at_reason = (if retry then ''http_'' @ to_string_int st else [])\<rparr>,
          push_lines_to_buffer False body
          @ emit_dispatch_end Error ''RemoteExecution: dispatch end (http non-200)'' f msg
          @ [push_ws_task_event ''remote_failed'' wi
               [(''reason'', ''http_status''), (''http_status'', to_string_int st)]]))"

definition bad_json ::
  "WorkerInfo \<Rightarrow> ExecutionContext \<Rightarrow> string \<Rightarrow> int \<Rightarrow> string \<Rightarrow> DispatchAttemptResult \<times> remote_event list" where
  "bad_json wi c queue dur body =
     (let msg = ''RemoteExecution: invalid JSON response'';
          f = (worker_fields (config c) queue wi)
                (''status'' \<mapsto> to_string_int (status_int Failed), ''duration_ms'' \<mapsto> to_string_int dur)
      in (\<lparr>at_result = (attempt_base wi)\<lparr>durationMs := dur, res_status := Failed, res_message := msg, stderrData := body\<rparr>,
           at_retryable = False, at_reason = []\<rparr>,
          push_lines_to_buffer False body
          @ emit_dispatch_end Error ''RemoteExecution: dispatch end (invalid json)'' f msg
          @ [push_ws_task_event ''remote_failed'' wi [(''reason'', ''invalid_json'')]]))"

definition acknowledged ::
  "WorkerInfo \<Rightarrow> ExecutionContext \<Rightarrow> string \<Rightarrow> int \<Rightarrow> TaskResult \<Rightarrow> DispatchAttemptResult \<times> remote_event list" where
  "acknowledged wi c queue dur p =
     (let r = p\<lparr>workerId := wid wi, workerHost := whost wi, workerPort := wport wi,
                durationMs := (if durationMs p \<le> 0 then dur else durationMs p)\<rparr>;
          f0 = (worker_fields (config c) queue wi)
                (''status'' \<mapsto> to_string_int (status_int (res_status r)), ''exit_code'' \<mapsto> to_string_int (exitCode r),
                 ''duration_ms'' \<mapsto> to_string_int (durationMs r));
          f = (if res_message r \<noteq> [] then f0(''message'' \<mapsto> res_message r) else f0);
          out = (if captureOutput (config c)
                 then push_lines_to_buffer True (stdoutData p) @ push_lines_to_buffer False (stderrData p) else [])
      in (\<lparr>at_result = r, at_retryable = False, at_reason = []\<rparr>,
          out @ [EvLog (if res_ok r then Info else Warn) ''RemoteExecution: dispatch end'' f]))"

definition data_of :: "json \<Rightarrow> json" where
  "data_of j = (case member ''data'' j of Some (JObj m) \<Rightarrow> JObj m | _ \<Rightarrow> j)"

definition handle_reply ::
  "('w, 'z) remote_env_scheme \<Rightarrow> (string \<Rightarrow> string + json) \<Rightarrow> (json \<Rightarrow> string) \<Rightarrow> WorkerInfo \<Rightarrow> ExecutionContext
    \<Rightarrow> string \<Rightarrow> int \<Rightarrow> http_reply \<Rightarrow> 'w \<Rightarrow> (DispatchAttemptResult \<times> remote_event list) result" where
  "handle_reply E parse dump wi c queue dur reply w =
     (case reply of
        NoResponse err \<Rightarrow> Inr (no_response E wi c queue dur err w)
      | Response st body \<Rightarrow>
          if st < 200 \<or> 300 \<le> st then Inr (bad_status wi c queue dur st body)
          else (case parse body of
                  Inl _ \<Rightarrow> Inr (bad_json wi c queue dur body)
                | Inr j \<Rightarrow>
                    bind (build_dispatch_ack_result dump (data_of j)) (\<lambda>p. Inr (acknowledged wi c queue dur p))))"

definition dispatch_once ::
  "('w, 'z) remote_env_scheme \<Rightarrow> (string \<Rightarrow> string + json) \<Rightarrow> (json \<Rightarrow> string) \<Rightarrow> WorkerInfo \<Rightarrow> ExecutionContext
    \<Rightarrow> string \<Rightarrow> json \<Rightarrow> 'w \<Rightarrow> DispatchAttemptResult result \<times> remote_event list \<times> 'w" where
  "dispatch_once E parse dump wi c queue payload w =
     (let body = dump (payload_with_run (config c) payload)
      in if isTimeout (rm_now E w) c then
           (let msg = ''RemoteExecution: timeout before http call'';
                f = (worker_fields (config c) queue wi)(''status'' \<mapsto> to_string_int (status_int Timeout))
            in (Inr \<lparr>at_result = (attempt_base wi)\<lparr>res_status := Timeout, res_message := msg\<rparr>,
                     at_retryable = False, at_reason = []\<rparr>,
                emit_dispatch_end Warn ''RemoteExecution: dispatch end (timeout before http)'' f msg, w))
         else
           (case rm_post E wi ''/api/worker/execute'' body (read_timeout (deadline c) (rm_now E w)) w of
              (reply, w') \<Rightarrow>
                (let dur = rm_now E w' - rm_now E w;
                     ev = [EvPost wi body reply,
                           EvLog Debug ''RemoteExecution: http call finished''
                             ((worker_fields (config c) queue wi)(''duration_ms'' \<mapsto> to_string_int dur)),
                           push_ws_task_event ''remote_dispatch'' wi []]
                 in case handle_reply E parse dump wi c queue dur reply w' of
                      Inl e \<Rightarrow> (Inl e, ev, w')
                    | Inr (ar, ev') \<Rightarrow> (Inr ar, ev @ ev', w'))))"

subsection \<open>The dispatch loop\<close>

text \<open>\<open>n\<close> attempts are left.\<close>

fun dispatch_loop ::
  "('w, 'z) remote_env_scheme \<Rightarrow> (string \<Rightarrow> string + json) \<Rightarrow> (json \<Rightarrow> string) \<Rightarrow> ExecutionContext \<Rightarrow> string \<Rightarrow> json
    \<Rightarrow> nat \<Rightarrow> TaskResult \<Rightarrow> 'w \<Rightarrow> TaskResult result \<times> remote_event list \<times> 'w" where
  "dispatch_loop E parse dump c queue payload 0 r w = (Inr r, [], w)"
| "dispatch_loop E parse dump c queue payload (Suc n) r w =
     (case pre_dispatch_abort E c w of
        Some a \<Rightarrow> (Inr a, [], w)
      | None \<Rightarrow>
          (case rm_pick E queue w of
             (None, w1) \<Rightarrow>
               (let msg = ''RemoteExecution: no available worker for queue='' @ queue;
                    f = (base_remote_fields (config c) queue [] [] 0)(''status'' \<mapsto> to_string_int (status_int Failed))
                in (Inr (r\<lparr>res_status := Failed, res_message := msg\<rparr>),
                    emit_dispatch_end Error ''RemoteExecution: dispatch end (no worker)'' f msg, w1))
           | (Some wi, w1) \<Rightarrow>
               (let ev = [EvLog Info ''RemoteExecution: picked worker'' (worker_fields (config c) queue wi)] in
                case dispatch_once E parse dump wi c queue payload w1 of
                  (Inl e, ev1, w2) \<Rightarrow> (Inl e, ev @ ev1, w2)
                | (Inr ar, ev1, w2) \<Rightarrow>
                    (let w3 = (if at_retryable ar then rm_mark_failure E (wid wi) 5000 w2 else w2) in
                     if \<not> at_retryable ar \<or> n = 0 then (Inr (at_result ar), ev @ ev1, w3)
                     else (case dispatch_loop E parse dump c queue payload n (at_result ar) w3 of
                             (res, ev2, w4) \<Rightarrow> (res, ev @ ev1 @ ev2, w4))))))"

definition remote_execute ::
  "('w, 'z) remote_env_scheme \<Rightarrow> (string \<Rightarrow> string + json) \<Rightarrow> (json \<Rightarrow> string) \<Rightarrow> int \<Rightarrow> ExecutionContext \<Rightarrow> 'w
    \<Rightarrow> TaskResult result \<times> remote_event list \<times> 'w" where
  "remote_execute E parse dump maxRetriesCfg c w =
     (case pre_dispatch_abort E c w of
        Some a \<Rightarrow> (Inr a, [], w)
      | None \<Rightarrow>
          (let cfg = config c;
               queue = (if cfg_queue cfg = [] then ''default'' else cfg_queue cfg);
               ev = [EvLog Info ''RemoteExecution: dispatch start'' (base_remote_fields cfg queue [] [] 0)]
           in case extractDagBody parse cfg of
                Inl err \<Rightarrow> (Inr (result_of Failed (''RemoteExecution: '' @ err)), ev, w)
              | Inr payload \<Rightarrow>
                  (let maxAttempts = wrap_signed 32 (1 + read_dispatch_max_retries maxRetriesCfg) in
                   case dispatch_loop E parse dump c queue payload (nat maxAttempts) default_TaskResult w of
                     (res, ev', w') \<Rightarrow> (res, ev @ ev', w'))))"

subsection \<open>What a dispatch does\<close>

fun posts :: "remote_event list \<Rightarrow> http_reply list" where
  "posts (EvPost wi body r # es) = r # posts es"
| "posts (_ # es) = posts es"
| "posts [] = []"

lemma posts_append [simp]: "posts (xs @ ys) = posts xs @ posts ys"
  by (induction xs rule: posts.induct) auto

definition retryable_reply :: "http_reply \<Rightarrow> bool" where
  "retryable_reply r = (case r of NoResponse _ \<Rightarrow> True | Response st _ \<Rightarrow> is_retryable_http_status st)"

definition accepted_reply :: "(string \<Rightarrow> string + json) \<Rightarrow> http_reply \<Rightarrow> bool" where
  "accepted_reply parse r =
     (case r of
        NoResponse _ \<Rightarrow> False
      | Response st body \<Rightarrow>
          200 \<le> st \<and> st < 300 \<and>
          (case parse body of
             Inl _ \<Rightarrow> False
           | Inr j \<Rightarrow> member ''ok'' (data_of j) = Some (JBool True) \<or> string_member ''run_id'' (data_of j) \<noteq> None))"

lemma posts_lines [simp]: "posts (push_lines_to_buffer b t) = []"
proof -
  have "posts (map (EvLine b) ls) = []" for ls by (induction ls) auto
  then show ?thesis by (simp add: push_lines_to_buffer_def)
qed

lemma ack_success:
  assumes "build_dispatch_ack_result dump j = Inr p" "res_status p = Success"
  shows "member ''ok'' j = Some (JBool True) \<or> string_member ''run_id'' j \<noteq> None"
proof -
  obtain ok0 where ok: "value_or get_bool ''ok'' False j = Inr ok0" "ok0 \<or> string_member ''run_id'' j \<noteq> None"
    using assms by (auto simp: build_dispatch_ack_result_def bind_eq_Inr Let_def default_TaskResult_def split: if_splits)
  have "member ''ok'' j = Some (JBool True)" if "ok0"
    using ok(1) that by (cases j) (auto simp: value_or_def split: option.splits elim: get_bool.elims)
  with ok(2) show ?thesis by blast
qed

lemma handle_reply_shape:
  assumes "handle_reply E parse dump wi c queue dur reply w = Inr (ar, ev)"
  shows "posts ev = [] \<and> (at_retryable ar \<longrightarrow> retryable_reply reply \<and> res_status (at_result ar) = Failed)
    \<and> (res_status (at_result ar) = Success \<longrightarrow> accepted_reply parse reply)"
proof (cases reply)
  case (NoResponse err)
  then show ?thesis using assms
    by (auto simp: handle_reply_def no_response_def Let_def emit_dispatch_end_def push_ws_task_event_def
        retryable_reply_def attempt_base_def split: if_splits)
next
  case (Response st body)
  show ?thesis
  proof (cases "st < 200 \<or> 300 \<le> st")
    case True
    then show ?thesis using assms Response
      by (auto simp: handle_reply_def bad_status_def Let_def emit_dispatch_end_def push_ws_task_event_def
          retryable_reply_def)
  next
    case False
    show ?thesis
    proof (cases "parse body")
      case (Inl e)
      then show ?thesis using assms Response False
        by (auto simp: handle_reply_def bad_json_def Let_def emit_dispatch_end_def push_ws_task_event_def)
    next
      case (Inr j)
      then obtain p where p: "build_dispatch_ack_result dump (data_of j) = Inr p"
        "acknowledged wi c queue dur p = (ar, ev)"
        using assms Response False by (auto simp: handle_reply_def bind_eq_Inr)
      then have "posts ev = []" "\<not> at_retryable ar" "res_status (at_result ar) = res_status p"
        by (auto simp: acknowledged_def Let_def)
      with ack_success [OF p(1)] show ?thesis using Response False Inr by (auto simp: accepted_reply_def)
    qed
  qed
qed

lemma dispatch_once_shape:
  assumes "dispatch_once E parse dump wi c queue payload w = (res, ev, w')"
  shows "length (posts ev) \<le> 1
    \<and> (\<forall>ar. res = Inr ar \<longrightarrow>
         (at_retryable ar \<longrightarrow> res_status (at_result ar) = Failed \<and> (\<exists>p. posts ev = [p] \<and> retryable_reply p))
       \<and> (res_status (at_result ar) = Success \<longrightarrow> (\<exists>p. posts ev = [p] \<and> accepted_reply parse p)))"
proof (cases "isTimeout (rm_now E w) c")
  case True
  then show ?thesis using assms
    by (auto simp: dispatch_once_def Let_def emit_dispatch_end_def)
next
  case False
  obtain reply w1 where p: "rm_post E wi ''/api/worker/execute'' (dump (payload_with_run (config c) payload))
      (read_timeout (deadline c) (rm_now E w)) w = (reply, w1)" by fastforce
  show ?thesis
  proof (cases "handle_reply E parse dump wi c queue (rm_now E w1 - rm_now E w) reply w1")
    case (Inl e)
    with assms False p show ?thesis by (auto simp: dispatch_once_def Let_def push_ws_task_event_def)
  next
    case (Inr y)
    then obtain ar ev' where h: "handle_reply E parse dump wi c queue (rm_now E w1 - rm_now E w) reply w1 = Inr (ar, ev')"
      by (cases y) auto
    with assms False p have "res = Inr ar" "posts ev = reply # posts ev'"
      by (auto simp: dispatch_once_def Let_def push_ws_task_event_def)
    with handle_reply_shape [OF h] show ?thesis by auto
  qed
qed

lemma dispatch_loop_shape:
  assumes "dispatch_loop E parse dump c queue payload n r w = (res, ev, w')" and "res_status r \<noteq> Success"
  shows "length (posts ev) \<le> n \<and> (\<forall>p \<in> set (butlast (posts ev)). retryable_reply p)
    \<and> (\<forall>r'. res = Inr r' \<and> res_status r' = Success \<longrightarrow> posts ev \<noteq> [] \<and> accepted_reply parse (last (posts ev)))"
  using assms
proof (induction n arbitrary: r w res ev w')
  case (Suc n)
  show ?case
  proof (cases "pre_dispatch_abort E c w")
    case (Some a)
    then show ?thesis using Suc.prems by (auto simp: pre_dispatch_abort_def result_of_def split: if_splits)
  next
    case none: None
    obtain ow w1 where pk: "rm_pick E queue w = (ow, w1)" by fastforce
    show ?thesis
    proof (cases ow)
      case None
      then show ?thesis using Suc.prems none pk by (auto simp: Let_def emit_dispatch_end_def)
    next
      case (Some wi)
      obtain o1 ev1 w2 where d: "dispatch_once E parse dump wi c queue payload w1 = (o1, ev1, w2)"
        by (cases "dispatch_once E parse dump wi c queue payload w1") auto
      note sh = dispatch_once_shape [OF d]
      have bl: "butlast (posts ev1) = []" using sh by (cases "posts ev1") auto
      show ?thesis
      proof (cases o1)
        case (Inl e)
        then show ?thesis using Suc.prems none pk Some d sh by (auto simp: Let_def bl)
      next
        case (Inr ar)
        show ?thesis
        proof (cases "\<not> at_retryable ar \<or> n = 0")
          case True
          then show ?thesis using Suc.prems none pk Some d sh Inr by (auto simp: Let_def bl)
        next
          case False
          obtain ev2 w4 where l: "dispatch_loop E parse dump c queue payload n (at_result ar)
              (rm_mark_failure E (wid wi) 5000 w2) = (res, ev2, w4)"
            and ev: "ev = [EvLog Info ''RemoteExecution: picked worker'' (worker_fields (config c) queue wi)] @ ev1 @ ev2"
            using Suc.prems none pk Some d Inr False by (auto simp: Let_def split: prod.splits)
          obtain p where p: "posts ev1 = [p]" "retryable_reply p" "res_status (at_result ar) = Failed"
            using sh Inr False by auto
          have "posts ev = p # posts ev2" using ev p(1) by simp
          with Suc.IH [OF l] p(2,3) show ?thesis by auto
        qed
      qed
    qed
  qed
qed auto

text \<open>C16. Remote dispatch is bounded and honest: at most one request more than the configured retries is
  sent, another request is sent only after one that got no answer or a server error, and Success is
  reported only when the last request was answered with a 2xx status and a JSON body that
  acknowledges the task.\<close>

theorem remote_dispatch_correct:
  assumes "remote_execute E parse dump retries c w = (res, ev, w')" and "retries < 2 ^ 31 - 1"
  shows "int (length (posts ev)) \<le> 1 + max 0 retries
    \<and> (\<forall>p \<in> set (butlast (posts ev)). retryable_reply p)
    \<and> (\<forall>r. res = Inr r \<and> res_status r = Success \<longrightarrow> posts ev \<noteq> [] \<and> accepted_reply parse (last (posts ev)))"
proof (cases "pre_dispatch_abort E c w")
  case (Some a)
  then show ?thesis using assms by (auto simp: remote_execute_def pre_dispatch_abort_def result_of_def split: if_splits)
next
  case None
  let ?q = "if cfg_queue (config c) = [] then ''default'' else cfg_queue (config c)"
  show ?thesis
  proof (cases "extractDagBody parse (config c)")
    case (Inl err)
    then show ?thesis using assms None by (auto simp: remote_execute_def result_of_def Let_def)
  next
    case (Inr payload)
    have m: "wrap_signed 32 (1 + read_dispatch_max_retries retries) = 1 + max 0 retries"
      using assms(2) by (subst wrap_signed_id) (auto simp: read_dispatch_max_retries_def)
    obtain ev2 where l: "dispatch_loop E parse dump c ?q payload (nat (1 + max 0 retries)) default_TaskResult w = (res, ev2, w')"
      and ev: "posts ev = posts ev2"
      using assms(1) None Inr unfolding remote_execute_def Let_def m by (auto split: prod.splits)
    show ?thesis using dispatch_loop_shape [OF l] unfolding ev by (auto simp: default_TaskResult_def)
  qed
qed

text \<open>A world that counts requests: the first is lost, the second is acknowledged.\<close>

definition demo_remote :: "nat remote_env" where
  "demo_remote = \<lparr>rm_now = int, rm_canceled = (\<lambda>_. False), rm_pick = (\<lambda>q w. (Some ((demo_worker ''a'' 0)\<lparr>wport := 1\<rparr>), w)),
     rm_mark_failure = (\<lambda>_ _ w. w),
     rm_post = (\<lambda>wi p b t w. (if w = 0 then NoResponse Connection else Response 200 ''x'', w + 1))\<rparr>"

definition demo_remote_ctx :: ExecutionContext where
  "demo_remote_ctx = \<lparr>config = default_TaskConfig\<lparr>execCommand := ''x''\<rparr>, cancelFlag = None, deadline = None,
     nestingDepth = 0\<rparr>"

definition demo_dispatch :: "TaskResult result \<times> remote_event list \<times> nat" where
  "demo_dispatch = remote_execute demo_remote (\<lambda>_. Inr (JObj [''ok'' \<mapsto> JBool True])) (\<lambda>_. []) 2 demo_remote_ctx 0"

theorem remote_dispatch_correct_witness:
  "int (length (posts (fst (snd demo_dispatch)))) \<le> 3
   \<and> map_sum id res_status (fst demo_dispatch) = Inr Success
   \<and> accepted_reply (\<lambda>_. Inr (JObj [''ok'' \<mapsto> JBool True])) (last (posts (fst (snd demo_dispatch))))"
proof -
  obtain res ev w' where d: "demo_dispatch = (res, ev, w')" by (cases demo_dispatch) auto
  have s: "map_sum id res_status (fst demo_dispatch) = Inr Success" by code_simp
  have e: "remote_execute demo_remote (\<lambda>_. Inr (JObj [''ok'' \<mapsto> JBool True])) (\<lambda>_. []) 2 demo_remote_ctx 0 = (res, ev, w')"
    using d by (simp add: demo_dispatch_def)
  from remote_dispatch_correct [OF this] s show ?thesis by (cases res) (auto simp: d)
qed

end
