(* ===== verification/Task_Log.thy ===== *)
theory Task_Log
  imports Log_Record
begin

text \<open>
  \<^verbatim>\<open>log/task_log_buffer.cpp\<close> and \<^verbatim>\<open>log/log_manager.cpp\<close>: the bounded buffer of log records per task,
  its paged queries, and the manager that numbers a record, hands it to the web socket streamer and
  the sinks, and prunes buffers nobody writes to.  The clock is an argument.  Sinks are identified by
  numbers (a null pointer is \<open>None\<close>); what they and the streamer receive is recorded as events, which is
  their interface.  Sequence numbers are natural numbers (64 bits in the source).
\<close>

subsection \<open>Buffers\<close>

type_synonym TaskKey = "string \<times> string"

definition log_key :: "TaskId \<Rightarrow> TaskKey" where
  "log_key i = (tid_value i, tid_runId i)"

record PerTaskBuf =
  pb_q :: "LogRecord list"
  pb_nextSeq :: nat
  pb_lastTouch :: int

record TaskLogBuffer =
  perTaskMaxRecords :: nat
  bufs :: "TaskKey \<rightharpoonup> PerTaskBuf"

definition mk_TaskLogBuffer :: "nat \<Rightarrow> TaskLogBuffer" where
  "mk_TaskLogBuffer n = \<lparr>perTaskMaxRecords = n, bufs = Map.empty\<rparr>"

definition getOrCreate :: "int \<Rightarrow> TaskId \<Rightarrow> TaskLogBuffer \<Rightarrow> PerTaskBuf" where
  "getOrCreate now i b =
     (case bufs b (log_key i) of
        None \<Rightarrow> \<lparr>pb_q = [], pb_nextSeq = 1, pb_lastTouch = now\<rparr>
      | Some p \<Rightarrow> p\<lparr>pb_lastTouch := now\<rparr>)"

definition log_append :: "int \<Rightarrow> LogRecord \<Rightarrow> TaskLogBuffer \<Rightarrow> LogRecord \<times> TaskLogBuffer" where
  "log_append now rec b =
     (let p = getOrCreate now (rec_taskId rec) b;
          stored = rec\<lparr>rec_runId := (if rec_runId rec = [] then tid_runId (rec_taskId rec) else rec_runId rec),
                       rec_seq := pb_nextSeq p\<rparr>;
          q = pb_q p @ [stored];
          p' = p\<lparr>pb_nextSeq := pb_nextSeq p + 1, pb_q := drop (length q - perTaskMaxRecords b) q\<rparr>
      in (stored, b\<lparr>bufs := (bufs b)(log_key (rec_taskId rec) \<mapsto> p')\<rparr>))"

definition line_record :: "LogLevel \<Rightarrow> LogStream \<Rightarrow> int \<Rightarrow> TaskId \<Rightarrow> string \<Rightarrow> LogRecord" where
  "line_record lvl str ts i text =
     (mk_LogRecord ts)\<lparr>rec_taskId := i, rec_runId := tid_runId i, rec_level := lvl, rec_stream := str,
                        rec_message := text\<rparr>"

definition appendStdout :: "int \<Rightarrow> int \<Rightarrow> TaskId \<Rightarrow> string \<Rightarrow> TaskLogBuffer \<Rightarrow> LogRecord \<times> TaskLogBuffer" where
  "appendStdout ts now i text b = log_append now (line_record Info Stdout ts i text) b"

definition appendStderr :: "int \<Rightarrow> int \<Rightarrow> TaskId \<Rightarrow> string \<Rightarrow> TaskLogBuffer \<Rightarrow> LogRecord \<times> TaskLogBuffer" where
  "appendStderr ts now i text b = log_append now (line_record Warn Stderr ts i text) b"

text \<open>The loop of \<^verbatim>\<open>get\<close>: the limit is looked at after a record is taken.\<close>

fun get_loop :: "nat \<Rightarrow> nat \<Rightarrow> LogRecord list \<Rightarrow> LogRecord list \<Rightarrow> LogRecord list" where
  "get_loop limit fromSeq out [] = out"
| "get_loop limit fromSeq out (rec # q) =
     (if fromSeq \<le> rec_seq rec then
        (if limit \<le> length out + 1 then out @ [rec] else get_loop limit fromSeq (out @ [rec]) q)
      else get_loop limit fromSeq out q)"

record QueryResult =
  nextFrom :: nat
  records :: "LogRecord list"

definition log_get :: "TaskId \<Rightarrow> nat \<Rightarrow> nat \<Rightarrow> TaskLogBuffer \<Rightarrow> QueryResult" where
  "log_get i fromSeq limit b =
     (case bufs b (log_key i) of
        None \<Rightarrow> \<lparr>nextFrom = fromSeq, records = []\<rparr>
      | Some p \<Rightarrow>
          if pb_q p = [] then \<lparr>nextFrom = fromSeq, records = []\<rparr>
          else (let rs = get_loop limit fromSeq [] (pb_q p)
                in \<lparr>nextFrom = (if rs \<noteq> [] then rec_seq (last rs) + 1 else fromSeq), records = rs\<rparr>))"

definition log_tail :: "TaskId \<Rightarrow> nat \<Rightarrow> TaskLogBuffer \<Rightarrow> LogRecord list" where
  "log_tail i n b =
     (case bufs b (log_key i) of
        None \<Rightarrow> []
      | Some p \<Rightarrow> (let sz = length (pb_q p) in drop (if sz \<le> n then 0 else sz - n) (pb_q p)))"

definition log_clear :: "TaskId \<Rightarrow> TaskLogBuffer \<Rightarrow> TaskLogBuffer" where
  "log_clear i b = b\<lparr>bufs := (bufs b)(log_key i := None)\<rparr>"

definition log_pruneOlderThan :: "int \<Rightarrow> int \<Rightarrow> TaskLogBuffer \<Rightarrow> TaskLogBuffer" where
  "log_pruneOlderThan now maxAge b =
     b\<lparr>bufs := (\<lambda>k. case bufs b k of
                     None \<Rightarrow> None
                   | Some p \<Rightarrow> if maxAge < now - pb_lastTouch p then None else Some p)\<rparr>"

subsection \<open>The manager\<close>

record LogManager =
  lm_buffer :: "TaskLogBuffer option"
  lm_sinks :: "nat option list"
  lm_emitCounter :: nat

datatype log_effect = PushLog LogRecord | Consume nat LogRecord

abbreviation maxBufferAge :: int where "maxBufferAge \<equiv> 30 * 60 * 1000"
abbreviation pruneInterval :: nat where "pruneInterval \<equiv> 500"

definition mk_LogManager :: LogManager where
  "mk_LogManager = \<lparr>lm_buffer = None, lm_sinks = [], lm_emitCounter = 0\<rparr>"

definition lm_init :: "nat \<Rightarrow> LogManager \<Rightarrow> LogManager" where
  "lm_init n m = (case lm_buffer m of None \<Rightarrow> m\<lparr>lm_buffer := Some (mk_TaskLogBuffer n)\<rparr> | Some _ \<Rightarrow> m)"

definition lm_emit :: "int \<Rightarrow> LogRecord \<Rightarrow> LogManager \<Rightarrow> log_effect list \<times> LogManager" where
  "lm_emit now rec m =
     (let b = (case lm_buffer m of None \<Rightarrow> mk_TaskLogBuffer 2000 | Some b \<Rightarrow> b);
          (stored, b') = log_append now rec b;
          n = lm_emitCounter m + 1;
          b'' = (if n mod pruneInterval = 0 then log_pruneOlderThan now maxBufferAge b' else b')
      in (PushLog stored # map (\<lambda>s. Consume s stored) (List.map_filter id (lm_sinks m)),
          m\<lparr>lm_buffer := Some b'', lm_emitCounter := n\<rparr>))"

definition stdoutLine :: "int \<Rightarrow> int \<Rightarrow> TaskId \<Rightarrow> string \<Rightarrow> LogManager \<Rightarrow> log_effect list \<times> LogManager" where
  "stdoutLine ts now i text m = lm_emit now (line_record Info Stdout ts i text) m"

definition stderrLine :: "int \<Rightarrow> int \<Rightarrow> TaskId \<Rightarrow> string \<Rightarrow> LogManager \<Rightarrow> log_effect list \<times> LogManager" where
  "stderrLine ts now i text m = lm_emit now (line_record Warn Stderr ts i text) m"

definition addSink :: "nat option \<Rightarrow> LogManager \<Rightarrow> LogManager" where
  "addSink s m = (case s of None \<Rightarrow> m | Some _ \<Rightarrow> m\<lparr>lm_sinks := lm_sinks m @ [s]\<rparr>)"

definition clearSinks :: "LogManager \<Rightarrow> LogManager" where
  "clearSinks m = m\<lparr>lm_sinks := []\<rparr>"

definition setSinks :: "nat option list \<Rightarrow> LogManager \<Rightarrow> LogManager" where
  "setSinks ss m = m\<lparr>lm_sinks := ss\<rparr>"

definition lm_query :: "TaskId \<Rightarrow> nat \<Rightarrow> nat \<Rightarrow> LogManager \<Rightarrow> QueryResult" where
  "lm_query i fromSeq limit m =
     (case lm_buffer m of None \<Rightarrow> \<lparr>nextFrom = 0, records = []\<rparr> | Some b \<Rightarrow> log_get i fromSeq limit b)"

definition lm_tail :: "TaskId \<Rightarrow> nat \<Rightarrow> LogManager \<Rightarrow> LogRecord list" where
  "lm_tail i n m = (case lm_buffer m of None \<Rightarrow> [] | Some b \<Rightarrow> log_tail i n b)"

definition lm_clear :: "TaskId \<Rightarrow> LogManager \<Rightarrow> LogManager" where
  "lm_clear i m = m\<lparr>lm_buffer := map_option (log_clear i) (lm_buffer m)\<rparr>"

definition lm_pruneOlderThan :: "int \<Rightarrow> int \<Rightarrow> LogManager \<Rightarrow> LogManager" where
  "lm_pruneOlderThan now maxAge m = m\<lparr>lm_buffer := map_option (log_pruneOlderThan now maxAge) (lm_buffer m)\<rparr>"

subsection \<open>What a buffer holds\<close>

definition stored_as :: "nat \<Rightarrow> LogRecord \<Rightarrow> LogRecord" where
  "stored_as n rec = rec\<lparr>rec_runId := (if rec_runId rec = [] then tid_runId (rec_taskId rec) else rec_runId rec),
                          rec_seq := n\<rparr>"

definition numbered :: "LogRecord list \<Rightarrow> LogRecord list" where
  "numbered recs = map (\<lambda>i. stored_as (i + 1) (recs ! i)) [0..<length recs]"

lemma numbered_snoc: "numbered (recs @ [r]) = numbered recs @ [stored_as (length recs + 1) r]"
  by (simp add: numbered_def nth_append)

lemma numbered_simps [simp]: "length (numbered recs) = length recs"
  "i < length recs \<Longrightarrow> rec_seq (numbered recs ! i) = i + 1"
  by (simp_all add: numbered_def stored_as_def)

fun appends :: "(int \<times> LogRecord) list \<Rightarrow> TaskLogBuffer \<Rightarrow> TaskLogBuffer" where
  "appends [] b = b"
| "appends ((now, r) # rs) b = appends rs (snd (log_append now r b))"

definition for_key :: "TaskKey \<Rightarrow> (int \<times> LogRecord) list \<Rightarrow> LogRecord list" where
  "for_key k rs = filter (\<lambda>r. log_key (rec_taskId r) = k) (map snd rs)"

definition holds :: "nat \<Rightarrow> LogRecord list \<Rightarrow> PerTaskBuf option \<Rightarrow> bool" where
  "holds mx rs p =
     (case p of
        None \<Rightarrow> rs = []
      | Some p \<Rightarrow> pb_q p = drop (length rs - mx) (numbered rs) \<and> pb_nextSeq p = length rs + 1)"

lemma drop_snoc_twice:
  "drop (length (drop (n - mx) xs @ [x]) - mx) (drop (n - mx) xs @ [x]) = drop (Suc n - mx) (xs @ [x])"
  if "length xs = n" for xs :: "'a list"
proof (cases "mx \<le> n")
  case True
  then have "length (drop (n - mx) xs @ [x]) - mx = 1" using that by simp
  moreover have "drop (n - mx) (xs @ [x]) = drop (n - mx) xs @ [x]" using that by simp
  ultimately show ?thesis using True by (metis Suc_diff_le drop_drop plus_1_eq_Suc)
next
  case False
  then show ?thesis using that by simp
qed

lemma appends_hold:
  assumes "\<And>k. holds mx (ks k) (bufs b k)" "perTaskMaxRecords b = mx"
  shows "holds mx (ks k @ for_key k rs) (bufs (appends rs b) k)"
  using assms
proof (induction rs arbitrary: b ks)
  case Nil
  then show ?case by (simp add: for_key_def)
next
  case (Cons nr rs)
  obtain now r where nr: "nr = (now, r)" by fastforce
  let ?b = "snd (log_append now r b)"
  let ?k = "log_key (rec_taskId r)"
  let ?ks = "ks(?k := ks ?k @ [r])"
  have h: "holds mx (?ks k) (bufs ?b k)" for k
  proof (cases "k = ?k")
    case False
    then show ?thesis using Cons.prems(1) by (auto simp: log_append_def Let_def)
  next
    case True
    let ?p = "getOrCreate now (rec_taskId r) b"
    have p: "pb_q ?p = drop (length (ks ?k) - mx) (numbered (ks ?k))" "pb_nextSeq ?p = length (ks ?k) + 1"
      using Cons.prems(1) [of ?k] by (auto simp: getOrCreate_def holds_def numbered_def split: option.splits)
    show ?thesis
      using drop_snoc_twice [of "numbered (ks ?k)" "length (ks ?k)" mx "stored_as (length (ks ?k) + 1) r"]
      by (simp add: True log_append_def Let_def holds_def p numbered_snoc stored_as_def Cons.prems(2))
  qed
  have "perTaskMaxRecords ?b = mx" using Cons.prems(2) by (simp add: log_append_def Let_def)
  from Cons.IH [of ?ks, OF h this] show ?case by (auto simp: nr for_key_def)
qed

text \<open>The buffer of a task keeps its latest records, at most the configured number, numbered
  consecutively from 1 over the life of the buffer and in the order they were written; the records
  of other tasks do not disturb it.\<close>

theorem log_keeps_latest:
  "case bufs (appends rs (mk_TaskLogBuffer mx)) (log_key i) of
     None \<Rightarrow> for_key (log_key i) rs = []
   | Some p \<Rightarrow>
       pb_q p = drop (length (for_key (log_key i) rs) - mx) (numbered (for_key (log_key i) rs))
       \<and> length (pb_q p) \<le> mx \<and> pb_nextSeq p = length (for_key (log_key i) rs) + 1"
proof -
  have "holds mx ([] @ for_key (log_key i) rs) (bufs (appends rs (mk_TaskLogBuffer mx)) (log_key i))"
    by (rule appends_hold [where ks = "\<lambda>_. []"]) (simp_all add: mk_TaskLogBuffer_def holds_def)
  then show ?thesis by (auto simp: holds_def split: option.splits)
qed

subsection \<open>Paging\<close>

lemma get_loop_take:
  "get_loop limit f out q = out @ take (max 1 (limit - length out)) (filter (\<lambda>r. f \<le> rec_seq r) q)"
proof (induction q arbitrary: out)
  case (Cons r q)
  show ?case
  proof (cases "limit \<le> length out + 1")
    case True
    then show ?thesis using Cons.IH by (auto simp: max_def le_Suc_eq)
  next
    case False
    then have "max 1 (limit - length out) = Suc (max 1 (limit - length (out @ [r])))" by auto
    then show ?thesis using False Cons.IH by simp
  qed
qed simp

text \<open>A client that asks for the next page until it gets an empty one.\<close>

fun pages :: "nat \<Rightarrow> TaskId \<Rightarrow> nat \<Rightarrow> nat \<Rightarrow> TaskLogBuffer \<Rightarrow> LogRecord list" where
  "pages 0 i limit from b = []"
| "pages (Suc n) i limit from b =
     (let res = log_get i from limit b in
      if records res = [] then [] else records res @ pages n i limit (nextFrom res) b)"

lemma increasing_split:
  assumes "sorted_wrt (<) (map rec_seq q)" and "filter (\<lambda>r. f \<le> rec_seq r) q = xs @ x # ys"
  shows "filter (\<lambda>r. rec_seq x + 1 \<le> rec_seq r) q = ys"
proof -
  have "sorted_wrt (\<lambda>a b. rec_seq a < rec_seq b) (xs @ x # ys)"
    using sorted_wrt_filter [of "\<lambda>a b. rec_seq a < rec_seq b" q "\<lambda>r. f \<le> rec_seq r"] assms
    by (simp add: sorted_wrt_map)
  then have o: "\<forall>r \<in> set xs. rec_seq r < rec_seq x" "\<forall>r \<in> set ys. rec_seq x < rec_seq r"
    by (auto simp: sorted_wrt_append)
  have "x \<in> set (filter (\<lambda>r. f \<le> rec_seq r) q)" using assms(2) by simp
  then have "f \<le> rec_seq x" by simp
  then have "filter (\<lambda>r. rec_seq x + 1 \<le> rec_seq r) q
      = filter (\<lambda>r. rec_seq x + 1 \<le> rec_seq r) (filter (\<lambda>r. f \<le> rec_seq r) q)"
    unfolding filter_filter by (intro filter_cong) auto
  also have "\<dots> = ys"
  proof -
    have "filter (\<lambda>r. Suc (rec_seq x) \<le> rec_seq r) xs = []" "filter (\<lambda>r. Suc (rec_seq x) \<le> rec_seq r) ys = ys"
      using o by (auto simp: filter_empty_conv filter_id_conv)
    then show ?thesis using assms(2) by simp
  qed
  finally show ?thesis .
qed

lemma pages_all:
  assumes "bufs b (log_key i) = Some p" and inc: "sorted_wrt (<) (map rec_seq (pb_q p))"
    and "length (filter (\<lambda>r. from \<le> rec_seq r) (pb_q p)) < n"
  shows "pages n i limit from b = filter (\<lambda>r. from \<le> rec_seq r) (pb_q p)"
  using assms(3)
proof (induction n arbitrary: "from")
  case (Suc n)
  let ?F = "filter (\<lambda>r. from \<le> rec_seq r) (pb_q p)"
  define m where "m = max 1 limit"
  have res: "records (log_get i from limit b) = take m ?F"
    using assms(1) by (auto simp: log_get_def Let_def get_loop_take m_def)
  show ?case
  proof (cases "?F = []")
    case True
    then show ?thesis by (simp add: Let_def res)
  next
    case False
    then have ne: "take m ?F \<noteq> []" "pb_q p \<noteq> []" by (auto simp: m_def)
    define x where "x = last (take m ?F)"
    have split: "?F = butlast (take m ?F) @ x # drop m ?F"
      using ne(1) by (metis append.assoc append_Cons append_Nil append_butlast_last_id append_take_drop_id x_def)
    have nxt: "nextFrom (log_get i from limit b) = rec_seq x + 1"
      using assms(1) ne by (auto simp: log_get_def Let_def get_loop_take m_def x_def)
    have d: "filter (\<lambda>r. rec_seq x + 1 \<le> rec_seq r) (pb_q p) = drop m ?F"
      by (rule increasing_split [OF inc split])
    have "0 < length ?F" unfolding length_greater_0_conv by (rule False)
    then have "length (drop m ?F) < n" using Suc.prems unfolding m_def length_drop by linarith
    then have "pages n i limit (rec_seq x + 1) b = drop m ?F" using Suc.IH [of "rec_seq x + 1"] d by simp
    then show ?thesis using ne(1) by (simp add: Let_def res nxt)
  qed
qed simp

lemma numbered_increasing: "sorted_wrt (<) (map rec_seq (drop n (numbered recs)))"
  by (auto simp: sorted_wrt_iff_nth_less)

text \<open>Paging through a task's log with any limit, following \<^verbatim>\<open>nextFrom\<close> until a page is empty, gives
  every retained record from the starting number on, each once and in order.\<close>

theorem log_paging_complete:
  "pages (mx + 1) i limit from (appends rs (mk_TaskLogBuffer mx)) =
     filter (\<lambda>r. from \<le> rec_seq r)
       (drop (length (for_key (log_key i) rs) - mx) (numbered (for_key (log_key i) rs)))"
proof -
  let ?b = "appends rs (mk_TaskLogBuffer mx)"
  let ?q = "drop (length (for_key (log_key i) rs) - mx) (numbered (for_key (log_key i) rs))"
  have h: "holds mx ([] @ for_key (log_key i) rs) (bufs ?b (log_key i))"
    by (rule appends_hold [where ks = "\<lambda>_. []"]) (simp_all add: mk_TaskLogBuffer_def holds_def)
  show ?thesis
  proof (cases "bufs ?b (log_key i)")
    case None
    then show ?thesis using h by (simp add: holds_def log_get_def numbered_def)
  next
    case (Some p)
    then have q: "pb_q p = ?q" using h by (simp add: holds_def)
    have "length (filter (\<lambda>r. from \<le> rec_seq r) ?q) \<le> mx"
      by (rule order_trans [OF length_filter_le]) simp
    then show ?thesis using pages_all [OF Some, of "from" "mx + 1" limit] q numbered_increasing by simp
  qed
qed

text \<open>A page of size zero still has a record, and a pruned or cleared buffer numbers from 1 again, so
  that a reader who kept its position misses what is written next.\<close>

lemma log_limit_zero:
  "length (records (log_get i 1 0 (snd (log_append 0 ((mk_LogRecord 0)\<lparr>rec_taskId := i\<rparr>) (mk_TaskLogBuffer 10))))) = 1"
  by (simp add: log_append_def getOrCreate_def mk_TaskLogBuffer_def mk_LogRecord_def log_get_def Let_def)

lemma log_restart_loses_reader:
  "let r = (mk_LogRecord 0)\<lparr>rec_taskId := i\<rparr>;
       b = appends [(0, r), (0, r)] (mk_TaskLogBuffer 10);
       pos = nextFrom (log_get i 1 10 b);
       b' = snd (log_append 9000000 r (log_pruneOlderThan 9000000 maxBufferAge b))
   in pos = 3 \<and> records (log_get i pos 10 b') = [] \<and> length (log_tail i 10 b') = 1"
  by (simp add: log_append_def getOrCreate_def mk_TaskLogBuffer_def mk_LogRecord_def log_get_def
      log_pruneOlderThan_def log_tail_def Let_def)

end
