(* ===== verification/Auth_Manager.thy ===== *)
theory Auth_Manager
  imports Json
begin

text \<open>
  \<^verbatim>\<open>core/http_response.h\<close>, \<^verbatim>\<open>auth/auth_manager.cpp\<close>, \<^verbatim>\<open>handlers/auth_handler.cpp\<close> and the guard of
  \<^verbatim>\<open>router.cpp\<close>: the responses of the API, users, sessions and tokens, and which requests reach a handler.
  Times are nanoseconds since the epoch; the random draws of a token are an argument, and so is the
  JSON parser.
\<close>

subsection \<open>Responses\<close>

record response =
  http_status :: int
  resp_body :: json

definition resp_json :: "int \<Rightarrow> json \<Rightarrow> string \<Rightarrow> int \<Rightarrow> response" where
  "resp_json code data message st =
     \<lparr>http_status = st, resp_body = JObj [''code'' \<mapsto> JInt code, ''message'' \<mapsto> JStr message, ''data'' \<mapsto> data]\<rparr>"

definition resp_ok :: "json \<Rightarrow> response" where
  "resp_ok data = resp_json 0 data ''ok'' 200"

definition resp_error :: "int \<Rightarrow> string \<Rightarrow> int \<Rightarrow> response" where
  "resp_error code message st = resp_json code JNull message st"

definition bad_request :: "string \<Rightarrow> int \<Rightarrow> response" where
  "bad_request message code = resp_json code JNull message 400"

definition unauthorized :: response where
  "unauthorized = resp_json 401 JNull ''unauthorized'' 401"

definition not_found :: "string \<Rightarrow> int \<Rightarrow> response" where
  "not_found message code = resp_json code JNull message 404"

subsection \<open>Users and sessions\<close>

record User =
  username :: string
  password :: string
  is_admin :: bool

record Session =
  s_username :: string
  expire_time :: int

record AuthManager =
  m_users :: "string \<rightharpoonup> User"
  m_sessions :: "string \<rightharpoonup> Session"
  m_token_ttl_sec :: int

definition new_auth :: AuthManager where
  "new_auth = \<lparr>m_users = Map.empty, m_sessions = Map.empty, m_token_ttl_sec = 2 * 60 * 60\<rparr>"

definition auth_init :: "AuthManager \<Rightarrow> AuthManager" where
  "auth_init a =
     (let admin = \<lparr>username = ''admin'', password = ''123456'', is_admin = True\<rparr>
      in a\<lparr>m_users := (m_users a)(username admin \<mapsto> admin)\<rparr>)"

definition charset :: string where
  "charset = ''0123456789abcdefghijklmnopqrstuvwxyzABCDEFGHIJKLMNOPQRSTUVWXYZ''"

text \<open>\<open>draw i\<close> is the value of \<^verbatim>\<open>dist(rng)\<close> in turn \<open>i\<close>, at most 61.\<close>

definition generate_token :: "(nat \<Rightarrow> nat) \<Rightarrow> string" where
  "generate_token draw = map (\<lambda>i. charset ! draw i) [0..<32]"

text \<open>\<open>token\<close> is what \<open>generate_token\<close> returns.\<close>

definition auth_login :: "int \<Rightarrow> string \<Rightarrow> string \<Rightarrow> string \<Rightarrow> AuthManager \<Rightarrow> string option \<times> AuthManager" where
  "auth_login now token uname pw a =
     (case m_users a uname of
        None \<Rightarrow> (None, a)
      | Some user \<Rightarrow>
          if password user \<noteq> pw then (None, a)
          else (Some token,
                a\<lparr>m_sessions := (m_sessions a)(token \<mapsto>
                    \<lparr>s_username = username user, expire_time = now + m_token_ttl_sec a * 1000000000\<rparr>)\<rparr>))"

definition validate_token :: "int \<Rightarrow> string \<Rightarrow> AuthManager \<Rightarrow> User option \<times> AuthManager" where
  "validate_token now token a =
     (case m_sessions a token of
        None \<Rightarrow> (None, a)
      | Some s \<Rightarrow>
          if expire_time s < now then (None, a\<lparr>m_sessions := (m_sessions a)(token := None)\<rparr>)
          else (m_users a (s_username s), a))"

definition user_from_request :: "int \<Rightarrow> string \<Rightarrow> AuthManager \<Rightarrow> User option \<times> AuthManager" where
  "user_from_request now auth a =
     (if take 7 auth \<noteq> ''Bearer '' then (None, a) else validate_token now (drop 7 auth) a)"

subsection \<open>The guard and the login handler\<close>

definition has_prefix :: "string \<Rightarrow> string \<Rightarrow> bool" where
  "has_prefix p s \<longleftrightarrow> take (length p) s = p"

definition skipAuth :: "string \<Rightarrow> bool" where
  "skipAuth path \<longleftrightarrow> path = ''/api/login'' \<or> has_prefix ''/api/workers'' path
     \<or> has_prefix ''/api/worker/execute'' path"

text \<open>\<open>None\<close>: unhandled, the request goes on to its handler.\<close>

definition pre_routing :: "int \<Rightarrow> string \<Rightarrow> string \<Rightarrow> AuthManager \<Rightarrow> response option \<times> AuthManager" where
  "pre_routing now path auth a =
     (if skipAuth path then (None, a)
      else case user_from_request now auth a of
             (None, a') \<Rightarrow> (Some unauthorized, a')
           | (Some u, a') \<Rightarrow> (None, a'))"

fun contains_text :: "string \<Rightarrow> string \<Rightarrow> bool" where
  "contains_text p [] \<longleftrightarrow> p = []"
| "contains_text p (c # s) \<longleftrightarrow> has_prefix p (c # s) \<or> contains_text p s"

definition login_handler ::
  "(string \<Rightarrow> string + json) \<Rightarrow> int \<Rightarrow> string \<Rightarrow> string \<Rightarrow> string \<Rightarrow> AuthManager \<Rightarrow> response \<times> AuthManager" where
  "login_handler parse now token ctype body a =
     (if \<not> contains_text ''application/json'' ctype then
        (bad_request ''Content-Type must be application/json'' 1001, a)
      else case parse body of
        Inl err \<Rightarrow> (bad_request ''Invalid JSON body'' 1002, a)
      | Inr j \<Rightarrow>
          (case (member ''username'' j, member ''password'' j) of
             (Some (JStr u), Some (JStr p)) \<Rightarrow>
               (case auth_login now token u p a of
                  (None, a') \<Rightarrow> (resp_error 1004 ''invalid_username_or_password'' 200, a')
                | (Some t, a') \<Rightarrow> (resp_ok (JObj [''token'' \<mapsto> JStr t, ''username'' \<mapsto> JStr u]), a'))
           | _ \<Rightarrow> (bad_request ''username and password required'' 1003, a)))"

subsection \<open>Who gets through\<close>

datatype auth_op = Login int string string string | Request int string string

fun op_time :: "auth_op \<Rightarrow> int" where
  "op_time (Login now tok u p) = now"
| "op_time (Request now path auth) = now"

fun auth_exec :: "auth_op \<Rightarrow> AuthManager \<Rightarrow> AuthManager" where
  "auth_exec (Login now tok u p) a = snd (auth_login now tok u p a)"
| "auth_exec (Request now path auth) a = snd (pre_routing now path auth a)"

text \<open>The last login that gave out the token: its time and user.\<close>

fun last_login :: "(string \<rightharpoonup> User) \<Rightarrow> string \<Rightarrow> auth_op list \<Rightarrow> (int \<times> User) option" where
  "last_login us tok [] = None"
| "last_login us tok (op # ops) =
     (case last_login us tok ops of
        Some r \<Rightarrow> Some r
      | None \<Rightarrow>
          (case op of
             Login now tok' u p \<Rightarrow>
               (case us u of Some usr \<Rightarrow> if tok' = tok \<and> password usr = p then Some (now, usr) else None
                | None \<Rightarrow> None)
           | _ \<Rightarrow> None))"

lemma last_login_snoc:
  "last_login us tok (ops @ [op]) =
     (case last_login us tok [op] of Some r \<Rightarrow> Some r | None \<Rightarrow> last_login us tok ops)"
  by (induction ops) (auto split: option.splits)

definition ttl :: "AuthManager \<Rightarrow> int" where
  "ttl a = m_token_ttl_sec a * 1000000000"

definition users_ok :: "(string \<rightharpoonup> User) \<Rightarrow> bool" where
  "users_ok us \<longleftrightarrow> (\<forall>n u. us n = Some u \<longrightarrow> username u = n)"

text \<open>The entry of a token after \<open>ops\<close>, at time \<open>T\<close>.\<close>

fun entry_ok :: "(string \<rightharpoonup> User) \<Rightarrow> int \<Rightarrow> int \<Rightarrow> (int \<times> User) option \<Rightarrow> Session option \<Rightarrow> bool" where
  "entry_ok us l T None x \<longleftrightarrow> x = None"
| "entry_ok us l T (Some (t0, u)) None \<longleftrightarrow> t0 + l < T"
| "entry_ok us l T (Some (t0, u)) (Some s) \<longleftrightarrow> us (s_username s) = Some u \<and> expire_time s = t0 + l"

lemma entry_later: "entry_ok us l T r x \<Longrightarrow> T \<le> T' \<Longrightarrow> entry_ok us l T' r x"
  by (cases "(us, l, T, r, x)" rule: entry_ok.cases) auto

definition auth_inv :: "(string \<rightharpoonup> User) \<Rightarrow> int \<Rightarrow> auth_op list \<Rightarrow> int \<Rightarrow> AuthManager \<Rightarrow> bool" where
  "auth_inv us l ops T a \<longleftrightarrow> m_users a = us \<and> ttl a = l
     \<and> (\<forall>tok. entry_ok us l T (last_login us tok ops) (m_sessions a tok))"

lemma auth_inv_later: "auth_inv us l ops T a \<Longrightarrow> T \<le> T' \<Longrightarrow> auth_inv us l ops T' a"
  using entry_later unfolding auth_inv_def by blast

definition live :: "int \<Rightarrow> int \<Rightarrow> (int \<times> User) option \<Rightarrow> User option" where
  "live l now r = (case r of None \<Rightarrow> None | Some (t0, u) \<Rightarrow> if now \<le> t0 + l then Some u else None)"

lemma validate_entry:
  assumes inv: "auth_inv us l ops T a" and t: "T \<le> now"
  shows "auth_inv us l ops now (snd (validate_token now tok a))"
    and "fst (validate_token now tok a) = live l now (last_login us tok ops)"
proof -
  have u: "m_users a = us" "ttl a = l" and e: "\<And>k. entry_ok us l now (last_login us k ops) (m_sessions a k)"
    using auth_inv_later [OF inv t] by (simp_all add: auth_inv_def)
  note ek = e [of tok]
  consider "m_sessions a tok = None"
    | s t0 usr where "m_sessions a tok = Some s" "last_login us tok ops = Some (t0, usr)"
        "us (s_username s) = Some usr" "expire_time s = t0 + l"
    using ek by (cases "(us, l, now, last_login us tok ops, m_sessions a tok)" rule: entry_ok.cases) auto
  note cs = this
  show "fst (validate_token now tok a) = live l now (last_login us tok ops)"
  proof (cases rule: cs)
    case 1
    have "entry_ok us l T (last_login us tok ops) None" using inv 1 by (metis auth_inv_def)
    then show ?thesis using 1 t
      by (cases "last_login us tok ops") (auto simp: validate_token_def live_def)
  next
    case (2 s t0 usr)
    then show ?thesis using u by (simp add: validate_token_def live_def)
  qed
  show "auth_inv us l ops now (snd (validate_token now tok a))"
  proof (cases rule: cs)
    case 1
    then show ?thesis using u e by (simp add: validate_token_def auth_inv_def)
  next
    case (2 s t0 usr)
    show ?thesis
    proof (cases "expire_time s < now")
      case True
      then have "snd (validate_token now tok a) = a\<lparr>m_sessions := (m_sessions a)(tok := None)\<rparr>"
        using 2 by (simp add: validate_token_def)
      moreover have "entry_ok us l now (last_login us tok ops) None" using 2 True by simp
      ultimately show ?thesis using u e by (simp add: auth_inv_def ttl_def)
    next
      case False
      then show ?thesis using 2 u e by (simp add: validate_token_def auth_inv_def)
    qed
  qed
qed

lemma pre_routing_snd:
  "snd (pre_routing now path auth a) =
     (if skipAuth path \<or> take 7 auth \<noteq> ''Bearer '' then a else snd (validate_token now (drop 7 auth) a))"
  by (auto simp: pre_routing_def user_from_request_def split: prod.splits option.splits)

lemma auth_exec_inv:
  assumes inv: "auth_inv us l ops T a" and t: "T \<le> op_time op" and us: "users_ok us"
  shows "auth_inv us l (ops @ [op]) (op_time op) (auth_exec op a)"
proof (cases op)
  case (Login now tok u p)
  have m: "m_users a = us" "ttl a = l" and e: "\<And>k. entry_ok us l now (last_login us k ops) (m_sessions a k)"
    using auth_inv_later [OF inv t] Login by (simp_all add: auth_inv_def)
  show ?thesis
  proof (cases "\<exists>usr. us u = Some usr \<and> password usr = p")
    case False
    then have "auth_exec op a = a" "\<And>k. last_login us k (ops @ [op]) = last_login us k ops"
      using m by (auto simp: Login auth_login_def last_login_snoc split: option.splits)
    then show ?thesis using m e by (simp add: auth_inv_def Login)
  next
    case True
    then obtain usr where usr: "us u = Some usr" "password usr = p" "us (username usr) = Some usr"
      using us by (auto simp: users_ok_def)
    have "auth_exec op a = a\<lparr>m_sessions := (m_sessions a)(tok \<mapsto> \<lparr>s_username = username usr, expire_time = now + l\<rparr>)\<rparr>"
      using m usr by (auto simp: Login auth_login_def ttl_def)
    moreover have "last_login us k (ops @ [op]) = (if k = tok then Some (now, usr) else last_login us k ops)" for k
      using usr by (auto simp: Login last_login_snoc split: option.splits)
    ultimately show ?thesis using m e usr by (auto simp: auth_inv_def Login ttl_def)
  qed
next
  case (Request now path auth)
  have "last_login us k (ops @ [op]) = last_login us k ops" for k by (simp add: Request last_login_snoc)
  then have "auth_inv us l (ops @ [op]) T' b = auth_inv us l ops T' b" for T' b by (simp add: auth_inv_def)
  then show ?thesis
    using validate_entry(1) [OF inv, of now "drop 7 auth"] auth_inv_later [OF inv t] t
    by (simp add: Request pre_routing_snd)
qed

lemma auth_run_inv:
  "\<lbrakk>auth_inv us l ops T a; users_ok us; sorted (T # map op_time ops')\<rbrakk>
    \<Longrightarrow> auth_inv us l (ops @ ops') (last (T # map op_time ops')) (fold auth_exec ops' a)"
proof (induction ops' arbitrary: ops T a)
  case (Cons op ops')
  then have "auth_inv us l (ops @ [op]) (op_time op) (auth_exec op a)" by (intro auth_exec_inv) auto
  from Cons.IH [OF this] Cons.prems show ?case by simp
qed simp

text \<open>C19. A request outside the login and worker paths reaches its handler exactly when it carries a live
  token: after any history of logins and requests, it is let through iff its Authorization header is
  "Bearer " and a token that the last login with that token was given for a user's correct password no
  more than two hours ago; otherwise the answer is 401.\<close>

theorem api_guarded:
  assumes "\<not> skipAuth path" and "sorted (0 # map op_time ops @ [now])"
    and "a = fold auth_exec ops (auth_init new_auth)"
  shows "fst (pre_routing now path auth a) =
    (if take 7 auth = ''Bearer '' \<and>
        (\<exists>t0 u. last_login (m_users (auth_init new_auth)) (drop 7 auth) ops = Some (t0, u)
           \<and> now \<le> t0 + 2 * 60 * 60 * 1000000000)
     then None else Some unauthorized)"
proof -
  define us where "us = m_users (auth_init new_auth)"
  have ok: "users_ok us" by (simp add: us_def users_ok_def auth_init_def new_auth_def)
  have "auth_inv us 7200000000000 [] 0 (auth_init new_auth)"
    by (simp add: auth_inv_def us_def ttl_def auth_init_def new_auth_def)
  from auth_run_inv [OF this ok, of ops] assms(2)
  have inv: "auth_inv us 7200000000000 ops (last (0 # map op_time ops)) a"
    by (simp add: assms(3) sorted_append)
  have "last (0 # map op_time ops) \<le> now"
    using assms(2) by (auto simp: sorted_append last_map)
  then have "fst (validate_token now (drop 7 auth) a) = live 7200000000000 now (last_login us (drop 7 auth) ops)"
    by (rule validate_entry(2) [OF inv])
  then show ?thesis
    using assms(1) unfolding us_def [symmetric]
    by (cases "validate_token now (drop 7 auth) a")
      (auto simp: pre_routing_def user_from_request_def live_def split: option.splits)
qed

theorem api_guarded_witness:
  "\<exists>a. fst (pre_routing 7200000000005 ''/api/tasks'' ''Bearer T'' a) = None
     \<and> fst (pre_routing 7200000000006 ''/api/tasks'' ''Bearer T'' a) = Some unauthorized"
proof -
  define ops where "ops = [Login 5 ''T'' ''admin'' ''123456'', Login 5 ''U'' ''admin'' ''wrong'']"
  have p: "\<not> skipAuth ''/api/tasks''" by (simp add: skipAuth_def has_prefix_def)
  have l: "last_login (m_users (auth_init new_auth)) ''T'' ops
      = Some (5, \<lparr>username = ''admin'', password = ''123456'', is_admin = True\<rparr>)"
    by (simp add: ops_def auth_init_def new_auth_def Let_def)
  have s: "sorted (0 # map op_time ops @ [7200000000005])" "sorted (0 # map op_time ops @ [7200000000006])"
    by (simp_all add: ops_def)
  show ?thesis
    using api_guarded [OF p s(1) refl, of "''Bearer T''"] api_guarded [OF p s(2) refl, of "''Bearer T''"] l by auto
qed

end
