(* ===== verification/Task_Manager.thy ===== *)
theory Task_Manager
  imports Task_Json "HOL-Library.Word"
begin

text \<open>
  \<^verbatim>\<open>core/task.h\<close>, \<^verbatim>\<open>core/task_manager.cpp\<close> and the task part of \<^verbatim>\<open>ws/ws_task_events.h\<close>: the tasks in memory and
  their rows in the table \<^verbatim>\<open>tasks\<close>.  A task object is known by its id, which stands for the shared pointer
  to it.  The table is a list of rows; a statement can fail to prepare or to step, which is an argument
  of each operation.  Text is bound as a C string, so a row holds it up to its first NUL byte.  The
  current time (as text) and the JSON printer and parser are arguments.
\<close>

subsection \<open>Tasks\<close>

datatype TStatus = TPending | TRunning | TSuccess | TFailed | TCanceled | TTimeout

fun status_to_string :: "TStatus \<Rightarrow> string" where
  "status_to_string TPending = ''pending''"
| "status_to_string TRunning = ''running''"
| "status_to_string TSuccess = ''success''"
| "status_to_string TFailed = ''failed''"
| "status_to_string TCanceled = ''canceled''"
| "status_to_string TTimeout = ''timeout''"

definition string_to_status :: "string \<Rightarrow> TStatus" where
  "string_to_status s =
     (if s = ''pending'' then TPending else if s = ''running'' then TRunning
      else if s = ''success'' then TSuccess else if s = ''canceled'' then TCanceled
      else if s = ''timeout'' then TTimeout else TFailed)"

record Task =
  task_id :: "64 word"
  task_name :: string
  task_type :: int
  task_status :: TStatus
  create_time :: string
  update_time :: string
  task_params :: json
  exit_code :: int
  last_output :: string
  last_error :: string
  max_retries :: int
  retry_count :: int
  timeout_sec :: int
  cancel_flag :: bool

definition task_to_string :: "(json \<Rightarrow> string) \<Rightarrow> Task \<Rightarrow> string" where
  "task_to_string dump t =
     ''Task{id='' @ to_string_int (uint (task_id t)) @ '', name='' @ task_name t
     @ '', type='' @ to_string_int (task_type t) @ '', status='' @ status_to_string (task_status t)
     @ '', create_time='' @ create_time t @ '', update_time='' @ update_time t
     @ '', params='' @ dump (task_params t) @ ''}''"

definition task_to_json :: "Task \<Rightarrow> json" where
  "task_to_json t =
     JObj [''id'' \<mapsto> JInt (uint (task_id t)), ''name'' \<mapsto> JStr (task_name t), ''type'' \<mapsto> JInt (task_type t),
           ''params'' \<mapsto> task_params t, ''status'' \<mapsto> JStr (status_to_string (task_status t)),
           ''create_time'' \<mapsto> JStr (create_time t), ''update_time'' \<mapsto> JStr (update_time t),
           ''exit_code'' \<mapsto> JInt (exit_code t), ''last_output'' \<mapsto> JStr (last_output t),
           ''last_error'' \<mapsto> JStr (last_error t)]"

text \<open>What \<^verbatim>\<open>broadcast_task_event\<close> sends.\<close>

definition task_event :: "string \<Rightarrow> Task \<Rightarrow> json" where
  "task_event event t = JObj [''event'' \<mapsto> JStr event, ''data'' \<mapsto> task_to_json t]"

subsection \<open>The table\<close>

datatype db_outcome = PrepareFails | StepFails | StepDone

record task_row =
  row_id :: "64 word"
  row_name :: string
  row_type :: int
  row_status :: string
  row_params :: "string option"
  row_create_time :: string
  row_update_time :: string
  row_exit_code :: int
  row_last_output :: "string option"
  row_last_error :: "string option"
  row_max_retries :: int
  row_retry_count :: int
  row_timeout_sec :: int
  row_cancel_flag :: int

definition c_text :: "string \<Rightarrow> string" where
  "c_text s = takeWhile (\<lambda>c. c \<noteq> CHR 0x00) s"

definition row_of :: "(json \<Rightarrow> string) \<Rightarrow> Task \<Rightarrow> task_row" where
  "row_of dump t =
     \<lparr>row_id = task_id t, row_name = c_text (task_name t), row_type = task_type t,
      row_status = c_text (status_to_string (task_status t)), row_params = Some (c_text (dump (task_params t))),
      row_create_time = c_text (create_time t), row_update_time = c_text (update_time t),
      row_exit_code = exit_code t, row_last_output = Some (c_text (last_output t)),
      row_last_error = Some (c_text (last_error t)), row_max_retries = max_retries t,
      row_retry_count = retry_count t, row_timeout_sec = timeout_sec t,
      row_cancel_flag = (if cancel_flag t then 1 else 0)\<rparr>"

text \<open>\<^verbatim>\<open>id\<close> is the primary key.\<close>

definition db_insert :: "db_outcome \<Rightarrow> task_row \<Rightarrow> task_row list \<Rightarrow> task_row list" where
  "db_insert oc r rows =
     (if oc = StepDone \<and> row_id r \<notin> row_id ` set rows then rows @ [r] else rows)"

definition db_update :: "db_outcome \<Rightarrow> 64 word \<Rightarrow> (task_row \<Rightarrow> task_row) \<Rightarrow> task_row list \<Rightarrow> task_row list" where
  "db_update oc i f rows =
     (if oc = StepDone then map (\<lambda>r. if row_id r = i then f r else r) rows else rows)"

definition task_of_row :: "(string \<Rightarrow> string + json) \<Rightarrow> task_row \<Rightarrow> Task" where
  "task_of_row parse r =
     \<lparr>task_id = row_id r, task_name = row_name r, task_type = wrap_signed 32 (row_type r),
      task_status = string_to_status (row_status r), create_time = row_create_time r,
      update_time = row_update_time r,
      task_params = (case row_params r of
                       None \<Rightarrow> JNull
                     | Some s \<Rightarrow> (case parse s of Inr j \<Rightarrow> j | Inl _ \<Rightarrow> JObj Map.empty)),
      exit_code = wrap_signed 32 (row_exit_code r),
      last_output = (case row_last_output r of None \<Rightarrow> [] | Some s \<Rightarrow> s),
      last_error = (case row_last_error r of None \<Rightarrow> [] | Some s \<Rightarrow> s),
      max_retries = wrap_signed 32 (row_max_retries r), retry_count = wrap_signed 32 (row_retry_count r),
      timeout_sec = wrap_signed 32 (row_timeout_sec r), cancel_flag = (wrap_signed 32 (row_cancel_flag r) \<noteq> 0)\<rparr>"

subsection \<open>The manager\<close>

record TaskManager =
  m_next_id :: "64 word"
  m_tasks :: "Task list"
  tasks_table :: "task_row list"

definition add_task ::
  "(json \<Rightarrow> string) \<Rightarrow> string \<Rightarrow> db_outcome \<Rightarrow> string \<Rightarrow> int \<Rightarrow> json \<Rightarrow> TaskManager
    \<Rightarrow> (64 word) result \<times> TaskManager" where
  "add_task dump now oc nm ty params tm =
     (let i = m_next_id tm; tm1 = tm\<lparr>m_next_id := i + 1\<rparr>
      in case bind (value_or get_int ''max_retries'' 0 params) (\<lambda>mr.
              bind (value_or get_int ''timeout_sec'' 0 params) (\<lambda>ts.
                Inr \<lparr>task_id = i, task_name = nm, task_type = ty, task_status = TPending, create_time = now,
                     update_time = now, task_params = params, exit_code = 0, last_output = [],
                     last_error = [], max_retries = mr, retry_count = 0, timeout_sec = ts,
                     cancel_flag = False\<rparr>)) of
           Inl e \<Rightarrow> (Inl e, tm1)
         | Inr t \<Rightarrow> (Inr i, tm1\<lparr>m_tasks := m_tasks tm @ [t],
                              tasks_table := db_insert oc (row_of dump t) (tasks_table tm)\<rparr>))"

definition list_tasks :: "TaskManager \<Rightarrow> Task list" where
  "list_tasks tm = m_tasks tm"

definition load_from_db :: "(string \<Rightarrow> string + json) \<Rightarrow> db_outcome \<Rightarrow> TaskManager \<Rightarrow> TaskManager" where
  "load_from_db parse oc tm =
     (if oc = PrepareFails then tm
      else
        (let ts = map (task_of_row parse) (if oc = StepDone then sort_key (\<lambda>r. sint (row_id r)) (tasks_table tm) else []);
             max_id = foldl (\<lambda>m t. if m < task_id t then task_id t else m) 0 ts
         in tm\<lparr>m_tasks := m_tasks tm @ ts, m_next_id := max_id + 1\<rparr>))"

definition get_task :: "64 word \<Rightarrow> TaskManager \<Rightarrow> Task option" where
  "get_task i tm = find (\<lambda>t. task_id t = i) (m_tasks tm)"

definition get_task_ptr :: "64 word \<Rightarrow> TaskManager \<Rightarrow> (64 word) option" where
  "get_task_ptr i tm = map_option task_id (find (\<lambda>t. task_id t = i) (m_tasks tm))"

text \<open>Writing through the pointer to a task: the first object with the id.\<close>

fun upd_first :: "64 word \<Rightarrow> (Task \<Rightarrow> Task) \<Rightarrow> Task list \<Rightarrow> Task list" where
  "upd_first i f [] = []"
| "upd_first i f (t # ts) = (if task_id t = i then f t # ts else t # upd_first i f ts)"

definition poke :: "64 word \<Rightarrow> (Task \<Rightarrow> Task) \<Rightarrow> TaskManager \<Rightarrow> TaskManager" where
  "poke i f tm = tm\<lparr>m_tasks := upd_first i f (m_tasks tm)\<rparr>"

definition set_running :: "string \<Rightarrow> db_outcome \<Rightarrow> 64 word \<Rightarrow> TaskManager \<Rightarrow> bool \<times> TaskManager" where
  "set_running now oc i tm =
     (if get_task i tm = None then (False, tm)
      else
        (let tm1 = poke i (\<lambda>t. t\<lparr>task_status := TRunning, update_time := now\<rparr>) tm
         in (oc \<noteq> PrepareFails,
             tm1\<lparr>tasks_table := db_update oc i
               (\<lambda>r. r\<lparr>row_status := c_text (status_to_string TRunning), row_update_time := c_text now\<rparr>)
               (tasks_table tm1)\<rparr>)))"

definition updateTask :: "(json \<Rightarrow> string) \<Rightarrow> db_outcome \<Rightarrow> Task \<Rightarrow> TaskManager \<Rightarrow> bool \<times> TaskManager" where
  "updateTask dump oc updated tm =
     (if get_task (task_id updated) tm = None then (False, tm)
      else
        (let tm1 = poke (task_id updated) (\<lambda>_. updated) tm
         in (oc = StepDone,
             tm1\<lparr>tasks_table := db_update oc (task_id updated) (\<lambda>_. row_of dump updated) (tasks_table tm1)\<rparr>)))"

definition set_finished ::
  "string \<Rightarrow> db_outcome \<Rightarrow> 64 word \<Rightarrow> bool \<Rightarrow> int \<Rightarrow> string \<Rightarrow> string \<Rightarrow> TaskManager \<Rightarrow> bool \<times> TaskManager" where
  "set_finished now oc i success code out err tm =
     (if get_task i tm = None then (False, tm)
      else
        (let st = (if success then TSuccess else TFailed);
             tm1 = poke i (\<lambda>t. t\<lparr>task_status := st, exit_code := code, last_output := out,
                                 last_error := err, update_time := now\<rparr>) tm
         in (oc \<noteq> PrepareFails,
             tm1\<lparr>tasks_table := db_update oc i
               (\<lambda>r. r\<lparr>row_status := c_text (status_to_string st), row_update_time := c_text now,
                       row_exit_code := code, row_last_output := Some (c_text out),
                       row_last_error := Some (c_text err)\<rparr>)
               (tasks_table tm1)\<rparr>)))"

subsection \<open>The table follows the memory\<close>

datatype tm_op =
    AddTask string string int json
  | SetRunning string "64 word"
  | UpdateTask Task
  | SetFinished string "64 word" bool int string string

fun tm_exec :: "(json \<Rightarrow> string) \<Rightarrow> tm_op \<Rightarrow> TaskManager \<Rightarrow> TaskManager" where
  "tm_exec dump (AddTask now nm ty params) tm = snd (add_task dump now StepDone nm ty params tm)"
| "tm_exec dump (SetRunning now i) tm = snd (set_running now StepDone i tm)"
| "tm_exec dump (UpdateTask t) tm = snd (updateTask dump StepDone t tm)"
| "tm_exec dump (SetFinished now i success code out err) tm =
     snd (set_finished now StepDone i success code out err tm)"

definition new_manager :: "task_row list \<Rightarrow> TaskManager" where
  "new_manager rows = \<lparr>m_next_id = 1, m_tasks = [], tasks_table = rows\<rparr>"

text \<open>What survives the way through the table: text without NUL, numbers of 32 bits, parameters the
  JSON parser reads back.\<close>

definition no_nul :: "string \<Rightarrow> bool" where
  "no_nul s \<longleftrightarrow> CHR 0x00 \<notin> set s"

definition params_ok :: "(string \<Rightarrow> string + json) \<Rightarrow> (json \<Rightarrow> string) \<Rightarrow> json \<Rightarrow> bool" where
  "params_ok parse dump p \<longleftrightarrow> parse (dump p) = Inr p \<and> no_nul (dump p)"

definition storable :: "(string \<Rightarrow> string + json) \<Rightarrow> (json \<Rightarrow> string) \<Rightarrow> Task \<Rightarrow> bool" where
  "storable parse dump t \<longleftrightarrow>
     params_ok parse dump (task_params t) \<and> no_nul (task_name t) \<and> no_nul (create_time t)
   \<and> no_nul (update_time t) \<and> no_nul (last_output t) \<and> no_nul (last_error t)
   \<and> int_range 32 (task_type t) \<and> int_range 32 (exit_code t) \<and> int_range 32 (max_retries t)
   \<and> int_range 32 (retry_count t) \<and> int_range 32 (timeout_sec t)"

fun op_ok :: "(string \<Rightarrow> string + json) \<Rightarrow> (json \<Rightarrow> string) \<Rightarrow> tm_op \<Rightarrow> bool" where
  "op_ok parse dump (AddTask now nm ty params) \<longleftrightarrow>
     no_nul now \<and> no_nul nm \<and> int_range 32 ty \<and> params_ok parse dump params"
| "op_ok parse dump (SetRunning now i) \<longleftrightarrow> no_nul now"
| "op_ok parse dump (UpdateTask t) \<longleftrightarrow> storable parse dump t"
| "op_ok parse dump (SetFinished now i success code out err) \<longleftrightarrow>
     no_nul now \<and> int_range 32 code \<and> no_nul out \<and> no_nul err"

lemma c_text_id: "no_nul s \<Longrightarrow> c_text s = s"
  unfolding c_text_def no_nul_def by (simp add: takeWhile_eq_all_conv) metis

lemma c_text_status [simp]: "string_to_status (c_text (status_to_string st)) = st"
  by (cases st) (simp_all add: c_text_def string_to_status_def)

lemma wrap_range: "int_range 32 n \<Longrightarrow> wrap_signed 32 n = n"
  by (simp add: int_range_def wrap_signed_id)

lemma get_int_range: "get_int j = Inr n \<Longrightarrow> int_range 32 n"
  by (cases j) (auto simp: get_int_def int_range_def wrap_signed_def)

lemma task_of_row_of:
  assumes "storable parse dump t" shows "task_of_row parse (row_of dump t) = t"
proof -
  have "wrap_signed 32 (if b then 1 else 0) = (if b then 1 else 0)" for b
    by (rule wrap_range) (simp add: int_range_def)
  then show ?thesis
    using assms by (cases t) (simp add: task_of_row_def row_of_def storable_def params_ok_def c_text_id wrap_range)
qed

lemma upd_first_map:
  "distinct (map task_id ts) \<Longrightarrow> upd_first i f ts = map (\<lambda>t. if task_id t = i then f t else t) ts"
proof (induction ts)
  case (Cons a ts)
  have "map (\<lambda>t. if task_id t = i then f t else t) ts = ts" if "task_id a = i"
    using Cons.prems that by (intro map_idI) (force simp: image_iff)
  with Cons show ?case by auto
qed simp

definition tm_inv :: "(string \<Rightarrow> string + json) \<Rightarrow> (json \<Rightarrow> string) \<Rightarrow> nat \<Rightarrow> TaskManager \<Rightarrow> bool" where
  "tm_inv parse dump n tm \<longleftrightarrow>
     tasks_table tm = map (row_of dump) (m_tasks tm)
   \<and> (\<forall>t \<in> set (m_tasks tm). storable parse dump t \<and> task_id t < m_next_id tm)
   \<and> sorted_wrt (\<lambda>a b. task_id a < task_id b) (m_tasks tm)
   \<and> 1 \<le> unat (m_next_id tm) \<and> unat (m_next_id tm) \<le> n"

lemma sorted_ids: "sorted_wrt (\<lambda>a b. task_id a < task_id b) ts \<Longrightarrow> distinct (map task_id ts)"
  by (induction ts) auto

lemma sorted_wrt_key: "map f ys = map f xs \<Longrightarrow> sorted_wrt (\<lambda>a b. f a < f b) ys = sorted_wrt (\<lambda>a b. f a < f b) xs"
  using sorted_wrt_map [of "(<)" f ys] sorted_wrt_map [of "(<)" f xs] by simp

text \<open>Writing the same change to the object and to its row keeps them together.\<close>

lemma tm_inv_write:
  assumes inv: "tm_inv parse dump n tm"
    and row: "\<And>t. row_of dump (f t) = g (row_of dump t)"
    and keep: "\<And>t. task_id t = i \<Longrightarrow> task_id (f t) = i"
    and ok: "\<And>t. storable parse dump t \<Longrightarrow> storable parse dump (f t)"
  shows "tm_inv parse dump n
    (tm\<lparr>m_tasks := upd_first i f (m_tasks tm), tasks_table := db_update StepDone i g (tasks_table tm)\<rparr>)"
proof -
  let ?h = "\<lambda>t. if task_id t = i then f t else t"
  have d: "distinct (map task_id (m_tasks tm))" using inv by (auto simp: tm_inv_def sorted_ids)
  have t: "task_id (?h t) = task_id t" for t using keep by simp
  have tab: "db_update StepDone i g (tasks_table tm) = map (row_of dump) (map ?h (m_tasks tm))"
    using inv row by (auto simp: tm_inv_def db_update_def row_of_def)
  have "sorted_wrt (\<lambda>a b. task_id a < task_id b) (map ?h (m_tasks tm))"
    using inv sorted_wrt_key [of task_id "map ?h (m_tasks tm)" "m_tasks tm"] t
    by (simp add: tm_inv_def comp_def cong: if_cong)
  then show ?thesis
    using inv ok keep tab unfolding upd_first_map [OF d] by (auto simp: tm_inv_def)
qed

lemma tm_exec_inv:
  assumes inv: "tm_inv parse dump n tm" and ok: "op_ok parse dump op" and n: "n < 2 ^ 63"
  shows "tm_inv parse dump (Suc n) (tm_exec dump op tm)"
proof -
  have weak: "tm_inv parse dump n u \<Longrightarrow> tm_inv parse dump (Suc n) u" for u by (simp add: tm_inv_def)
  show ?thesis
  proof (cases op)
    case (AddTask now nm ty params)
    let ?i = "m_next_id tm"
    have i: "unat ?i < 2 ^ 64 - 1" using inv n by (auto simp: tm_inv_def)
    then have s: "unat (?i + 1) = Suc (unat ?i)" by (simp add: unat_word_ariths)
    then have lt: "?i < ?i + 1" by (simp add: word_less_nat_alt)
    then have le: "t < ?i \<Longrightarrow> t < ?i + 1" for t using less_trans by blast
    show ?thesis
    proof (cases "bind (value_or get_int ''max_retries'' 0 params) (\<lambda>mr.
        bind (value_or get_int ''timeout_sec'' 0 params) (\<lambda>ts. Inr (mr, ts)))")
      case (Inl e)
      then have "tm_exec dump op tm = tm\<lparr>m_next_id := ?i + 1\<rparr>"
        by (cases "value_or get_int ''max_retries'' 0 params"; cases "value_or get_int ''timeout_sec'' 0 params")
          (simp_all add: AddTask add_task_def Let_def)
      then show ?thesis using inv s le by (auto simp: tm_inv_def)
    next
      case (Inr p)
      then obtain mr ts where p: "value_or get_int ''max_retries'' 0 params = Inr mr"
        "value_or get_int ''timeout_sec'' 0 params = Inr ts" by (auto simp: bind_eq_Inr)
      then have r: "int_range 32 mr" "int_range 32 ts"
        by (auto simp: value_or_def int_range_def [of 32 0] split: json.splits option.splits dest!: get_int_range)
      define t where "t = \<lparr>task_id = ?i, task_name = nm, task_type = ty, task_status = TPending,
        create_time = now, update_time = now, task_params = params, exit_code = 0, last_output = [],
        last_error = [], max_retries = mr, retry_count = 0, timeout_sec = ts, cancel_flag = False\<rparr>"
      have st: "storable parse dump t"
        using ok r by (auto simp: AddTask t_def storable_def no_nul_def int_range_def [of 32 0])
      have "row_id ` set (tasks_table tm) = task_id ` set (m_tasks tm)"
        using inv by (auto simp: tm_inv_def row_of_def image_iff)
      then have "?i \<notin> row_id ` set (tasks_table tm)" using inv by (auto simp: tm_inv_def)
      then have "tm_exec dump op tm = tm\<lparr>m_next_id := ?i + 1, m_tasks := m_tasks tm @ [t],
          tasks_table := tasks_table tm @ [row_of dump t]\<rparr>"
        using p by (simp add: AddTask add_task_def Let_def t_def db_insert_def row_of_def)
      moreover have "task_id t = ?i" by (simp add: t_def)
      ultimately show ?thesis using inv st s lt le by (auto simp: tm_inv_def sorted_wrt_append)
    qed
  next
    case (SetRunning now i)
    then show ?thesis
      using inv ok by (auto simp: set_running_def poke_def Let_def storable_def row_of_def
          intro!: weak tm_inv_write [OF inv])
  next
    case (UpdateTask t)
    then show ?thesis
      using inv ok by (auto simp: updateTask_def poke_def Let_def intro!: weak tm_inv_write [OF inv])
  next
    case (SetFinished now i success code out err)
    then show ?thesis
      using inv ok by (auto simp: set_finished_def poke_def Let_def storable_def row_of_def
          intro!: weak tm_inv_write [OF inv])
  qed
qed

lemma tm_run_inv:
  "\<lbrakk>tm_inv parse dump n tm; \<forall>op \<in> set ops. op_ok parse dump op; n + length ops < 2 ^ 63\<rbrakk>
    \<Longrightarrow> tm_inv parse dump (n + length ops) (fold (tm_exec dump) ops tm)"
proof (induction ops arbitrary: n tm)
  case (Cons op ops)
  then have "tm_inv parse dump (Suc n) (tm_exec dump op tm)" by (intro tm_exec_inv) auto
  with Cons.IH [of "Suc n" "tm_exec dump op tm"] Cons.prems show ?case by simp
qed simp

lemma foldl_max_id:
  "foldl (\<lambda>m t. if m < task_id t then task_id t else m) m ts = (m :: 64 word) \<or>
   foldl (\<lambda>m t. if m < task_id t then task_id t else m) m ts \<in> task_id ` set ts"
  "m \<le> foldl (\<lambda>m t. if m < task_id t then task_id t else m) (m :: 64 word) ts"
  "t \<in> set ts \<Longrightarrow> task_id t \<le> foldl (\<lambda>m t. if m < task_id t then task_id t else m) (m :: 64 word) ts"
proof (induction ts arbitrary: m)
  case (Cons a ts)
  { case 1 then show ?case using Cons.IH(1) [of "if m < task_id a then task_id a else m"] by auto }
  { case 2 then show ?case using Cons.IH(2) [of "if m < task_id a then task_id a else m"] by auto }
  { case 3
    then show ?case using Cons.IH(2,3) [of "if m < task_id a then task_id a else m"]
      by (auto split: if_splits) }
qed auto

lemma sint_small:
  fixes a b :: "64 word"
  assumes "unat a < 2 ^ 63" "unat b < 2 ^ 63" shows "sint a \<le> sint b \<longleftrightarrow> a \<le> b"
proof -
  have "sint w = uint w" if "unat w < 2 ^ 63" for w :: "64 word"
  proof -
    have "int (unat w) < int (2 ^ 63)" using that by (rule of_nat_less_iff [THEN iffD2])
    then have "uint w < 2 ^ 63" unfolding uint_nat by simp
    then show ?thesis
      using signed_take_bit_int_eq_self [of 63 "uint w"] by (simp add: sint_uint order_trans [of _ 0])
  qed
  then show ?thesis using assms by (simp add: word_le_def)
qed

lemma load_restores:
  assumes inv: "tm_inv parse dump n tm" and n: "n < 2 ^ 63"
  defines "tm' \<equiv> load_from_db parse StepDone (new_manager (tasks_table tm))"
  shows "m_tasks tm' = m_tasks tm" and "m_next_id tm' \<le> m_next_id tm"
    and "t \<in> set (m_tasks tm') \<Longrightarrow> task_id t < m_next_id tm'"
proof -
  let ?mx = "foldl (\<lambda>m t. if m < task_id t then task_id t else m) 0 (m_tasks tm)"
  have small: "unat (task_id t) < 2 ^ 63" if "t \<in> set (m_tasks tm)" for t
  proof -
    have "unat (task_id t) < unat (m_next_id tm)" using inv that by (auto simp: tm_inv_def word_less_nat_alt)
    then show ?thesis using inv n by (auto simp: tm_inv_def)
  qed
  have "sorted_wrt (\<lambda>a b. sint (task_id a) \<le> sint (task_id b)) (m_tasks tm)"
  proof (rule sorted_wrt_mono_rel)
    show "sorted_wrt (\<lambda>a b. task_id a < task_id b) (m_tasks tm)" using inv by (simp add: tm_inv_def)
    show "sint (task_id a) \<le> sint (task_id b)"
      if "a \<in> set (m_tasks tm)" "b \<in> set (m_tasks tm)" "task_id a < task_id b" for a b
      using that sint_small [OF small small] by simp
  qed
  then have "sorted (map (\<lambda>r. sint (row_id r)) (tasks_table tm))"
    using inv by (simp add: tm_inv_def sorted_wrt_map row_of_def)
  then have "sort_key (\<lambda>r. sint (row_id r)) (tasks_table tm) = tasks_table tm"
    by (rule sort_key_id_if_sorted)
  moreover have "map (task_of_row parse) (tasks_table tm) = m_tasks tm"
    using inv task_of_row_of by (auto simp: tm_inv_def intro!: map_idI)
  ultimately have eq: "m_tasks tm' = m_tasks tm" "m_next_id tm' = ?mx + 1"
    by (simp_all add: tm'_def load_from_db_def new_manager_def Let_def)
  have "0 < m_next_id tm" using inv by (auto simp: tm_inv_def word_less_nat_alt)
  then have lt: "?mx < m_next_id tm"
    using foldl_max_id(1) [of 0 "m_tasks tm"] inv by (auto simp: tm_inv_def)
  show "m_tasks tm' = m_tasks tm" by (rule eq(1))
  show "m_next_id tm' \<le> m_next_id tm" using lt eq(2) by (simp add: inc_le)
  have "unat ?mx < 2 ^ 63" using lt inv n by (auto simp: word_less_nat_alt tm_inv_def)
  then have "unat (?mx + 1) = Suc (unat ?mx)" by (simp add: unat_word_ariths)
  then have "?mx < ?mx + 1" by (simp add: word_less_nat_alt)
  then show "task_id t < m_next_id tm'" if "t \<in> set (m_tasks tm')"
    using foldl_max_id(3) [of t "m_tasks tm" 0] that eq by simp
qed

text \<open>C18. A restart loses nothing: after any sequence of \<^verbatim>\<open>add_task\<close>, \<^verbatim>\<open>set_running\<close>, \<^verbatim>\<open>updateTask\<close> and \<^verbatim>\<open>set_finished\<close>
  whose statements succeed, a new manager that loads the table has exactly the tasks of the old one,
  in the same order, with distinct ids, and gives the next task an id none of them has - provided text
  holds no NUL byte, numbers fit 32 bits and the parameters are read back by the JSON parser.\<close>

theorem task_manager_restart:
  assumes "\<forall>op \<in> set ops. op_ok parse dump op" and "length ops < 2 ^ 63 - 1"
    and "tm = fold (tm_exec dump) ops (new_manager [])"
  shows "m_tasks (load_from_db parse StepDone (new_manager (tasks_table tm))) = m_tasks tm
    \<and> distinct (map task_id (m_tasks tm))
    \<and> m_next_id (load_from_db parse StepDone (new_manager (tasks_table tm))) \<notin> task_id ` set (m_tasks tm)"
proof -
  have "tm_inv parse dump 1 (new_manager [])" by (simp add: tm_inv_def new_manager_def)
  then have inv: "tm_inv parse dump (1 + length ops) tm"
    unfolding assms(3) using assms(1,2) by (intro tm_run_inv) auto
  have n: "1 + length ops < 2 ^ 63" using assms(2) by simp
  show ?thesis using load_restores(1,3) [OF inv n] inv by (force simp: tm_inv_def sorted_ids)
qed

definition demo_dump :: "json \<Rightarrow> string" where
  "demo_dump j = (if is_object j then ''{}'' else ''null'')"

definition demo_parse :: "string \<Rightarrow> string + json" where
  "demo_parse s = (if s = ''{}'' then Inr (JObj Map.empty) else Inl ''parse error'')"

definition demo_ops :: "tm_op list" where
  "demo_ops = [AddTask ''t0'' ''build'' 0 (JObj Map.empty), SetRunning ''t1'' 1,
               AddTask ''t2'' ''test'' 0 (JObj Map.empty), SetFinished ''t3'' 1 False 2 ''out'' ''err'']"

theorem task_manager_restart_witness:
  "let tm = fold (tm_exec demo_dump) demo_ops (new_manager []);
       tm' = load_from_db demo_parse StepDone (new_manager (tasks_table tm))
   in map task_name (m_tasks tm') = [''build'', ''test''] \<and> map task_status (m_tasks tm') = [TFailed, TPending]
      \<and> m_next_id tm' \<notin> task_id ` set (m_tasks tm')"
proof -
  define tm where "tm = fold (tm_exec demo_dump) demo_ops (new_manager [])"
  have ok: "\<forall>op \<in> set demo_ops. op_ok demo_parse demo_dump op"
    by (simp add: demo_ops_def params_ok_def demo_parse_def demo_dump_def no_nul_def int_range_def)
  have l: "length demo_ops < 2 ^ 63 - 1" by (simp add: demo_ops_def)
  note th = task_manager_restart [OF ok l tm_def]
  have "map task_name (m_tasks tm) = [''build'', ''test''] \<and> map task_status (m_tasks tm) = [TFailed, TPending]"
    by (simp add: tm_def demo_ops_def new_manager_def add_task_def set_running_def set_finished_def
        get_task_def poke_def Let_def value_or_JObj)
  then show ?thesis using th unfolding Let_def tm_def [symmetric] by simp
qed

end
