(* ===== verification/Worker_Pool.thy ===== *)
theory Worker_Pool
  imports Task_Manager Job_Queue Task_Runner
begin

text \<open>
  \<^verbatim>\<open>core/worker_pool.cpp\<close> and \<^verbatim>\<open>utils/utils_exec.cpp\<close>: the pool that runs the shell commands of tasks.  What a
  worker does with one task is a function over the task manager and an abstract world: the command,
  the clock, sleeping, the outcome of database statements and whether another thread has raised the
  task's cancel flag by then (\<open>wx_cancel\<close>; the flag itself is the one in the task object).  Runs,
  broadcasts and pauses are recorded in order.
\<close>

subsection \<open>Commands\<close>

record ExecResult =
  r_exit_code :: int
  r_output :: string
  r_error :: string
  r_timed_out :: bool

text \<open>\<open>rc\<close> is \<^verbatim>\<open>utils::run_command\<close> (\<open>Inl\<close> the text of its exception), \<open>in_time\<close> whether the future was ready.\<close>

definition run_with_timeout :: "(string \<Rightarrow> string + int \<times> string) \<Rightarrow> bool \<Rightarrow> string \<Rightarrow> int \<Rightarrow> ExecResult" where
  "run_with_timeout rc in_time cmd tmo =
     (if 0 < tmo \<and> \<not> in_time then
        \<lparr>r_exit_code = -1, r_output = [],
         r_error = ''Task timeout after '' @ to_string_int tmo @ '' seconds'', r_timed_out = True\<rparr>
      else
        (case rc cmd of
           Inl what \<Rightarrow> \<lparr>r_exit_code = -1, r_output = [], r_error = what, r_timed_out = False\<rparr>
         | Inr (code, out) \<Rightarrow> \<lparr>r_exit_code = code, r_output = out, r_error = [], r_timed_out = False\<rparr>))"

subsection \<open>One task\<close>

record 'w pool_env =
  wx_now :: "'w \<Rightarrow> string"
  wx_run :: "'w \<Rightarrow> string \<Rightarrow> string + int \<times> string"
  wx_in_time :: "'w \<Rightarrow> string \<Rightarrow> int \<Rightarrow> bool"
  wx_after_run :: "'w \<Rightarrow> 'w"
  wx_sleep :: "int \<Rightarrow> 'w \<Rightarrow> 'w"
  wx_cancel :: "'w \<Rightarrow> bool"
  wx_db :: "'w \<Rightarrow> db_outcome"

datatype pool_event = Ran ExecResult | Broadcast json | Pause int

text \<open>Reading \<^verbatim>\<open>task->cancel_flag\<close>: what another thread has written is in the object.\<close>

definition refresh :: "('w, 'z) pool_env_scheme \<Rightarrow> 64 word \<Rightarrow> 'w \<Rightarrow> TaskManager \<Rightarrow> TaskManager" where
  "refresh E i w tm = poke i (\<lambda>t. t\<lparr>cancel_flag := cancel_flag t \<or> wx_cancel E w\<rparr>) tm"

definition flagged :: "64 word \<Rightarrow> TaskManager \<Rightarrow> bool" where
  "flagged i tm = (case get_task i tm of Some t \<Rightarrow> cancel_flag t | None \<Rightarrow> False)"

definition sync_task :: "(json \<Rightarrow> string) \<Rightarrow> db_outcome \<Rightarrow> 64 word \<Rightarrow> TaskManager \<Rightarrow> TaskManager" where
  "sync_task dump oc i tm = (case get_task i tm of Some t \<Rightarrow> snd (updateTask dump oc t tm) | None \<Rightarrow> tm)"

definition updated_event :: "64 word \<Rightarrow> TaskManager \<Rightarrow> pool_event list" where
  "updated_event i tm =
     (case get_task i tm of Some t \<Rightarrow> [Broadcast (task_event ''task_updated'' t)] | None \<Rightarrow> [])"

text \<open>The loop after \<open>k\<close> failed attempts; \<open>fin\<close> holds the \<^verbatim>\<open>final_*\<close> variables.\<close>

function attempts ::
  "('w, 'z) pool_env_scheme \<Rightarrow> (json \<Rightarrow> string) \<Rightarrow> 64 word \<Rightarrow> string \<Rightarrow> int \<Rightarrow> int \<Rightarrow> nat \<Rightarrow> ExecResult
    \<Rightarrow> TaskManager \<Rightarrow> 'w \<Rightarrow> bool \<times> ExecResult \<times> TaskManager \<times> pool_event list \<times> 'w" where
  "attempts E dump i cmd tmo mr k fin tm w =
     (let tm1 = refresh E i w tm
      in if flagged i tm1 then (True, fin, tm1, [], w)
         else
           (let r = run_with_timeout (wx_run E w) (wx_in_time E w cmd tmo) cmd tmo;
                w1 = wx_after_run E w
            in if r_timed_out r \<or> r_exit_code r = 0 then (False, r, tm1, [Ran r], w1)
               else
                 (let tm2 = poke i (\<lambda>t. t\<lparr>retry_count := int k + 1\<rparr>) tm1;
                      tm3 = sync_task dump (wx_db E w1) i tm2;
                      ev = Ran r # updated_event i tm3
                  in if mr < int k + 1 then (False, r, tm3, ev, w1)
                     else
                       (let d = shl_one k in
                        case attempts E dump i cmd tmo mr (Suc k) r tm3 (wx_sleep E d w1) of
                          (c, fin', tm', ev', w') \<Rightarrow> (c, fin', tm', ev @ Pause d # ev', w')))))"
  by pat_completeness auto
termination
  by (relation "measure (\<lambda>(E, dump, i, cmd, tmo, mr, k, fin, tm, w). nat (mr + 1 - int k))") auto

declare attempts.simps [simp del]

definition final_status :: "bool \<Rightarrow> ExecResult \<Rightarrow> TStatus" where
  "final_status canceled fin =
     (if canceled then TCanceled else if r_timed_out fin then TTimeout
      else if r_exit_code fin = 0 then TSuccess else TFailed)"

text \<open>The result says whether the task was counted as running and finished.\<close>

definition execute_one_task ::
  "('w, 'z) pool_env_scheme \<Rightarrow> (json \<Rightarrow> string) \<Rightarrow> 64 word \<Rightarrow> TaskManager \<Rightarrow> 'w
    \<Rightarrow> bool \<times> TaskManager \<times> pool_event list \<times> 'w" where
  "execute_one_task E dump i tm w =
     (let tm0 = refresh E i w tm
      in if flagged i tm0 then
           (let tm1 = poke i (\<lambda>t. t\<lparr>task_status := TCanceled, update_time := wx_now E w\<rparr>) tm0;
                tm2 = sync_task dump (wx_db E w) i tm1
            in (False, tm2, updated_event i tm2, w))
         else
           (let tm1 = poke i (\<lambda>t. t\<lparr>task_status := TRunning, update_time := wx_now E w\<rparr>) tm0;
                tm2 = snd (set_running (wx_now E w) (wx_db E w) i tm1);
                (cmd, tmo, mr) = (case get_task i tm2 of
                    Some t \<Rightarrow> (case member ''cmd'' (task_params t) of Some (JStr s) \<Rightarrow> s | _ \<Rightarrow> [],
                               timeout_sec t, max_retries t)
                  | None \<Rightarrow> ([], 0, 0))
            in case attempts E dump i cmd tmo mr 0
                      \<lparr>r_exit_code = 0, r_output = [], r_error = [], r_timed_out = False\<rparr> tm2 w of
                 (c, fin, tm3, ev, w') \<Rightarrow>
                   (let tm4 = refresh E i w' tm3;
                        st = final_status (c \<or> flagged i tm4) fin;
                        tm5 = poke i (\<lambda>t. t\<lparr>exit_code := r_exit_code fin, last_output := r_output fin,
                                            last_error := r_error fin, task_status := st,
                                            update_time := wx_now E w'\<rparr>) tm4;
                        tm6 = sync_task dump (wx_db E w') i tm5
                    in (True, tm6, updated_event i tm2 @ ev @ updated_event i tm6, w'))))"

subsection \<open>The pool\<close>

record WorkerPool =
  wp_queue :: "(64 word) BlockingQueue"
  wp_workers :: nat
  wp_stopping :: bool
  total_submitted :: nat
  total_finished :: nat
  current_running :: nat

record PoolStats =
  st_workers :: nat
  st_queued :: nat
  st_running :: nat
  st_submitted :: nat
  st_finished :: nat

definition pool_new :: WorkerPool where
  "pool_new = \<lparr>wp_queue = bq_empty, wp_workers = 0, wp_stopping = False, total_submitted = 0,
               total_finished = 0, current_running = 0\<rparr>"

definition wp_start :: "nat \<Rightarrow> WorkerPool \<Rightarrow> WorkerPool" where
  "wp_start n p = (if wp_workers p \<noteq> 0 then p else p\<lparr>wp_stopping := False, wp_workers := n\<rparr>)"

definition wp_submit :: "64 word \<Rightarrow> WorkerPool \<Rightarrow> WorkerPool" where
  "wp_submit i p = p\<lparr>total_submitted := total_submitted p + 1, wp_queue := bq_push i (wp_queue p)\<rparr>"

text \<open>The overload that takes an \<^verbatim>\<open>int\<close>, converted to the 64-bit id.\<close>

definition wp_submit_id :: "TaskManager \<Rightarrow> int \<Rightarrow> WorkerPool \<Rightarrow> WorkerPool" where
  "wp_submit_id tm n p =
     (case get_task_ptr (word_of_int n) tm of None \<Rightarrow> p | Some i \<Rightarrow> wp_submit i p)"

text \<open>\<^verbatim>\<open>stop\<close> once the workers have been joined; a second call returns at once.\<close>

definition wp_stop :: "WorkerPool \<Rightarrow> WorkerPool" where
  "wp_stop p =
     (if wp_stopping p then p
      else p\<lparr>wp_stopping := True, wp_queue := bq_shutdown (wp_queue p), wp_workers := 0\<rparr>)"

definition wp_stats :: "WorkerPool \<Rightarrow> PoolStats" where
  "wp_stats p =
     \<lparr>st_workers = wp_workers p, st_queued = bq_size (wp_queue p), st_running = current_running p,
      st_submitted = total_submitted p, st_finished = total_finished p\<rparr>"

text \<open>One turn of \<^verbatim>\<open>worker_loop\<close>: \<open>None\<close> when the worker leaves its loop or still waits for a task.\<close>

datatype turn = Leaves | Waits | Took "64 word"

definition worker_turn :: "WorkerPool \<Rightarrow> turn \<times> WorkerPool" where
  "worker_turn p =
     (if wp_stopping p then (Leaves, p)
      else case bq_pop (wp_queue p) of
             (PopBlocked, q) \<Rightarrow> (Waits, p)
           | (PopClosed, q) \<Rightarrow> (Leaves, p)
           | (PopValue i, q) \<Rightarrow> (Took i, p\<lparr>wp_queue := q\<rparr>))"

definition count_begin :: "WorkerPool \<Rightarrow> WorkerPool" where
  "count_begin p = p\<lparr>current_running := current_running p + 1\<rparr>"

definition count_end :: "WorkerPool \<Rightarrow> WorkerPool" where
  "count_end p = p\<lparr>total_finished := total_finished p + 1, current_running := current_running p - 1\<rparr>"

subsection \<open>What happens to one task\<close>

fun runs :: "pool_event list \<Rightarrow> ExecResult list" where
  "runs [] = []"
| "runs (Ran r # ev) = r # runs ev"
| "runs (Broadcast j # ev) = runs ev"
| "runs (Pause d # ev) = runs ev"

lemma runs_append [simp]: "runs (a @ b) = runs a @ runs b"
  by (induction a rule: runs.induct) auto

lemma runs_updated [simp]: "runs (updated_event i tm) = []"
  by (simp add: updated_event_def split: option.split)

lemma find_upd_first:
  "(\<And>t. task_id (f t) = task_id t) \<Longrightarrow>
   find (\<lambda>t. task_id t = i) (upd_first i f ts) = map_option f (find (\<lambda>t. task_id t = i) ts)"
  by (induction ts) auto

lemma get_task_poke [simp]:
  "(\<And>t. task_id (f t) = task_id t) \<Longrightarrow> get_task i (poke i f tm) = map_option f (get_task i tm)"
  by (simp add: get_task_def poke_def find_upd_first)

lemma get_task_table [simp]: "get_task i (tm\<lparr>tasks_table := rows\<rparr>) = get_task i tm"
  by (simp add: get_task_def)

lemma get_task_id: "get_task i tm = Some t \<Longrightarrow> task_id t = i"
  by (auto simp: get_task_def find_Some_iff)

lemma upd_first_same: "find (\<lambda>t. task_id t = i) ts = Some t \<Longrightarrow> upd_first i (\<lambda>_. t) ts = ts"
  by (induction ts) auto

lemma poke_same: "get_task i tm = Some t \<Longrightarrow> poke i (\<lambda>_. t) tm = tm"
  by (simp add: poke_def get_task_def upd_first_same)

lemma sync_task_Some:
  assumes "get_task i tm = Some t"
  shows "sync_task dump oc i tm = tm\<lparr>tasks_table := db_update oc i (\<lambda>_. row_of dump t) (tasks_table tm)\<rparr>"
  using assms by (simp add: sync_task_def updateTask_def get_task_id [OF assms] poke_same [OF assms] Let_def)

lemma get_task_sync [simp]: "get_task j (sync_task dump oc i tm) = get_task j tm"
  by (cases "get_task i tm") (simp_all add: sync_task_Some, simp add: sync_task_def)

lemma get_task_set_running:
  "get_task i (snd (set_running now oc i tm)) =
     map_option (\<lambda>t. t\<lparr>task_status := TRunning, update_time := now\<rparr>) (get_task i tm)"
  by (simp add: set_running_def Let_def)

lemma get_task_refresh [simp]:
  "get_task i (refresh E i w tm) = map_option (\<lambda>t. t\<lparr>cancel_flag := cancel_flag t \<or> wx_cancel E w\<rparr>) (get_task i tm)"
  by (simp add: refresh_def)

abbreviation run_failed :: "ExecResult \<Rightarrow> bool" where
  "run_failed r \<equiv> \<not> r_timed_out r \<and> r_exit_code r \<noteq> 0"

lemma attempts_outcome:
  assumes "attempts E dump i cmd tmo mr k fin tm w = (c, fin', tm', ev, w')"
    and "get_task i tm = Some t" and "int k \<le> max 0 mr"
  shows "\<exists>t'. get_task i tm' = Some t' \<and> (c \<longrightarrow> cancel_flag t')
    \<and> fin' = last (fin # runs ev) \<and> (\<not> c \<longrightarrow> runs ev \<noteq> [])
    \<and> (\<forall>r \<in> set (butlast (runs ev)). run_failed r) \<and> (c \<longrightarrow> (\<forall>r \<in> set (runs ev). run_failed r))
    \<and> int (length (runs ev)) \<le> max 0 mr + 1 - int k
    \<and> (\<not> c \<and> run_failed fin' \<longrightarrow> int (length (runs ev)) = max 0 mr + 1 - int k)"
  using assms
proof (induction E dump i cmd tmo mr k fin tm w arbitrary: c fin' tm' ev w' t rule: attempts.induct)
  case (1 E dump i cmd tmo mr k fin tm w)
  define tm1 where "tm1 = refresh E i w tm"
  define r where "r = run_with_timeout (wx_run E w) (wx_in_time E w cmd tmo) cmd tmo"
  define w1 where "w1 = wx_after_run E w"
  define tm3 where "tm3 = sync_task dump (wx_db E w1) i (poke i (\<lambda>t. t\<lparr>retry_count := int k + 1\<rparr>) tm1)"
  note defs = tm1_def r_def w1_def tm3_def
  have g1: "get_task i tm1 = Some (t\<lparr>cancel_flag := cancel_flag t \<or> wx_cancel E w\<rparr>)"
    using "1.prems"(2) by (simp add: tm1_def)
  then have g3: "get_task i tm3 = Some (t\<lparr>cancel_flag := cancel_flag t \<or> wx_cancel E w, retry_count := int k + 1\<rparr>)"
    by (simp add: tm3_def)
  note eq = "1.prems"(1) [unfolded attempts.simps [of E dump i cmd tmo mr k] Let_def, folded defs]
  consider "flagged i tm1" | "\<not> flagged i tm1" "\<not> run_failed r" | "\<not> flagged i tm1" "run_failed r" by blast
  then show ?case
  proof cases
    case 1
    then show ?thesis using eq g1 "1.prems"(3) by (auto simp: flagged_def)
  next
    case 2
    then show ?thesis using eq g1 "1.prems"(3) by auto
  next
    case 3
    show ?thesis
    proof (cases "mr < int k + 1")
      case True
      then show ?thesis using eq g1 g3 3 "1.prems"(3) by auto
    next
      case False
      obtain c2 f2 m2 e2 x2
        where rec: "attempts E dump i cmd tmo mr (Suc k) r tm3 (wx_sleep E (shl_one k) w1) = (c2, f2, m2, e2, x2)"
        using prod_cases5 by blast
      have out: "c = c2" "fin' = f2" "tm' = m2" "ev = (Ran r # updated_event i tm3) @ Pause (shl_one k) # e2"
        using eq 3 False rec by (auto simp: tm3_def)
      have "int (Suc k) \<le> max 0 mr" using False by simp
      from "1.IH" [OF tm1_def 3(1) r_def w1_def _ refl tm3_def refl False refl rec g3 this] 3
      show ?thesis unfolding out by (auto split: if_splits)
    qed
  qed
qed

lemma sync_row:
  assumes "get_task i tm = Some t" and "r \<in> set (tasks_table (sync_task dump StepDone i tm))" and "row_id r = i"
  shows "r = row_of dump t"
  using assms(2,3) unfolding sync_task_Some [OF assms(1)] by (auto simp: db_update_def split: if_splits)

text \<open>A worker brings a task to an end that tells what happened: the command runs at most
  \<open>max_retries + 1\<close> times, each run but the last having failed; the task is left canceled only if its flag
  is up, timed out only if the last run did, successful only if the last run exited with 0 and the flag is
  down, and failed only after \<open>max_retries + 1\<close> failed runs; it holds the exit code and output of the last
  run, and if the database works its row says the same as the object in memory.\<close>

theorem execute_one_task_outcome:
  assumes t0: "get_task i tm = Some t0" and ex: "execute_one_task E dump i tm w = (counted, tm', ev, w')"
  shows "\<exists>t. get_task i tm' = Some t
    \<and> int (length (runs ev)) \<le> max 0 (max_retries t0) + 1
    \<and> (\<forall>r \<in> set (butlast (runs ev)). run_failed r)
    \<and> (case task_status t of
          TCanceled \<Rightarrow> cancel_flag t
        | TTimeout \<Rightarrow> runs ev \<noteq> [] \<and> r_timed_out (last (runs ev)) \<and> \<not> cancel_flag t
        | TSuccess \<Rightarrow> runs ev \<noteq> [] \<and> r_exit_code (last (runs ev)) = 0 \<and> \<not> cancel_flag t
        | TFailed \<Rightarrow> int (length (runs ev)) = max 0 (max_retries t0) + 1 \<and> (\<forall>r \<in> set (runs ev). run_failed r)
            \<and> \<not> cancel_flag t
        | _ \<Rightarrow> False)
    \<and> (runs ev \<noteq> [] \<longrightarrow> exit_code t = r_exit_code (last (runs ev)) \<and> last_output t = r_output (last (runs ev)))
    \<and> ((\<forall>v. wx_db E v = StepDone) \<longrightarrow> (\<forall>r \<in> set (tasks_table tm'). row_id r = i \<longrightarrow> r = row_of dump t))"
proof (cases "flagged i (refresh E i w tm)")
  case True
  define tm1 where "tm1 = poke i (\<lambda>t. t\<lparr>task_status := TCanceled, update_time := wx_now E w\<rparr>) (refresh E i w tm)"
  define t where "t = t0\<lparr>cancel_flag := True, task_status := TCanceled, update_time := wx_now E w\<rparr>"
  have g: "get_task i tm1 = Some t" using t0 True by (simp add: tm1_def t_def flagged_def)
  have "tm' = sync_task dump (wx_db E w) i tm1" "runs ev = []"
    using ex True by (auto simp: execute_one_task_def Let_def tm1_def)
  then show ?thesis using g sync_row [OF g] by (intro exI [of _ t]) (auto simp: t_def)
next
  case False
  define tm2 where "tm2 = snd (set_running (wx_now E w) (wx_db E w) i
      (poke i (\<lambda>t. t\<lparr>task_status := TRunning, update_time := wx_now E w\<rparr>) (refresh E i w tm)))"
  define t2 where "t2 = t0\<lparr>cancel_flag := False, task_status := TRunning, update_time := wx_now E w\<rparr>"
  define cmd where "cmd = (case member ''cmd'' (task_params t2) of Some (JStr s) \<Rightarrow> s | _ \<Rightarrow> [])"
  define f0 where "f0 = \<lparr>r_exit_code = 0, r_output = [], r_error = [], r_timed_out = False\<rparr>"
  have g2: "get_task i tm2 = Some t2"
    using t0 False by (simp add: tm2_def t2_def flagged_def get_task_set_running)
  obtain c fin tm3 ev1 w1
    where a: "attempts E dump i cmd (timeout_sec t2) (max_retries t2) 0 f0 tm2 w = (c, fin, tm3, ev1, w1)"
    using prod_cases5 by blast
  have mr: "max_retries t2 = max_retries t0" by (simp add: t2_def)
  obtain t3 where t3: "get_task i tm3 = Some t3" and c: "c \<longrightarrow> cancel_flag t3"
    and fin: "fin = last (f0 # runs ev1)" and some: "\<not> c \<longrightarrow> runs ev1 \<noteq> []"
    and bl: "\<forall>r \<in> set (butlast (runs ev1)). run_failed r"
    and len: "int (length (runs ev1)) \<le> max 0 (max_retries t0) + 1"
    and full: "\<not> c \<and> run_failed fin \<longrightarrow> int (length (runs ev1)) = max 0 (max_retries t0) + 1"
    using attempts_outcome [OF a g2] unfolding mr by auto
  define st where "st = final_status (c \<or> flagged i (refresh E i w1 tm3)) fin"
  define tm5 where "tm5 = poke i (\<lambda>t. t\<lparr>exit_code := r_exit_code fin, last_output := r_output fin,
      last_error := r_error fin, task_status := st, update_time := wx_now E w1\<rparr>) (refresh E i w1 tm3)"
  define t where "t = t3\<lparr>cancel_flag := cancel_flag t3 \<or> wx_cancel E w1, exit_code := r_exit_code fin,
      last_output := r_output fin, last_error := r_error fin, task_status := st, update_time := wx_now E w1\<rparr>"
  have g5: "get_task i tm5 = Some t" using t3 by (simp add: tm5_def t_def)
  have out: "tm' = sync_task dump (wx_db E w1) i tm5" "runs ev = runs ev1"
    using ex False a g2 unfolding execute_one_task_def Let_def tm2_def [symmetric] f0_def [symmetric]
    by (auto simp: cmd_def [symmetric] tm5_def st_def)
  have fl: "flagged i (refresh E i w1 tm3) = cancel_flag t" using t3 by (simp add: flagged_def t_def)
  have all: "runs ev1 \<noteq> [] \<Longrightarrow> run_failed (last (runs ev1)) \<Longrightarrow> \<forall>r \<in> set (runs ev1). run_failed r"
    using bl append_butlast_last_id [of "runs ev1"] by (metis UnE empty_iff empty_set list.simps(15) insertE set_append)
  have "case st of
          TCanceled \<Rightarrow> cancel_flag t
        | TTimeout \<Rightarrow> runs ev1 \<noteq> [] \<and> r_timed_out (last (runs ev1)) \<and> \<not> cancel_flag t
        | TSuccess \<Rightarrow> runs ev1 \<noteq> [] \<and> r_exit_code (last (runs ev1)) = 0 \<and> \<not> cancel_flag t
        | TFailed \<Rightarrow> int (length (runs ev1)) = max 0 (max_retries t0) + 1 \<and> (\<forall>r \<in> set (runs ev1). run_failed r)
            \<and> \<not> cancel_flag t
        | _ \<Rightarrow> False"
  proof (cases "c \<or> cancel_flag t")
    case True
    moreover have "cancel_flag t" using True c by (auto simp: t_def)
    ultimately show ?thesis by (simp add: st_def fl final_status_def)
  next
    case False
    then have "runs ev1 \<noteq> []" "fin = last (runs ev1)" using some fin by auto
    note last = this
    have st: "st = (if r_timed_out fin then TTimeout else if r_exit_code fin = 0 then TSuccess else TFailed)"
      using False by (simp add: st_def fl final_status_def)
    show ?thesis
    proof (cases "run_failed fin")
      case True
      then have "run_failed (last (runs ev1))" using last(2) by simp
      then have "\<forall>r \<in> set (runs ev1). run_failed r" by (rule all [OF last(1)])
      moreover have "int (length (runs ev1)) = max 0 (max_retries t0) + 1" using full True \<open>\<not> (c \<or> cancel_flag t)\<close> by blast
      moreover have "st = TFailed" using st True by simp
      ultimately show ?thesis using \<open>\<not> (c \<or> cancel_flag t)\<close> by simp
    next
      case fails: False
      then show ?thesis using st last False by auto
    qed
  qed
  moreover have "\<forall>r \<in> set (tasks_table tm'). row_id r = i \<longrightarrow> r = row_of dump t" if "\<forall>v. wx_db E v = StepDone"
    using sync_row [OF g5] that unfolding out(1) by simp
  moreover have "get_task i tm' = Some t" unfolding out(1) using g5 by simp
  moreover have "task_status t = st" "exit_code t = r_exit_code fin" "last_output t = r_output fin"
    by (simp_all add: t_def)
  ultimately show ?thesis
    using bl len fin unfolding out(2) by (intro exI [of _ t]) auto
qed

definition demo_pool_env :: "nat pool_env" where
  "demo_pool_env =
     \<lparr>wx_now = (\<lambda>w. ''now''), wx_run = (\<lambda>w cmd. Inr (if w = 0 then 1 else 0, ''out'')),
      wx_in_time = (\<lambda>w cmd t. True), wx_after_run = Suc, wx_sleep = (\<lambda>d w. w), wx_cancel = (\<lambda>w. False),
      wx_db = (\<lambda>w. StepDone)\<rparr>"

definition demo_manager :: TaskManager where
  "demo_manager = snd (add_task demo_dump ''t0'' StepDone ''build'' 0 (JObj [''max_retries'' \<mapsto> JInt 1]) (new_manager []))"

theorem execute_one_task_outcome_witness:
  "\<exists>t0 t counted tm' ev w'. get_task 1 demo_manager = Some t0 \<and> max_retries t0 = 1
    \<and> execute_one_task demo_pool_env demo_dump 1 demo_manager 0 = (counted, tm', ev, w')
    \<and> get_task 1 tm' = Some t \<and> length (runs ev) \<le> 2
    \<and> (\<forall>r \<in> set (tasks_table tm'). row_id r = 1 \<longrightarrow> r = row_of demo_dump t)"
proof -
  have "get_int (JInt 1) = Inr 1" by (rule get_int_JInt) (simp add: int_range_def)
  then obtain t0 where t0: "get_task 1 demo_manager = Some t0" "max_retries t0 = 1"
    by (simp add: demo_manager_def add_task_def new_manager_def get_task_def Let_def value_or_JObj)
  obtain counted tm' ev w' where ex: "execute_one_task demo_pool_env demo_dump 1 demo_manager 0 = (counted, tm', ev, w')"
    using prod_cases4 by blast
  from execute_one_task_outcome [OF t0(1) ex] t0(2)
  obtain t where t: "get_task 1 tm' = Some t" "int (length (runs ev)) \<le> 2"
    "(\<forall>v. wx_db demo_pool_env v = StepDone) \<longrightarrow> (\<forall>r \<in> set (tasks_table tm'). row_id r = 1 \<longrightarrow> r = row_of demo_dump t)"
    by auto
  have "\<forall>v. wx_db demo_pool_env v = StepDone" by (simp add: demo_pool_env_def)
  with t t0 ex show ?thesis by auto
qed

text \<open>The stored retry count can be one more than the allowed retries.\<close>

lemma retry_count_overshoots:
  "(case execute_one_task (demo_pool_env\<lparr>wx_run := \<lambda>w cmd. Inr (1, [])\<rparr>) demo_dump 1
          (snd (add_task demo_dump ''t0'' StepDone ''build'' 0 (JObj Map.empty) (new_manager []))) 0 of
      (counted, tm', ev, w') \<Rightarrow> map_option (\<lambda>t. (max_retries t, retry_count t)) (get_task 1 tm')) = Some (0, 1)"
  by code_simp

text \<open>A stopped pool cannot be started again: its queue stays shut, so new workers leave at once and
  submitted tasks are dropped.\<close>

lemma pool_restart_is_dead:
  assumes "\<not> wp_stopping p" and "m_queue (wp_queue p) = []"
  shows "fst (worker_turn (wp_submit i (wp_start n (wp_stop p)))) = Leaves"
  using assms by (simp add: wp_stop_def wp_start_def wp_submit_def worker_turn_def bq_push_def bq_shutdown_def bq_pop_def)

end
