(* ===== verification/Cron_Parser.thy ===== *)
theory Cron_Parser
  imports Prelude
begin

text \<open>
  \<^verbatim>\<open>scheduler/cron_parser.cpp\<close>: parsing of cron expressions and the search for the next time that
  matches one.  Error texts are constructors of \<open>cron_error\<close>; \<open>Overflow\<close> stands for a signed
  overflow, which C++ leaves undefined.  A time point is a number of nanoseconds since the epoch.
  The broken-down local time of a time point (\<^verbatim>\<open>localtime_r\<close>) is the argument \<open>lt\<close>; what is used of it
  is that its fields are in the ranges the C standard gives (\<open>tm_ok\<close>).
\<close>

subsection \<open>Parsing\<close>

datatype cron_error =
    WrongFieldCount | EmptyField | EmptyToken | NoValues | EmptyRange | BadStep | StepNotPositive
  | BadRange | RangeOutOfBounds | StoiError cpp_error | NotWithinYear | Overflow

abbreviation bind_cron :: "cron_error + 'a \<Rightarrow> ('a \<Rightarrow> cron_error + 'b) \<Rightarrow> cron_error + 'b" where
  "bind_cron r f \<equiv> (case r of Inl e \<Rightarrow> Inl e | Inr x \<Rightarrow> f x)"

lemma bind_cron_Inr: "bind_cron r f = Inr y \<longleftrightarrow> (\<exists>x. r = Inr x \<and> f x = Inr y)"
  by (cases r) auto

definition stoi_cron :: "string \<Rightarrow> cron_error + int" where
  "stoi_cron s = (case stoi s of Inl e \<Rightarrow> Inl (StoiError e) | Inr n \<Rightarrow> Inr n)"

text \<open>\<^verbatim>\<open>for (int v = v0; v <= range_end; v += step)\<close>.\<close>

function step_values :: "int \<Rightarrow> int \<Rightarrow> int \<Rightarrow> cron_error + int list" where
  "step_values v range_end step =
     (if range_end < v \<or> step \<le> 0 then Inr []
      else if int_max < v + step then Inl Overflow
      else bind_cron (step_values (v + step) range_end step) (\<lambda>vs. Inr (v # vs)))"
  by auto
termination by (relation "measure (\<lambda>(v, range_end, step). nat (range_end + 1 - v))") auto

declare step_values.simps [simp del]

definition parse_step :: "string \<Rightarrow> cron_error + int" where
  "parse_step token =
     (case dropWhile (\<lambda>c. c \<noteq> CHR ''/'') token of
        [] \<Rightarrow> Inr 1
      | _ # rest \<Rightarrow>
          if rest = [] then Inl BadStep
          else bind_cron (stoi_cron rest) (\<lambda>step. if step \<le> 0 then Inl StepNotPositive else Inr step))"

definition parse_bounds :: "string \<Rightarrow> int \<Rightarrow> int \<Rightarrow> cron_error + int \<times> int" where
  "parse_bounds base mn mx =
     (if base = ''*'' then Inr (mn, mx)
      else
        bind_cron
          (case dropWhile (\<lambda>c. c \<noteq> CHR ''-'') base of
             [] \<Rightarrow> bind_cron (stoi_cron base) (\<lambda>n. Inr (n, n))
           | _ # rest \<Rightarrow>
               let left = takeWhile (\<lambda>c. c \<noteq> CHR ''-'') base in
               if left = [] \<or> rest = [] then Inl BadRange
               else bind_cron (stoi_cron left) (\<lambda>a. bind_cron (stoi_cron rest) (\<lambda>b. Inr (a, b))))
          (\<lambda>(a, b). if a < mn \<or> mx < b \<or> b < a then Inl RangeOutOfBounds else Inr (a, b)))"

definition parseRange :: "string \<Rightarrow> int \<Rightarrow> int \<Rightarrow> cron_error + int list" where
  "parseRange token mn mx =
     (if token = [] then Inl EmptyRange
      else
        bind_cron (parse_step token) (\<lambda>step.
        bind_cron (parse_bounds (takeWhile (\<lambda>c. c \<noteq> CHR ''/'') token) mn mx) (\<lambda>(a, b).
          step_values a b step)))"

text \<open>The tokens between commas; a comma at the end is accepted, as in the source.\<close>

function field_values :: "string \<Rightarrow> int \<Rightarrow> int \<Rightarrow> cron_error + int list" where
  "field_values s mn mx =
     (if s = [] then Inr []
      else
        let token = takeWhile (\<lambda>c. c \<noteq> CHR '','') s in
        if token = [] then Inl EmptyToken
        else
          bind_cron (parseRange token mn mx) (\<lambda>vs.
            case dropWhile (\<lambda>c. c \<noteq> CHR '','') s of
              [] \<Rightarrow> Inr vs
            | _ # rest \<Rightarrow> bind_cron (field_values rest mn mx) (\<lambda>ws. Inr (vs @ ws))))"
  by auto
termination
proof (relation "measure (\<lambda>(s, mn, mx). length s)")
  fix s :: string and mn mx :: int and x vs c rest
  assume "dropWhile (\<lambda>c. c \<noteq> CHR '','') s = c # rest"
  then show "((rest, mn, mx), (s, mn, mx)) \<in> measure (\<lambda>(s, mn, mx). length s)"
    using length_dropWhile_le [of "\<lambda>c. c \<noteq> CHR '',''" s] by simp
qed simp

declare field_values.simps [simp del]

text \<open>A table of flags: \<^verbatim>\<open>seen\<close> here and the look-up tables of \<^verbatim>\<open>next\<close>.\<close>

definition mark :: "nat \<Rightarrow> int \<Rightarrow> int list \<Rightarrow> bool list" where
  "mark n mn vs = foldl (\<lambda>t v. t[nat (v - mn) := True]) (replicate n False) vs"

definition parseField :: "string \<Rightarrow> int \<Rightarrow> int \<Rightarrow> cron_error + int list" where
  "parseField field mn mx =
     (if field = [] then Inl EmptyField
      else
        bind_cron (field_values field mn mx) (\<lambda>vs.
          let range = nat (mx - mn + 1);
              seen = mark range mn vs;
              result = map (\<lambda>i. mn + int i) (filter (\<lambda>i. seen ! i) [0..<range])
          in if result = [] then Inl NoValues else Inr result))"

record CronExpr =
  minutes :: "int list"
  hours :: "int list"
  days :: "int list"
  months :: "int list"
  weekdays :: "int list"

fun take_fields :: "nat \<Rightarrow> string \<Rightarrow> string list \<times> string" where
  "take_fields 0 s = ([], s)"
| "take_fields (Suc n) s =
     (let t = dropWhile (\<lambda>c. c = CHR '' '') s in
      if t = [] then ([], [])
      else (case take_fields n (dropWhile (\<lambda>c. c \<noteq> CHR '' '') t) of
              (fs, rest) \<Rightarrow> (takeWhile (\<lambda>c. c \<noteq> CHR '' '') t # fs, rest)))"

definition cron_parse :: "string \<Rightarrow> cron_error + CronExpr" where
  "cron_parse spec =
     (case take_fields 5 spec of
        (fs, rest) \<Rightarrow>
          if length fs \<noteq> 5 \<or> dropWhile (\<lambda>c. c = CHR '' '') rest \<noteq> [] then Inl WrongFieldCount
          else
            bind_cron (parseField (fs ! 0) 0 59) (\<lambda>mi.
            bind_cron (parseField (fs ! 1) 0 23) (\<lambda>ho.
            bind_cron (parseField (fs ! 2) 1 31) (\<lambda>da.
            bind_cron (parseField (fs ! 3) 1 12) (\<lambda>mo.
            bind_cron (parseField (fs ! 4) 0 6) (\<lambda>wd.
              Inr \<lparr>minutes = mi, hours = ho, days = da, months = mo, weekdays = wd\<rparr>))))))"

subsection \<open>The next time\<close>

record tm =
  tm_min :: int
  tm_hour :: int
  tm_mday :: int
  tm_mon :: int
  tm_wday :: int

abbreviation ns_per_minute :: int where "ns_per_minute \<equiv> 60000000000"

abbreviation max_checks :: nat where "max_checks \<equiv> 365 * 24 * 60"

text \<open>\<^verbatim>\<open>time_point_cast\<close> to minutes truncates towards zero.\<close>

definition trunc_minute :: "int \<Rightarrow> int" where
  "trunc_minute t = (if t < 0 then - (- t div ns_per_minute) else t div ns_per_minute) * ns_per_minute"

definition matches_lookup :: "CronExpr \<Rightarrow> tm \<Rightarrow> bool" where
  "matches_lookup e t \<longleftrightarrow>
     mark 13 0 (months e) ! nat (tm_mon t + 1) \<and> mark 32 0 (days e) ! nat (tm_mday t)
   \<and> mark 7 0 (weekdays e) ! nat (tm_wday t) \<and> mark 24 0 (hours e) ! nat (tm_hour t)
   \<and> mark 60 0 (minutes e) ! nat (tm_min t)"

fun search :: "CronExpr \<Rightarrow> (int \<Rightarrow> tm) \<Rightarrow> nat \<Rightarrow> int \<Rightarrow> cron_error + int" where
  "search e lt 0 candidate = Inl NotWithinYear"
| "search e lt (Suc n) candidate =
     (if matches_lookup e (lt candidate) then Inr candidate
      else search e lt n (candidate + ns_per_minute))"

definition cron_next :: "CronExpr \<Rightarrow> (int \<Rightarrow> tm) \<Rightarrow> int \<Rightarrow> cron_error + int" where
  "cron_next e lt now = search e lt max_checks (trunc_minute now + ns_per_minute)"

subsection \<open>What a field denotes\<close>

text \<open>The values of a range with a step, as a set.\<close>

definition step_set :: "int \<Rightarrow> int \<Rightarrow> int \<Rightarrow> int set" where
  "step_set a b step = {v. a \<le> v \<and> v \<le> b \<and> step dvd (v - a)}"

lemma step_values_set:
  assumes "step_values v b step = Inr vs" and "0 < step"
  shows "set vs = step_set v b step"
  using assms
proof (induction v b step arbitrary: vs rule: step_values.induct)
  case (1 v b step)
  show ?case
  proof (cases "b < v")
    case True
    then show ?thesis using "1.prems" by (auto simp: step_values.simps [of v] step_set_def)
  next
    case False
    then obtain ws where ws: "vs = v # ws" "step_values (v + step) b step = Inr ws"
      using "1.prems" by (auto simp: step_values.simps [of v] split: if_splits sum.splits)
    have key: "step dvd (x - v) \<and> v < x \<longleftrightarrow> step dvd (x - (v + step)) \<and> v + step \<le> x" for x
    proof -
      have "x - v = (x - (v + step)) + step" by simp
      then have d: "step dvd (x - (v + step)) \<longleftrightarrow> step dvd (x - v)"
        by (metis dvd_add_left_iff dvd_refl)
      show ?thesis using d "1.prems"(2) zdvd_imp_le [of step "x - v"] by auto
    qed
    have "x \<in> step_set v b step \<longleftrightarrow> x = v \<or> x \<in> step_set (v + step) b step" for x
    proof (cases "x = v")
      case True
      then show ?thesis using False by (simp add: step_set_def)
    next
      case ne: False
      then show ?thesis unfolding step_set_def mem_Collect_eq using key [of x] by (metis order_le_less)
    qed
    then have "step_set v b step = insert v (step_set (v + step) b step)" by blast
    moreover have "set ws = step_set (v + step) b step"
      using "1.IH" False ws "1.prems" by (auto simp: step_values.simps [of v] split: if_splits)
    ultimately show ?thesis using ws by simp
  qed
qed

lemma parse_bounds_in: "parse_bounds base mn mx = Inr (a, b) \<Longrightarrow> mn \<le> mx \<Longrightarrow> mn \<le> a \<and> a \<le> b \<and> b \<le> mx"
  by (auto simp: parse_bounds_def split: if_splits sum.splits)

lemma parse_step_pos: "parse_step token = Inr step \<Longrightarrow> 0 < step"
  by (auto simp: parse_step_def split: if_splits sum.splits list.splits)

lemma parseRange_set:
  assumes "parseRange token mn mx = Inr vs" and "mn \<le> mx"
  obtains a b step where "parse_step token = Inr step" "parse_bounds (takeWhile (\<lambda>c. c \<noteq> CHR ''/'') token) mn mx = Inr (a, b)"
    "0 < step" "mn \<le> a" "a \<le> b" "b \<le> mx" "set vs = step_set a b step"
proof -
  obtain step a b where s: "parse_step token = Inr step"
    "parse_bounds (takeWhile (\<lambda>c. c \<noteq> CHR ''/'') token) mn mx = Inr (a, b)" "step_values a b step = Inr vs"
    using assms(1) by (auto simp: parseRange_def split: if_splits sum.splits)
  with that parse_step_pos [OF s(1)] parse_bounds_in [OF s(2) assms(2)] step_values_set [OF s(3)]
  show thesis by blast
qed

text \<open>The values a field denotes: what its tokens denote, together.\<close>

function field_set :: "string \<Rightarrow> int \<Rightarrow> int \<Rightarrow> int set" where
  "field_set s mn mx =
     (if s = [] then {}
      else
        let token = takeWhile (\<lambda>c. c \<noteq> CHR '','') s in
        (case (parse_step token, parse_bounds (takeWhile (\<lambda>c. c \<noteq> CHR ''/'') token) mn mx) of
           (Inr step, Inr (a, b)) \<Rightarrow> step_set a b step
         | _ \<Rightarrow> {})
        \<union> (case dropWhile (\<lambda>c. c \<noteq> CHR '','') s of [] \<Rightarrow> {} | _ # rest \<Rightarrow> field_set rest mn mx))"
  by auto
termination
proof (relation "measure (\<lambda>(s, mn, mx). length s)")
  fix s :: string and mn mx :: int and x c rest
  assume "dropWhile (\<lambda>c. c \<noteq> CHR '','') s = c # rest"
  then show "((rest, mn, mx), (s, mn, mx)) \<in> measure (\<lambda>(s, mn, mx). length s)"
    using length_dropWhile_le [of "\<lambda>c. c \<noteq> CHR '',''" s] by simp
qed simp

declare field_set.simps [simp del]

lemma field_values_set:
  assumes "field_values s mn mx = Inr vs" and "mn \<le> mx"
  shows "set vs = field_set s mn mx \<and> set vs \<subseteq> {mn..mx}"
  using assms
proof (induction s mn mx arbitrary: vs rule: field_values.induct)
  case (1 s mn mx)
  show ?case
  proof (cases "s = []")
    case True
    then show ?thesis using "1.prems" by (simp add: field_values.simps [of "[]"] field_set.simps [of "[]"])
  next
    case False
    let ?tok = "takeWhile (\<lambda>c. c \<noteq> CHR '','') s"
    obtain us where us: "parseRange ?tok mn mx = Inr us" "?tok \<noteq> []"
      using "1.prems" False by (auto simp: field_values.simps [of s] Let_def split: if_splits sum.splits)
    from parseRange_set [OF us(1) "1.prems"(2)] obtain a b step where t: "parse_step ?tok = Inr step"
      "parse_bounds (takeWhile (\<lambda>c. c \<noteq> CHR ''/'') ?tok) mn mx = Inr (a, b)"
      "mn \<le> a" "b \<le> mx" "set us = step_set a b step" by metis
    have sub: "step_set a b step \<subseteq> {mn..mx}" using t by (auto simp: step_set_def)
    show ?thesis
    proof (cases "dropWhile (\<lambda>c. c \<noteq> CHR '','') s")
      case Nil
      have "field_values s mn mx = Inr us"
        by (subst field_values.simps) (simp add: Let_def False us Nil del: dropWhile_eq_Nil_conv takeWhile_eq_Nil_iff)
      moreover have "field_set s mn mx = step_set a b step"
        by (subst field_set.simps) (simp add: Let_def False t(1,2) Nil del: dropWhile_eq_Nil_conv takeWhile_eq_Nil_iff)
      ultimately show ?thesis using "1.prems"(1) t sub by simp
    next
      case (Cons c rest)
      obtain ws where ws: "field_values rest mn mx = Inr ws" "vs = us @ ws"
        using False "1.prems" us Cons by (auto simp: field_values.simps [of s] Let_def split: sum.splits)
      have "set ws = field_set rest mn mx \<and> set ws \<subseteq> {mn..mx}"
        using "1.IH" [OF False refl us(2,1) Cons ws(1) "1.prems"(2)] .
      moreover have "field_set s mn mx = step_set a b step \<union> field_set rest mn mx"
        by (subst field_set.simps) (simp add: Let_def False t(1,2) Cons)
      ultimately show ?thesis using t(5) sub ws(2) by auto
    qed
  qed
qed

lemma mark_nth:
  assumes "set vs \<subseteq> {mn..<mn + int n}" and "i < n"
  shows "mark n mn vs ! i \<longleftrightarrow> mn + int i \<in> set vs"
proof -
  have "length t = n \<Longrightarrow> set vs \<subseteq> {mn..<mn + int n} \<Longrightarrow>
      foldl (\<lambda>t v. t[nat (v - mn) := True]) t vs ! i \<longleftrightarrow> t ! i \<or> mn + int i \<in> set vs" for t
    by (induction vs arbitrary: t) (use assms(2) in \<open>auto simp: nth_list_update split: if_splits\<close>)
  from this [of "replicate n False"] assms show ?thesis by (simp add: mark_def)
qed

lemma parseField_set:
  assumes "parseField s mn mx = Inr vs" and "mn \<le> mx"
  shows "set vs = field_set s mn mx" "set vs \<subseteq> {mn..mx}" "sorted_wrt (<) vs" "vs \<noteq> []"
proof -
  let ?n = "nat (mx - mn + 1)"
  obtain ws where ws: "field_values s mn mx = Inr ws"
    and vs: "vs = map (\<lambda>i. mn + int i) (filter (\<lambda>i. mark ?n mn ws ! i) [0..<?n])" "vs \<noteq> []"
    using assms(1) by (auto simp: parseField_def Let_def split: if_splits sum.splits)
  note f = field_values_set [OF ws assms(2)]
  then have "set ws \<subseteq> {mn..<mn + int ?n}" using assms(2) by auto
  note m = mark_nth [OF this]
  have "set vs = {v. mn \<le> v \<and> v < mn + int ?n \<and> v \<in> set ws}"
  proof -
    have "v \<in> set vs \<longleftrightarrow> mn \<le> v \<and> v < mn + int ?n \<and> v \<in> set ws" for v
    proof
      assume "v \<in> set vs"
      then show "mn \<le> v \<and> v < mn + int ?n \<and> v \<in> set ws" using m by (auto simp: vs(1))
    next
      assume "mn \<le> v \<and> v < mn + int ?n \<and> v \<in> set ws"
      then have "v = mn + int (nat (v - mn))" "nat (v - mn) < ?n" "mark ?n mn ws ! nat (v - mn)"
        using m [of "nat (v - mn)"] assms(2) by auto
      then show "v \<in> set vs" unfolding vs(1) by force
    qed
    then show ?thesis by blast
  qed
  with f have e: "set vs = set ws" using assms(2) by auto
  show "set vs = field_set s mn mx" "set vs \<subseteq> {mn..mx}" using e f by auto
  have "sorted_wrt (<) (filter (\<lambda>i. mark ?n mn ws ! i) [0..<?n])"
    by (simp add: sorted_wrt_filter)
  then show "sorted_wrt (<) vs" unfolding vs(1) sorted_wrt_map by simp
  show "vs \<noteq> []" by (rule vs(2))
qed

text \<open>Parsing a cron field gives exactly the values its comma-separated tokens denote (a number,
  a range or \<^verbatim>\<open>*\<close>, each with an optional step), once each and in increasing order, all within the
  bounds of the field and at least one.\<close>

theorem cron_field_correct:
  assumes "parseField s mn mx = Inr vs" and "mn \<le> mx"
  shows "set vs = field_set s mn mx \<and> sorted_wrt (<) vs \<and> vs \<noteq> [] \<and> set vs \<subseteq> {mn..mx}"
  using parseField_set [OF assms] by blast

theorem cron_field_correct_witness:
  "parseField ''*/20,5-7'' 0 59 = Inr [0, 5, 6, 7, 20, 40] \<and> field_set ''*/20,5-7'' 0 59 = {0, 5, 6, 7, 20, 40}"
proof -
  have p: "parseField ''*/20,5-7'' 0 59 = Inr [0, 5, 6, 7, 20, 40]" by code_simp
  from cron_field_correct [OF this] p show ?thesis by simp
qed

text \<open>A step near the largest \<^verbatim>\<open>int\<close> overflows the loop variable.\<close>

lemma cron_step_overflows: "parseRange ''1/2147483647'' 0 59 = Inl Overflow"
proof -
  have "stoi ''2147483647'' = Inr 2147483647" "stoi ''1'' = Inr 1"
    by (simp_all add: stoi_def Let_def is_digit_def digit_val_def isspace_def digits_val_def)
  then show ?thesis
    by (simp add: parseRange_def parse_step_def parse_bounds_def stoi_cron_def step_values.simps [of 1 1])
qed

subsection \<open>The search\<close>

definition tm_ok :: "tm \<Rightarrow> bool" where
  "tm_ok t \<longleftrightarrow> tm_min t \<in> {0..59} \<and> tm_hour t \<in> {0..23} \<and> tm_mday t \<in> {1..31}
     \<and> tm_mon t \<in> {0..11} \<and> tm_wday t \<in> {0..6}"

definition cron_matches :: "CronExpr \<Rightarrow> tm \<Rightarrow> bool" where
  "cron_matches e t \<longleftrightarrow> tm_min t \<in> set (minutes e) \<and> tm_hour t \<in> set (hours e)
     \<and> tm_mday t \<in> set (days e) \<and> tm_mon t + 1 \<in> set (months e) \<and> tm_wday t \<in> set (weekdays e)"

definition expr_ok :: "CronExpr \<Rightarrow> bool" where
  "expr_ok e \<longleftrightarrow> set (minutes e) \<subseteq> {0..59} \<and> set (hours e) \<subseteq> {0..23} \<and> set (days e) \<subseteq> {1..31}
     \<and> set (months e) \<subseteq> {1..12} \<and> set (weekdays e) \<subseteq> {0..6}"

lemma cron_parse_ok:
  assumes "cron_parse spec = Inr e" shows "expr_ok e"
proof -
  obtain fs rest where t: "take_fields 5 spec = (fs, rest)" by fastforce
  show ?thesis
  proof (cases "length fs \<noteq> 5 \<or> dropWhile (\<lambda>c. c = CHR '' '') rest \<noteq> []")
    case True
    with assms show ?thesis unfolding cron_parse_def t prod.case by (simp only: if_True sum.simps)
  next
    case False
    then obtain mi ho da mo wd where f: "parseField (fs ! 0) 0 59 = Inr mi" "parseField (fs ! 1) 0 23 = Inr ho"
      "parseField (fs ! 2) 1 31 = Inr da" "parseField (fs ! 3) 1 12 = Inr mo" "parseField (fs ! 4) 0 6 = Inr wd"
      and e: "e = \<lparr>minutes = mi, hours = ho, days = da, months = mo, weekdays = wd\<rparr>"
      using assms unfolding cron_parse_def t prod.case if_not_P [OF False] bind_cron_Inr by blast
    then show ?thesis using f [THEN parseField_set(2)] by (simp add: expr_ok_def)
  qed
qed

lemma mark_lookup:
  assumes "set vs \<subseteq> {0..<int n}" "0 \<le> k" "k < int n" shows "mark n 0 vs ! nat k \<longleftrightarrow> k \<in> set vs"
  using mark_nth [of vs 0 n "nat k"] assms by auto

lemma matches_lookup_iff:
  assumes "expr_ok e" "tm_ok t" shows "matches_lookup e t \<longleftrightarrow> cron_matches e t"
proof -
  have s: "set (minutes e) \<subseteq> {0..<int 60}" "set (hours e) \<subseteq> {0..<int 24}" "set (days e) \<subseteq> {0..<int 32}"
    "set (months e) \<subseteq> {0..<int 13}" "set (weekdays e) \<subseteq> {0..<int 7}"
    using assms(1) by (auto simp: expr_ok_def)
  show ?thesis
    unfolding matches_lookup_def cron_matches_def
    using assms(2) by (auto simp: tm_ok_def mark_lookup [OF s(1)] mark_lookup [OF s(2)] mark_lookup [OF s(3)]
        mark_lookup [OF s(4)] mark_lookup [OF s(5)])
qed

lemma search_result:
  "case search e lt n c of
     Inr t \<Rightarrow> (\<exists>k < n. t = c + int k * ns_per_minute \<and> matches_lookup e (lt t)
                 \<and> (\<forall>j < k. \<not> matches_lookup e (lt (c + int j * ns_per_minute))))
   | Inl x \<Rightarrow> x = NotWithinYear \<and> (\<forall>j < n. \<not> matches_lookup e (lt (c + int j * ns_per_minute)))"
proof (induction n arbitrary: c)
  case (Suc n)
  show ?case
  proof (cases "matches_lookup e (lt c)")
    case True
    then show ?thesis by (auto intro: exI [of _ 0])
  next
    case False
    have shift: "c + ns_per_minute + int j * ns_per_minute = c + int (Suc j) * ns_per_minute" for j
      by (simp add: algebra_simps)
    have all: "(\<forall>j < Suc k. \<not> matches_lookup e (lt (c + int j * ns_per_minute)))
        \<longleftrightarrow> (\<forall>j < k. \<not> matches_lookup e (lt (c + int (Suc j) * ns_per_minute)))" for k
      using False by (simp add: All_less_Suc2)
    show ?thesis
      using Suc.IH [of "c + ns_per_minute"] False unfolding shift
      by (auto simp: all split: sum.splits simp del: of_nat_Suc)
  qed
qed simp

lemma minutes_after:
  assumes "0 \<le> now" and "now < u" and "ns_per_minute dvd u"
  obtains j where "u = trunc_minute now + ns_per_minute + int j * ns_per_minute"
    and "\<And>n. u \<le> now + int n * ns_per_minute \<Longrightarrow> j < n"
proof -
  let ?q = "now div ns_per_minute"
  obtain p where p: "u = p * ns_per_minute" using assms(3) by (metis dvdE mult.commute)
  then have lt: "?q < p" using assms(2) by linarith
  show thesis
  proof (rule that [of "nat (p - ?q - 1)"])
    show "u = trunc_minute now + ns_per_minute + int (nat (p - ?q - 1)) * ns_per_minute"
      using lt assms(1) by (simp add: trunc_minute_def p algebra_simps)
    show "nat (p - ?q - 1) < n" if "u \<le> now + int n * ns_per_minute" for n
      using that p lt by (simp add: nat_less_iff)
  qed
qed

text \<open>C15. \<^verbatim>\<open>next\<close> finds the earliest matching time: for a parsed expression it returns a whole minute
  after \<^verbatim>\<open>now\<close> and within 365 days whose local time matches all five fields, and no earlier whole
  minute after \<^verbatim>\<open>now\<close> matches; it throws exactly when no whole minute of those 365 days matches.\<close>

theorem cron_next_earliest:
  assumes "cron_parse spec = Inr e" and "\<forall>t. tm_ok (lt t)" and "0 \<le> now"
  shows "case cron_next e lt now of
      Inr t \<Rightarrow> now < t \<and> t \<le> now + int max_checks * ns_per_minute \<and> ns_per_minute dvd t
        \<and> cron_matches e (lt t)
        \<and> (\<forall>u. now < u \<and> u < t \<and> ns_per_minute dvd u \<longrightarrow> \<not> cron_matches e (lt u))
    | Inl x \<Rightarrow> x = NotWithinYear
        \<and> (\<forall>u. now < u \<and> u \<le> now + int max_checks * ns_per_minute \<and> ns_per_minute dvd u
             \<longrightarrow> \<not> cron_matches e (lt u))"
proof -
  let ?M = ns_per_minute
  let ?b = "trunc_minute now + ?M"
  have lk: "matches_lookup e (lt u) \<longleftrightarrow> cron_matches e (lt u)" for u
    using matches_lookup_iff [OF cron_parse_ok [OF assms(1)]] assms(2) by blast
  have b: "now < ?b" "?b \<le> now + ?M" "?M dvd ?b" using assms(3) by (auto simp: trunc_minute_def)
  show ?thesis
  proof (cases "cron_next e lt now")
    case (Inl x)
    then have x: "x = NotWithinYear" "\<forall>j < max_checks. \<not> cron_matches e (lt (?b + int j * ?M))"
      using search_result [where e = e and lt = lt and n = max_checks and c = ?b] by (auto simp: cron_next_def lk)
    have "\<not> cron_matches e (lt u)" if "now < u" "u \<le> now + int max_checks * ?M" "?M dvd u" for u
      using minutes_after [OF assms(3) that(1,3)] x(2) that(2) by metis
    with Inl x(1) show ?thesis by simp
  next
    case (Inr t)
    then obtain k where k: "k < max_checks" "t = ?b + int k * ?M" "cron_matches e (lt t)"
      "\<forall>j < k. \<not> cron_matches e (lt (?b + int j * ?M))"
      using search_result [where e = e and lt = lt and n = max_checks and c = ?b] by (auto simp: cron_next_def lk)
    have "int k + 1 \<le> int max_checks" using k(1) by linarith
    then have "t \<le> now + int max_checks * ?M"
      using k(2) b(2) mult_right_mono [of "int k + 1" "int max_checks" ?M] by (simp add: algebra_simps)
    moreover have "now < t" "?M dvd t" using k(2) b by auto
    moreover have "\<not> cron_matches e (lt u)" if u: "now < u" "u < t" "?M dvd u" for u
    proof -
      obtain j where "u = ?b + int j * ?M" using minutes_after [OF assms(3) u(1,3)] by metis
      with u(2) k(2,4) show ?thesis by simp
    qed
    ultimately show ?thesis using Inr k(3) by simp
  qed
qed

text \<open>A calendar of thirty-day months without time zones.\<close>

definition demo_tm :: "int \<Rightarrow> tm" where
  "demo_tm t = (let m = t div ns_per_minute; d = m div 1440 in
     \<lparr>tm_min = m mod 60, tm_hour = m div 60 mod 24, tm_mday = d mod 30 + 1, tm_mon = d div 30 mod 12,
      tm_wday = d mod 7\<rparr>)"

definition demo_expr :: CronExpr where
  "demo_expr = \<lparr>minutes = [30], hours = [0..23], days = [1..31], months = [1..12], weekdays = [0..6]\<rparr>"

theorem cron_next_earliest_witness:
  "cron_parse ''30 * * * *'' = Inr demo_expr
   \<and> (\<exists>t. cron_next demo_expr demo_tm 0 = Inr t \<and> 0 < t \<and> t \<le> 30 * ns_per_minute
        \<and> cron_matches demo_expr (demo_tm t))"
proof -
  have p: "cron_parse ''30 * * * *'' = Inr demo_expr" by code_simp
  have ok: "\<forall>t. tm_ok (demo_tm t)" by (auto simp: tm_ok_def demo_tm_def Let_def)
  have m: "cron_matches demo_expr (demo_tm (30 * ns_per_minute))" by code_simp
  note th = cron_next_earliest [OF p ok, of 0]
  show ?thesis
  proof (cases "cron_next demo_expr demo_tm 0")
    case (Inl x)
    then show ?thesis using th m by auto
  next
    case (Inr t)
    then have "0 < t" "cron_matches demo_expr (demo_tm t)"
      "30 * ns_per_minute < t \<longrightarrow> \<not> cron_matches demo_expr (demo_tm (30 * ns_per_minute))"
      using th by auto
    with Inr p m show ?thesis by force
  qed
qed

end
