(* ===== verification/Template.thy ===== *)
theory Template
  imports Dag_Service
begin

text \<open>
  \<^verbatim>\<open>template/template_types.h\<close>, \<^verbatim>\<open>template/template_validator.cpp\<close>,
  \<^verbatim>\<open>template/template_renderer.cpp\<close> and \<^verbatim>\<open>execution/template_strategy.cpp\<close>: parameter schemas, the
  validation of parameters against a schema, the substitution of parameters into a JSON template and
  the strategy that runs a rendered template as a DAG.  The order in which the members of an object
  are visited is the argument \<open>keys\<close>; printing of values (\<open>dump\<close>, and \<open>ftext\<close> for
  \<^verbatim>\<open>std::to_string(double)\<close>) is an argument too.  An error text, which the source returns through
  \<^verbatim>\<open>err\<close>, is the left side of a sum.
\<close>

subsection \<open>Parameter schemas\<close>

datatype ParamType = PString | PInt | PBool | PJson

fun ParamTypeToString :: "ParamType \<Rightarrow> string" where
  "ParamTypeToString PString = ''string''"
| "ParamTypeToString PInt = ''int''"
| "ParamTypeToString PBool = ''bool''"
| "ParamTypeToString PJson = ''json''"

text \<open>The source computes a lower-case copy and then compares the original.\<close>

definition StringToParamType :: "string \<Rightarrow> ParamType" where
  "StringToParamType s =
     (if s = ''string'' then PString
      else if s = ''int'' then PInt
      else if s = ''bool'' then PBool
      else if s = ''json'' then PJson
      else PString)"

record ParamDef =
  pd_name :: string
  pd_type :: ParamType
  pd_required :: bool
  pd_defaultValue :: json

type_synonym ParamSchema = "ParamDef list"
type_synonym ParamMap = "string \<rightharpoonup> json"

definition schema_find :: "ParamSchema \<Rightarrow> string \<Rightarrow> ParamDef option" where
  "schema_find params name = List.find (\<lambda>p. pd_name p = name) params"

definition param_def :: "json \<Rightarrow> ParamDef result" where
  "param_def jp =
     bind (value_or get_string ''name'' [] jp) (\<lambda>nm.
     bind (value_or get_string ''type'' ''string'' jp) (\<lambda>ty.
     bind (value_or get_bool ''required'' False jp) (\<lambda>rq.
     bind (value_or Inr ''defaultValue'' JNull jp) (\<lambda>dv.
       Inr \<lparr>pd_name = nm, pd_type = StringToParamType ty, pd_required = rq, pd_defaultValue = dv\<rparr>))))"

definition make_param_schema :: "json \<Rightarrow> ParamSchema result" where
  "make_param_schema j =
     (case member ''params'' j of Some (JArr ps) \<Rightarrow> collect param_def ps | _ \<Rightarrow> Inr [])"

definition param_json :: "ParamDef \<Rightarrow> json" where
  "param_json pd =
     JObj [''name'' \<mapsto> JStr (pd_name pd), ''type'' \<mapsto> JStr (ParamTypeToString (pd_type pd)),
           ''required'' \<mapsto> JBool (pd_required pd), ''defaultValue'' \<mapsto> pd_defaultValue pd]"

definition param_schema_to_json :: "ParamSchema \<Rightarrow> json" where
  "param_schema_to_json schema = JObj [''params'' \<mapsto> JArr (map param_json schema)]"

subsection \<open>Validation\<close>

fun is_number_integer :: "json \<Rightarrow> bool" where
  "is_number_integer (JInt n) = True"
| "is_number_integer _ = False"

fun is_null :: "json \<Rightarrow> bool" where
  "is_null JNull = True"
| "is_null _ = False"

fun typeMatches :: "ParamType \<Rightarrow> json \<Rightarrow> bool" where
  "typeMatches PString v = is_string v"
| "typeMatches PInt v = is_number_integer v"
| "typeMatches PBool v = is_boolean v"
| "typeMatches PJson v = True"

datatype param_error = Required | TypeMismatch

record ValidationResult =
  val_ok :: bool
  val_errors :: "(string \<times> param_error) list"
  val_resolved :: ParamMap

definition check_param :: "ParamMap \<Rightarrow> ValidationResult \<Rightarrow> ParamDef \<Rightarrow> ValidationResult" where
  "check_param input r d =
     (case input (pd_name d) of
        None \<Rightarrow>
          if pd_required d then r\<lparr>val_errors := val_errors r @ [(pd_name d, Required)]\<rparr>
          else if \<not> is_null (pd_defaultValue d) then
            (case val_resolved r (pd_name d) of
               None \<Rightarrow> r\<lparr>val_resolved := (val_resolved r)(pd_name d \<mapsto> pd_defaultValue d)\<rparr>
             | Some _ \<Rightarrow> r)
          else r
      | Some v \<Rightarrow>
          if typeMatches (pd_type d) v then r
          else r\<lparr>val_errors := val_errors r @ [(pd_name d, TypeMismatch)]\<rparr>)"

definition validateAndResolve :: "ParamSchema \<Rightarrow> ParamMap \<Rightarrow> ValidationResult" where
  "validateAndResolve schema input =
     (let r = foldl (check_param input) \<lparr>val_ok = True, val_errors = [], val_resolved = input\<rparr> schema
      in if val_errors r \<noteq> [] then r\<lparr>val_ok := False\<rparr> else r)"

subsection \<open>Substitution\<close>

fun find2 :: "char \<Rightarrow> string \<Rightarrow> (string \<times> string) option" where
  "find2 c (x # y # s) =
     (if x = c \<and> y = c then Some ([], s)
      else map_option (\<lambda>(a, r). (x # a, r)) (find2 c (y # s)))"
| "find2 c _ = None"

lemma find2_length: "find2 c s = Some (a, r) \<Longrightarrow> length r < length s"
  by (induction c s arbitrary: a r rule: find2.induct) (auto split: if_splits)

function split_all :: "char \<Rightarrow> string \<Rightarrow> string list" where
  "split_all c s = (case split_at c s of (a, None) \<Rightarrow> [a] | (a, Some b) \<Rightarrow> a # split_all c b)"
  by auto
termination by (relation "measure (\<lambda>(c, s). length s)") (auto dest: split_at_Some [OF sym])

declare split_all.simps [simp del]

text \<open>\<^verbatim>\<open>prev\<close> is the part of the path before the value \<open>cur\<close>.\<close>

fun descend :: "string \<Rightarrow> json \<Rightarrow> string list \<Rightarrow> string + json" where
  "descend prev cur [] = Inr cur"
| "descend prev cur (p # ps) =
     (if \<not> is_object cur then Inl (''param is not object: '' @ prev)
      else (case member p cur of
              None \<Rightarrow> Inl (''missing param field: '' @ p)
            | Some v \<Rightarrow> descend p v ps))"

definition resolveParamPath :: "ParamMap \<Rightarrow> string \<Rightarrow> string + json" where
  "resolveParamPath P path =
     (case split_all CHR ''.'' path of
        [] \<Rightarrow> Inl ''empty param path''
      | p # ps \<Rightarrow>
          (case P p of None \<Rightarrow> Inl (''missing param: '' @ p) | Some v \<Rightarrow> descend p v ps))"

definition trim :: "string \<Rightarrow> string" where
  "trim s = rev (dropWhile isspace (rev (dropWhile isspace s)))"

definition key_value :: "ParamMap \<Rightarrow> string \<Rightarrow> string + json" where
  "key_value P key =
     (if CHR ''.'' \<in> set key then resolveParamPath P key
      else (case P key of None \<Rightarrow> Inl (''missing param: '' @ key) | Some v \<Rightarrow> Inr v))"

definition paramToString :: "(json \<Rightarrow> string) \<Rightarrow> (rat \<Rightarrow> string) \<Rightarrow> json \<Rightarrow> string" where
  "paramToString dump ftext v =
     (case v of
        JStr s \<Rightarrow> s
      | JBool b \<Rightarrow> if b then ''true'' else ''false''
      | JInt n \<Rightarrow> to_string_int (wrap_signed 64 n)
      | JFloat q \<Rightarrow> ftext q
      | _ \<Rightarrow> dump v)"

function renderString :: "(json \<Rightarrow> string) \<Rightarrow> (rat \<Rightarrow> string) \<Rightarrow> ParamMap \<Rightarrow> string \<Rightarrow> string + string" where
  "renderString dump ftext P s =
     (case find2 CHR 0x7B s of
        None \<Rightarrow> Inr s
      | Some (pre, rest) \<Rightarrow>
          (case find2 CHR 0x7D rest of
             None \<Rightarrow> Inr s
           | Some (key, after) \<Rightarrow>
               (case key_value P (trim key) of
                  Inl err \<Rightarrow> Inl err
                | Inr v \<Rightarrow>
                    (case renderString dump ftext P after of
                       Inl err \<Rightarrow> Inl err
                     | Inr out \<Rightarrow> Inr (pre @ paramToString dump ftext v @ out)))))"
  by auto
termination
  by (relation "measure (\<lambda>(dump, ftext, P, s). length s)")
    (auto dest!: find2_length [OF sym] find2_length)

declare renderString.simps [simp del]

fun all_ok :: "(string + 'a) list \<Rightarrow> string + 'a list" where
  "all_ok [] = Inr []"
| "all_ok (x # xs) =
     (case x of Inl e \<Rightarrow> Inl e
      | Inr v \<Rightarrow> (case all_ok xs of Inl e \<Rightarrow> Inl e | Inr vs \<Rightarrow> Inr (v # vs)))"

type_synonym key_order = "(string \<rightharpoonup> json) \<Rightarrow> string list"

definition isParamInject :: "key_order \<Rightarrow> (string \<rightharpoonup> json) \<Rightarrow> string option" where
  "isParamInject keys m =
     (if length (keys m) \<noteq> 1 then None
      else (case m ''$param'' of Some (JStr s) \<Rightarrow> Some s | _ \<Rightarrow> None))"

primrec renderNode :: "(json \<Rightarrow> string) \<Rightarrow> (rat \<Rightarrow> string) \<Rightarrow> key_order \<Rightarrow> ParamMap \<Rightarrow> json \<Rightarrow> string + json" where
  "renderNode dump ftext keys P JNull = Inr JNull"
| "renderNode dump ftext keys P (JBool b) = Inr (JBool b)"
| "renderNode dump ftext keys P (JInt n) = Inr (JInt n)"
| "renderNode dump ftext keys P (JFloat q) = Inr (JFloat q)"
| "renderNode dump ftext keys P (JStr s) =
     (case renderString dump ftext P s of Inl e \<Rightarrow> Inl e | Inr t \<Rightarrow> Inr (JStr t))"
| "renderNode dump ftext keys P (JArr xs) =
     (case all_ok (map (renderNode dump ftext keys P) xs) of Inl e \<Rightarrow> Inl e | Inr ys \<Rightarrow> Inr (JArr ys))"
| "renderNode dump ftext keys P (JObj m) =
     (case isParamInject keys m of
        Some name \<Rightarrow> resolveParamPath P name
      | None \<Rightarrow>
          (let rs = (\<lambda>k. map_option (renderNode dump ftext keys P) (m k)) in
           case all_ok (List.map_filter rs (keys m)) of
             Inl e \<Rightarrow> Inl e
           | Inr _ \<Rightarrow> Inr (JObj (\<lambda>k. case rs k of Some (Inr v) \<Rightarrow> Some v | _ \<Rightarrow> None))))"

subsection \<open>Rendering a template\<close>

record TaskTemplate =
  templateId :: string
  tpl_name :: string
  tpl_description :: string
  taskJsonTemplate :: json
  tpl_schema :: ParamSchema

definition taskTemplate_to_json :: "TaskTemplate \<Rightarrow> json" where
  "taskTemplate_to_json t =
     JObj [''template_id'' \<mapsto> JStr (templateId t), ''name'' \<mapsto> JStr (tpl_name t),
           ''description'' \<mapsto> JStr (tpl_description t), ''task_json_template'' \<mapsto> taskJsonTemplate t,
           ''schema'' \<mapsto> param_schema_to_json (tpl_schema t)]"

fun param_error_text :: "param_error \<Rightarrow> string" where
  "param_error_text Required = ''required''"
| "param_error_text TypeMismatch = ''type mismatch''"

fun error_text :: "(string \<times> param_error) list \<Rightarrow> string" where
  "error_text [] = []"
| "error_text [(f, e)] = f @ '': '' @ param_error_text e"
| "error_text ((f, e) # es) = f @ '': '' @ param_error_text e @ ''; '' @ error_text es"

definition known_exec_type :: "string \<Rightarrow> bool" where
  "known_exec_type s \<longleftrightarrow>
     tolower s \<in> {''local'', ''remote'', ''script'', ''httpcall'', ''http_call'', ''http'', ''shell''}"

definition check_rendered :: "(json \<Rightarrow> string) \<Rightarrow> (cpp_error \<Rightarrow> string) \<Rightarrow> json \<Rightarrow> string + json" where
  "check_rendered dump what j =
     (case member ''tasks'' j of
        Some (JArr _) \<Rightarrow> Inr j
      | _ \<Rightarrow>
          (let et = member ''exec_type'' (task_json j) in
           if (case et of Some v \<Rightarrow> \<not> is_string v | None \<Rightarrow> False) then Inl ''exec_type must be string''
           else (case parseTaskConfigFromReq dump j of
                   Inl e \<Rightarrow> Inl (''parseTaskConfigFromReq failed: '' @ what e)
                 | Inr cfg \<Rightarrow>
                     if tid_empty (cfg_id cfg) then Inl ''task id is required''
                     else (case et of
                             Some (JStr s) \<Rightarrow>
                               if known_exec_type s then Inr j else Inl (''invalid exec_type: '' @ s)
                           | _ \<Rightarrow> Inr j))))"

definition render ::
  "(json \<Rightarrow> string) \<Rightarrow> (rat \<Rightarrow> string) \<Rightarrow> key_order \<Rightarrow> (cpp_error \<Rightarrow> string) \<Rightarrow> TaskTemplate \<Rightarrow> ParamMap
    \<Rightarrow> string + json" where
  "render dump ftext keys what t input =
     (let vr = validateAndResolve (tpl_schema t) input in
      if \<not> val_ok vr then
        (let msg = error_text (val_errors vr) in Inl (if msg = [] then ''validateAndResolve failed'' else msg))
      else (case renderNode dump ftext keys (val_resolved vr) (taskJsonTemplate t) of
              Inl err \<Rightarrow> Inl err
            | Inr j \<Rightarrow> check_rendered dump what j))"

subsection \<open>The template strategy\<close>

fun put_member :: "string \<Rightarrow> json \<Rightarrow> json \<Rightarrow> json result" where
  "put_member k v (JObj m) = Inr (JObj (m(k \<mapsto> v)))"
| "put_member k v JNull = Inr (JObj [k \<mapsto> v])"
| "put_member k v _ = Inl (JsonTypeError 305)"

definition injectRunId :: "json \<Rightarrow> string \<Rightarrow> json result" where
  "injectRunId body runId =
     (case (member ''tasks'' body, member ''task'' body) of
        (Some (JArr ts), _) \<Rightarrow>
          bind (collect (put_member ''run_id'' (JStr runId)) ts) (\<lambda>ts'. put_member ''tasks'' (JArr ts') body)
      | (_, Some (JObj m)) \<Rightarrow> put_member ''task'' (JObj (m(''run_id'' \<mapsto> JStr runId))) body
      | _ \<Rightarrow> put_member ''run_id'' (JStr runId) body)"

definition parse_template_params :: "(string \<Rightarrow> string + json) \<Rightarrow> string \<Rightarrow> string + ParamMap" where
  "parse_template_params parse raw =
     (if raw = [] then Inr Map.empty
      else (case parse raw of Inr (JObj m) \<Rightarrow> Inr m | _ \<Rightarrow> Inl ''TemplateExecution: invalid params''))"

definition config_of :: "json \<Rightarrow> (string \<rightharpoonup> json)" where
  "config_of j = (case member ''config'' j of Some (JObj m) \<Rightarrow> m | _ \<Rightarrow> Map.empty)"

text \<open>The rendered description with the members the strategy adds.\<close>

definition template_body :: "TaskTemplate \<Rightarrow> ExecutionContext \<Rightarrow> string \<Rightarrow> json \<Rightarrow> json result" where
  "template_body t c tid rendered =
     (let i = cfg_id (config c);
          c1 = (config_of rendered)(''template_id'' \<mapsto> JStr tid);
          c2 = put_opt ''parent_run_id'' (if tid_runId i \<noteq> [] then Some (JStr (tid_runId i)) else None) c1;
          c3 = put_opt ''parent_task_id'' (if tid_value i \<noteq> [] then Some (JStr (tid_value i)) else None) c2
      in bind (put_member ''config'' (JObj c3) rendered) (\<lambda>j1.
         bind (put_member ''_nesting_depth'' (JInt (nestingDepth c)) j1) (\<lambda>j2.
         bind (if contains ''name'' j2 then Inr j2 else put_member ''name'' (JStr (tpl_name t)) j2) (\<lambda>j3.
           if c3 ''name'' = None then
             bind (value_or get_string ''name'' (tpl_name t) j3) (\<lambda>nm.
               put_member ''config'' (JObj (c3(''name'' \<mapsto> JStr nm))) j3)
           else Inr j3))))"

definition template_start_text :: "string \<Rightarrow> string \<Rightarrow> int \<Rightarrow> string" where
  "template_start_text tid runId d =
     ''TemplateExecution start: templateId='' @ tid @ '', runId='' @ runId @ '', nestingDepth='' @ to_string_int d"

definition template_end_text :: "TaskResult \<Rightarrow> string" where
  "template_end_text r =
     ''TemplateExecution end: status='' @ to_string_int (status_int (res_status r)) @ '', durationMs=''
     @ to_string_int (durationMs r)"

text \<open>\<^verbatim>\<open>get_template\<close> is \<^verbatim>\<open>TemplateStore::get\<close> and \<open>rend\<close> the renderer.\<close>

definition template_execute ::
  "('w \<Rightarrow> int) \<Rightarrow> (string \<Rightarrow> string + json) \<Rightarrow> (string \<Rightarrow> TaskTemplate option)
    \<Rightarrow> (TaskTemplate \<Rightarrow> ParamMap \<Rightarrow> string + json) \<Rightarrow> (json \<Rightarrow> string \<Rightarrow> string \<Rightarrow> 'w \<Rightarrow> DagResult result \<times> 'w)
    \<Rightarrow> string \<Rightarrow> ExecutionContext \<Rightarrow> 'w \<Rightarrow> TaskResult result \<times> (LogLevel \<times> string) list \<times> 'w" where
  "template_execute now parse get_template rend runDag fresh c w =
     (let tid = ctx_get c ''template_id'' [];
          raw = (if ctx_get c ''params'' [] = [] then ctx_get c ''template_params_json'' []
                 else ctx_get c ''params'' []);
          runId = (if ctx_get c ''run_id'' [] = [] then fresh else ctx_get c ''run_id'' [])
      in if isCanceled c then (Inr (result_of Canceled ''TemplateExecution: canceled before start''), [], w)
         else if isTimeout (now w) c then
           (Inr (result_of Timeout ''TemplateExecution: timeout before start''), [], w)
         else if MAX_NESTING_DEPTH \<le> nestingDepth c then
           (Inr (result_of Failed (''TemplateExecution: nesting depth exceeds limit (''
              @ to_string_int MAX_NESTING_DEPTH @ '')'')), [], w)
         else if tid = [] then (Inr (result_of Failed ''TemplateExecution: missing template_id''), [], w)
         else case parse_template_params parse raw of
           Inl err \<Rightarrow> (Inr (result_of Failed err), [], w)
         | Inr p \<Rightarrow>
             (case get_template tid of
                None \<Rightarrow> (Inr (result_of Failed ''TemplateExecution: template not found''), [], w)
              | Some t \<Rightarrow>
                  (case rend t p of
                     Inl err \<Rightarrow> (Inr (result_of Failed err), [], w)
                   | Inr rendered \<Rightarrow>
                       (case bind (template_body t c tid rendered) (\<lambda>j. injectRunId j runId) of
                          Inl e \<Rightarrow> (Inl e, [], w)
                        | Inr body \<Rightarrow>
                            (let ev = [(Info, template_start_text tid runId (nestingDepth c))] in
                             case runDag body ''task_template'' runId w of
                               (Inl e, w') \<Rightarrow> (Inl e, ev, w')
                             | (Inr dr, w') \<Rightarrow>
                                 (let r = (dag_result_of runId (now w' - now w) dr)
                                            \<lparr>res_metadata := [''run_id'' \<mapsto> runId, ''template_id'' \<mapsto> tid]\<rparr>
                                  in (Inr r, ev @ [(end_level (res_status r), template_end_text r)], w')))))))"

subsection \<open>Nesting through both strategies\<close>

text \<open>A task that a DAG or template task \<open>c\<close> hands to the executor.\<close>

inductive spawns :: "TaskConfig \<Rightarrow> TaskConfig \<Rightarrow> bool" where
  via_dag: "nested c c' \<Longrightarrow> spawns c c'"
| via_template: "nesting_of (execParams c) < MAX_NESTING_DEPTH \<Longrightarrow>
     config ec = c \<Longrightarrow> nestingDepth ec = nesting_of (execParams c) \<Longrightarrow>
     template_body t ec tid rendered = Inr j \<Longrightarrow> injectRunId j rid = Inr body \<Longrightarrow>
     runDag_body dump what fresh body ''task_template'' rid = (ev, Inr (Ready specs dcfg r)) \<Longrightarrow>
     s \<in> set specs \<Longrightarrow> spawns c (spec_runnerCfg s)"

lemma put_member_member: "put_member k v j = Inr j' \<Longrightarrow> member k' j' = (if k' = k then Some v else member k' j)"
  by (cases j) auto

lemma template_body_depth:
  assumes "template_body t ec tid rendered = Inr j"
  shows "member ''_nesting_depth'' j = Some (JInt (nestingDepth ec))"
proof -
  obtain j1 j2 j3 c3 where "put_member ''_nesting_depth'' (JInt (nestingDepth ec)) j1 = Inr j2"
    and n: "(if contains ''name'' j2 then Inr j2 else put_member ''name'' (JStr (tpl_name t)) j2) = Inr j3"
    and c: "(if c3 ''name'' = None then bind (value_or get_string ''name'' (tpl_name t) j3) (\<lambda>nm.
               put_member ''config'' (JObj (c3(''name'' \<mapsto> JStr nm))) j3) else Inr j3) = Inr j"
    using assms unfolding template_body_def Let_def bind_eq_Inr by blast
  then have "member ''_nesting_depth'' j2 = Some (JInt (nestingDepth ec))"
    using put_member_member [of "''_nesting_depth''" _ j1 j2 "''_nesting_depth''"] by simp
  then have "member ''_nesting_depth'' j3 = Some (JInt (nestingDepth ec))"
    using n put_member_member [of "''name''" _ j2 j3 "''_nesting_depth''"] by (simp split: if_splits)
  then show ?thesis
    using c put_member_member [of "''config''" _ j3 j "''_nesting_depth''"]
    by (fastforce simp: bind_eq_Inr split: if_splits)
qed

lemma injectRunId_depth:
  assumes "injectRunId j rid = Inr body"
  shows "member ''_nesting_depth'' body = member ''_nesting_depth'' j"
proof -
  obtain k v where "put_member k v j = Inr body" "k \<in> {''tasks'', ''task'', ''run_id''}"
    using assms unfolding injectRunId_def
    by (auto simp: bind_eq_Inr split: option.splits json.splits)
  then show ?thesis using put_member_member [of k v j body "''_nesting_depth''"] by auto
qed

lemma spawns_depth:
  assumes "spawns c c'" and "execParams c ''_nesting_depth'' = Some (to_string_int d)" and "0 \<le> d" "d < 2 ^ 31"
  shows "d < MAX_NESTING_DEPTH \<and> execParams c' ''_nesting_depth'' = Some (to_string_int (d + 1))"
  using assms(1)
proof cases
  case via_dag
  then show ?thesis using nested_depth assms(2-4) by blast
next
  case (via_template ec t tid rendered j rid body dump what fresh ev specs dcfg r s)
  have "stoi (to_string_int d) = Inr d" using stoi_to_string_int [of d] assms(3,4) by simp
  then have d: "nesting_of (execParams c) = d" using assms(2) by (simp add: nesting_of_def)
  have "member ''_nesting_depth'' body = Some (JInt d)"
    using template_body_depth [OF via_template(5)] injectRunId_depth [OF via_template(6)] via_template(4) d by simp
  then have "parent_depth body = d"
    using via_template(2) assms(3) d by (simp add: parent_depth_def get_int_def wrap_signed_id)
  then have "wrap_signed 32 (parent_depth body + 1) = d + 1"
    using via_template(2) assms(3) d by (simp add: wrap_signed_id)
  with runDag_body_param [OF via_template(7,8)] show ?thesis using via_template(1,2) d by simp
qed

text \<open>C11. Nested DAGs and templates cannot recurse without end: a chain of tasks, each started by the
  DAG or template strategy of the one before, that starts at depth \<open>d\<close> has at most \<open>10 - d\<close> links, and
  both strategies refuse a context at depth 10 without a call of the service.\<close>

theorem nesting_bounded:
  fixes w :: 'w
  assumes "(spawns ^^ n) c c'" and "execParams c ''_nesting_depth'' = Some (to_string_int d)"
    and "0 \<le> d" and "d \<le> MAX_NESTING_DEPTH"
  shows "d + int n \<le> MAX_NESTING_DEPTH
    \<and> (\<forall>now runDag fresh ec. MAX_NESTING_DEPTH \<le> nestingDepth ec \<longrightarrow>
         (\<exists>r. dag_execute now runDag fresh ec w = (Inr r, [], w) \<and> res_status r \<noteq> Success))
    \<and> (\<forall>now parse get rend runDag fresh ec. MAX_NESTING_DEPTH \<le> nestingDepth ec \<longrightarrow>
         (\<exists>r. template_execute now parse get rend runDag fresh ec w = (Inr r, [], w) \<and> res_status r \<noteq> Success))"
proof -
  have "execParams c' ''_nesting_depth'' = Some (to_string_int (d + int n)) \<and> d + int n \<le> MAX_NESTING_DEPTH"
    using assms(1)
  proof (induction n arbitrary: c')
    case 0
    then show ?case using assms(2,4) by simp
  next
    case (Suc n)
    then obtain x where x: "(spawns ^^ n) c x" "spawns x c'" by auto
    have "d + int n \<le> MAX_NESTING_DEPTH" "execParams x ''_nesting_depth'' = Some (to_string_int (d + int n))"
      using Suc.IH [OF x(1)] by auto
    with spawns_depth [OF x(2), of "d + int n"] assms(3) show ?case by (simp add: ac_simps)
  qed
  then show ?thesis by (auto simp: dag_execute_def template_execute_def result_of_def Let_def)
qed

theorem nesting_bounded_witness:
  "\<exists>c. (spawns ^^ 1) demo_parent c \<and> (3::int) + int 1 \<le> MAX_NESTING_DEPTH"
proof -
  obtain c where c: "(spawns ^^ 1) demo_parent c"
    using demo_nested by (auto simp: relpowp_1 intro: via_dag)
  have "execParams demo_parent ''_nesting_depth'' = Some (to_string_int 3)" by (simp add: demo_parent_def)
  from nesting_bounded [OF c this] c show ?thesis by auto
qed

subsection \<open>Text templates\<close>

text \<open>A text template as a list of literals and placeholders, and what it should become.\<close>

datatype seg = Lit string | Hole string

fun seg_src :: "seg \<Rightarrow> string" where
  "seg_src (Lit s) = s"
| "seg_src (Hole k) = [CHR 0x7B, CHR 0x7B] @ k @ [CHR 0x7D, CHR 0x7D]"

fun seg_ok :: "seg \<Rightarrow> bool" where
  "seg_ok (Lit s) \<longleftrightarrow> CHR 0x7B \<notin> set s"
| "seg_ok (Hole k) \<longleftrightarrow> CHR 0x7D \<notin> set k"

fun seg_out :: "(json \<Rightarrow> string) \<Rightarrow> (rat \<Rightarrow> string) \<Rightarrow> ParamMap \<Rightarrow> seg \<Rightarrow> string + string" where
  "seg_out dump ftext P (Lit s) = Inr s"
| "seg_out dump ftext P (Hole k) =
     (case key_value P (trim k) of Inl e \<Rightarrow> Inl e | Inr v \<Rightarrow> Inr (paramToString dump ftext v))"

lemma find2_prefix:
  "c \<notin> set pre \<Longrightarrow> find2 c (pre @ s) = map_option (\<lambda>(a, r). (pre @ a, r)) (find2 c s)"
proof (induction pre)
  case (Cons x pre)
  show ?case
  proof (cases "pre @ s")
    case Nil
    then show ?thesis by simp
  next
    case (Cons y t)
    then have "find2 c ((x # pre) @ s) = map_option (\<lambda>(a, r). (x # a, r)) (find2 c (pre @ s))"
      using Cons.prems by auto
    then show ?thesis using Cons.IH Cons.prems by (simp add: option.map_comp comp_def case_prod_beta)
  qed
qed (cases "find2 c s"; auto)

lemma renderString_lit:
  assumes "CHR 0x7B \<notin> set pre"
  shows "renderString dump ftext P (pre @ s) =
     (case renderString dump ftext P s of Inl e \<Rightarrow> Inl e | Inr t \<Rightarrow> Inr (pre @ t))"
  by (subst (1 2) renderString.simps)
    (auto simp: find2_prefix [OF assms] split: option.splits sum.splits)

lemma renderString_hole:
  assumes "CHR 0x7D \<notin> set k"
  shows "renderString dump ftext P ([CHR 0x7B, CHR 0x7B] @ k @ [CHR 0x7D, CHR 0x7D] @ s) =
     (case key_value P (trim k) of
        Inl e \<Rightarrow> Inl e
      | Inr v \<Rightarrow> (case renderString dump ftext P s of
                   Inl e \<Rightarrow> Inl e | Inr t \<Rightarrow> Inr (paramToString dump ftext v @ t)))"
proof -
  have "find2 CHR 0x7D (k @ [CHR 0x7D, CHR 0x7D] @ s) = Some (k, s)" by (simp add: find2_prefix [OF assms])
  then show ?thesis by (subst renderString.simps) (simp split: sum.split)
qed

text \<open>C14. Text rendering is substitution: a template of literals and placeholders becomes the literals
  with each placeholder replaced by the text of its parameter, from left to right; the first
  placeholder whose parameter is missing gives the error; and a substituted value is copied as it is,
  never scanned for placeholders again.\<close>

theorem renderString_substitutes:
  assumes "\<forall>sg \<in> set segs. seg_ok sg"
  shows "renderString dump ftext P (concat (map seg_src segs)) =
     (case all_ok (map (seg_out dump ftext P) segs) of Inl e \<Rightarrow> Inl e | Inr ts \<Rightarrow> Inr (concat ts))"
  using assms
proof (induction segs)
  case Nil
  then show ?case by (simp add: renderString.simps)
next
  case (Cons sg segs)
  then have "renderString dump ftext P (concat (map seg_src segs)) =
     (case all_ok (map (seg_out dump ftext P) segs) of Inl e \<Rightarrow> Inl e | Inr ts \<Rightarrow> Inr (concat ts))" by simp
  with Cons.prems show ?case
    by (cases sg) (auto simp: renderString_lit renderString_hole [simplified] split: sum.splits)
qed

theorem renderString_substitutes_witness:
  "renderString (\<lambda>_. []) (\<lambda>_. []) [''user'' \<mapsto> JStr ''{{x}}'', ''n'' \<mapsto> JInt 3]
     (concat (map seg_src [Lit ''run '', Hole '' user '', Lit ''-'', Hole ''n'']))
   = Inr ''run {{x}}-3''"
proof -
  let ?segs = "[Lit ''run '', Hole '' user '', Lit ''-'', Hole ''n'']"
  have ok: "\<forall>sg \<in> set ?segs. seg_ok sg" by simp
  have "wrap_signed 64 3 = 3" "to_string_int 3 = ''3''" by code_simp+
  then show ?thesis
    by (subst renderString_substitutes [OF ok])
      (simp add: key_value_def paramToString_def trim_def isspace_def Let_def)
qed

subsection \<open>Validation and schemas\<close>

definition param_fits :: "ParamMap \<Rightarrow> ParamDef \<Rightarrow> bool" where
  "param_fits input d =
     (case input (pd_name d) of None \<Rightarrow> \<not> pd_required d | Some v \<Rightarrow> typeMatches (pd_type d) v)"

definition default_of :: "ParamSchema \<Rightarrow> ParamMap" where
  "default_of schema k =
     map_option pd_defaultValue
       (List.find (\<lambda>d. pd_name d = k \<and> \<not> pd_required d \<and> \<not> is_null (pd_defaultValue d)) schema)"

lemma check_params_fold:
  assumes "input \<subseteq>\<^sub>m val_resolved r"
  shows "let r' = foldl (check_param input) r schema in
      map fst (val_errors r') = map fst (val_errors r) @ map pd_name (filter (Not \<circ> param_fits input) schema)
    \<and> val_resolved r' = default_of schema ++ val_resolved r \<and> val_ok r' = val_ok r"
  using assms
proof (induction schema arbitrary: r)
  case Nil
  then show ?case by (simp add: default_of_def fun_eq_iff map_add_def)
next
  case (Cons d ds)
  let ?r = "check_param input r d"
  have m: "input \<subseteq>\<^sub>m val_resolved ?r"
    using Cons.prems by (auto simp: check_param_def map_le_def dom_def split: option.splits)
  have e: "map fst (val_errors ?r) = map fst (val_errors r) @ (if param_fits input d then [] else [pd_name d])"
    "val_ok ?r = val_ok r"
    by (auto simp: check_param_def param_fits_def split: option.splits)
  have "default_of ds ++ val_resolved ?r = default_of (d # ds) ++ val_resolved r"
  proof
    fix k
    show "(default_of ds ++ val_resolved ?r) k = (default_of (d # ds) ++ val_resolved r) k"
      using Cons.prems
      by (cases "input (pd_name d)") (auto simp: check_param_def default_of_def map_add_def map_le_def dom_def
          split: option.splits)
  qed
  with Cons.IH [OF m] e show ?case by (simp add: Let_def)
qed

text \<open>C13. Parameters are checked against the schema: validation succeeds exactly when every required
  parameter is given and every given one has the declared type, the errors name exactly the
  offending parameters in schema order, and the resolved parameters are the given ones completed by
  the first declared default of the others.\<close>

theorem validateAndResolve_correct:
  "(val_ok (validateAndResolve schema input) \<longleftrightarrow> (\<forall>d \<in> set schema. param_fits input d))
   \<and> map fst (val_errors (validateAndResolve schema input)) = map pd_name (filter (Not \<circ> param_fits input) schema)
   \<and> val_resolved (validateAndResolve schema input) = default_of schema ++ input"
proof -
  let ?init = "\<lparr>val_ok = True, val_errors = [], val_resolved = input\<rparr>"
  let ?r = "foldl (check_param input) ?init schema"
  have f: "map fst (val_errors ?r) = map pd_name (filter (Not \<circ> param_fits input) schema)"
    "val_resolved ?r = default_of schema ++ input" "val_ok ?r"
    using check_params_fold [of input ?init schema] by (auto simp: Let_def)
  have "val_errors ?r = [] \<longleftrightarrow> filter (Not \<circ> param_fits input) schema = []"
    using f(1) by (metis Nil_is_map_conv)
  then show ?thesis
    using f by (auto simp: validateAndResolve_def Let_def filter_empty_conv)
qed

theorem validateAndResolve_correct_witness:
  "val_ok (validateAndResolve [\<lparr>pd_name = ''n'', pd_type = PInt, pd_required = True, pd_defaultValue = JNull\<rparr>]
     [''n'' \<mapsto> JInt 3])"
  using validateAndResolve_correct
    [of "[\<lparr>pd_name = ''n'', pd_type = PInt, pd_required = True, pd_defaultValue = JNull\<rparr>]" "[''n'' \<mapsto> JInt 3]"]
  by (simp add: param_fits_def)

lemma StringToParamType_name [simp]: "StringToParamType (ParamTypeToString t) = t"
  by (cases t) (simp_all add: StringToParamType_def)

text \<open>Despite its lower-case copy the reader of type names is case sensitive.\<close>

lemma param_type_case_sensitive: "StringToParamType ''INT'' = PString"
  by (simp add: StringToParamType_def)

lemma collect_map: "(\<And>x. x \<in> set xs \<Longrightarrow> f (g x) = Inr x) \<Longrightarrow> collect f (map g xs) = Inr xs"
  by (induction xs) auto

text \<open>A parameter schema survives storage: reading back the JSON it is written as gives the same
  schema.\<close>

theorem param_schema_roundtrip: "make_param_schema (param_schema_to_json schema) = Inr schema"
  by (simp add: make_param_schema_def param_schema_to_json_def)
    (rule collect_map, simp add: param_def_def param_json_def value_or_def)

end
