(* ===== verification/Cron_Scheduler.thy ===== *)
theory Cron_Scheduler
  imports Cron_Parser Template
begin

text \<open>
  \<^verbatim>\<open>scheduler/cron_job.h\<close>, \<^verbatim>\<open>cron_job.cpp\<close> and \<^verbatim>\<open>cron_scheduler.cpp\<close>: the jobs, what firing one does, and
  the background loop with the operations other threads call.  One step of the loop is one critical
  section of \<^verbatim>\<open>_mutex\<close>, one evaluation of a wait predicate, or one dispatch; \<^verbatim>\<open>stop\<close> sets its flag without
  the mutex, so the point between a false predicate and the block is a state of its own.  The runner,
  \<^verbatim>\<open>DagService::runDag\<close>, the template store and renderer and the writes of \<^verbatim>\<open>persistRunAndTasks\<close> act on an
  abstract world.  Times are nanoseconds since the epoch.
\<close>

subsection \<open>Jobs\<close>

datatype CronTargetType = UnknownTarget | SingleTask | DagTarget | TemplateTarget

record DagJobPayload =
  djp_specs :: "DagTaskSpec list"
  djp_config :: DagConfig
  djp_callbacks :: DagEventCallbacks

record TemplateJobPayload =
  tjp_templateId :: string
  tjp_params :: json

record CronJob =
  job_id :: string
  job_name :: string
  job_spec :: string
  job_targetType :: CronTargetType
  job_cronExpr :: CronExpr
  job_nextTime :: int
  job_enabled :: bool
  job_taskTemplate :: "TaskConfig option"
  job_dagPayload :: "DagJobPayload option"
  job_templatePayload :: "TemplateJobPayload option"

definition mk_CronJob ::
  "(int \<Rightarrow> tm) \<Rightarrow> int \<Rightarrow> string \<Rightarrow> string \<Rightarrow> string \<Rightarrow> CronTargetType \<Rightarrow> cron_error + CronJob" where
  "mk_CronJob lt now i nm spec ty =
     bind_cron (cron_parse spec) (\<lambda>e.
     bind_cron (cron_next e lt now) (\<lambda>t.
       Inr \<lparr>job_id = i, job_name = nm, job_spec = spec, job_targetType = ty, job_cronExpr = e,
            job_nextTime = t, job_enabled = True, job_taskTemplate = None, job_dagPayload = None,
            job_templatePayload = None\<rparr>))"

subsection \<open>Firing a job\<close>

record 'w cron_env =
  ce_run :: "TaskConfig \<Rightarrow> 'w \<Rightarrow> TaskResult result \<times> 'w"
  ce_runDag :: "json \<Rightarrow> string \<Rightarrow> 'w \<Rightarrow> DagResult result \<times> 'w"
  ce_persist :: "svc_event list \<Rightarrow> 'w \<Rightarrow> 'w"
  ce_template :: "string \<Rightarrow> TaskTemplate option"
  ce_render :: "TaskTemplate \<Rightarrow> ParamMap \<Rightarrow> string + json"

definition dispatch_single_task ::
  "('w, 'z) cron_env_scheme \<Rightarrow> CronJob \<Rightarrow> string \<Rightarrow> 'w \<Rightarrow> bool result \<times> 'w" where
  "dispatch_single_task E job runId w =
     (case job_taskTemplate job of
        None \<Rightarrow> (Inr False, w)
      | Some c \<Rightarrow>
          (case ce_run E (c\<lparr>cfg_id := TaskId (tid_value (cfg_id c)) runId\<rparr>) w of
             (Inl e, w') \<Rightarrow> (Inl e, w')
           | (Inr r, w') \<Rightarrow> (Inr (res_ok r), w')))"

definition cron_task_json :: "DagTaskSpec \<Rightarrow> json" where
  "cron_task_json spec =
     JObj ((task_members (spec_runnerCfg spec))
        (''id'' \<mapsto> JStr (tid_value (spec_id spec)),
         ''deps'' \<mapsto> JArr (map (\<lambda>d. JStr (tid_value d)) (spec_deps spec))))"

definition cron_dag_body :: "CronJob \<Rightarrow> DagJobPayload \<Rightarrow> json" where
  "cron_dag_body job d =
     JObj [''name'' \<mapsto> JStr (job_name job),
           ''config'' \<mapsto> JObj
             [''fail_policy'' \<mapsto>
                JStr (if failPolicy (djp_config d) = FailFast then ''FailFast'' else ''SkipDownstream''),
              ''max_parallel'' \<mapsto> JInt (uint (maxParallel_cfg (djp_config d))),
              ''cron_job_id'' \<mapsto> JStr (job_id job),
              ''name'' \<mapsto> JStr (job_name job)],
           ''tasks'' \<mapsto> JArr (map cron_task_json (djp_specs d))]"

text \<open>The common end of the DAG and the template job.\<close>

definition fire_dag ::
  "('w, 'z) cron_env_scheme \<Rightarrow> json \<Rightarrow> string \<Rightarrow> 'w \<Rightarrow> bool result \<times> 'w" where
  "fire_dag E body0 runId w =
     (case injectRunId body0 runId of
        Inl e \<Rightarrow> (Inl e, w)
      | Inr body \<Rightarrow>
          (case ce_runDag E body runId (ce_persist E (persistRunAndTasks runId body ''cron'' []) w) of
             (Inl e, w') \<Rightarrow> (Inl e, w')
           | (Inr r, w') \<Rightarrow> (Inr (dr_success r), w')))"

definition dispatch_dag_job ::
  "('w, 'z) cron_env_scheme \<Rightarrow> CronJob \<Rightarrow> string \<Rightarrow> 'w \<Rightarrow> bool result \<times> 'w" where
  "dispatch_dag_job E job runId w =
     (case job_dagPayload job of
        None \<Rightarrow> (Inr False, w)
      | Some d \<Rightarrow> fire_dag E (cron_dag_body job d) runId w)"

text \<open>\<^verbatim>\<open>json::items\<close>: an array yields its indices as keys, a single value the empty key.\<close>

definition json_items :: "json \<Rightarrow> ParamMap" where
  "json_items j =
     (case j of
        JObj m \<Rightarrow> m
      | JArr xs \<Rightarrow> map_of (zip (map (\<lambda>i. to_string_int (int i)) [0..<length xs]) xs)
      | JNull \<Rightarrow> Map.empty
      | v \<Rightarrow> [[] \<mapsto> v])"

definition cron_template_body :: "TaskTemplate \<Rightarrow> CronJob \<Rightarrow> string \<Rightarrow> json \<Rightarrow> json result" where
  "cron_template_body t job tid rendered =
     (let c1 = (config_of rendered)(''template_id'' \<mapsto> JStr tid, ''cron_job_id'' \<mapsto> JStr (job_id job))
      in bind (put_member ''config'' (JObj c1) rendered) (\<lambda>j1.
         bind (if contains ''name'' j1 then Inr j1 else put_member ''name'' (JStr (tpl_name t)) j1) (\<lambda>j2.
         bind (value_or get_string ''name'' (tpl_name t) j2) (\<lambda>nm.
           put_member ''config'' (JObj (c1(''name'' \<mapsto> JStr nm))) j2))))"

definition dispatch_template_job ::
  "('w, 'z) cron_env_scheme \<Rightarrow> CronJob \<Rightarrow> string \<Rightarrow> 'w \<Rightarrow> bool result \<times> 'w" where
  "dispatch_template_job E job runId w =
     (case job_templatePayload job of
        None \<Rightarrow> (Inr False, w)
      | Some payload \<Rightarrow>
          (case ce_template E (tjp_templateId payload) of
             None \<Rightarrow> (Inr False, w)
           | Some t \<Rightarrow>
               (case ce_render E t (json_items (tjp_params payload)) of
                  Inl err \<Rightarrow> (Inr False, w)
                | Inr rendered \<Rightarrow>
                    (case cron_template_body t job (tjp_templateId payload) rendered of
                       Inl e \<Rightarrow> (Inl e, w)
                     | Inr body \<Rightarrow> fire_dag E body runId w))))"

definition dispatch_job ::
  "('w, 'z) cron_env_scheme \<Rightarrow> CronJob \<Rightarrow> string \<Rightarrow> 'w \<Rightarrow> bool result \<times> 'w" where
  "dispatch_job E job runId w =
     (case job_targetType job of
        SingleTask \<Rightarrow> dispatch_single_task E job runId w
      | DagTarget \<Rightarrow> dispatch_dag_job E job runId w
      | TemplateTarget \<Rightarrow> dispatch_template_job E job runId w
      | UnknownTarget \<Rightarrow> (Inr False, w))"

subsection \<open>The scan\<close>

record ScanResult =
  hasJob :: bool
  nearestNext :: int
  pendingIndices :: "nat list"

text \<open>The loop over \<^verbatim>\<open>_jobs\<close>, at index \<open>i\<close>; \<open>near\<close> is \<^verbatim>\<open>nearestNext\<close> once it has been set.\<close>

fun scan_loop :: "int \<Rightarrow> nat \<Rightarrow> int option \<Rightarrow> nat list \<Rightarrow> CronJob list \<Rightarrow> int option \<times> nat list" where
  "scan_loop now i near pend [] = (near, pend)"
| "scan_loop now i near pend (job # js) =
     (if \<not> job_enabled job then scan_loop now (Suc i) near pend js
      else scan_loop now (Suc i)
             (case near of
                None \<Rightarrow> Some (job_nextTime job)
              | Some t \<Rightarrow> if job_nextTime job < t then Some (job_nextTime job) else near)
             (if job_nextTime job \<le> now then pend @ [i] else pend) js)"

definition scanJobsLocked :: "int \<Rightarrow> CronJob list \<Rightarrow> ScanResult" where
  "scanJobsLocked now js =
     (if js = [] then \<lparr>hasJob = False, nearestNext = 0, pendingIndices = []\<rparr>
      else (case scan_loop now 0 None [] js of (near, pend) \<Rightarrow>
              \<lparr>hasJob = True, nearestNext = (case near of None \<Rightarrow> 0 | Some t \<Rightarrow> t), pendingIndices = pend\<rparr>))"

subsection \<open>The loop\<close>

datatype loop_pc =
    LTop | LScan
  | LNoJobs | LNoJobsBlock | LNoJobsBlocked
  | LFire "nat list" | LDispatch CronJob "nat list"
  | LWaitFor int | LSleep int | LSleepBlock int | LAsleep int
  | LExited | LTerminated | LUndefined

text \<open>\<open>cs_worker = None\<close>: no joinable thread.  \<open>cs_fired\<close> records each firing: the index, the time and the
  copy of the job that is dispatched.\<close>

record 'w CronScheduler =
  cs_jobs :: "CronJob list"
  cs_stopping :: bool
  cs_started :: bool
  cs_worker :: "loop_pc option"
  cs_joining :: bool
  cs_now :: int
  cs_world :: 'w
  cs_fired :: "(nat \<times> int \<times> CronJob) list"

definition goto_pc :: "loop_pc \<Rightarrow> 'w CronScheduler \<Rightarrow> 'w CronScheduler" where
  "goto_pc pc s = s\<lparr>cs_worker := Some pc\<rparr>"

definition cron_run_id :: "CronJob \<Rightarrow> int \<Rightarrow> string \<Rightarrow> string" where
  "cron_run_id job now rnd =
     ''cron_'' @ job_id job @ ''_'' @ to_string_int (now div 1000000) @ ''_'' @ rnd"

abbreviation ns_per_second :: int where "ns_per_second \<equiv> 1000000000"

text \<open>The lambda of the loop: the copy to dispatch; an exception of \<^verbatim>\<open>next\<close> leaves the thread function.\<close>

definition take_job :: "(int \<Rightarrow> tm) \<Rightarrow> nat \<Rightarrow> nat list \<Rightarrow> 'w CronScheduler \<Rightarrow> 'w CronScheduler" where
  "take_job lt idx rest s =
     (if length (cs_jobs s) \<le> idx then
        (case cs_jobs s of
           [] \<Rightarrow> goto_pc LUndefined s
         | job # _ \<Rightarrow> goto_pc (LDispatch job rest) (s\<lparr>cs_fired := cs_fired s @ [(0, cs_now s, job)]\<rparr>))
      else
        (let copy = cs_jobs s ! idx in
         case cron_next (job_cronExpr copy) lt (cs_now s) of
           Inl e \<Rightarrow> goto_pc LTerminated s
         | Inr t \<Rightarrow>
             goto_pc (LDispatch copy rest)
               (s\<lparr>cs_jobs := (cs_jobs s)[idx := copy\<lparr>job_nextTime := t\<rparr>],
                  cs_fired := cs_fired s @ [(idx, cs_now s, copy)]\<rparr>)))"

fun loop_step ::
  "('w, 'z) cron_env_scheme \<Rightarrow> (int \<Rightarrow> tm) \<Rightarrow> string \<Rightarrow> loop_pc \<Rightarrow> 'w CronScheduler \<Rightarrow> 'w CronScheduler option" where
  "loop_step E lt rnd LTop s = Some (goto_pc (if cs_stopping s then LExited else LScan) s)"
| "loop_step E lt rnd LScan s =
     (let scan = scanJobsLocked (cs_now s) (cs_jobs s) in
      Some (goto_pc
        (if \<not> hasJob scan then LNoJobs
         else if pendingIndices scan \<noteq> [] then LFire (pendingIndices scan)
         else (let d = nearestNext scan - cs_now s in LWaitFor (if d \<le> 0 then ns_per_second else d))) s))"
| "loop_step E lt rnd LNoJobs s =
     Some (goto_pc (if cs_stopping s \<or> cs_jobs s \<noteq> [] then LTop else LNoJobsBlock) s)"
| "loop_step E lt rnd LNoJobsBlock s = Some (goto_pc LNoJobsBlocked s)"
| "loop_step E lt rnd LNoJobsBlocked s = None"
| "loop_step E lt rnd (LFire []) s = Some (goto_pc LTop s)"
| "loop_step E lt rnd (LFire (idx # rest)) s = Some (take_job lt idx rest s)"
| "loop_step E lt rnd (LDispatch job rest) s =
     Some (goto_pc (LFire rest)
       (s\<lparr>cs_world := snd (dispatch_job E job (cron_run_id job (cs_now s) rnd) (cs_world s))\<rparr>))"
| "loop_step E lt rnd (LWaitFor d) s = Some (goto_pc (LSleep (cs_now s + d)) s)"
| "loop_step E lt rnd (LSleep t) s = Some (goto_pc (if cs_stopping s then LTop else LSleepBlock t) s)"
| "loop_step E lt rnd (LSleepBlock t) s = Some (goto_pc (LAsleep t) s)"
| "loop_step E lt rnd (LAsleep t) s = (if t \<le> cs_now s then Some (goto_pc LTop s) else None)"
| "loop_step E lt rnd LExited s = None"
| "loop_step E lt rnd LTerminated s = None"
| "loop_step E lt rnd LUndefined s = None"

subsection \<open>The operations of other threads\<close>

definition mutex_held :: "'w CronScheduler \<Rightarrow> bool" where
  "mutex_held s =
     (case cs_worker s of
        Some LNoJobs \<Rightarrow> True | Some LNoJobsBlock \<Rightarrow> True | Some (LWaitFor d) \<Rightarrow> True
      | Some (LSleep t) \<Rightarrow> True | Some (LSleepBlock t) \<Rightarrow> True | _ \<Rightarrow> False)"

fun woken :: "loop_pc \<Rightarrow> loop_pc" where
  "woken LNoJobsBlocked = LNoJobs"
| "woken (LAsleep t) = LSleep t"
| "woken pc = pc"

definition notify_all :: "'w CronScheduler \<Rightarrow> 'w CronScheduler" where
  "notify_all s = s\<lparr>cs_worker := map_option woken (cs_worker s)\<rparr>"

definition cron_start :: "'w CronScheduler \<Rightarrow> 'w CronScheduler" where
  "cron_start s =
     (if \<not> cs_started s \<and> cs_worker s = None
      then s\<lparr>cs_stopping := False, cs_worker := Some LTop, cs_started := True\<rparr> else s)"

definition cron_stop_begin :: "'w CronScheduler \<Rightarrow> 'w CronScheduler" where
  "cron_stop_begin s =
     (if cs_started s then notify_all (s\<lparr>cs_stopping := True, cs_joining := True\<rparr>) else s)"

definition cron_stop_join :: "'w CronScheduler \<Rightarrow> 'w CronScheduler option" where
  "cron_stop_join s =
     (if cs_joining s \<and> (cs_worker s = None \<or> cs_worker s = Some LExited)
      then Some (s\<lparr>cs_worker := None, cs_joining := False, cs_started := False\<rparr>) else None)"

definition addJob :: "CronJob \<Rightarrow> 'w CronScheduler \<Rightarrow> string \<times> 'w CronScheduler" where
  "addJob job s =
     (let i = (if job_id job = [] then ''job_'' @ to_string_int (int (length (cs_jobs s) + 1)) else job_id job)
      in (i, notify_all (s\<lparr>cs_jobs := cs_jobs s @ [job\<lparr>job_id := i\<rparr>]\<rparr>)))"

definition removeJob :: "string \<Rightarrow> 'w CronScheduler \<Rightarrow> 'w CronScheduler" where
  "removeJob i s = notify_all (s\<lparr>cs_jobs := filter (\<lambda>j. job_id j \<noteq> i) (cs_jobs s)\<rparr>)"

definition listJobs :: "'w CronScheduler \<Rightarrow> CronJob list" where
  "listJobs s = cs_jobs s"

datatype cron_choice =
    CLoop string | CTick nat | CAdd CronJob | CRemove string | CStart | CStopBegin | CStopJoin | CSpurious

definition cron_act ::
  "('w, 'z) cron_env_scheme \<Rightarrow> (int \<Rightarrow> tm) \<Rightarrow> cron_choice \<Rightarrow> 'w CronScheduler \<Rightarrow> 'w CronScheduler option" where
  "cron_act E lt c s =
     (case c of
        CLoop rnd \<Rightarrow> (case cs_worker s of None \<Rightarrow> None | Some pc \<Rightarrow> loop_step E lt rnd pc s)
      | CTick n \<Rightarrow> Some (s\<lparr>cs_now := cs_now s + int n\<rparr>)
      | CAdd job \<Rightarrow> if mutex_held s then None else Some (snd (addJob job s))
      | CRemove i \<Rightarrow> if mutex_held s then None else Some (removeJob i s)
      | CStart \<Rightarrow> Some (cron_start s)
      | CStopBegin \<Rightarrow> if cs_joining s then None else Some (cron_stop_begin s)
      | CStopJoin \<Rightarrow> cron_stop_join s
      | CSpurious \<Rightarrow> Some (notify_all s))"

fun cron_run ::
  "('w, 'z) cron_env_scheme \<Rightarrow> (int \<Rightarrow> tm) \<Rightarrow> cron_choice list \<Rightarrow> 'w CronScheduler \<Rightarrow> 'w CronScheduler option" where
  "cron_run E lt [] s = Some s"
| "cron_run E lt (c # cs) s =
     (case cron_act E lt c s of None \<Rightarrow> None | Some s' \<Rightarrow> cron_run E lt cs s')"

definition cron_init :: "CronJob list \<Rightarrow> int \<Rightarrow> 'w \<Rightarrow> 'w CronScheduler" where
  "cron_init js now w =
     \<lparr>cs_jobs = js, cs_stopping = False, cs_started = False, cs_worker = None, cs_joining = False,
      cs_now = now, cs_world = w, cs_fired = []\<rparr>"

subsection \<open>Each due time fires once\<close>

lemma scan_loop_pending:
  "snd (scan_loop now i near pend js) =
     pend @ map (\<lambda>k. k + i) (filter (\<lambda>k. job_enabled (js ! k) \<and> job_nextTime (js ! k) \<le> now) [0..<length js])"
proof (induction js arbitrary: i near pend)
  case (Cons job js)
  have u: "[0..<length (job # js)] = 0 # map Suc [0..<length js]"
    by (simp only: map_Suc_upt upt_conv_Cons length_Cons zero_less_Suc)
  have f: "filter P (map Suc xs) = map Suc (filter (\<lambda>k. P (Suc k)) xs)" for P xs
    by (induction xs) auto
  show ?case unfolding u by (simp add: Cons.IH f comp_def del: upt_Suc)
qed simp

definition due :: "int \<Rightarrow> CronJob \<Rightarrow> bool" where
  "due now j \<longleftrightarrow> job_enabled j \<and> job_nextTime j \<le> now"

lemma scan_pending:
  "pendingIndices (scanJobsLocked now js) = filter (\<lambda>k. due now (js ! k)) [0..<length js]"
  using scan_loop_pending [of now 0 None "[]" js]
  by (auto simp: scanJobsLocked_def due_def split: prod.splits)

definition last_fire :: "nat \<Rightarrow> (nat \<times> int \<times> CronJob) list \<Rightarrow> int option" where
  "last_fire i fs = (let xs = filter (\<lambda>f. fst f = i) fs in if xs = [] then None else Some (fst (snd (last xs))))"

lemma last_fire_Nil [simp]: "last_fire i [] = None"
  by (simp add: last_fire_def)

lemma last_fire_snoc [simp]:
  "last_fire i (fs @ [(k, t, j)]) = (if k = i then Some t else last_fire i fs)"
  by (simp add: last_fire_def Let_def)

lemma last_fire_mem: "last_fire i fs = Some t \<Longrightarrow> \<exists>j. (i, t, j) \<in> set fs"
proof (induction fs rule: rev_induct)
  case (snoc f fs)
  obtain k u j where "f = (k, u, j)" by (cases f)
  with snoc show ?case by (auto split: if_splits)
qed simp

text \<open>Why a job has the next time it has: its own, or the one computed when it last fired.\<close>

definition planned :: "(int \<Rightarrow> tm) \<Rightarrow> int option \<Rightarrow> CronJob \<Rightarrow> bool" where
  "planned lt prev j =
     (case prev of None \<Rightarrow> True | Some t \<Rightarrow> cron_next (job_cronExpr j) lt t = Inr (job_nextTime j))"

fun pending_of :: "loop_pc option \<Rightarrow> nat list" where
  "pending_of (Some (LFire is)) = is"
| "pending_of (Some (LDispatch j is)) = is"
| "pending_of _ = []"

definition cron_inv :: "(int \<Rightarrow> tm) \<Rightarrow> 'w CronScheduler \<Rightarrow> bool" where
  "cron_inv lt s \<longleftrightarrow>
     (\<forall>(i, t, j) \<in> set (cs_fired s). i < length (cs_jobs s) \<and> due t j \<and> 0 \<le> t \<and> t \<le> cs_now s)
   \<and> (\<forall>i < length (cs_jobs s). planned lt (last_fire i (cs_fired s)) (cs_jobs s ! i))
   \<and> (\<forall>pre i t j post. cs_fired s = pre @ (i, t, j) # post \<longrightarrow> planned lt (last_fire i pre) j)
   \<and> distinct (pending_of (cs_worker s))
   \<and> (\<forall>i \<in> set (pending_of (cs_worker s)). i < length (cs_jobs s) \<and> due (cs_now s) (cs_jobs s ! i))
   \<and> 0 \<le> cs_now s"

lemma pending_of_woken [simp]: "pending_of (map_option woken pc) = pending_of pc"
  by (cases pc) (simp, rename_tac p, case_tac p, simp_all)

lemma cron_inv_frame:
  assumes "cron_inv lt s" and "cs_fired s' = cs_fired s" and "cs_jobs s' = cs_jobs s @ js"
    and "cs_now s \<le> cs_now s'" and "\<exists>k. pending_of (cs_worker s') = drop k (pending_of (cs_worker s))"
  shows "cron_inv lt s'"
proof -
  have none: "last_fire i (cs_fired s) = None" if "length (cs_jobs s) \<le> i" for i
    using last_fire_mem [of i "cs_fired s"] assms(1) that
    by (cases "last_fire i (cs_fired s)") (fastforce simp: cron_inv_def)+
  obtain k where k: "pending_of (cs_worker s') = drop k (pending_of (cs_worker s))" using assms(5) by blast
  have sub: "set (pending_of (cs_worker s')) \<subseteq> set (pending_of (cs_worker s))"
    by (simp add: k set_drop_subset)
  have "planned lt (last_fire i (cs_fired s)) (cs_jobs s' ! i)" if "i < length (cs_jobs s')" for i
    using assms(1,3) that none [of i] by (auto simp: cron_inv_def nth_append planned_def)
  moreover have "i < length (cs_jobs s') \<and> due (cs_now s') (cs_jobs s' ! i)"
    if "i \<in> set (pending_of (cs_worker s'))" for i
    using assms(1,3,4) subsetD [OF sub that] by (auto simp: cron_inv_def nth_append due_def)
  ultimately show ?thesis
    using assms by (fastforce simp: cron_inv_def k)
qed

lemma take_job_inv:
  assumes inv: "cron_inv lt s" and pc: "cs_worker s = Some (LFire (idx # rest))"
  shows "cron_inv lt (take_job lt idx rest s)"
proof -
  have p: "idx < length (cs_jobs s)" "due (cs_now s) (cs_jobs s ! idx)" "idx \<notin> set rest" "distinct rest"
    using inv pc by (auto simp: cron_inv_def)
  show ?thesis
  proof (cases "cron_next (job_cronExpr (cs_jobs s ! idx)) lt (cs_now s)")
    case (Inl e)
    then have "take_job lt idx rest s = goto_pc LTerminated s" using p by (simp add: take_job_def Let_def)
    then show ?thesis using cron_inv_frame [OF inv, of "goto_pc LTerminated s" "[]"]
      by (simp add: goto_pc_def) (metis drop_all order_refl)
  next
    case (Inr t)
    let ?j = "cs_jobs s ! idx"
    let ?s = "take_job lt idx rest s"
    have eq: "cs_jobs ?s = (cs_jobs s)[idx := ?j\<lparr>job_nextTime := t\<rparr>]"
      "cs_fired ?s = cs_fired s @ [(idx, cs_now s, ?j)]" "cs_worker ?s = Some (LDispatch ?j rest)"
      "cs_now ?s = cs_now s"
      using p Inr by (simp_all add: take_job_def Let_def goto_pc_def)
    have "planned lt (last_fire i (cs_fired ?s)) (cs_jobs ?s ! i)" if "i < length (cs_jobs s)" for i
      using inv p that Inr by (auto simp: eq cron_inv_def planned_def nth_list_update)
    moreover have "planned lt (last_fire i pre) j" if "cs_fired ?s = pre @ (i, u, j) # post" for pre i u j post
    proof (cases post rule: rev_cases)
      case Nil
      then show ?thesis using that inv p by (auto simp: eq cron_inv_def)
    next
      case (snoc post' f)
      then show ?thesis using that inv by (auto simp: eq cron_inv_def)
    qed
    moreover have "k < length (cs_jobs ?s) \<and> due (cs_now s) (cs_jobs ?s ! k)" if "k \<in> set rest" for k
      using inv pc p that by (auto simp: eq cron_inv_def nth_list_update)
    ultimately show ?thesis using inv p by (auto simp: cron_inv_def eq)
  qed
qed

lemma loop_step_inv:
  assumes inv: "cron_inv lt s" and pc: "cs_worker s = Some pc" and st: "loop_step E lt rnd pc s = Some s'"
  shows "cron_inv lt s'"
proof -
  have keep: ?thesis if "cs_fired s' = cs_fired s" "cs_jobs s' = cs_jobs s" "cs_now s' = cs_now s"
    "\<exists>k. pending_of (cs_worker s') = drop k (pending_of (cs_worker s))"
    using cron_inv_frame [OF inv, of s' "[]"] that by simp
  have none: "\<exists>k. [] = drop k (xs :: nat list)" for xs by (metis drop_all order_refl)
  show ?thesis
  proof (cases "(E, lt, rnd, pc, s)" rule: loop_step.cases)
    case (2 E' lt' rnd' s0)
    let ?p = "pendingIndices (scanJobsLocked (cs_now s) (cs_jobs s))"
    show ?thesis
    proof (cases "hasJob (scanJobsLocked (cs_now s) (cs_jobs s)) \<and> ?p \<noteq> []")
      case True
      then have s': "s' = goto_pc (LFire ?p) s" using st 2 by (auto simp: Let_def)
      show ?thesis using inv unfolding s' by (auto simp: cron_inv_def goto_pc_def scan_pending)
    next
      case False
      then show ?thesis using st 2 none by (intro keep) (auto simp: Let_def goto_pc_def split: if_splits)
    qed
  next
    case (7 E' lt' rnd' idx rest s0)
    then show ?thesis using take_job_inv [OF inv, of idx rest] pc st by auto
  next
    case (8 E' lt' rnd' job rest s0)
    then show ?thesis using st pc by (intro keep) (auto simp: goto_pc_def intro: exI [of _ 0])
  qed (use st none in \<open>(intro keep; force simp: goto_pc_def split: if_splits)+\<close>)
qed

lemma cron_act_inv:
  assumes inv: "cron_inv lt s" and st: "cron_act E lt c s = Some s'" and "\<forall>i. c \<noteq> CRemove i"
  shows "cron_inv lt s'"
proof -
  have zero: "\<exists>k. xs = drop k xs" for xs :: "nat list" by (rule exI [of _ 0]) simp
  have none: "\<exists>k. [] = drop k (xs :: nat list)" for xs by (metis drop_all order_refl)
  show ?thesis
  proof (cases c)
    case (CLoop rnd)
    then show ?thesis using st loop_step_inv [OF inv] by (auto simp: cron_act_def split: option.splits)
  next
    case (CAdd job)
    then show ?thesis using st zero
      by (intro cron_inv_frame [OF inv, of _ "[job\<lparr>job_id := fst (addJob job s)\<rparr>]"])
        (auto simp: cron_act_def addJob_def notify_all_def Let_def split: if_splits)
  next
    case (CRemove i)
    then show ?thesis using assms(3) by blast
  qed (use st zero none in \<open>(intro cron_inv_frame [OF inv, of _ "[]"];
        force simp: cron_act_def cron_start_def cron_stop_begin_def cron_stop_join_def notify_all_def
          split: if_splits)+\<close>)
qed

lemma cron_run_inv:
  "cron_run E lt cs s = Some s' \<Longrightarrow> cron_inv lt s \<Longrightarrow> \<forall>i. CRemove i \<notin> set cs \<Longrightarrow> cron_inv lt s'"
proof (induction cs arbitrary: s)
  case (Cons c cs)
  then obtain u where "cron_act E lt c s = Some u" "cron_run E lt cs u = Some s'"
    by (auto split: option.splits)
  with Cons cron_act_inv [of lt s E c u] show ?case by auto
qed simp

lemma cron_next_after:
  assumes "cron_next e lt now = Inr t" and "0 \<le> now" shows "now < t"
proof -
  let ?b = "trunc_minute now + ns_per_minute"
  have b: "now < ?b" using assms(2) by (auto simp: trunc_minute_def)
  have "case search e lt max_checks ?b of
      Inr t \<Rightarrow> (\<exists>k < max_checks. t = ?b + int k * ns_per_minute \<and> matches_lookup e (lt t)
                 \<and> (\<forall>j < k. \<not> matches_lookup e (lt (?b + int j * ns_per_minute))))
    | Inl x \<Rightarrow> x = NotWithinYear \<and> (\<forall>j < max_checks. \<not> matches_lookup e (lt (?b + int j * ns_per_minute)))"
    by (rule search_result)
  then obtain k where "t = ?b + int k * ns_per_minute"
    using assms(1) unfolding cron_next_def by (auto simp only: sum.case)
  then show ?thesis using b by linarith
qed

text \<open>C17. As long as no job is removed, a cron job fires when it is due and once per due time: in every
  interleaving of the loop with \<^verbatim>\<open>addJob\<close>, \<^verbatim>\<open>start\<close> and \<^verbatim>\<open>stop\<close>, a job that fires is enabled and its next time
  has come; and if it fired before, at \<open>t0\<close>, its next time is the one its expression gives for \<open>t0\<close>, which
  is later than \<open>t0\<close>.\<close>

theorem cron_fires_due_once:
  assumes "cron_run E lt cs (cron_init js now w) = Some s" and "0 \<le> now" and "\<forall>i. CRemove i \<notin> set cs"
    and "cs_fired s = pre @ (i, t, j) # post"
  shows "job_enabled j \<and> job_nextTime j \<le> t \<and> t \<le> cs_now s
    \<and> (case last_fire i pre of
          None \<Rightarrow> True
        | Some t0 \<Rightarrow> cron_next (job_cronExpr j) lt t0 = Inr (job_nextTime j) \<and> t0 < job_nextTime j)"
proof -
  have "cron_inv lt (cron_init js now w)"
    using assms(2) by (simp add: cron_inv_def cron_init_def planned_def)
  with cron_run_inv assms(1,3) have inv: "cron_inv lt s" by blast
  then have "planned lt (last_fire i pre) j" "due t j" "t \<le> cs_now s"
    using assms(4) by (auto simp: cron_inv_def)
  moreover have nonneg: "\<forall>(i, t, j) \<in> set (cs_fired s). 0 \<le> t" using inv by (auto simp: cron_inv_def)
  moreover have "0 \<le> t0" if "last_fire i pre = Some t0" for t0
    using last_fire_mem [OF that] nonneg assms(4) by fastforce
  ultimately show ?thesis
    by (auto simp: planned_def due_def cron_next_after split: option.splits)
qed

definition every_minute :: CronExpr where
  "every_minute = \<lparr>minutes = [0..59], hours = [0..23], days = [1..31], months = [1..12], weekdays = [0..6]\<rparr>"

lemma every_minute_next: "cron_next every_minute demo_tm now = Inr (trunc_minute now + ns_per_minute)"
proof -
  have ok: "expr_ok every_minute" by (auto simp: expr_ok_def every_minute_def)
  have "tm_ok (demo_tm t)" for t by (auto simp: tm_ok_def demo_tm_def Let_def)
  then have "matches_lookup every_minute (demo_tm t)" for t
    using matches_lookup_iff [OF ok, of "demo_tm t"]
    by (auto simp: cron_matches_def every_minute_def tm_ok_def)
  then have "search every_minute demo_tm (Suc 525599) t = Inr t" for t by (simp only: search.simps if_True)
  then show ?thesis unfolding cron_next_def by simp
qed

definition demo_job :: "string \<Rightarrow> int \<Rightarrow> CronJob" where
  "demo_job i t =
     \<lparr>job_id = i, job_name = i, job_spec = ''* * * * *'', job_targetType = UnknownTarget,
      job_cronExpr = every_minute, job_nextTime = t, job_enabled = True, job_taskTemplate = None,
      job_dagPayload = None, job_templatePayload = None\<rparr>"

definition demo_cron_env :: "unit cron_env" where
  "demo_cron_env =
     \<lparr>ce_run = (\<lambda>c w. (Inr default_TaskResult, w)), ce_runDag = (\<lambda>j r w. (Inr (failed_result []), w)),
      ce_persist = (\<lambda>ev w. w), ce_template = (\<lambda>_. None), ce_render = (\<lambda>t p. Inr JNull)\<rparr>"

lemmas cron_eval = cron_act_def cron_init_def cron_start_def goto_pc_def take_job_def scanJobsLocked_def
  every_minute_next trunc_minute_def dispatch_job_def notify_all_def removeJob_def mutex_held_def Let_def

theorem cron_fires_due_once_witness:
  "\<exists>s. cron_run demo_cron_env demo_tm
        ([CStart] @ [CLoop [], CLoop [], CLoop [], CLoop [], CLoop []] @ [CTick 60000000000] @ [CLoop [], CLoop [], CLoop []])
        (cron_init [demo_job ''a'' 0] 0 ()) = Some s
     \<and> length (cs_fired s) = 2
     \<and> job_nextTime (snd (snd (cs_fired s ! 1))) \<le> fst (snd (cs_fired s ! 1))
     \<and> fst (snd (cs_fired s ! 0)) < job_nextTime (snd (snd (cs_fired s ! 1)))"
proof -
  let ?cs = "[CStart] @ [CLoop [], CLoop [], CLoop [], CLoop [], CLoop []] @ [CTick 60000000000] @ [CLoop [], CLoop [], CLoop []]"
  have "\<exists>s. cron_run demo_cron_env demo_tm ?cs (cron_init [demo_job ''a'' 0] 0 ()) = Some s
      \<and> cs_fired s = [(0, 0, demo_job ''a'' 0)] @ (0, 60000000000, demo_job ''a'' 60000000000) # []"
    by (simp add: cron_eval demo_job_def)
  then obtain s where s: "cron_run demo_cron_env demo_tm ?cs (cron_init [demo_job ''a'' 0] 0 ()) = Some s"
    "cs_fired s = [(0, 0, demo_job ''a'' 0)] @ (0, 60000000000, demo_job ''a'' 60000000000) # []" by blast
  have "\<forall>i. CRemove i \<notin> set ?cs" by simp
  from cron_fires_due_once [OF s(1) _ this s(2)] s show ?thesis
    by (auto simp: last_fire_def Let_def)
qed

text \<open>Removing a job between the scan and the firing shifts the indices: a job that is not due fires.\<close>

lemma cron_removal_misfires:
  "\<exists>s. cron_run demo_cron_env demo_tm
        ([CStart, CLoop [], CLoop []] @ [CRemove ''a'', CLoop [], CLoop [], CLoop []])
        (cron_init [demo_job ''a'' 0, demo_job ''b'' 0, demo_job ''c'' 60000000000] 0 ()) = Some s
     \<and> cs_fired s = [(0, 0, demo_job ''b'' 0), (1, 0, demo_job ''c'' 60000000000)]
     \<and> \<not> due 0 (demo_job ''c'' 60000000000)"
  by (simp add: cron_eval demo_job_def due_def)

text \<open>\<^verbatim>\<open>stop\<close> raises its flag without the mutex: when that happens between the loop's check and its wait,
  the notification is lost and \<^verbatim>\<open>stop\<close> waits for a thread that nothing wakes.\<close>

lemma cron_stop_can_hang:
  "\<exists>s. cron_run E lt [CStart, CLoop [], CLoop [], CLoop [], CStopBegin, CLoop []] (cron_init [] 0 w) = Some s
     \<and> cs_joining s \<and> cs_stopping s \<and> cs_worker s = Some LNoJobsBlocked
     \<and> (\<forall>rnd. cron_act E lt (CLoop rnd) s = None) \<and> cron_act E lt CStopJoin s = None"
  by (simp add: cron_eval cron_stop_begin_def cron_stop_join_def)

text \<open>A job added while the loop sleeps does not shorten the sleep, whatever its next time is.\<close>

lemma cron_add_not_rescanned:
  assumes "cs_worker s = Some (LAsleep t)" and "\<not> cs_stopping s"
  shows "\<exists>s'. cron_run E lt [CAdd job, CLoop rnd, CLoop rnd'] s = Some s'
    \<and> cs_worker s' = Some (LAsleep t) \<and> cs_fired s' = cs_fired s"
  using assms by (simp add: cron_eval addJob_def)

subsection \<open>The body of a cron DAG\<close>

lemma collect_total: "(\<And>x. x \<in> set xs \<Longrightarrow> f (g x) = Inr (h x)) \<Longrightarrow> collect f (map g xs) = Inr (map h xs)"
  by (induction xs) auto

text \<open>The task the service makes of a scheduled one.\<close>

definition cron_spec :: "string \<Rightarrow> DagTaskSpec \<Rightarrow> DagTaskSpec" where
  "cron_spec runId sp =
     (let i = TaskId (tid_value (spec_id sp)) runId; c = spec_runnerCfg sp
      in \<lparr>spec_id = i, spec_deps = map (\<lambda>d. TaskId (tid_value d) runId) (spec_deps sp),
          spec_runnerCfg = c\<lparr>cfg_id := i, cfg_description := [], cancelable := True,
            priority := cap_priority (priority c),
            execParams := (execParams c)(''_nesting_depth'' \<mapsto> ''1'')\<rparr>\<rparr>)"

definition tagged_task :: "string \<Rightarrow> DagTaskSpec \<Rightarrow> json" where
  "tagged_task runId sp =
     JObj ((task_members (spec_runnerCfg sp))
        (''id'' \<mapsto> JStr (tid_value (spec_id sp)),
         ''deps'' \<mapsto> JArr (map (\<lambda>d. JStr (tid_value d)) (spec_deps sp)),
         ''run_id'' \<mapsto> JStr runId))"

lemma task_spec_tagged:
  assumes "config_fits (spec_runnerCfg sp)"
  shows "task_spec dump runId 1 (tagged_task runId sp) = Inr (cron_spec runId sp)"
proof -
  have "parseTaskConfigFromReq dump (tagged_task runId sp) =
      Inr ((spec_runnerCfg sp)\<lparr>cfg_id := TaskId (tid_value (spec_id sp)) [], cfg_description := [],
             cancelable := True, priority := cap_priority (priority (spec_runnerCfg sp))\<rparr>)"
    unfolding tagged_task_def by (rule parse_task_members [OF assms]) (auto simp: task_members_def)
  moreover have "deps_json runId (tagged_task runId sp) = Inr (map (\<lambda>d. TaskId (tid_value d) runId) (spec_deps sp))"
    by (simp add: deps_json_def tagged_task_def collect_total)
  moreover have "to_string_int 1 = ''1''" by code_simp
  ultimately show ?thesis
    by (simp add: task_spec_def cron_spec_def Let_def)
qed

text \<open>A scheduled DAG runs as it was registered: the JSON body \<^verbatim>\<open>dispatch_dag_job\<close> builds, with the run id
  put in, is accepted by \<^verbatim>\<open>DagService::runDag\<close> and read back as the registered tasks in order, with their
  ids and dependencies in this run, and the registered failure policy and limit; only the description
  and cancelable flag are dropped, Critical is capped to High and the nesting depth is 1.\<close>

theorem cron_dag_body_roundtrip:
  assumes "\<forall>sp \<in> set (djp_specs d). config_fits (spec_runnerCfg sp)" and "runId \<noteq> []"
  shows "\<exists>body. injectRunId (cron_dag_body job d) runId = Inr body
    \<and> runDag_body dump what fresh body ''manual'' runId =
        (persistRunAndTasks runId body ''manual'' [],
         Inr (Ready (map (cron_spec runId) (djp_specs d))
           \<lparr>dagId = runId, dag_name = job_name job, failPolicy = failPolicy (djp_config d),
            maxParallel_cfg = maxParallel_cfg (djp_config d)\<rparr> runId))"
proof -
  let ?ts = "map (tagged_task runId) (djp_specs d)"
  let ?cm = "[''fail_policy'' \<mapsto>
                JStr (if failPolicy (djp_config d) = FailFast then ''FailFast'' else ''SkipDownstream''),
              ''max_parallel'' \<mapsto> JInt (uint (maxParallel_cfg (djp_config d))),
              ''cron_job_id'' \<mapsto> JStr (job_id job), ''name'' \<mapsto> JStr (job_name job)]"
  define body where "body = JObj [''name'' \<mapsto> JStr (job_name job), ''config'' \<mapsto> JObj ?cm, ''tasks'' \<mapsto> JArr ?ts]"
  have "collect (put_member ''run_id'' (JStr runId)) (map cron_task_json (djp_specs d)) = Inr ?ts"
    by (rule collect_total) (simp add: cron_task_json_def tagged_task_def)
  then have i: "injectRunId (cron_dag_body job d) runId = Inr body"
    by (simp add: injectRunId_def cron_dag_body_def body_def)
  have u: "get_uint (JInt (uint (maxParallel_cfg (djp_config d)))) = Inr (uint (maxParallel_cfg (djp_config d)))"
    using uint_bounded [of "maxParallel_cfg (djp_config d)"] by (simp add: get_uint_def)
  have f: "failPolicy (djp_config d) = FailFast \<or> failPolicy (djp_config d) = SkipDownstream"
    by (cases "failPolicy (djp_config d)") auto
  have c: "from_json body [] = Inr \<lparr>dagId = [], dag_name = job_name job, failPolicy = failPolicy (djp_config d),
      maxParallel_cfg = maxParallel_cfg (djp_config d)\<rparr>"
    using f by (auto simp: from_json_def body_def value_or_JObj u default_DagConfig_def)
  have d: "parent_depth body = 0" "tasks_of body = Some ?ts"
    by (simp_all add: parent_depth_def tasks_of_def body_def)
  have t: "collect (task_spec dump runId 1) ?ts = Inr (map (cron_spec runId) (djp_specs d))"
    by (rule collect_total) (use assms(1) task_spec_tagged in blast)
  have w: "wrap_signed 32 (0 + 1) = 1" by code_simp
  show ?thesis
    using assms(2) by (intro exI [of _ body]) (simp only: i runDag_body_def Let_def c d w; simp add: t)
qed

definition demo_dag_payload :: DagJobPayload where
  "demo_dag_payload =
     \<lparr>djp_specs = [\<lparr>spec_id = TaskId ''a'' [], spec_deps = [], spec_runnerCfg = default_TaskConfig\<rparr>,
                   \<lparr>spec_id = TaskId ''b'' [], spec_deps = [TaskId ''a'' []], spec_runnerCfg = default_TaskConfig\<rparr>],
      djp_config = default_DagConfig, djp_callbacks = service_callbacks\<rparr>"

theorem cron_dag_body_roundtrip_witness:
  "\<exists>body. injectRunId (cron_dag_body (demo_job ''j'' 0) demo_dag_payload) ''r'' = Inr body
    \<and> runDag_body (\<lambda>_. []) (\<lambda>_. []) [] body ''manual'' ''r'' =
        (persistRunAndTasks ''r'' body ''manual'' [],
         Inr (Ready (map (cron_spec ''r'') (djp_specs demo_dag_payload))
           \<lparr>dagId = ''r'', dag_name = ''j'', failPolicy = SkipDownstream, maxParallel_cfg = 4\<rparr> ''r''))"
proof -
  have "\<forall>sp \<in> set (djp_specs demo_dag_payload). config_fits (spec_runnerCfg sp)"
    by (simp add: demo_dag_payload_def config_fits_def default_TaskConfig_def int_range_def priority_of_int_def)
  from cron_dag_body_roundtrip [OF this, of "''r''" "demo_job ''j'' 0" "\<lambda>_. []" "\<lambda>_. []" "[]"]
  show ?thesis by (simp add: demo_dag_payload_def default_DagConfig_def demo_job_def)
qed

end
