(* ===== verification/Task_Api.thy ===== *)
theory Task_Api
  imports Auth_Manager Worker_Pool Cron_Scheduler
begin

text \<open>
  The handlers that change tasks and cron jobs: \<^verbatim>\<open>handlers/task_handler.cpp\<close> (create, list, detail, cancel),
  \<^verbatim>\<open>handlers/cron_handler.cpp\<close> and the statistics of \<^verbatim>\<open>handlers/system_handler.cpp\<close>, as functions from the
  request to the response, the broadcasts and the new state.  \<open>Inl\<close> is an exception that leaves the handler
  (the HTTP library answers it).  The texts of exceptions are arguments.
\<close>

subsection \<open>Tasks\<close>

text \<open>The id the route's pattern of digits captured, as \<^verbatim>\<open>std::stoull\<close> reads it.\<close>

definition stoull :: "string \<Rightarrow> (64 word) result" where
  "stoull ds =
     (if digits_val ds < 2 ^ 64 then Inr (of_nat (digits_val ds)) else Inl (OutOfRange ''stoull''))"

definition task_item :: "Task \<Rightarrow> json" where
  "task_item t =
     JObj [''id'' \<mapsto> JInt (uint (task_id t)), ''name'' \<mapsto> JStr (task_name t), ''type'' \<mapsto> JInt (task_type t),
           ''status'' \<mapsto> JStr (status_to_string (task_status t)), ''create_time'' \<mapsto> JStr (create_time t),
           ''update_time'' \<mapsto> JStr (update_time t), ''params'' \<mapsto> task_params t,
           ''exit_code'' \<mapsto> JInt (exit_code t), ''last_output'' \<mapsto> JStr (last_output t),
           ''last_error'' \<mapsto> JStr (last_error t), ''max_retries'' \<mapsto> JInt (max_retries t),
           ''retry_count'' \<mapsto> JInt (retry_count t), ''timeout_sec'' \<mapsto> JInt (timeout_sec t),
           ''cancel_flag'' \<mapsto> JBool (cancel_flag t)]"

text \<open>Everything the handler throws is answered with code 1002.\<close>

definition task_create ::
  "(string \<Rightarrow> string + json) \<Rightarrow> (json \<Rightarrow> string) \<Rightarrow> string \<Rightarrow> db_outcome \<Rightarrow> string \<Rightarrow> TaskManager \<Rightarrow> WorkerPool
    \<Rightarrow> response \<times> json list \<times> TaskManager \<times> WorkerPool" where
  "task_create parse dump now oc body tm p =
     (let bad = bad_request ''Invalid JSON'' 1002 in
      case parse body of
        Inl err \<Rightarrow> (bad, [], tm, p)
      | Inr j \<Rightarrow>
          (case value_or get_string ''name'' [] j of
             Inl e \<Rightarrow> (bad, [], tm, p)
           | Inr nm \<Rightarrow>
               if nm = [] then (bad_request ''Missing 'name' field'' 1001, [], tm, p)
               else
                 (case (value_or get_int ''type'' 0 j, value_or Inr ''params'' (JObj Map.empty) j) of
                    (Inr ty, Inr params) \<Rightarrow>
                      (case add_task dump now oc nm ty params tm of
                         (Inl e, tm') \<Rightarrow> (bad, [], tm', p)
                       | (Inr i, tm') \<Rightarrow>
                           (let p' = wp_submit_id tm' (wrap_signed 32 (uint i)) p
                            in case get_task i tm' of
                                 None \<Rightarrow> (bad, [], tm', p')
                               | Some t \<Rightarrow> (resp_ok (JObj [''id'' \<mapsto> JInt (uint i)]),
                                            [task_event ''task_created'' t], tm', p')))
                  | _ \<Rightarrow> (bad, [], tm, p))))"

definition task_list :: "TaskManager \<Rightarrow> response" where
  "task_list tm = resp_ok (JArr (map task_item (list_tasks tm)))"

definition task_detail :: "string \<Rightarrow> TaskManager \<Rightarrow> response result" where
  "task_detail ds tm =
     bind (stoull ds) (\<lambda>i.
       Inr (case get_task i tm of
              None \<Rightarrow> not_found ''Task not found'' 1003
            | Some t \<Rightarrow> resp_ok (task_item t)))"

definition finished :: "TStatus \<Rightarrow> bool" where
  "finished st \<longleftrightarrow> st = TSuccess \<or> st = TFailed \<or> st = TCanceled \<or> st = TTimeout"

definition task_cancel ::
  "(json \<Rightarrow> string) \<Rightarrow> string \<Rightarrow> db_outcome \<Rightarrow> string \<Rightarrow> TaskManager \<Rightarrow> (response \<times> json list) result \<times> TaskManager" where
  "task_cancel dump now oc ds tm =
     (case stoi ds of
        Inl e \<Rightarrow> (Inl e, tm)
      | Inr n \<Rightarrow>
          (let i = word_of_int n in
           case get_task i tm of
             None \<Rightarrow> (Inr (resp_error 1003 ''Task not found'' 200, []), tm)
           | Some t \<Rightarrow>
               if finished (task_status t) then (Inr (resp_error 1004 ''Task already finished'' 200, []), tm)
               else
                 (let t' = t\<lparr>cancel_flag := True, update_time := now\<rparr>;
                      tm1 = poke i (\<lambda>t. t\<lparr>cancel_flag := True, update_time := now\<rparr>) tm;
                      tm2 = snd (updateTask dump oc t' tm1)
                  in (Inr (resp_ok JNull, [task_event ''task_updated'' t']), tm2))))"

definition system_stats :: "WorkerPool \<Rightarrow> nat \<Rightarrow> response" where
  "system_stats p sessions =
     (let s = wp_stats p in
      resp_ok (JObj
        [''worker_pool'' \<mapsto> JObj
           [''workers'' \<mapsto> JInt (int (st_workers s)), ''queued'' \<mapsto> JInt (int (st_queued s)),
            ''running'' \<mapsto> JInt (int (st_running s)), ''submitted'' \<mapsto> JInt (int (st_submitted s)),
            ''finished'' \<mapsto> JInt (int (st_finished s))],
         ''ws'' \<mapsto> JObj [''sessions'' \<mapsto> JInt (int sessions)]]))"

subsection \<open>Cron jobs\<close>

fun target_name :: "CronTargetType \<Rightarrow> string" where
  "target_name SingleTask = ''SingleTask''"
| "target_name DagTarget = ''Dag''"
| "target_name TemplateTarget = ''Template''"
| "target_name UnknownTarget = ''Unknown''"

definition job_summary :: "CronJob \<Rightarrow> json" where
  "job_summary job =
     (case (job_targetType job, job_taskTemplate job, job_templatePayload job) of
        (SingleTask, Some cfg, _) \<Rightarrow>
          JObj [''exec_type'' \<mapsto> JStr (TaskExecTypetoString (execType cfg)), ''exec_command'' \<mapsto> JStr (execCommand cfg)]
      | (TemplateTarget, _, Some p) \<Rightarrow> JObj [''template_id'' \<mapsto> JStr (tjp_templateId p)]
      | _ \<Rightarrow> JObj Map.empty)"

text \<open>\<^verbatim>\<open>duration_cast\<close> to seconds truncates towards zero.\<close>

definition epoch_seconds :: "int \<Rightarrow> int" where
  "epoch_seconds t = (if t < 0 then - (- t div ns_per_second) else t div ns_per_second)"

definition job_item :: "CronJob \<Rightarrow> json" where
  "job_item job =
     JObj [''id'' \<mapsto> JStr (job_id job), ''name'' \<mapsto> JStr (job_name job), ''spec'' \<mapsto> JStr (job_spec job),
           ''enabled'' \<mapsto> JBool (job_enabled job), ''target_type'' \<mapsto> JStr (target_name (job_targetType job)),
           ''next_time_epoch'' \<mapsto> JInt (epoch_seconds (job_nextTime job)), ''summary'' \<mapsto> job_summary job]"

definition list_jobs :: "'w CronScheduler \<Rightarrow> response" where
  "list_jobs s = resp_ok (JObj [''ok'' \<mapsto> JBool True, ''jobs'' \<mapsto> JArr (map job_item (listJobs s))])"

text \<open>Text or number; anything else, or a conversion that throws, is Normal.\<close>

definition cron_priority :: "json option \<Rightarrow> TaskPriority" where
  "cron_priority v =
     (case v of
        Some (JStr s) \<Rightarrow>
          (let l = tolower s in
           if l = ''low'' then Low else if l = ''high'' then High else if l = ''critical'' then Critical else Normal)
      | Some (JInt n) \<Rightarrow>
          (case get_int (JInt n) of
             Inl e \<Rightarrow> Normal
           | Inr p \<Rightarrow> priority_of_int (if p < toPriorityInt Low then toPriorityInt Low
                                       else if toPriorityInt Critical < p then toPriorityInt Critical else p))
      | _ \<Rightarrow> Normal)"

definition cron_single_task :: "string \<Rightarrow> json \<Rightarrow> TaskConfig result" where
  "cron_single_task nm t =
     bind (value_or get_string ''id'' ''task'' t) (\<lambda>i.
     bind (value_or get_string ''name'' nm t) (\<lambda>n.
     bind (value_or get_string ''exec_type'' ''Local'' t) (\<lambda>et.
     bind (value_or get_string ''exec_command'' [] t) (\<lambda>cmd.
     bind (value_or get_int ''timeout_ms'' 0 t) (\<lambda>tmo.
     bind (value_or get_int ''retry_count'' 0 t) (\<lambda>rc.
       Inr (default_TaskConfig
         \<lparr>cfg_id := TaskId i [], cfg_name := n, execType := StringToTaskExecType et, execCommand := cmd,
          cfg_timeout := (if 0 < tmo then tmo else cfg_timeout default_TaskConfig), retryCount := rc,
          priority := cron_priority (member ''priority'' t)\<rparr>)))))))"

definition json_elems :: "key_order \<Rightarrow> json \<Rightarrow> json list" where
  "json_elems keys j =
     (case j of JArr xs \<Rightarrow> xs | JObj m \<Rightarrow> List.map_filter m (keys m) | JNull \<Rightarrow> [] | v \<Rightarrow> [v])"

text \<open>\<open>None\<close>: a task without an id is passed over.\<close>

definition cron_dag_task :: "key_order \<Rightarrow> json \<Rightarrow> DagTaskSpec option result" where
  "cron_dag_task keys jt =
     bind (value_or get_string ''id'' [] jt) (\<lambda>i.
       if i = [] then Inr None
       else
         bind (collect (\<lambda>d. bind (get_string d) (\<lambda>s. Inr (TaskId s [])))
                 (case member ''deps'' jt of None \<Rightarrow> [] | Some d \<Rightarrow> json_elems keys d)) (\<lambda>ds.
         bind (value_or get_string ''name'' i jt) (\<lambda>n.
         bind (value_or get_int ''timeout_ms'' 0 jt) (\<lambda>tmo.
         bind (value_or get_int ''retry_count'' 0 jt) (\<lambda>rc.
         bind (value_or get_int ''retryDelay'' 1000 jt) (\<lambda>rd.
         bind (value_or get_string ''exec_type'' ''Local'' jt) (\<lambda>et.
         bind (value_or get_string ''exec_command'' [] jt) (\<lambda>cmd.
           Inr (Some \<lparr>spec_id = TaskId i [], spec_deps = ds,
             spec_runnerCfg = default_TaskConfig
               \<lparr>cfg_id := TaskId i [], cfg_name := n, cfg_timeout := tmo, retryCount := rc, retryDelay := rd,
                execType := StringToTaskExecType et, execCommand := cmd\<rparr>\<rparr>)))))))))"

definition cron_dag_config :: "json \<Rightarrow> DagConfig result" where
  "cron_dag_config jdag =
     (case member ''config'' jdag of
        None \<Rightarrow> Inr default_DagConfig
      | Some jcfg \<Rightarrow>
          bind (value_or get_string ''fail_policy'' ''SkipDownstream'' jcfg) (\<lambda>policy.
          bind (value_or get_uint ''max_parallel'' (uint (maxParallel_cfg default_DagConfig)) jcfg) (\<lambda>mp.
            Inr (default_DagConfig
              \<lparr>failPolicy := (if policy = ''FailFast'' then FailFast else SkipDownstream),
               maxParallel_cfg := word_of_int mp\<rparr>))))"

text \<open>The rest of \<^verbatim>\<open>create_job\<close> after the job was constructed: the response of an early return, or the job
  with its payload.\<close>

definition cron_payload :: "key_order \<Rightarrow> string \<Rightarrow> json \<Rightarrow> CronJob \<Rightarrow> (response + CronJob) result" where
  "cron_payload keys nm body job =
     (let bad = (\<lambda>msg. Inr (Inl (resp_error 400 msg 400))) in
      case job_targetType job of
        DagTarget \<Rightarrow>
          (case member ''dag'' body of
             Some (JObj m) \<Rightarrow>
               bind (cron_dag_config (JObj m)) (\<lambda>cfg.
                 case m ''tasks'' of
                   Some (JArr ts) \<Rightarrow>
                     bind (collect (cron_dag_task keys) ts) (\<lambda>os.
                       let specs = List.map_filter id os in
                       if specs = [] then bad ''Dag tasks is empty''
                       else Inr (Inr (job\<lparr>job_dagPayload := Some \<lparr>djp_specs = specs, djp_config = cfg,
                              djp_callbacks = service_callbacks\<rparr>\<rparr>)))
                 | _ \<Rightarrow> bad ''Dag requires 'tasks' array'')
           | _ \<Rightarrow> bad ''Dag requires 'dag' object'')
      | TemplateTarget \<Rightarrow>
          (case member ''template'' body of
             Some (JObj m) \<Rightarrow>
               bind (value_or get_string ''template_id'' [] (JObj m)) (\<lambda>tid.
               bind (value_or Inr ''params'' (JObj Map.empty) (JObj m)) (\<lambda>params.
                 if tid = [] \<or> \<not> is_object params then bad ''template_id/params is required''
                 else Inr (Inr (job\<lparr>job_templatePayload := Some \<lparr>tjp_templateId = tid, tjp_params = params\<rparr>\<rparr>))))
           | _ \<Rightarrow> bad ''Template requires 'template' object'')
      | _ \<Rightarrow>
          (case member ''task'' body of
             None \<Rightarrow> bad ''SingleTask requires 'task' field''
           | Some t \<Rightarrow> bind (cron_single_task nm t) (\<lambda>cfg. Inr (Inr (job\<lparr>job_taskTemplate := Some cfg\<rparr>)))))"

text \<open>Exceptions end in the handler's own \<^verbatim>\<open>catch\<close>; \<open>what\<close> and \<open>cwhat\<close> are their texts.\<close>

definition create_job ::
  "(string \<Rightarrow> string + json) \<Rightarrow> (cpp_error \<Rightarrow> string) \<Rightarrow> (cron_error \<Rightarrow> string) \<Rightarrow> key_order \<Rightarrow> (int \<Rightarrow> tm)
    \<Rightarrow> string \<Rightarrow> 'w CronScheduler \<Rightarrow> response \<times> 'w CronScheduler" where
  "create_job parse what cwhat keys lt text s =
     (let invalid = (\<lambda>msg. (resp_error 400 (''invalid json: '' @ msg) 400, s)) in
      case parse text of
        Inl err \<Rightarrow> invalid err
      | Inr body \<Rightarrow>
          (case bind (value_or get_string ''name'' [] body) (\<lambda>nm.
                bind (value_or get_string ''spec'' [] body) (\<lambda>sp.
                bind (value_or get_string ''target_type'' ''SingleTask'' body) (\<lambda>ty. Inr (nm, sp, ty)))) of
             Inl e \<Rightarrow> invalid (what e)
           | Inr (nm, sp, ty) \<Rightarrow>
               if nm = [] \<or> sp = [] then (resp_error 400 ''name/spec is required'' 400, s)
               else
                 (let target = (if ty = ''Dag'' then DagTarget else if ty = ''Template'' then TemplateTarget
                                else SingleTask);
                      i = ''job_'' @ to_string_int (cs_now s div 1000000)
                  in case mk_CronJob lt (cs_now s) i nm sp target of
                       Inl ce \<Rightarrow> invalid (cwhat ce)
                     | Inr job \<Rightarrow>
                         (case cron_payload keys nm body job of
                            Inl e \<Rightarrow> invalid (what e)
                          | Inr (Inl r) \<Rightarrow> (r, s)
                          | Inr (Inr job') \<Rightarrow>
                              (resp_ok (JObj [''ok'' \<mapsto> JBool True, ''job_id'' \<mapsto> JStr (job_id job')]),
                               snd (addJob job' s))))))"

definition delete_job :: "string \<Rightarrow> 'w CronScheduler \<Rightarrow> response \<times> 'w CronScheduler" where
  "delete_job jobId s = (resp_ok (JObj [''ok'' \<mapsto> JBool True]), removeJob jobId s)"

subsection \<open>What a client sees\<close>

text \<open>Ids are handed out in order: every task has one below the next.\<close>

definition ids_below :: "TaskManager \<Rightarrow> bool" where
  "ids_below tm \<longleftrightarrow> (\<forall>t \<in> set (m_tasks tm). task_id t < m_next_id tm)"

lemma find_append: "find P (xs @ ys) = (case find P xs of None \<Rightarrow> find P ys | Some x \<Rightarrow> Some x)"
  by (induction xs) auto

lemma add_task_visible:
  assumes "add_task dump now oc nm ty params tm = (Inr i, tm')" and "ids_below tm"
  shows "i = m_next_id tm \<and> get_task i tm = None \<and> (\<exists>t. get_task i tm' = Some t \<and> task_name t = nm
    \<and> task_type t = ty \<and> task_params t = params \<and> task_status t = TPending \<and> \<not> cancel_flag t)
    \<and> (\<forall>k. k \<noteq> i \<longrightarrow> get_task k tm' = get_task k tm)"
proof -
  have n: "find (\<lambda>t. task_id t = m_next_id tm) (m_tasks tm) = None"
    using assms(2) by (auto simp: find_None_iff ids_below_def)
  show ?thesis
    using assms(1) n
    by (auto simp: add_task_def Let_def get_task_def find_append bind_eq_Inr split: sum.splits option.splits)
qed

lemma submit_narrow:
  fixes i :: "64 word"
  assumes "uint i < 2 ^ 31" shows "word_of_int (wrap_signed 32 (uint i)) = i"
proof -
  have "wrap_signed 32 (uint i) = uint i" using assms by (intro wrap_range) (simp add: int_range_def order_trans [of _ 0])
  then show ?thesis by simp
qed

lemma value_or_name: "value_or get_string k [] j = Inr s \<Longrightarrow> s \<noteq> [] \<Longrightarrow> member k j = Some (JStr s)"
  by (cases j) (auto simp: value_or_def split: option.splits elim: get_string.elims)

lemma cancel_pending:
  assumes "stoi ds = Inr (uint i)" and t: "get_task i tm = Some t" and "\<not> finished (task_status t)"
  shows "\<exists>t' tm'. task_cancel dump now oc ds tm = (Inr (resp_ok JNull, [task_event ''task_updated'' t']), tm')
    \<and> get_task i tm' = Some t' \<and> cancel_flag t'"
proof -
  define tm1 where "tm1 = poke i (\<lambda>t. t\<lparr>cancel_flag := True, update_time := now\<rparr>) tm"
  define t' where "t' = t\<lparr>cancel_flag := True, update_time := now\<rparr>"
  have g: "get_task i tm1 = Some t'" using t by (simp add: tm1_def t'_def)
  have "get_task i (snd (updateTask dump oc t' tm1)) = Some t'"
    using get_task_sync [of i dump oc i tm1] g by (simp add: sync_task_def)
  then show ?thesis
    using assms by (auto simp: task_cancel_def Let_def tm1_def t'_def)
qed


definition demo_body_parse :: "string \<Rightarrow> string + json" where
  "demo_body_parse s = Inr (JObj [''name'' \<mapsto> JStr s])"


end
