(* ===== verification/Text_Util.thy ===== *)
theory Text_Util
  imports Prelude
begin

text \<open>
  More of the C++ standard library on text, shared by the strategies and the HTTP handlers:
  \<^verbatim>\<open>std::toupper\<close>, \<^verbatim>\<open>std::stoll\<close>, \<^verbatim>\<open>std::atoi\<close> and \<^verbatim>\<open>std::string::find\<close> of a pattern.
\<close>

definition toupper_char :: "char \<Rightarrow> char" where
  "toupper_char c =
     (let n = of_char c :: nat in if 97 \<le> n \<and> n \<le> 122 then char_of (n - 32) else c)"

definition toupper :: "string \<Rightarrow> string" where
  "toupper s = map toupper_char s"

abbreviation ll_min :: int where "ll_min \<equiv> - (2 ^ 63)"
abbreviation ll_max :: int where "ll_max \<equiv> 2 ^ 63 - 1"

text \<open>The number a text starts with, as \<^verbatim>\<open>strtol\<close> reads it: white space, a sign, decimal digits.
  \<open>None\<close> if there is no digit.\<close>

definition leading_int :: "string \<Rightarrow> int option" where
  "leading_int s =
     (let s1 = dropWhile isspace s;
          neg = (s1 \<noteq> [] \<and> hd s1 = CHR ''-'');
          s2 = (if s1 \<noteq> [] \<and> (hd s1 = CHR ''-'' \<or> hd s1 = CHR ''+'') then tl s1 else s1);
          ds = takeWhile is_digit s2
      in if ds = [] then None else Some (if neg then - int (digits_val ds) else int (digits_val ds)))"

lemma stoi_leading_int:
  "stoi s = (case leading_int s of
     None \<Rightarrow> Inl (InvalidArgument ''stoi'')
   | Some v \<Rightarrow> if v < int_min \<or> int_max < v then Inl (OutOfRange ''stoi'') else Inr v)"
  by (simp add: stoi_def leading_int_def Let_def)

definition stoll :: "string \<Rightarrow> int result" where
  "stoll s =
     (case leading_int s of
        None \<Rightarrow> Inl (InvalidArgument ''stoll'')
      | Some v \<Rightarrow> if v < ll_min \<or> ll_max < v then Inl (OutOfRange ''stoll'') else Inr v)"

text \<open>\<^verbatim>\<open>std::atoi\<close> as the C library defines it: \<^verbatim>\<open>strtol\<close>, which saturates at the bounds of
  \<^verbatim>\<open>long\<close>, cut to an \<^verbatim>\<open>int\<close>.\<close>

definition atoi :: "string \<Rightarrow> int" where
  "atoi s =
     (case leading_int s of
        None \<Rightarrow> 0
      | Some v \<Rightarrow>
          (let l = (if v < ll_min then ll_min else if ll_max < v then ll_max else v);
               m = l mod 2 ^ 32
           in if m < 2 ^ 31 then m else m - 2 ^ 32))"

lemma leading_int_nat_digits:
  assumes "r = [] \<or> \<not> is_digit (hd r)"
  shows "leading_int (nat_digits n @ r) = Some (int n)"
proof -
  have h: "nat_digits n \<noteq> []" "is_digit (hd (nat_digits n))"
    by (simp, rule hd_nat_digits_is_digit)
  have d: "dropWhile isspace (nat_digits n @ r) = nat_digits n @ r"
    using h digit_not_space by (cases "nat_digits n") auto
  have t: "takeWhile is_digit (nat_digits n @ r) = nat_digits n"
    using nat_digits_all_digits [of n] assms
    by (cases r) (auto simp: list_all_iff takeWhile_append)
  show ?thesis
    using h digit_not_sign [OF h(2)] by (simp add: leading_int_def d t Let_def hd_append)
qed

lemma leading_int_to_string_int [simp]: "leading_int (to_string_int i) = Some i"
proof (cases "i < 0")
  case True
  have "\<not> isspace (CHR ''-'')" by (simp add: isspace_def)
  with True show ?thesis by (simp add: to_string_int_def leading_int_def Let_def)
next
  case False
  then show ?thesis using leading_int_nat_digits [of "[]" "nat i"] by (simp add: to_string_int_def)
qed

lemma stoll_to_string_int: "ll_min \<le> i \<Longrightarrow> i \<le> ll_max \<Longrightarrow> stoll (to_string_int i) = Inr i"
  by (simp add: stoll_def)

lemma atoi_nat_digits: "n < 2 ^ 31 \<Longrightarrow> atoi (nat_digits n) = int n"
  using leading_int_nat_digits [of "[]" n] by (simp add: atoi_def Let_def)

text \<open>\<open>split_text p s\<close>: the text before the first occurrence of \<open>p\<close>, and what follows it.\<close>

fun split_text :: "string \<Rightarrow> string \<Rightarrow> string \<times> string option" where
  "split_text p s =
     (if take (length p) s = p then ([], Some (drop (length p) s))
      else (case s of
              [] \<Rightarrow> ([], None)
            | x # xs \<Rightarrow> (case split_text p xs of (a, r) \<Rightarrow> (x # a, r))))"

declare split_text.simps [simp del]

lemma split_text_first:
  assumes "c \<notin> set a" and "p = c # q"
  shows "split_text p (a @ p @ b) = (a, Some b)"
  using assms
proof (induction a)
  case Nil
  then show ?case by (subst split_text.simps) simp
next
  case (Cons x a)
  then show ?case by (subst split_text.simps) auto
qed

lemma split_text_absent:
  assumes "c \<notin> set s" and "p = c # q"
  shows "split_text p s = (s, None)"
  using assms
proof (induction s)
  case Nil
  then show ?case by (subst split_text.simps) simp
next
  case (Cons x s)
  then show ?case by (subst split_text.simps) auto
qed

end
