(* ===== verification/Http_Strategy.thy ===== *)
theory Http_Strategy
  imports Remote_Strategy Text_Util
begin

text \<open>
  \<^verbatim>\<open>execution/http_strategy.cpp\<close>: running a task as one HTTP request.  The clock, the cancel flag and
  the HTTP client are operations on a world \<open>'w\<close>; what the server answers is unrestricted.  The order
  in which a hash map is iterated and the texts of the client's error codes are arguments.  Log events,
  output lines and requests are recorded in order.
\<close>

subsection \<open>The request\<close>

datatype http_content =
    NoContent
  | TextBody string string
  | FormBody "(string \<times> string) list"

record http_request =
  rq_host :: string
  rq_port :: int
  rq_method :: string
  rq_path :: string
  rq_headers :: "(string \<times> string) list"
  rq_content :: http_content
  rq_timeout :: "(int \<times> int) option"
  rq_basic_auth :: "(string \<times> string) option"
  rq_follow :: bool

record 'w http_env =
  ht_now :: "'w \<Rightarrow> int"
  ht_canceled :: "'w \<Rightarrow> bool"
  ht_order :: "(string \<rightharpoonup> string) \<Rightarrow> string list"
  ht_error_text :: "http_error \<Rightarrow> string"
  ht_call :: "http_request \<Rightarrow> 'w \<Rightarrow> http_reply \<times> 'w"

datatype http_event =
    HtLog LogLevel string int "string \<rightharpoonup> string"
  | HtLine bool string
  | HtCall http_request http_reply

definition push_text_as_stdout :: "TaskConfig \<Rightarrow> string \<Rightarrow> http_event list" where
  "push_text_as_stdout cfg text =
     (if \<not> captureOutput cfg then [] else map (HtLine True) (lines_of text))"

text \<open>Scheme, host, port and path of a URL.\<close>

definition parse_url :: "string \<Rightarrow> string \<times> string \<times> int \<times> string" where
  "parse_url url =
     (let (scheme, rest) = (case split_text ''://'' url of
                              (a, Some b) \<Rightarrow> (a, b)
                            | (_, None) \<Rightarrow> (''http'', url));
          (hostPort, path) = (case split_at CHR ''/'' rest of
                                (h, Some p) \<Rightarrow> (h, CHR ''/'' # p)
                              | (_, None) \<Rightarrow> (rest, ''/''));
          (host, port) = (case split_at CHR '':'' hostPort of
                            (h, Some p) \<Rightarrow> (h, atoi p)
                          | (_, None) \<Rightarrow> (hostPort, if scheme = ''https'' then 443 else 80))
      in (scheme, host, port, path))"

definition remain_timeout :: "int \<Rightarrow> int \<Rightarrow> int \<times> int" where
  "remain_timeout d now =
     (let remain = (if d - now \<le> 0 then 1 else d - now)
      in (wrap_signed 32 (remain div 1000), remain mod 1000 * 1000))"

definition header_prefix :: "string \<Rightarrow> bool" where
  "header_prefix k \<longleftrightarrow> take 7 k = ''header.''"

definition request_headers :: "string list \<Rightarrow> (string \<rightharpoonup> string) \<Rightarrow> (string \<times> string) list" where
  "request_headers keys params =
     map (\<lambda>k. (drop 7 k, the (params k))) (filter (\<lambda>k. 7 < length k \<and> header_prefix k) keys)"

text \<open>\<^verbatim>\<open>httplib::Headers\<close> compares names without case; among equal names the first one inserted is found.\<close>

fun find_header :: "string \<Rightarrow> (string \<times> string) list \<Rightarrow> string option" where
  "find_header name [] = None"
| "find_header name ((k, v) # hs) = (if tolower k = tolower name then Some v else find_header name hs)"

text \<open>\<^verbatim>\<open>httplib::Params\<close> is a map ordered by key.\<close>

definition form_params :: "string list \<Rightarrow> (string \<rightharpoonup> string) \<Rightarrow> (string \<times> string) list" where
  "form_params keys params =
     map (\<lambda>k. (k, the (params k)))
       (sort (filter (\<lambda>k. k \<noteq> ''method'' \<and> k \<noteq> ''url'' \<and> k \<noteq> ''body'' \<and> \<not> header_prefix k) keys))"

text \<open>The content the method sends, \<open>None\<close> for a method the code does not support.\<close>

definition method_content ::
  "string \<Rightarrow> string \<Rightarrow> (string \<times> string) list \<Rightarrow> string list \<Rightarrow> (string \<rightharpoonup> string) \<Rightarrow> http_content option" where
  "method_content m body headers keys params =
     (if m = ''GET'' then Some NoContent
      else if m = ''POST'' then
        (if body \<noteq> [] then
           Some (TextBody body (case find_header ''Content-Type'' headers of Some t \<Rightarrow> t | None \<Rightarrow> ''text/plain''))
         else if form_params keys params \<noteq> [] then Some (FormBody (form_params keys params))
         else Some (TextBody [] ''text/plain''))
      else if m = ''PUT'' then Some (TextBody body ''text/plain'')
      else if m = ''DELETE'' then Some NoContent
      else None)"

subsection \<open>The result\<close>

definition http_error_prefix :: string where
  "http_error_prefix = ''TaskRunner: http '' @ bytes [0xE9,0x94,0x99,0xE8,0xAF,0xAF] @ '' ''"

definition http_status_prefix :: string where
  "http_status_prefix = ''TaskRunner: http '' @ bytes [0xE7,0x8A,0xB6,0xE6,0x80,0x81] @ '' ''"

definition http_canceled_text :: string where
  "http_canceled_text =
     ''TaskRunner'' @ bytes [0xEF,0xBC,0x9A,0xE5,0x9C,0xA8] @ ''http''
     @ bytes [0xE8,0xB0,0x83,0xE7,0x94,0xA8,0xE6,0x9C,0x9F,0xE9,0x97,0xB4,0xE5,0x8F,0x96,0xE6,0xB6,0x88]"

definition http_result ::
  "('w, 'z) http_env_scheme \<Rightarrow> TaskConfig \<Rightarrow> http_reply \<Rightarrow> 'w \<Rightarrow> TaskResult \<times> http_event list" where
  "http_result E cfg reply w =
     (if ht_canceled E w then (result_of Canceled http_canceled_text, [])
      else (case reply of
              NoResponse err \<Rightarrow>
                ((result_of Failed (http_error_prefix @ ht_error_text E err))\<lparr>stderrData := ht_error_text E err\<rparr>,
                 if captureOutput cfg then [HtLine False (ht_error_text E err)] else [])
            | Response st body \<Rightarrow>
                if 200 \<le> st \<and> st < 300
                then ((result_of Success [])\<lparr>stdoutData := body\<rparr>, push_text_as_stdout cfg body)
                else ((result_of Failed (http_status_prefix @ to_string_int st))\<lparr>stdoutData := body\<rparr>,
                      push_text_as_stdout cfg body)))"

definition reply_event :: "http_reply \<Rightarrow> int \<Rightarrow> http_event" where
  "reply_event reply dur =
     (case reply of
        Response st body \<Rightarrow>
          HtLog Debug ''http response received'' dur
            [''status_code'' \<mapsto> to_string_int st, ''body_bytes'' \<mapsto> to_string_int (int (length body))]
      | NoResponse _ \<Rightarrow> HtLog Warn ''http no response'' dur Map.empty)"
subsection \<open>Running the task\<close>

definition mk_request ::
  "('w, 'z) http_env_scheme \<Rightarrow> ExecutionContext \<Rightarrow> (int \<times> int) option \<Rightarrow> string \<Rightarrow> int \<Rightarrow> string
    \<Rightarrow> string \<Rightarrow> http_content \<Rightarrow> http_request" where
  "mk_request E c tmo host port path m content =
     (let params = execParams (config c);
          keys = ht_order E params;
          user = ctx_get c ''auth.user'' []
      in \<lparr>rq_host = host, rq_port = port, rq_method = m, rq_path = path,
          rq_headers = request_headers keys params, rq_content = content, rq_timeout = tmo,
          rq_basic_auth = (if user \<noteq> [] then Some (user, ctx_get c ''auth.pass'' []) else None),
          rq_follow = getBool c ''follow_redirects'' True\<rparr>)"

definition http_send ::
  "('w, 'z) http_env_scheme \<Rightarrow> ExecutionContext \<Rightarrow> int \<Rightarrow> (int \<times> int) option \<Rightarrow> string \<Rightarrow> int \<Rightarrow> string
    \<Rightarrow> 'w \<Rightarrow> TaskResult \<times> http_event list \<times> 'w" where
  "http_send E c start tmo host port path w =
     (let cfg = config c;
          params = execParams cfg;
          keys = ht_order E params;
          m = toupper (ctx_get c ''method'' ''GET'');
          headers = request_headers keys params;
          ev = [HtLog Info ''http request start'' 0
                  [''method'' \<mapsto> m, ''header_count'' \<mapsto> to_string_int (int (length headers))]]
      in case method_content m (ctx_get c ''body'' []) headers keys params of
           None \<Rightarrow>
             (result_of Failed
                (''TaskRunner: '' @ bytes [0xE4,0xB8,0x8D,0xE6,0x94,0xAF,0xE6,0x8C,0x81,0xE7,0x9A,0x84]
                 @ '' HTTP '' @ bytes [0xE6,0x96,0xB9,0xE6,0xB3,0x95] @ '' '' @ m), ev, w)
         | Some content \<Rightarrow>
             (let rq = mk_request E c tmo host port path m content;
                  (reply, w') = ht_call E rq w;
                  dur = ht_now E w' - start;
                  (r0, out) = http_result E cfg reply w';
                  r = r0\<lparr>durationMs := dur\<rparr>
              in (r, ev @ [HtCall rq reply, reply_event reply dur] @ out
                     @ [HtLog (if res_status r = Success then Info else Warn) ''http dispatch end'' dur
                          [''task_status'' \<mapsto> TaskStatusTypetoString (res_status r), ''message'' \<mapsto> res_message r]],
                  w')))"

definition http_execute ::
  "('w, 'z) http_env_scheme \<Rightarrow> ExecutionContext \<Rightarrow> 'w \<Rightarrow> TaskResult \<times> http_event list \<times> 'w" where
  "http_execute E c w =
     (let cfg = config c;
          start = ht_now E w;
          ev = [HtLog Info ''http dispatch start'' 0 Map.empty];
          url = ctx_get c ''url'' (execCommand cfg)
      in if url = [] then
           (result_of Failed (''TaskRunner: '' @ bytes [0xE7,0xA9,0xBA,0xE7,0x9A,0x84] @ ''http url''),
            ev @ [HtLog Error ''http invalid: empty url'' 0 Map.empty], w)
         else if ht_canceled E w then
           (result_of Canceled
              (''TaskRunner: '' @ bytes [0xE5,0x9C,0xA8] @ ''http''
               @ bytes [0xE8,0xB0,0x83,0xE7,0x94,0xA8,0xE4,0xB9,0x8B,0xE5,0x89,0x8D,0xE5,0x8F,0x96,0xE6,0xB6,0x88]),
            ev @ [HtLog Warn ''http canceled before call'' 0 Map.empty], w)
         else
           (let (scheme, host, port, path) = parse_url url in
            if scheme \<noteq> ''http'' \<and> scheme \<noteq> ''https'' then
              (result_of Failed
                 (''TaskRunner'' @ bytes [0xEF,0xBC,0x9A,0xE4,0xB8,0x8D,0xE5,0x8F,0x97,0xE6,0x94,0xAF,0xE6,0x8C,0x81,
                    0xE6,0x88,0x96,0xE6,0x97,0xA0,0xE6,0x95,0x88,0xE7,0x9A,0x84] @ ''URL''),
               ev @ [HtLog Error ''http invalid: unsupported url'' 0 Map.empty], w)
            else
              (let ev1 = ev @ [HtLog Debug ''http parsed url'' 0
                    [''scheme'' \<mapsto> scheme, ''host'' \<mapsto> host, ''port'' \<mapsto> to_string_int port, ''path'' \<mapsto> path]]
               in case deadline c of
                    None \<Rightarrow>
                      (case http_send E c start None host port path w of (r, ev2, w') \<Rightarrow> (r, ev1 @ ev2, w'))
                  | Some d \<Rightarrow>
                      if isTimeout (ht_now E w) c then
                        (result_of Timeout ''TaskRunner: timeout before http call'',
                         ev1 @ [HtLog Warn ''http timeout before call'' 0 Map.empty], w)
                      else
                        (case http_send E c start (Some (remain_timeout d (ht_now E w))) host port path w of
                           (r, ev2, w') \<Rightarrow> (r, ev1 @ ev2, w')))))"

subsection \<open>What a run does\<close>

fun http_calls :: "http_event list \<Rightarrow> (http_request \<times> http_reply) list" where
  "http_calls (HtCall rq r # es) = (rq, r) # http_calls es"
| "http_calls (_ # es) = http_calls es"
| "http_calls [] = []"

lemma http_calls_append [simp]: "http_calls (xs @ ys) = http_calls xs @ http_calls ys"
  by (induction xs rule: http_calls.induct) auto

lemma http_calls_lines [simp]: "http_calls (map (HtLine b) ls) = []"
  by (induction ls) auto

lemma http_calls_push [simp]: "http_calls (push_text_as_stdout cfg t) = []"
  by (simp add: push_text_as_stdout_def)

lemma http_calls_reply [simp]: "http_calls (reply_event r d # es) = http_calls es"
  by (cases r) (auto simp: reply_event_def)

lemma http_calls_result [simp]: "http_calls (snd (http_result E cfg reply w)) = []"
  by (auto simp: http_result_def split: http_reply.split)

lemma http_result_status:
  "res_status (fst (http_result E cfg reply w)) =
     (if ht_canceled E w then Canceled
      else (case reply of NoResponse _ \<Rightarrow> Failed | Response st _ \<Rightarrow> if 200 \<le> st \<and> st < 300 then Success else Failed))"
  by (auto simp: http_result_def result_of_def split: http_reply.split)

definition supported_method :: "string \<Rightarrow> bool" where
  "supported_method m \<longleftrightarrow> m = ''GET'' \<or> m = ''POST'' \<or> m = ''PUT'' \<or> m = ''DELETE''"

lemma method_content_supported: "method_content m b hs ks ps \<noteq> None \<longleftrightarrow> supported_method m"
  by (auto simp: method_content_def supported_method_def)

lemma http_send_cases:
  assumes "http_send E c start tmo host port path w = (r, ev, w')"
  shows "if supported_method (toupper (ctx_get c ''method'' ''GET''))
         then \<exists>rq reply. http_calls ev = [(rq, reply)] \<and> ht_call E rq w = (reply, w')
              \<and> rq_host rq = host \<and> rq_port rq = port \<and> rq_path rq = path \<and> rq_timeout rq = tmo
              \<and> rq_method rq = toupper (ctx_get c ''method'' ''GET'')
              \<and> res_status r = res_status (fst (http_result E (config c) reply w'))
              \<and> stdoutData r = stdoutData (fst (http_result E (config c) reply w'))
              \<and> durationMs r = ht_now E w' - start
         else http_calls ev = [] \<and> res_status r = Failed \<and> w' = w"
proof (cases "method_content (toupper (ctx_get c ''method'' ''GET'')) (ctx_get c ''body'' [])
    (request_headers (ht_order E (execParams (config c))) (execParams (config c)))
    (ht_order E (execParams (config c))) (execParams (config c))")
  case None
  then have "\<not> supported_method (toupper (ctx_get c ''method'' ''GET''))"
    using method_content_supported by metis
  with None assms show ?thesis by (auto simp: http_send_def Let_def result_of_def)
next
  case (Some content)
  then have s: "supported_method (toupper (ctx_get c ''method'' ''GET''))"
    using method_content_supported by (metis option.distinct(1))
  define rq where "rq = mk_request E c tmo host port path (toupper (ctx_get c ''method'' ''GET'')) content"
  obtain reply w1 where call: "ht_call E rq w = (reply, w1)" by fastforce
  obtain r0 out where res: "http_result E (config c) reply w1 = (r0, out)" by fastforce
  have out: "http_calls out = []" using http_calls_result [of E "config c" reply w1] res by simp
  have e: "r = r0\<lparr>durationMs := ht_now E w1 - start\<rparr>" "w' = w1" "http_calls ev = [(rq, reply)]"
    using assms Some call res out by (auto simp: http_send_def Let_def rq_def [symmetric])
  have q: "rq_host rq = host" "rq_port rq = port" "rq_path rq = path" "rq_timeout rq = tmo"
    "rq_method rq = toupper (ctx_get c ''method'' ''GET'')" by (simp_all add: rq_def mk_request_def Let_def)
  show ?thesis using s q call res by (simp add: e)
qed

text \<open>What must hold for a request to be sent.\<close>

definition http_ready :: "('w, 'z) http_env_scheme \<Rightarrow> ExecutionContext \<Rightarrow> 'w \<Rightarrow> bool" where
  "http_ready E c w \<longleftrightarrow>
     (let url = ctx_get c ''url'' (execCommand (config c))
      in url \<noteq> [] \<and> \<not> ht_canceled E w \<and> fst (parse_url url) \<in> {''http'', ''https''}
         \<and> \<not> isTimeout (ht_now E w) c \<and> supported_method (toupper (ctx_get c ''method'' ''GET'')))"

text \<open>An HTTP task sends at most one request, and exactly one if its URL is not empty and has the
  scheme \<^verbatim>\<open>http\<close> or \<^verbatim>\<open>https\<close>, the task is neither canceled nor past its deadline and the method is
  one of GET, POST, PUT, DELETE.  Otherwise it does not touch the outside and its result is not Success.
  The request goes to the host, port and path of the URL and is bounded by a time-out if and only if the
  task has a deadline.  The result is Canceled if the flag is set when the call returns, else Success
  exactly for a status 200..299, whose body is the output, and Failed for any other reply; the duration
  is that of the whole run.\<close>

theorem http_execute_outcome:
  assumes "http_execute E c w = (r, ev, w')"
  shows "(http_ready E c w \<longleftrightarrow> http_calls ev \<noteq> []) \<and> length (http_calls ev) \<le> 1
    \<and> (http_calls ev = [] \<longrightarrow> res_status r \<noteq> Success \<and> w' = w)
    \<and> (\<forall>rq reply. http_calls ev = [(rq, reply)] \<longrightarrow>
         (rq_host rq, rq_port rq, rq_path rq) = snd (parse_url (ctx_get c ''url'' (execCommand (config c))))
       \<and> (rq_timeout rq = None \<longleftrightarrow> deadline c = None)
       \<and> ht_call E rq w = (reply, w')
       \<and> res_status r = (if ht_canceled E w' then Canceled
            else case reply of NoResponse _ \<Rightarrow> Failed
                 | Response st _ \<Rightarrow> if 200 \<le> st \<and> st < 300 then Success else Failed)
       \<and> (\<forall>st body. reply = Response st body \<longrightarrow> \<not> ht_canceled E w' \<longrightarrow> stdoutData r = body)
       \<and> durationMs r = ht_now E w' - ht_now E w)"
proof (cases "ctx_get c ''url'' (execCommand (config c)) = [] \<or> ht_canceled E w
     \<or> fst (parse_url (ctx_get c ''url'' (execCommand (config c)))) \<notin> {''http'', ''https''}
     \<or> isTimeout (ht_now E w) c")
  case True
  then have "http_calls ev = [] \<and> res_status r \<noteq> Success \<and> w' = w"
    using assms by (auto simp: http_execute_def Let_def result_of_def isTimeout_def split: prod.splits option.splits if_splits)
  with True show ?thesis by (auto simp: http_ready_def Let_def)
next
  case False
  obtain scheme host port path where u: "parse_url (ctx_get c ''url'' (execCommand (config c))) = (scheme, host, port, path)"
    by (metis prod_cases4)
  define tmo where "tmo = map_option (\<lambda>d. remain_timeout d (ht_now E w)) (deadline c)"
  obtain ev1 ev2 where s: "http_send E c (ht_now E w) tmo host port path w = (r, ev2, w')"
    and e: "ev = ev1 @ ev2" "http_calls ev1 = []"
    using assms False u unfolding http_execute_def tmo_def
    by (auto simp: Let_def split: prod.splits option.splits if_splits)
  have ready: "http_ready E c w \<longleftrightarrow> supported_method (toupper (ctx_get c ''method'' ''GET''))"
    using False by (auto simp: http_ready_def Let_def)
  have t: "tmo = None \<longleftrightarrow> deadline c = None" by (simp add: tmo_def)
  have o: "stdoutData (fst (http_result E (config c) reply w')) = body"
    if "reply = Response st body" "\<not> ht_canceled E w'" for reply st body
    using that by (auto simp: http_result_def result_of_def)
  show ?thesis
    using http_send_cases [OF s] ready t o e by (auto simp: u http_result_status split: if_splits)
qed

text \<open>A server that answers every request with its path.\<close>

definition demo_http :: "int http_env" where
  "demo_http = \<lparr>ht_now = id, ht_canceled = (\<lambda>_. False), ht_order = (\<lambda>_. [''url'', ''method'']),
     ht_error_text = http_error_to_string, ht_call = (\<lambda>rq w. (Response 200 (rq_path rq), w + 7))\<rparr>"

definition demo_http_ctx :: ExecutionContext where
  "demo_http_ctx = \<lparr>config = default_TaskConfig\<lparr>execParams := [''url'' \<mapsto> ''http://a:81/b'', ''method'' \<mapsto> ''get'']\<rparr>,
     cancelFlag = None, deadline = None, nestingDepth = 0\<rparr>"

theorem http_execute_outcome_witness:
  "length (http_calls (fst (snd (http_execute demo_http demo_http_ctx 0)))) \<le> 1
   \<and> res_status (fst (http_execute demo_http demo_http_ctx 0)) = Success
   \<and> stdoutData (fst (http_execute demo_http demo_http_ctx 0)) = ''/b''
   \<and> durationMs (fst (http_execute demo_http demo_http_ctx 0)) = 7"
proof -
  obtain r ev w' where e: "http_execute demo_http demo_http_ctx 0 = (r, ev, w')" by (metis prod_cases3)
  have "res_status (fst (http_execute demo_http demo_http_ctx 0)) = Success
    \<and> stdoutData (fst (http_execute demo_http demo_http_ctx 0)) = ''/b''
    \<and> durationMs (fst (http_execute demo_http demo_http_ctx 0)) = 7" by code_simp
  with http_execute_outcome [OF e] show ?thesis by (simp add: e)
qed

subsection \<open>URLs\<close>

definition show_url :: "string \<Rightarrow> string \<Rightarrow> nat option \<Rightarrow> string \<Rightarrow> string" where
  "show_url scheme host port path =
     scheme @ ''://'' @ host @ (case port of None \<Rightarrow> [] | Some p \<Rightarrow> CHR '':'' # nat_digits p) @ path"

lemma digit_not_delim: "is_digit c \<Longrightarrow> c \<noteq> CHR '':'' \<and> c \<noteq> CHR ''/''"
  by (auto simp: is_digit_def Let_def)

lemma nat_digits_no_delim: "CHR '':'' \<notin> set (nat_digits n) \<and> CHR ''/'' \<notin> set (nat_digits n)"
  using nat_digits_all_digits [of n] digit_not_delim by (auto simp: list_all_iff)

lemma parse_show_url:
  assumes "CHR '':'' \<notin> set scheme" and "CHR '':'' \<notin> set host" and "CHR ''/'' \<notin> set host"
    and "path = [] \<or> hd path = CHR ''/''" and "\<forall>p. port = Some p \<longrightarrow> p < 2 ^ 31"
  shows "parse_url (show_url scheme host port path) =
    (scheme, host, (case port of Some p \<Rightarrow> int p | None \<Rightarrow> if scheme = ''https'' then 443 else 80),
     if path = [] then ''/'' else path)"
proof -
  define hp where "hp = host @ (case port of None \<Rightarrow> [] | Some p \<Rightarrow> CHR '':'' # nat_digits p)"
  have u: "show_url scheme host port path = scheme @ ''://'' @ hp @ path"
    by (simp add: show_url_def hp_def)
  have 1: "split_text ''://'' (show_url scheme host port path) = (scheme, Some (hp @ path))"
    unfolding u using split_text_first [OF assms(1), of "''://''" "''//''" "hp @ path"] by simp
  have nohp: "CHR ''/'' \<notin> set hp"
    using assms(3) nat_digits_no_delim by (auto simp: hp_def split: option.split)
  have 2: "split_at CHR ''/'' (hp @ path) = (hp, if path = [] then None else Some (tl path))"
    using assms(4) split_at_absent [OF nohp] split_at_present [OF nohp] by (cases path) auto
  have 3: "split_at CHR '':'' hp = (host, map_option nat_digits port)"
    using split_at_absent [OF assms(2)] split_at_present [OF assms(2)] by (auto simp: hp_def split: option.split)
  show ?thesis
    unfolding parse_url_def 1 Let_def prod.case option.case 2
    using assms(4,5) by (cases path; cases port) (use 3 in \<open>auto simp: atoi_nat_digits hp_def split_at_absent [OF assms(2)] split_at_present [OF assms(2)]\<close>)
qed

text \<open>A URL is read back: from a scheme without colon, a host without colon and slash, an optional
  port and a path that is empty or starts with a slash, the parser recovers the four parts; a missing
  port is 443 for \<^verbatim>\<open>https\<close> and 80 otherwise, a missing path is the root.\<close>

theorem parse_url_roundtrip:
  assumes "CHR '':'' \<notin> set scheme" and "CHR '':'' \<notin> set host" and "CHR ''/'' \<notin> set host"
    and "path = [] \<or> hd path = CHR ''/''" and "\<forall>p. port = Some p \<longrightarrow> p < 2 ^ 31"
  shows "parse_url (show_url scheme host port path) =
    (scheme, host, (case port of Some p \<Rightarrow> int p | None \<Rightarrow> if scheme = ''https'' then 443 else 80),
     if path = [] then ''/'' else path)"
  using assms by (rule parse_show_url)

theorem parse_url_roundtrip_witness:
  "parse_url (show_url ''https'' ''h.org'' (Some 8443) ''/a?b'') = (''https'', ''h.org'', 8443, ''/a?b'')"
  using parse_url_roundtrip [of "''https''" "''h.org''" "''/a?b''" "Some 8443"] by simp

text \<open>The scheme only decides the default port: with the port written out, the request for an \<^verbatim>\<open>https\<close>
  URL is the request for the \<^verbatim>\<open>http\<close> one.\<close>

lemma https_sent_like_http:
  assumes "CHR '':'' \<notin> set host" and "CHR ''/'' \<notin> set host" and "path = [] \<or> hd path = CHR ''/''" and "p < 2 ^ 31"
  shows "snd (parse_url (show_url ''https'' host (Some p) path)) = snd (parse_url (show_url ''http'' host (Some p) path))"
  using assms by (simp add: parse_show_url)

end
