(* ===== verification/Local_Strategy.thy ===== *)
theory Local_Strategy
  imports Task_Runner Log_Record Text_Util
begin

text \<open>
  Tasks that run inside the server: \<^verbatim>\<open>runner/local_task_registry.cpp\<close>, the built-in functions of
  \<^verbatim>\<open>runner/local_tasks.cpp\<close> (the floating-point ones left out), \<^verbatim>\<open>execution/local_strategy.cpp\<close>; and the
  registry of execution strategies with the script strategy (\<^verbatim>\<open>execution/execution_registry.cpp\<close>,
  \<^verbatim>\<open>execution/script_strategy.cpp\<close>).  The watchdog thread of a local task reads the clock and the cancel
  flag at moments the scheduler chooses: the readings are an argument, in order.
\<close>

subsection \<open>The registry of functions\<close>

type_synonym 'w local_fn = "ExecutionContext \<Rightarrow> 'w \<Rightarrow> TaskResult result \<times> 'w"
type_synonym 'w local_registry = "string \<rightharpoonup> 'w local_fn"

definition registerTask :: "string \<Rightarrow> 'w local_fn \<Rightarrow> 'w local_registry \<Rightarrow> 'w local_registry" where
  "registerTask key fn reg = reg(key \<mapsto> fn)"

definition find_task :: "string \<Rightarrow> 'w local_registry \<Rightarrow> 'w local_fn option" where
  "find_task key reg = reg key"

subsection \<open>Built-in functions\<close>

definition taskAHandler :: "ExecutionContext \<Rightarrow> TaskResult" where
  "taskAHandler c = result_of Success ''taskA done''"

definition taskBHandler :: "ExecutionContext \<Rightarrow> TaskResult" where
  "taskBHandler c = result_of Success ''taskB done''"

definition taskCHandler :: "ExecutionContext \<Rightarrow> TaskResult" where
  "taskCHandler c = result_of Success ''taskC done''"

definition taskDHandler :: "ExecutionContext \<Rightarrow> TaskResult" where
  "taskDHandler c = result_of Success ''taskD done''"

definition taskBFailHandler :: "ExecutionContext \<Rightarrow> TaskResult" where
  "taskBFailHandler c = result_of Failed ''taskBFailHandler failed''"

text \<open>\<^verbatim>\<open>math_mod\<close>.  The remainder has the sign of the dividend.  \<open>None\<close> is the hardware trap of dividing
  \<^verbatim>\<open>LLONG_MIN\<close> by -1, whose quotient is no \<^verbatim>\<open>long long\<close>: it ends the process.\<close>

definition c_rem :: "int \<Rightarrow> int \<Rightarrow> int option" where
  "c_rem a b =
     (if a = ll_min \<and> b = - 1 then None
      else Some (if a < 0 then - (\<bar>a\<bar> mod \<bar>b\<bar>) else \<bar>a\<bar> mod \<bar>b\<bar>))"

definition math_mod :: "ExecutionContext \<Rightarrow> TaskResult result option" where
  "math_mod c =
     (case stoll (ctx_get c ''a'' ''0'') of
        Inl e \<Rightarrow> Some (Inl e)
      | Inr a \<Rightarrow>
          (case stoll (ctx_get c ''b'' ''1'') of
             Inl e \<Rightarrow> Some (Inl e)
           | Inr b \<Rightarrow>
               if b = 0 then Some (Inr (result_of Failed ''Modulo by zero''))
               else map_option (\<lambda>r. Inr (result_of Success (to_string_int r))) (c_rem a b)))"

subsection \<open>Running a local task\<close>

record 'w local_env =
  lo_now :: "'w \<Rightarrow> int"
  lo_canceled :: "'w \<Rightarrow> bool"
  lo_what :: "cpp_error \<Rightarrow> string option"

text \<open>The watchdog, by its readings of the clock and of the cancel flag.\<close>

fun watchdog :: "ExecutionContext \<Rightarrow> (int \<times> bool) list \<Rightarrow> bool" where
  "watchdog c [] = False"
| "watchdog c ((now, canceled) # ps) =
     (if canceled then False else if isTimeout now c then True else watchdog c ps)"

definition local_key :: "ExecutionContext \<Rightarrow> string" where
  "local_key c =
     ctx_get c ''handler''
       (if execCommand (config c) \<noteq> [] then execCommand (config c) else tid_value (cfg_id (config c)))"

definition local_prefix :: string where
  "local_prefix = ''TaskRunner'' @ bytes [0xEF,0xBC,0x9A]"

definition local_caught :: "('w, 'z) local_env_scheme \<Rightarrow> cpp_error \<Rightarrow> string" where
  "local_caught E e =
     local_prefix @ bytes [0xE6,0x9C,0xAC,0xE5,0x9C,0xB0,0xE4,0xBB,0xBB,0xE5,0x8A,0xA1]
     @ (case lo_what E e of
          Some s \<Rightarrow> bytes [0xE5,0xBC,0x82,0xE5,0xB8,0xB8] @ '': '' @ s
        | None \<Rightarrow> bytes [0xE6,0x9C,0xAA,0xE7,0x9F,0xA5,0xE5,0xBC,0x82,0xE5,0xB8,0xB8])"

text \<open>The event of a function that returned is a line of text on the task.\<close>

definition local_finished :: "TaskResult \<Rightarrow> LogLevel \<times> string" where
  "local_finished r =
     (Info, ''Local finished, status='' @ to_string_int (status_int (res_status r)) @ '', durationMs=''
        @ to_string_int (durationMs r))"

definition local_execute ::
  "('w, 'z) local_env_scheme \<Rightarrow> 'w local_registry \<Rightarrow> (int \<times> bool) list \<Rightarrow> ExecutionContext \<Rightarrow> 'w
    \<Rightarrow> TaskResult \<times> (LogLevel \<times> string) list \<times> 'w" where
  "local_execute E reg polls c w =
     (let key = local_key c in
      if key = [] then
        (result_of Failed (local_prefix @ bytes [0xE6,0x9C,0xAC,0xE5,0x9C,0xB0,0xE4,0xBB,0xBB,0xE5,0x8A,0xA1]
           @ ''id'' @ bytes [0xE4,0xB8,0xBA,0xE7,0xA9,0xBA]), [], w)
      else
        (case find_task key reg of
           None \<Rightarrow>
             (result_of Failed (local_prefix @ bytes [0xE6,0x9C,0xAA,0xE6,0x89,0xBE,0xE5,0x88,0xB0,
                0xE6,0x9C,0xAC,0xE5,0x9C,0xB0,0xE4,0xBB,0xBB,0xE5,0x8A,0xA1] @ '': '' @ key), [], w)
         | Some func \<Rightarrow>
             if lo_canceled E w then
               (result_of Canceled (local_prefix @ bytes [0xE5,0x9C,0xA8,0xE6,0x9C,0xAC,0xE5,0x9C,0xB0,
                  0xE6,0x89,0xA7,0xE8,0xA1,0x8C,0xE5,0x89,0x8D,0xE5,0x8F,0x96,0xE6,0xB6,0x88]), [], w)
             else
               (let (res, w') = func c w;
                    ev = (case res of Inr r \<Rightarrow> [local_finished r] | Inl _ \<Rightarrow> []);
                    r1 = (case res of Inr r \<Rightarrow> r | Inl e \<Rightarrow> result_of Failed (local_caught E e));
                    r2 = (if deadline c \<noteq> None \<and> watchdog c polls then
                            result_of Timeout (local_prefix @ bytes [0xE6,0x9C,0xAC,0xE5,0x9C,0xB0,0xE4,0xBB,0xBB,
                              0xE5,0x8A,0xA1,0xE6,0x89,0xA7,0xE8,0xA1,0x8C,0xE8,0xB6,0x85,0xE6,0x97,0xB6,0xEF,0xBC,0x88,
                              0xE8,0xBD,0xAF,0xE8,0xB6,0x85,0xE6,0x97,0xB6,0xEF,0xBC,0x89])
                          else r1)
                in (r2\<lparr>durationMs := lo_now E w' - lo_now E w\<rparr>, ev, w'))))"

text \<open>The functions registered when the program starts: those without floating point.\<close>

definition builtin_tasks :: "'w local_registry" where
  "builtin_tasks =
     (let pure = (\<lambda>f c w. (Inr (f c), w))
      in registerTask ''taskB_fail_handler'' (pure taskBFailHandler)
           (registerTask ''taskD_handler'' (pure taskDHandler)
             (registerTask ''taskC_handler'' (pure taskCHandler)
               (registerTask ''taskB_handler'' (pure taskBHandler)
                 (registerTask ''taskA_handler'' (pure taskAHandler) Map.empty)))))"

subsection \<open>The registry of strategies\<close>

type_synonym 'w strategy_registry = "TaskExecType \<rightharpoonup> 'w strategy"

definition registerStrategy :: "TaskExecType \<Rightarrow> 'w strategy \<Rightarrow> 'w strategy_registry \<Rightarrow> 'w strategy_registry" where
  "registerStrategy t s reg = reg(t \<mapsto> s)"

definition get_strategy :: "TaskExecType \<Rightarrow> 'w strategy_registry \<Rightarrow> 'w strategy option" where
  "get_strategy t reg = reg t"

text \<open>The script strategy looks the shell strategy up when it runs.\<close>

definition script_execute :: "'w strategy_registry \<Rightarrow> 'w strategy" where
  "script_execute reg c w =
     (case get_strategy Shell reg of
        None \<Rightarrow>
          (Inr (result_of Failed (bytes [0xE6,0xB2,0xA1,0xE6,0x9C,0x89,0xE4,0xB8,0xBA] @ ''execType''
             @ bytes [0xE4,0xB8,0xBA] @ ''Shell''
             @ bytes [0xE6,0xB3,0xA8,0xE5,0x86,0x8C,0xE6,0x89,0xA7,0xE8,0xA1,0x8C,0xE7,0xAD,0x96,0xE7,0x95,0xA5])), w)
      | Some s \<Rightarrow> s c w)"

text \<open>\<open>mk\<close> gives the strategy objects of the other types; they are registered in the code's order, and
  the script strategy reads the registry as it stands when a task runs (its own entry does not matter to
  it: it only looks up the shell).\<close>

definition registerDefaultExecutionStrategies ::
  "(TaskExecType \<Rightarrow> 'w strategy) \<Rightarrow> 'w strategy_registry \<Rightarrow> 'w strategy_registry" where
  "registerDefaultExecutionStrategies mk reg =
     (let r3 = registerStrategy HttpCall (mk HttpCall) (registerStrategy Shell (mk Shell) (registerStrategy Local (mk Local) reg));
          final = (\<lambda>s. registerStrategy Template (mk Template) (registerStrategy Dag (mk Dag)
                    (registerStrategy Remote (mk Remote) (registerStrategy Script s r3))))
      in final (script_execute (final (mk Shell))))"
subsection \<open>What they do\<close>

lemma watchdog_iff:
  "watchdog c polls \<longleftrightarrow>
     (\<exists>ps p qs. polls = ps @ p # qs \<and> isTimeout (fst p) c \<and> (\<forall>x \<in> set (p # ps). \<not> snd x))"
proof (induction polls)
  case IH: (Cons x xs)
  obtain now canceled where x: "x = (now, canceled)" by (cases x)
  show ?case
  proof
    assume "watchdog c (x # xs)"
    then consider "\<not> canceled" "isTimeout now c" | "\<not> canceled" "watchdog c xs" by (auto simp: x split: if_splits)
    then show "\<exists>ps p qs. x # xs = ps @ p # qs \<and> isTimeout (fst p) c \<and> (\<forall>y \<in> set (p # ps). \<not> snd y)"
    proof cases
      case 1
      then show ?thesis by (intro exI [of _ "[]"]) (auto simp: x)
    next
      case 2
      then obtain ps p qs where "xs = ps @ p # qs" "isTimeout (fst p) c" "\<forall>y \<in> set (p # ps). \<not> snd y"
        using IH by blast
      with 2 show ?thesis by (intro exI [of _ "x # ps"] exI [of _ p] exI [of _ qs]) (auto simp: x)
    qed
  next
    assume "\<exists>ps p qs. x # xs = ps @ p # qs \<and> isTimeout (fst p) c \<and> (\<forall>y \<in> set (p # ps). \<not> snd y)"
    then obtain ps p qs where d: "x # xs = ps @ p # qs" "isTimeout (fst p) c" "\<forall>y \<in> set (p # ps). \<not> snd y" by blast
    show "watchdog c (x # xs)"
    proof (cases ps)
      case Nil
      with d show ?thesis by (auto simp: x)
    next
      case (Cons y ys)
      with d have "xs = ys @ p # qs \<and> isTimeout (fst p) c \<and> (\<forall>z \<in> set (p # ys). \<not> snd z)" by auto
      then have "watchdog c xs" unfolding IH by blast
      with d Cons show ?thesis by (auto simp: x)
    qed
  qed
qed simp

text \<open>The time-out of a local task is soft.  A registered function of a task that is not canceled runs
  to its end, past any deadline.  The task is then reported as timed out exactly if it has a deadline and
  the watchdog, before it first saw the cancel flag, read a clock at or past the deadline, whatever the
  function returned; otherwise the status is the function's, or Failed if it threw.\<close>

theorem local_timeout_is_soft:
  assumes "local_key c \<noteq> []" and "find_task (local_key c) reg = Some f" and "\<not> lo_canceled E w"
    and "local_execute E reg polls c w = (r, ev, w')"
  shows "w' = snd (f c w) \<and> durationMs r = lo_now E w' - lo_now E w
    \<and> res_status r =
        (if \<exists>d. deadline c = Some d \<and>
              (\<exists>ps p qs. polls = ps @ p # qs \<and> d \<le> fst p \<and> (\<forall>x \<in> set (p # ps). \<not> snd x))
         then Timeout
         else (case fst (f c w) of Inr r0 \<Rightarrow> res_status r0 | Inl _ \<Rightarrow> Failed))"
proof -
  have wd: "deadline c \<noteq> None \<and> watchdog c polls \<longleftrightarrow> (\<exists>d. deadline c = Some d \<and>
      (\<exists>ps p qs. polls = ps @ p # qs \<and> d \<le> fst p \<and> (\<forall>x \<in> set (p # ps). \<not> snd x)))"
    by (cases "deadline c") (auto simp: watchdog_iff isTimeout_def)
  obtain res w1 where f: "f c w = (res, w1)" by fastforce
  show ?thesis
    using assms f unfolding wd [symmetric]
    by (cases res) (auto simp: local_execute_def Let_def result_of_def)
qed

definition demo_local_ctx :: ExecutionContext where
  "demo_local_ctx = \<lparr>config = default_TaskConfig\<lparr>execCommand := ''taskA_handler''\<rparr>, cancelFlag = None,
     deadline = Some 50, nestingDepth = 0\<rparr>"

definition demo_local :: "int local_env" where
  "demo_local = \<lparr>lo_now = id, lo_canceled = (\<lambda>_. False), lo_what = (\<lambda>_. None)\<rparr>"

text \<open>The function returned Success, but the watchdog had seen the deadline pass.\<close>

theorem local_timeout_is_soft_witness:
  "res_status (fst (local_execute demo_local builtin_tasks [(20, False), (60, False)] demo_local_ctx 0)) = Timeout
   \<and> map_sum id res_status (fst (the (find_task ''taskA_handler'' builtin_tasks) demo_local_ctx (0::int))) = Inr Success"
proof -
  obtain f where f: "find_task ''taskA_handler'' (builtin_tasks :: int local_registry) = Some f"
    "map_sum id res_status (fst (f demo_local_ctx 0)) = Inr Success"
    by (auto simp: find_task_def builtin_tasks_def registerTask_def Let_def taskAHandler_def result_of_def)
  have k: "local_key demo_local_ctx = ''taskA_handler''" by code_simp
  have n: "\<not> lo_canceled demo_local 0" by (simp add: demo_local_def)
  let ?polls = "[(20::int, False), (60, False)]"
  obtain r ev w' where e: "local_execute demo_local builtin_tasks ?polls demo_local_ctx 0 = (r, ev, w')"
    by (metis prod_cases3)
  have "?polls = [(20, False)] @ (60, False) # [] \<and> 50 \<le> fst (60::int, False)
      \<and> (\<forall>x \<in> set ((60::int, False) # [(20, False)]). \<not> snd x)" by simp
  then have p: "\<exists>ps p qs. ?polls = ps @ p # qs \<and> 50 \<le> fst p \<and> (\<forall>x \<in> set (p # ps). \<not> snd x)" by blast
  have d: "\<exists>d. deadline demo_local_ctx = Some d
      \<and> (\<exists>ps p qs. ?polls = ps @ p # qs \<and> d \<le> fst p \<and> (\<forall>x \<in> set (p # ps). \<not> snd x))"
    by (rule exI [of _ 50]) (use p in \<open>simp add: demo_local_ctx_def\<close>)
  have "res_status r = Timeout"
    using local_timeout_is_soft [OF _ _ n e, of f] f(1) d unfolding k by simp
  then show ?thesis using f by (simp add: e)
qed

text \<open>With the default strategies registered every execution type has one, whatever was registered
  before, and dispatching a script task is dispatching the same context to the shell strategy.\<close>

theorem script_runs_as_shell:
  "(\<forall>t. get_strategy t (registerDefaultExecutionStrategies mk reg) \<noteq> None)
   \<and> dispatchExec (E\<lparr>env_strategy := \<lambda>t. get_strategy t (registerDefaultExecutionStrategies mk reg)\<rparr>)
       (cfg\<lparr>execType := Script\<rparr>) dl w
     = mk Shell \<lparr>config = cfg\<lparr>execType := Script\<rparr>, cancelFlag = Some (eff_canceled E w), deadline = dl,
                nestingDepth = nesting_of (execParams cfg)\<rparr> w"
proof -
  have "get_strategy t (registerDefaultExecutionStrategies mk reg) \<noteq> None" for t
    by (cases t) (auto simp: get_strategy_def registerDefaultExecutionStrategies_def registerStrategy_def Let_def)
  moreover have "eff_canceled (E\<lparr>env_strategy := st\<rparr>) w = eff_canceled E w" for st
    by (simp add: eff_canceled_def split: option.split)
  ultimately show ?thesis
    by (simp add: dispatchExec_def get_strategy_def registerDefaultExecutionStrategies_def registerStrategy_def
        script_execute_def Let_def)
qed

lemma c_rem_spec:
  assumes "y \<noteq> 0" and "c_rem x y = Some r"
  shows "(\<exists>q. x = q * y + r) \<and> \<bar>r\<bar> < \<bar>y\<bar> \<and> (r = 0 \<or> sgn r = sgn x)"
proof -
  have r: "r = (if x < 0 then - (\<bar>x\<bar> mod \<bar>y\<bar>) else \<bar>x\<bar> mod \<bar>y\<bar>)" using assms(2) by (auto simp: c_rem_def split: if_splits)
  define m where "m = \<bar>x\<bar> mod \<bar>y\<bar>"
  have m: "0 \<le> m" "m < \<bar>y\<bar>" "m \<le> \<bar>x\<bar>" "\<bar>x\<bar> = \<bar>x\<bar> div \<bar>y\<bar> * \<bar>y\<bar> + m"
    using assms(1) by (auto simp: m_def zmod_le_nonneg_dividend)
  have "\<exists>q. x = q * y + r"
  proof (intro exI)
    show "x = (sgn x * sgn y * (\<bar>x\<bar> div \<bar>y\<bar>)) * y + r"
      using m(4) unfolding r m_def [symmetric]
      by (cases x "0::int" rule: linorder_cases; cases y "0::int" rule: linorder_cases) (use assms(1) in \<open>auto simp: algebra_simps\<close>)
  qed
  moreover have "\<bar>r\<bar> < \<bar>y\<bar> \<and> (r = 0 \<or> sgn r = sgn x)"
    using m unfolding r m_def [symmetric] by (auto simp: sgn_if)
  ultimately show ?thesis by blast
qed

text \<open>\<^verbatim>\<open>math_mod\<close> on two 64-bit numbers: a zero divisor is a failed task, the lowest number modulo -1
  traps (and would end the server), and in every other case the task succeeds with the remainder of
  the truncating division.\<close>

theorem math_mod_outcome:
  assumes "ll_min \<le> x" and "x \<le> ll_max" and "ll_min \<le> y" and "y \<le> ll_max"
    and "execParams (config c) ''a'' = Some (to_string_int x)" and "execParams (config c) ''b'' = Some (to_string_int y)"
  shows "(math_mod c = None \<longleftrightarrow> x = ll_min \<and> y = - 1)
    \<and> (y = 0 \<longrightarrow> math_mod c = Some (Inr (result_of Failed ''Modulo by zero'')))
    \<and> (y \<noteq> 0 \<and> \<not> (x = ll_min \<and> y = - 1) \<longrightarrow>
         (\<exists>q r. math_mod c = Some (Inr (result_of Success (to_string_int r))) \<and> x = q * y + r \<and> \<bar>r\<bar> < \<bar>y\<bar>
                \<and> (r = 0 \<or> sgn r = sgn x)))"
proof -
  have m: "math_mod c = (if y = 0 then Some (Inr (result_of Failed ''Modulo by zero''))
      else map_option (\<lambda>r. Inr (result_of Success (to_string_int r))) (c_rem x y))"
    using assms by (simp add: math_mod_def ctx_get_def getParam_def stoll_to_string_int)
  have n: "c_rem x y = None \<longleftrightarrow> x = ll_min \<and> y = - 1" by (simp add: c_rem_def)
  show ?thesis
  proof (cases "c_rem x y")
    case None
    with m n show ?thesis by auto
  next
    case (Some r)
    with m n c_rem_spec [OF _ Some] show ?thesis by (cases "y = 0") auto
  qed
qed

theorem math_mod_outcome_witness:
  "math_mod (demo_local_ctx\<lparr>config := default_TaskConfig\<lparr>execParams :=
      [''a'' \<mapsto> to_string_int (- (2 ^ 63)), ''b'' \<mapsto> to_string_int (- 1)]\<rparr>\<rparr>) = None"
  using math_mod_outcome [of "- (2 ^ 63)" "- 1" "demo_local_ctx\<lparr>config := default_TaskConfig\<lparr>execParams :=
      [''a'' \<mapsto> to_string_int (- (2 ^ 63)), ''b'' \<mapsto> to_string_int (- 1)]\<rparr>\<rparr>"] by simp

end
