(* ===== verification/Shell_Strategy.thy ===== *)
theory Shell_Strategy
  imports Remote_Strategy
begin

text \<open>
  \<^verbatim>\<open>execution/shell_strategy.cpp\<close>: running a task as a shell command in a child process.  The operating
  system (pipes, fork, reads, waiting, signals, the clock) and the cancel flag are operations on a world
  \<open>'w\<close>; reading a pipe and the main loop may go on forever, so they are partial functions and results
  are options.  What the child does is recorded as the list of its calls.
\<close>

subsection \<open>The operating system\<close>

datatype read_result = ReadData string | ReadEof | ReadWouldBlock | ReadError

datatype child_call =
    ChSetPgid
  | ChDup2 int int
  | ChClose int
  | ChChdir string
  | ChSetEnv string string
  | ChExec string string
  | ChExit int

record 'w shell_env =
  sh_now :: "'w \<Rightarrow> int"
  sh_canceled :: "'w \<Rightarrow> bool"
  sh_order :: "(string \<rightharpoonup> string) \<Rightarrow> string list"
  sh_pipe :: "'w \<Rightarrow> (int \<times> int) option \<times> 'w"
  sh_fork :: "child_call list \<Rightarrow> 'w \<Rightarrow> int option \<times> 'w"
  sh_read :: "int \<Rightarrow> 'w \<Rightarrow> read_result \<times> 'w"
  sh_waitpid :: "int \<Rightarrow> 'w \<Rightarrow> int option \<times> 'w"
  sh_killpg :: "int \<Rightarrow> int \<Rightarrow> 'w \<Rightarrow> 'w"
  sh_poll :: "int list \<Rightarrow> 'w \<Rightarrow> 'w"
  sh_usleep :: "int \<Rightarrow> 'w \<Rightarrow> 'w"

datatype shell_event =
    ShLog LogLevel string "string \<rightharpoonup> string"
  | ShLine bool string
  | ShOpen int
  | ShClose int
  | ShKill int

abbreviation SIGTERM :: int where "SIGTERM \<equiv> 15"
abbreviation SIGKILL :: int where "SIGKILL \<equiv> 9"

subsection \<open>Helpers\<close>

definition is_blank_string :: "string \<Rightarrow> bool" where
  "is_blank_string s \<longleftrightarrow> list_all isspace s"

text \<open>\<^verbatim>\<open>drain_fd\<close>: read until nothing is left.  The flag says whether the descriptor is still open.\<close>

partial_function (option) drain_fd ::
  "('w, 'z) shell_env_scheme \<Rightarrow> int \<Rightarrow> string \<Rightarrow> 'w \<Rightarrow> (string \<times> bool \<times> 'w) option" where
  "drain_fd E fd out w =
     (case sh_read E fd w of
        (ReadData s, w') \<Rightarrow> drain_fd E fd (out @ s) w'
      | (ReadEof, w') \<Rightarrow> Some (out, False, w')
      | (ReadWouldBlock, w') \<Rightarrow> Some (out, True, w')
      | (ReadError, w') \<Rightarrow> Some (out, False, w'))"

fun emit_loop :: "string \<Rightarrow> string \<Rightarrow> string list" where
  "emit_loop line [] = (if line \<noteq> [] then [line] else [])"
| "emit_loop line (c # cs) =
     (if c = CHR 0x0A then line # emit_loop [] cs
      else if c \<noteq> CHR 0x0D then emit_loop (line @ [c]) cs
      else emit_loop line cs)"

definition emit_lines_to_log_buffer :: "bool \<Rightarrow> string \<Rightarrow> shell_event list" where
  "emit_lines_to_log_buffer isStdout text = map (ShLine isStdout) (emit_loop [] text)"

text \<open>\<^verbatim>\<open>WIFEXITED\<close>, \<^verbatim>\<open>WEXITSTATUS\<close>, \<^verbatim>\<open>WIFSIGNALED\<close> and \<^verbatim>\<open>WTERMSIG\<close> of a wait status.\<close>

definition decode_exit :: "int \<Rightarrow> int" where
  "decode_exit st =
     (if st mod 128 = 0 then st div 256 mod 256
      else if st mod 128 < 127 then 128 + st mod 128
      else st)"

definition env_pairs :: "string list \<Rightarrow> (string \<rightharpoonup> string) \<Rightarrow> (string \<times> string) list" where
  "env_pairs keys params = map (\<lambda>k. (drop 4 k, the (params k))) (filter (\<lambda>k. 4 < length k \<and> take 4 k = ''env.'') keys)"

definition child_calls :: "int \<times> int \<Rightarrow> int \<times> int \<Rightarrow> string \<Rightarrow> (string \<times> string) list \<Rightarrow> string \<Rightarrow> string \<Rightarrow> child_call list" where
  "child_calls outPipe errPipe cwd envs shellPath cmd =
     [ChSetPgid, ChDup2 (snd outPipe) 1, ChDup2 (snd errPipe) 2,
      ChClose (fst outPipe), ChClose (snd outPipe), ChClose (fst errPipe), ChClose (snd errPipe)]
     @ (if cwd \<noteq> [] then [ChChdir cwd] else [])
     @ map (\<lambda>(k, v). ChSetEnv k v) envs
     @ [ChExec shellPath cmd, ChExit 127]"

subsection \<open>The main loop\<close>

record sh_state =
  outOpen :: bool
  errOpen :: bool
  childExited :: bool
  childStatus :: int
  stdoutBuf :: string
  stderrBuf :: string
  sh_events :: "shell_event list"

definition note_wait :: "int option \<Rightarrow> sh_state \<Rightarrow> sh_state" where
  "note_wait r s = (case r of Some st \<Rightarrow> s\<lparr>childExited := True, childStatus := st\<rparr> | None \<Rightarrow> s)"

text \<open>At most 20 looks for the child, 10 ms apart.\<close>

fun await_exit :: "('w, 'z) shell_env_scheme \<Rightarrow> int \<Rightarrow> nat \<Rightarrow> 'w \<Rightarrow> int option \<times> 'w" where
  "await_exit E pid 0 w = (None, w)"
| "await_exit E pid (Suc n) w =
     (case sh_waitpid E pid w of
        (Some st, w') \<Rightarrow> (Some st, w')
      | (None, w') \<Rightarrow> await_exit E pid n (sh_usleep E 10000 w'))"

definition terminate_child ::
  "('w, 'z) shell_env_scheme \<Rightarrow> ExecutionContext \<Rightarrow> int \<Rightarrow> sh_state \<times> 'w \<Rightarrow> sh_state \<times> 'w" where
  "terminate_child E c pid sw =
     (let (s, w) = sw in
      if (isTimeout (sh_now E w) c \<or> sh_canceled E w) \<and> \<not> childExited s then
        (let w1 = sh_killpg E pid SIGTERM w;
             (r, w2) = await_exit E pid 20 w1;
             s1 = note_wait r (s\<lparr>sh_events := sh_events s @ [ShKill SIGTERM]\<rparr>)
         in if \<not> childExited s1
            then (s1\<lparr>sh_events := sh_events s1 @ [ShKill SIGKILL]\<rparr>, sh_killpg E pid SIGKILL w2)
            else (s1, w2))
      else (s, w))"

definition poll_pipes :: "('w, 'z) shell_env_scheme \<Rightarrow> int \<Rightarrow> int \<Rightarrow> sh_state \<Rightarrow> 'w \<Rightarrow> 'w" where
  "poll_pipes E ofd efd s w =
     (let fds = (if outOpen s then [ofd] else []) @ (if errOpen s then [efd] else [])
      in if fds \<noteq> [] then sh_poll E fds w else sh_usleep E 10000 w)"

definition drain_out :: "('w, 'z) shell_env_scheme \<Rightarrow> int \<Rightarrow> sh_state \<times> 'w \<Rightarrow> (sh_state \<times> 'w) option" where
  "drain_out E ofd sw =
     (let (s, w) = sw in
      if outOpen s then
        (case drain_fd E ofd (stdoutBuf s) w of
           None \<Rightarrow> None
         | Some (buf, b, w') \<Rightarrow>
             Some (s\<lparr>stdoutBuf := buf, outOpen := b,
                     sh_events := sh_events s @ (if b then [] else [ShClose ofd])\<rparr>, w'))
      else Some (s, w))"

definition drain_err :: "('w, 'z) shell_env_scheme \<Rightarrow> int \<Rightarrow> sh_state \<times> 'w \<Rightarrow> (sh_state \<times> 'w) option" where
  "drain_err E efd sw =
     (let (s, w) = sw in
      if errOpen s then
        (case drain_fd E efd (stderrBuf s) w of
           None \<Rightarrow> None
         | Some (buf, b, w') \<Rightarrow>
             Some (s\<lparr>stderrBuf := buf, errOpen := b,
                     sh_events := sh_events s @ (if b then [] else [ShClose efd])\<rparr>, w'))
      else Some (s, w))"

definition reap :: "('w, 'z) shell_env_scheme \<Rightarrow> int \<Rightarrow> sh_state \<times> 'w \<Rightarrow> sh_state \<times> 'w" where
  "reap E pid sw =
     (let (s, w) = sw in
      if \<not> childExited s then (case sh_waitpid E pid w of (r, w') \<Rightarrow> (note_wait r s, w')) else (s, w))"

definition shell_round ::
  "('w, 'z) shell_env_scheme \<Rightarrow> ExecutionContext \<Rightarrow> int \<Rightarrow> int \<Rightarrow> int \<Rightarrow> sh_state \<times> 'w \<Rightarrow> (sh_state \<times> 'w) option" where
  "shell_round E c pid ofd efd sw =
     (let (s, w) = terminate_child E c pid sw;
          w1 = poll_pipes E ofd efd s w
      in case drain_out E ofd (s, w1) of
           None \<Rightarrow> None
         | Some sw1 \<Rightarrow>
             (case drain_err E efd sw1 of None \<Rightarrow> None | Some sw2 \<Rightarrow> Some (reap E pid sw2)))"

definition running_on :: "sh_state \<Rightarrow> bool" where
  "running_on s \<longleftrightarrow> outOpen s \<or> errOpen s \<or> \<not> childExited s"

partial_function (option) shell_loop ::
  "('w, 'z) shell_env_scheme \<Rightarrow> ExecutionContext \<Rightarrow> int \<Rightarrow> int \<Rightarrow> int \<Rightarrow> sh_state \<times> 'w \<Rightarrow> (sh_state \<times> 'w) option" where
  "shell_loop E c pid ofd efd sw =
     (if running_on (fst sw) then
        (case shell_round E c pid ofd efd sw of
           None \<Rightarrow> None
         | Some sw' \<Rightarrow> shell_loop E c pid ofd efd sw')
      else Some sw)"
subsection \<open>Running the task\<close>

definition shell_prefix :: string where
  "shell_prefix = ''TaskRunner'' @ bytes [0xEF,0xBC,0x9A]"

definition shell_status :: "('w, 'z) shell_env_scheme \<Rightarrow> ExecutionContext \<Rightarrow> int \<Rightarrow> 'w \<Rightarrow> TaskResult" where
  "shell_status E c code w =
     (if isTimeout (sh_now E w) c then
        result_of Timeout (shell_prefix @ ''Shell'' @ bytes [0xE6,0x89,0xA7,0xE8,0xA1,0x8C,0xE8,0xB6,0x85,0xE6,0x97,0xB6])
      else if sh_canceled E w then
        result_of Canceled (shell_prefix @ bytes [0xE5,0x9C,0xA8] @ ''Shell''
          @ bytes [0xE6,0x89,0xA7,0xE8,0xA1,0x8C,0xE6,0x9C,0x9F,0xE9,0x97,0xB4,0xE5,0x8F,0x96,0xE6,0xB6,0x88])
      else if code = 0 then result_of Success []
      else result_of Failed (shell_prefix @ ''Shell''
             @ bytes [0xE9,0x80,0x80,0xE5,0x87,0xBA,0xE4,0xBB,0xA3,0xE7,0xA0,0x81] @ '' '' @ to_string_int code))"

definition shell_end_event :: "TaskResult \<Rightarrow> shell_event" where
  "shell_end_event r =
     ShLog (if res_status r = Failed then Error
            else if res_status r = Timeout \<or> res_status r = Canceled then Warn else Info)
       (''Shell end: status='' @ to_string_int (status_int (res_status r)) @ '', exitCode='' @ to_string_int (exitCode r)
        @ '', durationMs='' @ to_string_int (durationMs r)
        @ (if res_message r \<noteq> [] then '', message='' @ res_message r else []))
       [''exit_code'' \<mapsto> to_string_int (exitCode r), ''status'' \<mapsto> TaskStatusTypetoString (res_status r)]"

definition shell_finish ::
  "('w, 'z) shell_env_scheme \<Rightarrow> ExecutionContext \<Rightarrow> int \<Rightarrow> sh_state \<Rightarrow> 'w \<Rightarrow> TaskResult \<times> shell_event list" where
  "shell_finish E c start s w =
     (let cfg = config c;
          code = decode_exit (childStatus s);
          r0 = (shell_status E c code w)\<lparr>durationMs := sh_now E w - start, exitCode := code\<rparr>;
          r = (if captureOutput cfg then r0\<lparr>stdoutData := stdoutBuf s, stderrData := stderrBuf s\<rparr> else r0);
          out = (if captureOutput cfg
                 then emit_lines_to_log_buffer True (stdoutBuf s) @ emit_lines_to_log_buffer False (stderrBuf s) else [])
      in (r, out @ [shell_end_event r]))"

definition pipe_failed :: TaskResult where
  "pipe_failed = result_of Failed (shell_prefix @ ''pipe() '' @ bytes [0xE5,0x88,0x9B,0xE5,0xBB,0xBA,0xE5,0xA4,0xB1,0xE8,0xB4,0xA5])"

definition pair_events :: "(int \<Rightarrow> shell_event) \<Rightarrow> int \<times> int \<Rightarrow> shell_event list" where
  "pair_events ev p = [ev (fst p), ev (snd p)]"

definition shell_execute ::
  "('w, 'z) shell_env_scheme \<Rightarrow> ExecutionContext \<Rightarrow> 'w \<Rightarrow> (TaskResult \<times> shell_event list \<times> 'w) option" where
  "shell_execute E c w =
     (let cfg = config c;
          start = sh_now E w;
          cmd = ctx_get c ''cmd'' (execCommand cfg)
      in if cmd = [] then
           Some (result_of Failed (shell_prefix @ bytes [0xE7,0xA9,0xBA] @ ''Shell'' @ bytes [0xE5,0x91,0xBD,0xE4,0xBB,0xA4]),
                 [ShLog Error ''Shell rejected: empty command'' Map.empty], w)
         else if sh_canceled E w then
           Some (result_of Canceled (shell_prefix @ bytes [0xE5,0x9C,0xA8] @ ''Shell''
                   @ bytes [0xE6,0x89,0xA7,0xE8,0xA1,0x8C,0xE5,0x89,0x8D,0xE5,0x8F,0x96,0xE6,0xB6,0x88]),
                 [ShLog Warn ''Shell canceled before start'' Map.empty], w)
         else
           (let ev0 = [ShLog Info (''Shell start: '' @ cmd) Map.empty] in
            case sh_pipe E w of
              (None, w1) \<Rightarrow> Some (pipe_failed, ev0, w1)
            | (Some outPipe, w1) \<Rightarrow>
                (case sh_pipe E w1 of
                   (None, w2) \<Rightarrow> Some (pipe_failed, ev0 @ pair_events ShOpen outPipe, w2)
                 | (Some errPipe, w2) \<Rightarrow>
                     (let ev1 = ev0 @ pair_events ShOpen outPipe @ pair_events ShOpen errPipe;
                          params = execParams cfg;
                          shell0 = getParam params ''shell'' ''/bin/sh'';
                          shellPath = (if is_blank_string shell0 then ''/bin/sh'' else shell0);
                          child = child_calls outPipe errPipe (getParam params ''cwd'' []) (env_pairs (sh_order E params) params)
                                    shellPath cmd
                      in case sh_fork E child w2 of
                           (None, w3) \<Rightarrow>
                             Some (result_of Failed (shell_prefix @ ''fork() '' @ bytes [0xE5,0xA4,0xB1,0xE8,0xB4,0xA5]),
                                   ev1 @ pair_events ShClose outPipe @ pair_events ShClose errPipe, w3)
                         | (Some pid, w3) \<Rightarrow>
                             (let s0 = \<lparr>outOpen = True, errOpen = True, childExited = False, childStatus = 0,
                                        stdoutBuf = [], stderrBuf = [],
                                        sh_events = [ShClose (snd outPipe), ShClose (snd errPipe)]\<rparr>
                              in case shell_loop E c pid (fst outPipe) (fst errPipe) (s0, w3) of
                                   None \<Rightarrow> None
                                 | Some (s, w4) \<Rightarrow>
                                     (let (r, ev2) = shell_finish E c start s w4
                                      in Some (r, ev1 @ sh_events s @ ev2, w4)))))))"

subsection \<open>The loop\<close>

lemma shell_loop_inv:
  assumes "shell_loop E c pid ofd efd sw = Some sw'" and "I sw"
    and "\<And>sw sw'. I sw \<Longrightarrow> running_on (fst sw) \<Longrightarrow> shell_round E c pid ofd efd sw = Some sw' \<Longrightarrow> I sw'"
  shows "I sw' \<and> \<not> running_on (fst sw')"
  using assms(2,3)
proof (induction rule: shell_loop.raw_induct)
  case (1 loop E c pid ofd efd sw sw')
  show ?case
  proof (cases "running_on (fst sw)")
    case False
    with 1(2) have "sw' = sw" by simp
    with 1(3) False show ?thesis by simp
  next
    case True
    then obtain sw1 where r: "shell_round E c pid ofd efd sw = Some sw1" and l: "loop E c pid ofd efd sw1 = Some sw'"
      using 1(2) by (auto split: option.splits)
    have "I sw1" by (rule 1(4) [OF 1(3) True r])
    then show ?thesis by (rule 1(1) [OF l _ 1(4)])
  qed
next
  case 2
  show ?case by (rule assms(1))
qed

subsection \<open>Descriptors\<close>

definition opened :: "shell_event list \<Rightarrow> int list" where
  "opened evs = List.map_filter (\<lambda>e. case e of ShOpen fd \<Rightarrow> Some fd | _ \<Rightarrow> None) evs"

definition closed_fds :: "shell_event list \<Rightarrow> int list" where
  "closed_fds evs = List.map_filter (\<lambda>e. case e of ShClose fd \<Rightarrow> Some fd | _ \<Rightarrow> None) evs"

lemma fds_simps [simp]:
  "opened [] = []" "closed_fds [] = []"
  "opened (xs @ ys) = opened xs @ opened ys" "closed_fds (xs @ ys) = closed_fds xs @ closed_fds ys"
  "opened (ShOpen fd # xs) = fd # opened xs" "closed_fds (ShOpen fd # xs) = closed_fds xs"
  "opened (ShClose fd # xs) = opened xs" "closed_fds (ShClose fd # xs) = fd # closed_fds xs"
  "opened (ShKill n # xs) = opened xs" "closed_fds (ShKill n # xs) = closed_fds xs"
  "opened (ShLog l t f # xs) = opened xs" "closed_fds (ShLog l t f # xs) = closed_fds xs"
  "opened (map (ShLine b) ls) = []" "closed_fds (map (ShLine b) ls) = []"
  by (simp_all add: opened_def closed_fds_def map_filter_def)

text \<open>What the events of a round have closed: the write ends, and each read end that is no longer open.\<close>

definition fds_accounted :: "int \<Rightarrow> int \<Rightarrow> int list \<Rightarrow> sh_state \<Rightarrow> bool" where
  "fds_accounted ofd efd ws s \<longleftrightarrow>
     opened (sh_events s) = [] \<and>
     mset (closed_fds (sh_events s)) = mset (ws @ (if outOpen s then [] else [ofd]) @ (if errOpen s then [] else [efd]))"

lemma note_wait_sel [simp]:
  "outOpen (note_wait r s) = outOpen s" "errOpen (note_wait r s) = errOpen s" "sh_events (note_wait r s) = sh_events s"
  "childExited (note_wait r s) = (childExited s \<or> r \<noteq> None)"
  by (auto simp: note_wait_def split: option.splits)

lemma terminate_accounted:
  assumes "fds_accounted ofd efd ws (fst sw)"
  shows "fds_accounted ofd efd ws (fst (terminate_child E c pid sw))"
  using assms by (auto simp: terminate_child_def fds_accounted_def Let_def split: prod.splits)

lemma drain_out_accounted:
  assumes "drain_out E ofd sw = Some sw'" and "fds_accounted ofd efd ws (fst sw)"
  shows "fds_accounted ofd efd ws (fst sw')"
  using assms by (auto simp: drain_out_def fds_accounted_def Let_def split: prod.splits if_splits option.splits)

lemma drain_err_accounted:
  assumes "drain_err E efd sw = Some sw'" and "fds_accounted ofd efd ws (fst sw)"
  shows "fds_accounted ofd efd ws (fst sw')"
  using assms by (auto simp: drain_err_def fds_accounted_def Let_def split: prod.splits if_splits option.splits)

lemma reap_accounted:
  assumes "fds_accounted ofd efd ws (fst sw)"
  shows "fds_accounted ofd efd ws (fst (reap E pid sw))"
  using assms by (auto simp: reap_def fds_accounted_def Let_def split: prod.splits)

lemma round_accounted:
  assumes "shell_round E c pid ofd efd sw = Some sw'" and "fds_accounted ofd efd ws (fst sw)"
  shows "fds_accounted ofd efd ws (fst sw')"
proof -
  obtain s w where t: "terminate_child E c pid sw = (s, w)" by (cases "terminate_child E c pid sw")
  obtain sw1 sw2 where o: "drain_out E ofd (s, poll_pipes E ofd efd s w) = Some sw1"
    and e: "drain_err E efd sw1 = Some sw2" and r: "sw' = reap E pid sw2"
    using assms(1) t by (auto simp: shell_round_def Let_def split: option.splits)
  have "fds_accounted ofd efd ws s" using terminate_accounted [OF assms(2), of E c pid] t by simp
  then show ?thesis using drain_out_accounted [OF o] drain_err_accounted [OF e] by (simp add: r reap_accounted)
qed

lemma loop_closes:
  assumes "shell_loop E c pid ofd efd sw = Some sw'" and "fds_accounted ofd efd ws (fst sw)"
  shows "opened (sh_events (fst sw')) = []" and "mset (closed_fds (sh_events (fst sw'))) = mset (ws @ [ofd, efd])"
proof -
  have "fds_accounted ofd efd ws (fst sw') \<and> \<not> running_on (fst sw')"
    by (rule shell_loop_inv [OF assms(1), of "\<lambda>x. fds_accounted ofd efd ws (fst x)"])
      (use assms(2) round_accounted in auto)
  then show "opened (sh_events (fst sw')) = []" and "mset (closed_fds (sh_events (fst sw'))) = mset (ws @ [ofd, efd])"
    by (auto simp: fds_accounted_def running_on_def)
qed

lemma finish_events:
  "opened (snd (shell_finish E c st s w)) = []" "closed_fds (snd (shell_finish E c st s w)) = []"
  by (auto simp: shell_finish_def Let_def emit_lines_to_log_buffer_def shell_end_event_def)

lemma execute_closes:
  assumes "shell_execute E c w = Some (r, evs, w')"
    and "fst (sh_pipe E w) \<noteq> None \<Longrightarrow> fst (sh_pipe E (snd (sh_pipe E w))) \<noteq> None"
  shows "mset (opened evs) = mset (closed_fds evs)"
proof -
  have L: "opened (sh_events s) = [] \<and> mset (closed_fds (sh_events s)) = {# b, b', a, a' #}"
    if "shell_loop E c pid a a'
          (\<lparr>outOpen = True, errOpen = True, childExited = False, childStatus = 0, stdoutBuf = [], stderrBuf = [],
            sh_events = [ShClose b, ShClose b']\<rparr>, w3) = Some (s, w4)" for pid a b a' b' w3 s w4
    using loop_closes [OF that, of "[b, b']"] by (simp add: fds_accounted_def)
  have F: "opened ev = [] \<and> closed_fds ev = []" if "shell_finish E c st s w4 = (r', ev)" for st s w4 r' ev
    using finish_events [of E c st s w4] that by simp
  show ?thesis
    using assms
    by (auto simp: shell_execute_def Let_def pair_events_def dest!: L F split: if_splits option.splits prod.splits)
qed

text \<open>A shell task that returns has closed every descriptor it opened, exactly once each, whatever the child, the
  reads, the signals and the clock did; the one condition is that the second \<^verbatim>\<open>pipe()\<close> call succeeds when the
  first one did (the code returns without closing the first pipe when it does not).
\<close>

theorem shell_closes_pipes:
  assumes "shell_execute E c w = Some (r, evs, w')"
    and "fst (sh_pipe E w) \<noteq> None \<Longrightarrow> fst (sh_pipe E (snd (sh_pipe E w))) \<noteq> None"
  shows "mset (opened evs) = mset (closed_fds evs)"
  using assms by (rule execute_closes)

text \<open>And this is what happens when it does not: the first pipe stays open in a run that has returned.\<close>

lemma second_pipe_failure_leaks:
  assumes "ctx_get c ''cmd'' (execCommand (config c)) \<noteq> []" and "\<not> sh_canceled E w"
    and "sh_pipe E w = (Some p, w1)" and "sh_pipe E w1 = (None, w2)"
  shows "\<exists>r evs. shell_execute E c w = Some (r, evs, w2) \<and> opened evs = [fst p, snd p] \<and> closed_fds evs = []"
  using assms by (simp add: shell_execute_def Let_def pair_events_def)

subsection \<open>Returning\<close>

text \<open>
  The environment settles when a measure of what it may still do goes down with every chunk that is read and
  with every pause, never goes up, and when nothing is left to do the pipes are at their end and the child has exited.
\<close>

definition settles :: "('w, 'z) shell_env_scheme \<Rightarrow> ('w \<Rightarrow> nat) \<Rightarrow> bool" where
  "settles E mu \<longleftrightarrow>
     (\<forall>fd w. mu (snd (sh_read E fd w)) \<le> mu w) \<and>
     (\<forall>fd w s w'. sh_read E fd w = (ReadData s, w') \<longrightarrow> mu w' < mu w) \<and>
     (\<forall>fd w. mu w = 0 \<longrightarrow> fst (sh_read E fd w) \<noteq> ReadWouldBlock) \<and>
     (\<forall>pid w. mu (snd (sh_waitpid E pid w)) \<le> mu w) \<and>
     (\<forall>pid w. mu w = 0 \<longrightarrow> fst (sh_waitpid E pid w) \<noteq> None) \<and>
     (\<forall>pid sig w. mu (sh_killpg E pid sig w) \<le> mu w) \<and>
     (\<forall>fds w. mu (sh_poll E fds w) \<le> mu w - 1) \<and>
     (\<forall>n w. mu (sh_usleep E n w) \<le> mu w - 1)"

lemma drain_settles:
  assumes S: "settles E mu"
  shows "\<exists>out' b w'. drain_fd E fd out w = Some (out', b, w') \<and> mu w' \<le> mu w \<and> (mu w = 0 \<longrightarrow> \<not> b)"
proof (induction "mu w" arbitrary: out w rule: less_induct)
  case less
  obtain rr w1 where r: "sh_read E fd w = (rr, w1)" by (cases "sh_read E fd w")
  have le: "mu w1 \<le> mu w" using S r unfolding settles_def by (metis snd_conv)
  show ?case
  proof (cases rr)
    case (ReadData s)
    with S r have lt: "mu w1 < mu w" unfolding settles_def by blast
    from less [OF lt, of "out @ s"] obtain out' b w' where
      "drain_fd E fd (out @ s) w1 = Some (out', b, w')" "mu w' \<le> mu w1" by blast
    then show ?thesis using lt r ReadData by (subst drain_fd.simps) auto
  next
    case ReadWouldBlock
    with S r have "mu w \<noteq> 0" unfolding settles_def by (metis fst_conv)
    then show ?thesis using le r ReadWouldBlock by (subst drain_fd.simps) auto
  qed (use le r in \<open>subst drain_fd.simps, auto\<close>)+
qed

lemma await_settles: "settles E mu \<Longrightarrow> mu (snd (await_exit E pid n w)) \<le> mu w"
proof (induction n arbitrary: w)
  case (Suc n)
  obtain r w1 where r: "sh_waitpid E pid w = (r, w1)" by (cases "sh_waitpid E pid w")
  have le: "mu w1 \<le> mu w" using Suc.prems r unfolding settles_def by (metis snd_conv)
  have "mu (sh_usleep E 10000 w1) \<le> mu w1 - 1" using Suc.prems unfolding settles_def by blast
  then have "mu (snd (await_exit E pid n (sh_usleep E 10000 w1))) \<le> mu w1"
    using Suc.IH [OF Suc.prems, of "sh_usleep E 10000 w1"] by linarith
  with le r show ?case by (auto split: option.splits)
qed simp

lemma terminate_settles:
  assumes S: "settles E mu"
  shows "mu (snd (terminate_child E c pid (s, w))) \<le> mu w"
proof -
  have K: "mu (sh_killpg E pid sig v) \<le> mu v" for sig v using S unfolding settles_def by blast
  obtain r w2 where a: "await_exit E pid 20 (sh_killpg E pid SIGTERM w) = (r, w2)"
    by (cases "await_exit E pid 20 (sh_killpg E pid SIGTERM w)")
  have "mu w2 \<le> mu w" using await_settles [OF S, of pid 20 "sh_killpg E pid SIGTERM w"] K [of SIGTERM w] a by simp
  then show ?thesis using K [of SIGKILL w2] by (simp add: terminate_child_def Let_def a)
qed

lemma drain_out_settles:
  assumes "settles E mu"
  shows "\<exists>s' w'. drain_out E ofd (s, w) = Some (s', w') \<and> mu w' \<le> mu w \<and> (mu w = 0 \<longrightarrow> \<not> outOpen s')
                 \<and> errOpen s' = errOpen s \<and> childExited s' = childExited s"
  using drain_settles [OF assms, of ofd "stdoutBuf s" w] by (auto simp: drain_out_def)

lemma drain_err_settles:
  assumes "settles E mu"
  shows "\<exists>s' w'. drain_err E efd (s, w) = Some (s', w') \<and> mu w' \<le> mu w \<and> (mu w = 0 \<longrightarrow> \<not> errOpen s')
                 \<and> outOpen s' = outOpen s \<and> childExited s' = childExited s"
  using drain_settles [OF assms, of efd "stderrBuf s" w] by (auto simp: drain_err_def)

lemma reap_settles:
  assumes S: "settles E mu"
  shows "\<exists>s' w'. reap E pid (s, w) = (s', w') \<and> mu w' \<le> mu w \<and> (mu w = 0 \<longrightarrow> childExited s')
                 \<and> outOpen s' = outOpen s \<and> errOpen s' = errOpen s"
proof -
  obtain r w1 where r: "sh_waitpid E pid w = (r, w1)" by (cases "sh_waitpid E pid w")
  have "mu w1 \<le> mu w" "mu w = 0 \<longrightarrow> r \<noteq> None" using S r unfolding settles_def by (metis snd_conv, metis fst_conv)
  then show ?thesis by (auto simp: reap_def r)
qed

lemma round_settles:
  assumes S: "settles E mu"
  shows "\<exists>s' w'. shell_round E c pid ofd efd (s, w) = Some (s', w') \<and> (mu w' < mu w \<or> \<not> running_on s')"
proof -
  obtain s0 w0 where t: "terminate_child E c pid (s, w) = (s0, w0)" by (cases "terminate_child E c pid (s, w)")
  have l0: "mu w0 \<le> mu w" using terminate_settles [OF S, of c pid s w] t by simp
  define w1 where "w1 = poll_pipes E ofd efd s0 w0"
  have l1: "mu w1 \<le> mu w0 - 1" using S unfolding settles_def w1_def poll_pipes_def Let_def by auto
  obtain s2 w2 where o: "drain_out E ofd (s0, w1) = Some (s2, w2)" "mu w2 \<le> mu w1" "mu w1 = 0 \<longrightarrow> \<not> outOpen s2"
    using drain_out_settles [OF S, of ofd s0 w1] by auto
  obtain s3 w3 where e: "drain_err E efd (s2, w2) = Some (s3, w3)" "mu w3 \<le> mu w2" "mu w2 = 0 \<longrightarrow> \<not> errOpen s3"
      "outOpen s3 = outOpen s2" using drain_err_settles [OF S, of efd s2 w2] by auto
  obtain s4 w4 where r: "reap E pid (s3, w3) = (s4, w4)" "mu w4 \<le> mu w3" "mu w3 = 0 \<longrightarrow> childExited s4"
      "outOpen s4 = outOpen s3" "errOpen s4 = errOpen s3" using reap_settles [OF S, of pid s3 w3] by auto
  have eq: "shell_round E c pid ofd efd (s, w) = Some (s4, w4)"
    using t o(1) e(1) r(1) by (simp add: shell_round_def w1_def)
  show ?thesis
  proof (cases "mu w0 = 0")
    case True
    then have "mu w1 = 0" "mu w2 = 0" "mu w3 = 0" using l1 o(2) e(2) by simp_all
    then show ?thesis using eq o(3) e(3,4) r(3-5) by (simp add: running_on_def)
  next
    case False
    then have "mu w4 < mu w" using l0 l1 o(2) e(2) r(2) by linarith
    with eq show ?thesis by blast
  qed
qed

lemma loop_settles:
  assumes S: "settles E mu"
  shows "\<exists>sw'. shell_loop E c pid ofd efd (s, w) = Some sw'"
proof (induction "mu w" arbitrary: s w rule: less_induct)
  case less
  obtain s' w' where r: "shell_round E c pid ofd efd (s, w) = Some (s', w')" "mu w' < mu w \<or> \<not> running_on s'"
    using round_settles [OF S, of c pid ofd efd s w] by blast
  have "\<exists>sw'. shell_loop E c pid ofd efd (s', w') = Some sw'"
  proof (cases "running_on s'")
    case True
    with r(2) have "mu w' < mu w" by simp
    then show ?thesis by (rule less)
  next
    case False
    then show ?thesis by (subst shell_loop.simps) simp
  qed
  then show ?case using r(1) by (subst shell_loop.simps) simp
qed

lemma execute_settles:
  assumes "settles E mu"
  shows "\<exists>r evs w'. shell_execute E c w = Some (r, evs, w')"
proof -
  have L: "shell_loop E c pid ofd efd sw \<noteq> None" for pid ofd efd sw
    using loop_settles [OF assms, of c pid ofd efd "fst sw" "snd sw"] by auto
  show ?thesis
    by (auto simp: shell_execute_def Let_def L simp del: not_None_eq split: option.splits prod.splits)
qed


subsection \<open>A pipe that stays open\<close>

lemma round_keeps_out:
  assumes "\<And>w. fst (sh_read E ofd w) = ReadWouldBlock"
    and "shell_round E c pid ofd efd sw = Some sw'" and "outOpen (fst sw)"
  shows "outOpen (fst sw')"
proof -
  have d: "drain_fd E ofd buf w = Some (buf, True, snd (sh_read E ofd w))" for buf w
    using assms(1) [of w] by (subst drain_fd.simps) (auto split: prod.splits)
  obtain s w where t: "terminate_child E c pid sw = (s, w)" by (cases "terminate_child E c pid sw")
  have o: "outOpen s" using t assms(3) by (auto simp: terminate_child_def Let_def split: prod.splits if_splits)
  obtain sw1 sw2 where r: "drain_out E ofd (s, poll_pipes E ofd efd s w) = Some sw1" "drain_err E efd sw1 = Some sw2"
      "sw' = reap E pid sw2"
    using assms(2) t by (auto simp: shell_round_def Let_def split: option.splits)
  have "outOpen (fst sw1)" using r(1) o by (auto simp: drain_out_def d)
  then have "outOpen (fst sw2)" using r(2) by (auto simp: drain_err_def Let_def split: prod.splits if_splits option.splits)
  then show ?thesis by (auto simp: r(3) reap_def Let_def split: prod.splits)
qed

lemma open_pipe_never_ends:
  assumes "\<And>w. fst (sh_read E ofd w) = ReadWouldBlock" and "outOpen (fst sw)"
  shows "shell_loop E c pid ofd efd sw = None"
proof (rule ccontr)
  assume "\<not> ?thesis"
  then obtain sw' where l: "shell_loop E c pid ofd efd sw = Some sw'" by blast
  have "outOpen (fst sw') \<and> \<not> running_on (fst sw')"
    by (rule shell_loop_inv [OF l, of "\<lambda>x. outOpen (fst x)"]) (use assms round_keeps_out in blast)+
  then show False unfolding running_on_def by blast
qed

lemma exited_child_gets_no_signal: "childExited s \<Longrightarrow> terminate_child E c pid (s, w) = (s, w)"
  by (simp add: terminate_child_def)

text \<open>A shell task whose standard output stays open never returns, whatever its timeout, the cancel flag and the
  exit of the shell itself: a background process that inherited the pipe keeps the main loop going, and once the
  shell has exited no signal is sent any more.
\<close>

theorem shell_held_by_open_pipe:
  assumes "ctx_get c ''cmd'' (execCommand (config c)) \<noteq> []" and "\<not> sh_canceled E w"
    and "sh_pipe E w = (Some p, w1)" and "sh_pipe E w1 = (Some q, w2)"
    and "\<And>child. fst (sh_fork E child w2) \<noteq> None"
    and "\<And>v. fst (sh_read E (fst p) v) = ReadWouldBlock"
  shows "shell_execute E c w = None"
proof -
  have L: "shell_loop E c pid (fst p) efd (s, v) = None" if "outOpen s" for pid efd s v
    using open_pipe_never_ends [of E "fst p" "(s, v)"] assms(6) that by simp
  have F: "sh_fork E child w2 \<noteq> (None, v)" for child v using assms(5) [of child] by auto
  show ?thesis using assms(1-4)
    by (simp add: shell_execute_def Let_def L F split: option.split prod.split)
qed

subsection \<open>The outcome\<close>

text \<open>Once the child is marked as exited, its status is one that \<^verbatim>\<open>waitpid\<close> returned.\<close>

definition status_from :: "('w, 'z) shell_env_scheme \<Rightarrow> int \<Rightarrow> sh_state \<Rightarrow> bool" where
  "status_from E pid s \<longleftrightarrow> (childExited s \<longrightarrow> (\<exists>v. fst (sh_waitpid E pid v) = Some (childStatus s)))"

lemma status_note_wait:
  assumes "status_from E pid s" and "sh_waitpid E pid v = (r, v') \<or> r = None"
  shows "status_from E pid (note_wait r s)"
  using assms by (cases r) (auto simp: status_from_def note_wait_def intro: exI [of _ v])

lemma await_from: "await_exit E pid n w = (r, w') \<Longrightarrow> r = None \<or> (\<exists>v v'. sh_waitpid E pid v = (r, v'))"
  by (induction n arbitrary: w) (auto split: prod.splits option.splits)

lemma terminate_status:
  assumes "status_from E pid (fst sw)"
  shows "status_from E pid (fst (terminate_child E c pid sw))"
proof -
  obtain s w where sw: "sw = (s, w)" by (cases sw)
  obtain r w2 where a: "await_exit E pid 20 (sh_killpg E pid SIGTERM w) = (r, w2)"
    by (cases "await_exit E pid 20 (sh_killpg E pid SIGTERM w)")
  have "status_from E pid (s\<lparr>sh_events := sh_events s @ [ShKill SIGTERM]\<rparr>)"
    using assms sw by (simp add: status_from_def)
  then have "status_from E pid (note_wait r (s\<lparr>sh_events := sh_events s @ [ShKill SIGTERM]\<rparr>))"
    using await_from [OF a] status_note_wait by metis
  then show ?thesis using assms by (auto simp: terminate_child_def sw a Let_def status_from_def)
qed

lemma round_status:
  assumes "shell_round E c pid ofd efd sw = Some sw'" and "status_from E pid (fst sw)"
  shows "status_from E pid (fst sw')"
proof -
  obtain s w where t: "terminate_child E c pid sw = (s, w)" by (cases "terminate_child E c pid sw")
  obtain sw1 s2 w2 where r: "drain_out E ofd (s, poll_pipes E ofd efd s w) = Some sw1" "drain_err E efd sw1 = Some (s2, w2)"
      "sw' = reap E pid (s2, w2)"
    using assms(1) t by (auto simp: shell_round_def Let_def split: option.splits)
  have "status_from E pid s" using terminate_status [OF assms(2), of c] t by simp
  then have "status_from E pid (fst sw1)" using r(1)
    by (auto simp: drain_out_def status_from_def split: if_splits option.splits)
  then have "status_from E pid s2" using r(2)
    by (auto simp: drain_err_def status_from_def Let_def split: if_splits option.splits prod.splits)
  then show ?thesis
    using status_note_wait [of E pid s2 w2] by (auto simp: r(3) reap_def split: prod.splits)
qed

lemma loop_status:
  assumes "shell_loop E c pid ofd efd (s, w) = Some (s', w')" and "\<not> childExited s"
  shows "\<exists>v. fst (sh_waitpid E pid v) = Some (childStatus s')"
proof -
  have "status_from E pid (fst (s', w')) \<and> \<not> running_on (fst (s', w'))"
    by (rule shell_loop_inv [OF assms(1), of "\<lambda>x. status_from E pid (fst x)"])
      (use assms(2) round_status in \<open>simp add: status_from_def, blast\<close>)
  then show ?thesis by (auto simp: status_from_def running_on_def)
qed

lemma finish_result:
  assumes "shell_finish E c start s w = (r, ev)"
  shows "exitCode r = decode_exit (childStatus s)" and "durationMs r = sh_now E w - start"
    and "res_status r = (if isTimeout (sh_now E w) c then Timeout else if sh_canceled E w then Canceled
                         else if exitCode r = 0 then Success else Failed)"
proof -
  have S: "res_status (shell_status E c code w) = (if isTimeout (sh_now E w) c then Timeout
      else if sh_canceled E w then Canceled else if code = 0 then Success else Failed)" for code
    by (simp add: shell_status_def result_of_def)
  have r: "r = fst (shell_finish E c start s w)" using assms by simp
  show code: "exitCode r = decode_exit (childStatus s)" and "durationMs r = sh_now E w - start"
    by (simp_all add: r shell_finish_def Let_def)
  show "res_status r = (if isTimeout (sh_now E w) c then Timeout else if sh_canceled E w then Canceled
                         else if exitCode r = 0 then Success else Failed)"
    unfolding code by (simp add: r shell_finish_def Let_def S)
qed

lemma execute_outcome:
  assumes "shell_execute E c w = Some (r, evs, w')"
    and "ctx_get c ''cmd'' (execCommand (config c)) \<noteq> []" and "\<not> sh_canceled E w"
    and "sh_pipe E w = (Some p, w1)" and "sh_pipe E w1 = (Some q, w2)"
    and "\<And>child. \<exists>w3. sh_fork E child w2 = (Some pid, w3)"
  shows "\<exists>st v. fst (sh_waitpid E pid v) = Some st \<and> exitCode r = decode_exit st
      \<and> durationMs r = sh_now E w' - sh_now E w
      \<and> res_status r = (if isTimeout (sh_now E w') c then Timeout else if sh_canceled E w' then Canceled
                        else if exitCode r = 0 then Success else Failed)"
proof -
  have F: "sh_fork E child w2 \<noteq> (None, v)" "sh_fork E child w2 = (Some x, v) \<Longrightarrow> x = pid" for child v x
    using assms(6) [of child] by auto
  obtain w3 s ev2 where
    "shell_loop E c pid (fst p) (fst q)
       (\<lparr>outOpen = True, errOpen = True, childExited = False, childStatus = 0, stdoutBuf = [], stderrBuf = [],
         sh_events = [ShClose (snd p), ShClose (snd q)]\<rparr>, w3) = Some (s, w')"
    and f: "shell_finish E c (sh_now E w) s w' = (r, ev2)"
    using assms(1-5)
    by (auto simp: shell_execute_def Let_def F(1) dest!: F(2) split: option.splits prod.splits if_splits)
  then obtain v where "fst (sh_waitpid E pid v) = Some (childStatus s)" using loop_status by fastforce
  with finish_result [OF f] show ?thesis by blast
qed

text \<open>C20. The outcome of a shell task whose child could be started: the exit code is the decoding of a status that
  \<^verbatim>\<open>waitpid\<close> returned for this child, and the task is timed out when the deadline has passed by the end (even if
  the command had succeeded), else canceled when the flag is up, else successful exactly for exit code 0.
\<close>

theorem shell_outcome:
  assumes "shell_execute E c w = Some (r, evs, w')"
    and "ctx_get c ''cmd'' (execCommand (config c)) \<noteq> []" and "\<not> sh_canceled E w"
    and "sh_pipe E w = (Some p, w1)" and "sh_pipe E w1 = (Some q, w2)"
    and "\<And>child. \<exists>w3. sh_fork E child w2 = (Some pid, w3)"
  shows "\<exists>st v. fst (sh_waitpid E pid v) = Some st \<and> exitCode r = decode_exit st
      \<and> durationMs r = sh_now E w' - sh_now E w
      \<and> res_status r = (if isTimeout (sh_now E w') c then Timeout else if sh_canceled E w' then Canceled
                        else if exitCode r = 0 then Success else Failed)"
  using assms by (rule execute_outcome)

subsection \<open>Examples\<close>

declare drain_fd.simps [code] shell_loop.simps [code]

text \<open>A child that writes three chunks and exits with code 2; the world counts what is left to happen.\<close>

definition demo_shell :: "nat shell_env" where
  "demo_shell = \<lparr>sh_now = (\<lambda>w. 9 - int w), sh_canceled = (\<lambda>_. False), sh_order = (\<lambda>_. []),
     sh_pipe = (\<lambda>w. (Some (2 * int w, 2 * int w + 1), w - 1)), sh_fork = (\<lambda>_ w. (Some 77, w)),
     sh_read = (\<lambda>_ w. if w = 0 then (ReadEof, w) else (ReadData [CHR ''x'', CHR 0x0A], w - 1)),
     sh_waitpid = (\<lambda>_ w. (if w = 0 then Some 512 else None, w)), sh_killpg = (\<lambda>_ _ w. w),
     sh_poll = (\<lambda>_ w. w - 1), sh_usleep = (\<lambda>_ w. w - 1)\<rparr>"

definition demo_shell_ctx :: ExecutionContext where
  "demo_shell_ctx = \<lparr>config = default_TaskConfig\<lparr>execParams := [''cmd'' \<mapsto> ''true''], captureOutput := True\<rparr>,
     cancelFlag = None, deadline = None, nestingDepth = 0\<rparr>"

lemma demo_settles: "settles demo_shell (\<lambda>w. w)"
  by (auto simp: settles_def demo_shell_def)

lemma demo_shell_run:
  "map_option (\<lambda>(r, evs, w'). (exitCode r, res_status r, durationMs r, stdoutData r, opened evs, w'))
     (shell_execute demo_shell demo_shell_ctx 6)
   = Some (2, Failed, 6, [CHR ''x'', CHR 0x0A, CHR ''x'', CHR 0x0A, CHR ''x'', CHR 0x0A], [12, 13, 10, 11], 0)"
  by code_simp

lemma demo_shell_first:
  "map_option (\<lambda>(r, evs, w'). (r, evs)) (shell_execute demo_shell demo_shell_ctx 6) \<noteq> None
   \<and> sh_pipe demo_shell 6 = (Some (12, 13), 5) \<and> sh_pipe demo_shell 5 = (Some (10, 11), 4)
   \<and> sh_fork demo_shell child 4 = (Some 77, 4) \<and> \<not> sh_canceled demo_shell 6
   \<and> ctx_get demo_shell_ctx ''cmd'' (execCommand (config demo_shell_ctx)) = ''true''"
proof -
  have c: "ctx_get demo_shell_ctx ''cmd'' (execCommand (config demo_shell_ctx)) = ''true''" by code_simp
  show ?thesis using demo_shell_run c by (auto simp: demo_shell_def)
qed

lemma shell_demo_returns: "\<exists>r evs w'. shell_execute demo_shell demo_shell_ctx 6 = Some (r, evs, w')"
  using demo_shell_first by auto

theorem shell_closes_pipes_witness:
  "\<exists>r evs w'. shell_execute demo_shell demo_shell_ctx 6 = Some (r, evs, w') \<and> opened evs = [12, 13, 10, 11]
     \<and> mset (opened evs) = mset (closed_fds evs)"
proof -
  obtain r evs w' where e: "shell_execute demo_shell demo_shell_ctx 6 = Some (r, evs, w')"
      and o: "opened evs = [12, 13, 10, 11]"
    using demo_shell_run by (auto simp: map_option_eq_Some)
  show ?thesis
    using shell_closes_pipes [OF e] e o demo_shell_first by simp
qed


theorem shell_outcome_witness:
  "\<exists>r evs w'. shell_execute demo_shell demo_shell_ctx 6 = Some (r, evs, w') \<and> exitCode r = 2 \<and> res_status r = Failed"
proof -
  obtain r evs w' where e: "shell_execute demo_shell demo_shell_ctx 6 = Some (r, evs, w')"
    using shell_demo_returns by blast
  have x: "exitCode r = 2" using demo_shell_run e by simp
  have "res_status r = (if isTimeout (sh_now demo_shell w') demo_shell_ctx then Timeout
      else if sh_canceled demo_shell w' then Canceled else if exitCode r = 0 then Success else Failed)"
    using shell_outcome [OF e, of "(12, 13)" 5 "(10, 11)" 4 77] demo_shell_first by auto
  then show ?thesis using e x by (simp add: isTimeout_def demo_shell_ctx_def demo_shell_def)
qed

text \<open>The background process: standard output never has data and never ends, the child exits at once.\<close>

definition demo_stuck :: "nat shell_env" where
  "demo_stuck = demo_shell\<lparr>sh_read := \<lambda>_ w. (ReadWouldBlock, w), sh_waitpid := \<lambda>_ w. (Some 0, w)\<rparr>"

theorem shell_held_by_open_pipe_witness:
  "shell_execute demo_stuck demo_shell_ctx 6 = None \<and> (\<forall>pid w. fst (sh_waitpid demo_stuck pid w) = Some 0)"
proof -
  have "shell_execute demo_stuck demo_shell_ctx 6 = None"
    by (rule shell_held_by_open_pipe [of demo_shell_ctx demo_stuck 6 "(12, 13)" 5 "(10, 11)" 4])
      (use demo_shell_first in \<open>auto simp: demo_stuck_def demo_shell_def\<close>)
  then show ?thesis by (simp add: demo_stuck_def)
qed

end
