(* ===== verification/Run_Tables.thy ===== *)
theory Run_Tables
  imports Remote_Strategy Auth_Manager Text_Util
begin

text \<open>
  The run history: \<^verbatim>\<open>db/task_run_repo.cpp\<close>, \<^verbatim>\<open>db/dag_run_repo.cpp\<close> and \<^verbatim>\<open>db/task_event_repo.cpp\<close>
  over the tables of \<^verbatim>\<open>migrations/004\<close> and \<^verbatim>\<open>005\<close>.  A table is the list of its rows in the order they were
  inserted; each operation does what its SQL statement says, with every bound text cut at its first NUL
  byte (\<^verbatim>\<open>c_str()\<close> with length -1).  \<open>None\<close> is a database that is not open.  Statements do not fail
  otherwise: locking and disk errors are left out.  Rows with equal time stamps are listed in the order of
  insertion, where SQL leaves their order open.
\<close>

subsection \<open>Rows\<close>

record TaskRunRow =
  tr_id :: int
  tr_runId :: string
  tr_logicalId :: string
  tr_taskId :: string
  tr_name :: string
  tr_execType :: string
  tr_execCommand :: string
  tr_execParamsJson :: string
  tr_depsJson :: string
  tr_status :: int
  tr_exitCode :: int
  tr_durationMs :: int
  tr_message :: string
  tr_stdoutText :: string
  tr_stderrText :: string
  tr_attempt :: int
  tr_maxAttempts :: int
  tr_startTsMs :: int
  tr_endTsMs :: int
  tr_workerId :: string
  tr_workerHost :: string
  tr_workerPort :: int
  tr_metadataJson :: string

text \<open>The columns of \<^verbatim>\<open>dag_run\<close>, and the row the query returns.\<close>

record dag_run_cols =
  dc_runId :: string
  dc_name :: string
  dc_source :: string
  dc_templateId :: "string option"
  dc_cronJobId :: "string option"
  dc_failPolicy :: string
  dc_maxParallel :: int
  dc_status :: int
  dc_message :: string
  dc_startTsMs :: int
  dc_endTsMs :: int
  dc_dagJson :: string
  dc_workflowJson :: string
  dc_total :: int
  dc_successCount :: int
  dc_failedCount :: int
  dc_skippedCount :: int

record DagRunRow =
  rr_runId :: string
  rr_name :: string
  rr_source :: string
  rr_status :: int
  rr_startTsMs :: int
  rr_endTsMs :: int
  rr_total :: int
  rr_successCount :: int
  rr_failedCount :: int
  rr_skippedCount :: int
  rr_message :: string
  rr_workflowJson :: string
  rr_dagJson :: string

record task_event_cols =
  te_id :: int
  te_runId :: string
  te_taskId :: string
  te_type :: string
  te_event :: string
  te_tsMs :: int
  te_payloadJson :: string

record EventRow =
  er_id :: int
  er_runId :: string
  er_taskId :: string
  er_type :: string
  er_event :: string
  er_tsMs :: int
  er_payload :: json

record RunDb =
  db_task_run :: "TaskRunRow list"
  db_task_run_seq :: int
  db_dag_run :: "dag_run_cols list"
  db_task_event :: "task_event_cols list"
  db_task_event_seq :: int

definition empty_RunDb :: RunDb where
  "empty_RunDb = \<lparr>db_task_run = [], db_task_run_seq = 0, db_dag_run = [], db_task_event = [], db_task_event_seq = 0\<rparr>"

subsection \<open>Values\<close>

definition c_str :: "string \<Rightarrow> string" where
  "c_str s = takeWhile (\<lambda>c. c \<noteq> CHR 0x00) s"

text \<open>Parsing that raises on text that is no JSON.\<close>

definition parse_text :: "(string \<Rightarrow> string + json) \<Rightarrow> string \<Rightarrow> json result" where
  "parse_text parse s = (case parse s of Inr j \<Rightarrow> Inr j | Inl err \<Rightarrow> Inl (RuntimeError err))"

fun statusToInt :: "TaskStatus \<Rightarrow> int" where
  "statusToInt Pending = 0"
| "statusToInt Running = 1"
| "statusToInt Success = 2"
| "statusToInt Failed = 3"
| "statusToInt Skipped = 4"
| "statusToInt Canceled = 5"
| "statusToInt Timeout = 6"

text \<open>The \<^verbatim>\<open>getStr\<close> and \<^verbatim>\<open>getInt\<close> lambdas.\<close>

definition json_str :: "(json \<Rightarrow> string) \<Rightarrow> json \<Rightarrow> string \<Rightarrow> string \<Rightarrow> string" where
  "json_str dump j key def = (case member key j of None \<Rightarrow> def | Some v \<Rightarrow> as_text dump v)"

definition json_int :: "json \<Rightarrow> string \<Rightarrow> int \<Rightarrow> int" where
  "json_int j key def =
     (case member key j of
        None \<Rightarrow> def
      | Some (JStr s) \<Rightarrow> (case stoi s of Inr n \<Rightarrow> n | Inl _ \<Rightarrow> def)
      | Some v \<Rightarrow> if is_number v then (case get_int v of Inr n \<Rightarrow> n | Inl _ \<Rightarrow> def) else def)"

subsection \<open>Task runs\<close>

definition row_key :: "TaskRunRow \<Rightarrow> string \<times> string" where
  "row_key r = (tr_runId r, tr_logicalId r)"

definition update_rows :: "('a \<Rightarrow> bool) \<Rightarrow> ('a \<Rightarrow> 'a) \<Rightarrow> 'a list \<Rightarrow> 'a list" where
  "update_rows P f rows = map (\<lambda>r. if P r then f r else r) rows"

text \<open>The row an insertion makes; the columns the statement does not name have their defaults.\<close>

definition new_task_row :: "(json \<Rightarrow> string) \<Rightarrow> string \<Rightarrow> json \<Rightarrow> TaskRunRow" where
  "new_task_row dump runId j =
     (let logicalId = json_str dump j ''id'' [];
          m = json_int j ''max_attempts'' (json_int j ''retry_count'' 1)
      in \<lparr>tr_id = 0, tr_runId = c_str runId, tr_logicalId = c_str logicalId,
          tr_taskId = c_str (json_str dump j ''task_id'' logicalId), tr_name = c_str (json_str dump j ''name'' []),
          tr_execType = c_str (json_str dump j ''exec_type'' []),
          tr_execCommand = c_str (json_str dump j ''exec_command'' []),
          tr_execParamsJson = c_str (case member ''exec_params'' j of Some (JObj p) \<Rightarrow> dump (JObj p) | _ \<Rightarrow> ''{}''),
          tr_depsJson = c_str (case member ''deps'' j of Some (JArr ds) \<Rightarrow> dump (JArr ds) | _ \<Rightarrow> ''[]''),
          tr_status = statusToInt Pending, tr_exitCode = 0, tr_durationMs = 0, tr_message = [], tr_stdoutText = [],
          tr_stderrText = [], tr_attempt = 1, tr_maxAttempts = (if m \<le> 0 then 1 else m), tr_startTsMs = 0,
          tr_endTsMs = 0, tr_workerId = [], tr_workerHost = [], tr_workerPort = 0, tr_metadataJson = ''{}''\<rparr>)"

text \<open>\<^verbatim>\<open>DO UPDATE SET\<close>: the columns a second insertion of the same key overwrites.\<close>

definition excluded_into :: "TaskRunRow \<Rightarrow> TaskRunRow \<Rightarrow> TaskRunRow" where
  "excluded_into n r =
     r\<lparr>tr_taskId := tr_taskId n, tr_name := tr_name n, tr_execType := tr_execType n,
       tr_execCommand := tr_execCommand n, tr_execParamsJson := tr_execParamsJson n, tr_depsJson := tr_depsJson n,
       tr_status := tr_status n, tr_attempt := tr_attempt n, tr_maxAttempts := tr_maxAttempts n\<rparr>"

definition upsertFromTaskJson :: "(json \<Rightarrow> string) \<Rightarrow> string \<Rightarrow> json \<Rightarrow> RunDb \<Rightarrow> RunDb" where
  "upsertFromTaskJson dump runId j db =
     (if json_str dump j ''id'' [] = [] then db
      else (let n = new_task_row dump runId j in
            if \<exists>r \<in> set (db_task_run db). row_key r = row_key n
            then db\<lparr>db_task_run := update_rows (\<lambda>r. row_key r = row_key n) (excluded_into n) (db_task_run db)\<rparr>
            else db\<lparr>db_task_run := db_task_run db @ [n\<lparr>tr_id := db_task_run_seq db + 1\<rparr>],
                    db_task_run_seq := db_task_run_seq db + 1\<rparr>))"

definition update_task :: "string \<Rightarrow> string \<Rightarrow> (TaskRunRow \<Rightarrow> TaskRunRow) \<Rightarrow> RunDb \<Rightarrow> RunDb" where
  "update_task runId logicalId f db =
     db\<lparr>db_task_run := update_rows (\<lambda>r. row_key r = (c_str runId, c_str logicalId)) f (db_task_run db)\<rparr>"

definition markRunning :: "string \<Rightarrow> string \<Rightarrow> int \<Rightarrow> RunDb \<Rightarrow> RunDb" where
  "markRunning runId logicalId ts =
     update_task runId logicalId (\<lambda>r. r\<lparr>tr_status := statusToInt Running, tr_startTsMs := ts\<rparr>)"

definition finished_row :: "(json \<Rightarrow> string) \<Rightarrow> TaskResult \<Rightarrow> int \<Rightarrow> TaskRunRow \<Rightarrow> TaskRunRow" where
  "finished_row dump res ts r =
     r\<lparr>tr_status := statusToInt (res_status res), tr_exitCode := exitCode res, tr_durationMs := durationMs res,
       tr_message := c_str (res_message res), tr_stdoutText := c_str (stdoutData res),
       tr_stderrText := c_str (stderrData res), tr_attempt := attempt res, tr_maxAttempts := maxAttempts res,
       tr_workerId := c_str (workerId res), tr_workerHost := c_str (workerHost res), tr_workerPort := workerPort res,
       tr_endTsMs := ts, tr_metadataJson := c_str (dump (strings_obj (res_metadata res)))\<rparr>"

definition markFinished :: "(json \<Rightarrow> string) \<Rightarrow> string \<Rightarrow> string \<Rightarrow> TaskResult \<Rightarrow> int \<Rightarrow> RunDb \<Rightarrow> RunDb" where
  "markFinished dump runId logicalId res ts = update_task runId logicalId (finished_row dump res ts)"

definition markSkipped :: "string \<Rightarrow> string \<Rightarrow> string \<Rightarrow> int \<Rightarrow> RunDb \<Rightarrow> RunDb" where
  "markSkipped runId logicalId reason ts =
     update_task runId logicalId
       (\<lambda>r. r\<lparr>tr_status := statusToInt Skipped, tr_message := c_str reason, tr_endTsMs := ts\<rparr>)"

definition limit_rows :: "int \<Rightarrow> 'a list \<Rightarrow> 'a list" where
  "limit_rows n rows = (if 0 < n then take (nat n) rows else rows)"

text \<open>The query does not read \<^verbatim>\<open>metadata_json\<close>; the row id is read as an \<^verbatim>\<open>int\<close>.\<close>

definition read_task_row :: "TaskRunRow \<Rightarrow> TaskRunRow" where
  "read_task_row r = r\<lparr>tr_id := wrap_signed 32 (tr_id r), tr_metadataJson := []\<rparr>"

definition task_run_query :: "string \<Rightarrow> string \<Rightarrow> int \<Rightarrow> RunDb option \<Rightarrow> TaskRunRow list" where
  "task_run_query runId nm n dbo =
     (case dbo of
        None \<Rightarrow> []
      | Some db \<Rightarrow>
          map read_task_row (limit_rows n (sort_key (\<lambda>r. - tr_id r)
            (filter (\<lambda>r. (runId \<noteq> [] \<longrightarrow> tr_runId r = c_str runId) \<and> (nm \<noteq> [] \<longrightarrow> tr_name r = c_str nm))
              (db_task_run db)))))"

definition task_run_get :: "string \<Rightarrow> string \<Rightarrow> RunDb option \<Rightarrow> TaskRunRow option" where
  "task_run_get runId logicalId dbo =
     (case dbo of
        None \<Rightarrow> None
      | Some db \<Rightarrow>
          map_option (\<lambda>r. r\<lparr>tr_id := wrap_signed 32 (tr_id r)\<rparr>)
            (find (\<lambda>r. row_key r = (c_str runId, c_str logicalId)) (db_task_run db)))"
subsection \<open>DAG runs\<close>

definition insertRun :: "(json \<Rightarrow> string) \<Rightarrow> int \<Rightarrow> string \<Rightarrow> json \<Rightarrow> string \<Rightarrow> string \<Rightarrow> RunDb \<Rightarrow> RunDb" where
  "insertRun dump now runId body source workflowJson db =
     (let jcfg = (case member ''config'' body of Some (JObj m) \<Rightarrow> JObj m | _ \<Rightarrow> JObj Map.empty);
          templateId = json_str dump jcfg ''template_id'' [];
          cronJobId = json_str dump jcfg ''cron_job_id'' [];
          nameBody = json_str dump body ''name'' [];
          nm = (if nameBody \<noteq> [] then nameBody else json_str dump jcfg ''name'' []);
          row = \<lparr>dc_runId = c_str runId, dc_name = c_str nm, dc_source = c_str source,
                 dc_templateId = (if templateId = [] then None else Some (c_str templateId)),
                 dc_cronJobId = (if cronJobId = [] then None else Some (c_str cronJobId)),
                 dc_failPolicy = c_str (json_str dump jcfg ''fail_policy'' ''SkipDownstream''),
                 dc_maxParallel = json_int jcfg ''max_parallel'' 4,
                 dc_status = 0, dc_message = [], dc_startTsMs = now, dc_endTsMs = 0,
                 dc_dagJson = c_str (dump body), dc_workflowJson = c_str workflowJson,
                 dc_total = (case member ''tasks'' body of
                               Some (JArr ts) \<Rightarrow> wrap_signed 32 (int (length ts)) | _ \<Rightarrow> 0),
                 dc_successCount = 0, dc_failedCount = 0, dc_skippedCount = 0\<rparr>
      in db\<lparr>db_dag_run := filter (\<lambda>r. dc_runId r \<noteq> dc_runId row) (db_dag_run db) @ [row]\<rparr>)"

definition finishRun ::
  "string \<Rightarrow> int \<Rightarrow> int \<Rightarrow> int \<Rightarrow> int \<Rightarrow> int \<Rightarrow> int \<Rightarrow> string \<Rightarrow> RunDb \<Rightarrow> RunDb" where
  "finishRun runId st endTs tot oks fails skips message db =
     db\<lparr>db_dag_run := update_rows (\<lambda>r. dc_runId r = c_str runId)
          (\<lambda>r. r\<lparr>dc_status := st, dc_endTsMs := endTs, dc_total := tot, dc_successCount := oks,
                 dc_failedCount := fails, dc_skippedCount := skips, dc_message := c_str message\<rparr>) (db_dag_run db)\<rparr>"

text \<open>\<^verbatim>\<open>LIKE\<close>: a percent sign stands for any text, an underscore for one UTF-8 character, ASCII letters are
  compared without case.\<close>

definition skip_char :: "string \<Rightarrow> string" where
  "skip_char s =
     (case s of
        [] \<Rightarrow> []
      | c # cs \<Rightarrow> if 0xC0 \<le> (of_char c :: nat)
                then dropWhile (\<lambda>d. 0x80 \<le> (of_char d :: nat) \<and> (of_char d :: nat) < 0xC0) cs else cs)"

lemma skip_char_length: "s \<noteq> [] \<Longrightarrow> length (skip_char s) < length s"
  by (cases s) (auto simp: skip_char_def le_imp_less_Suc length_dropWhile_le)

function sql_like :: "string \<Rightarrow> string \<Rightarrow> bool" where
  "sql_like [] s \<longleftrightarrow> s = []"
| "sql_like (p # ps) s \<longleftrightarrow>
     (if s = [] then p = CHR ''%'' \<and> sql_like ps []
      else if p = CHR ''%'' then sql_like ps s \<or> sql_like (p # ps) (skip_char s)
      else if p = CHR ''_'' then sql_like ps (skip_char s)
      else tolower_char p = tolower_char (hd s) \<and> sql_like ps (tl s))"
  by pat_completeness auto
termination
  by (relation "measure (\<lambda>(p, s). length p + length s)")
    (auto dest: skip_char_length intro: le_imp_less_Suc less_imp_le)

declare sql_like.simps [simp del]

definition dag_row_of :: "dag_run_cols \<Rightarrow> DagRunRow" where
  "dag_row_of c =
     \<lparr>rr_runId = dc_runId c, rr_name = dc_name c, rr_source = dc_source c, rr_status = dc_status c,
      rr_startTsMs = dc_startTsMs c, rr_endTsMs = dc_endTsMs c, rr_total = dc_total c,
      rr_successCount = dc_successCount c, rr_failedCount = dc_failedCount c, rr_skippedCount = dc_skippedCount c,
      rr_message = dc_message c, rr_workflowJson = dc_workflowJson c, rr_dagJson = dc_dagJson c\<rparr>"

definition dag_run_query ::
  "string \<Rightarrow> string \<Rightarrow> string \<Rightarrow> int \<Rightarrow> int \<Rightarrow> int \<Rightarrow> RunDb option \<Rightarrow> DagRunRow list" where
  "dag_run_query runId nameLike source startTs endTs n dbo =
     (case dbo of
        None \<Rightarrow> []
      | Some db \<Rightarrow>
          map dag_row_of (limit_rows n (sort_key (\<lambda>r. - dc_startTsMs r)
            (filter (\<lambda>r. (runId \<noteq> [] \<longrightarrow> dc_runId r = c_str runId)
                       \<and> (nameLike \<noteq> [] \<longrightarrow> sql_like (c_str (CHR ''%'' # nameLike @ ''%'')) (dc_name r))
                       \<and> (source \<noteq> [] \<longrightarrow> dc_source r = c_str source)
                       \<and> (0 < startTs \<longrightarrow> startTs \<le> dc_startTsMs r) \<and> (0 < endTs \<longrightarrow> dc_startTsMs r \<le> endTs))
              (db_dag_run db)))))"

subsection \<open>Task events\<close>

text \<open>A member of the wrong type raises, before anything is written.\<close>

definition insertFromJson :: "(json \<Rightarrow> string) \<Rightarrow> json \<Rightarrow> RunDb option \<Rightarrow> RunDb option result" where
  "insertFromJson dump j dbo =
     (case dbo of
        None \<Rightarrow> Inr None
      | Some db \<Rightarrow>
          bind (value_or get_string ''run_id'' [] j) (\<lambda>runId.
          bind (value_or get_string ''task_id'' [] j) (\<lambda>taskId.
          bind (value_or get_string ''type'' [] j) (\<lambda>type.
          bind (value_or get_string ''event'' [] j) (\<lambda>event.
          bind (value_or get_ll ''ts_ms'' 0 j) (\<lambda>ts.
            let row = \<lparr>te_id = db_task_event_seq db + 1, te_runId = c_str runId, te_taskId = c_str taskId,
                       te_type = c_str type, te_event = c_str event, te_tsMs = ts, te_payloadJson = c_str (dump j)\<rparr>
            in Inr (Some (db\<lparr>db_task_event := db_task_event db @ [row],
                            db_task_event_seq := db_task_event_seq db + 1\<rparr>))))))))"

definition read_event_row :: "(string \<Rightarrow> string + json) \<Rightarrow> task_event_cols \<Rightarrow> EventRow" where
  "read_event_row parse c =
     \<lparr>er_id = te_id c, er_runId = te_runId c, er_taskId = te_taskId c, er_type = te_type c, er_event = te_event c,
      er_tsMs = te_tsMs c,
      er_payload = (case parse (te_payloadJson c) of
                      Inr j \<Rightarrow> j
                    | Inl _ \<Rightarrow> JObj [''raw'' \<mapsto> JStr (te_payloadJson c)])\<rparr>"

definition task_event_query ::
  "(string \<Rightarrow> string + json) \<Rightarrow> string \<Rightarrow> string \<Rightarrow> string \<Rightarrow> string \<Rightarrow> int \<Rightarrow> int \<Rightarrow> int \<Rightarrow> RunDb option \<Rightarrow> EventRow list" where
  "task_event_query parse runId taskId type event startTs endTs n dbo =
     (case dbo of
        None \<Rightarrow> []
      | Some db \<Rightarrow>
          map (read_event_row parse) (limit_rows n (sort_key (\<lambda>r. - te_tsMs r)
            (filter (\<lambda>r. (runId \<noteq> [] \<longrightarrow> te_runId r = c_str runId) \<and> (taskId \<noteq> [] \<longrightarrow> te_taskId r = c_str taskId)
                       \<and> (type \<noteq> [] \<longrightarrow> te_type r = c_str type) \<and> (event \<noteq> [] \<longrightarrow> te_event r = c_str event)
                       \<and> (0 < startTs \<longrightarrow> startTs \<le> te_tsMs r) \<and> (0 < endTs \<longrightarrow> te_tsMs r \<le> endTs))
              (db_task_event db)))))"

subsection \<open>The writes of a run\<close>

text \<open>The writes \<^verbatim>\<open>DagService\<close> makes, carried out.\<close>

fun apply_svc :: "(json \<Rightarrow> string) \<Rightarrow> int \<Rightarrow> svc_event \<Rightarrow> RunDb \<Rightarrow> RunDb" where
  "apply_svc dump now (InsertRun runId body source workflow) = insertRun dump now runId body source workflow"
| "apply_svc dump now (UpsertTask runId j) = upsertFromTaskJson dump runId j"
| "apply_svc dump now (FinishRun runId st tot oks fails skips msg) =
     finishRun runId st now tot oks fails skips msg"

subsection \<open>The table as a map\<close>

datatype task_op =
    Upsert string json
  | MarkRunning string string int
  | MarkFinished string string TaskResult int
  | MarkSkipped string string string int

fun exec_op :: "(json \<Rightarrow> string) \<Rightarrow> task_op \<Rightarrow> RunDb \<Rightarrow> RunDb" where
  "exec_op dump (Upsert run_id j) = upsertFromTaskJson dump run_id j"
| "exec_op dump (MarkRunning run_id i ts) = markRunning run_id i ts"
| "exec_op dump (MarkFinished run_id i res ts) = markFinished dump run_id i res ts"
| "exec_op dump (MarkSkipped run_id i reason ts) = markSkipped run_id i reason ts"

text \<open>What the operations promise: a finite map from run and node to the node's row.\<close>

type_synonym run_map = "string \<times> string \<rightharpoonup> TaskRunRow"

fun abs_op :: "(json \<Rightarrow> string) \<Rightarrow> task_op \<Rightarrow> run_map \<Rightarrow> run_map" where
  "abs_op dump (Upsert run_id j) m =
     (if json_str dump j ''id'' [] = [] then m
      else (let n = new_task_row dump run_id j
            in m(row_key n \<mapsto> (case m (row_key n) of None \<Rightarrow> n | Some r \<Rightarrow> excluded_into n r))))"
| "abs_op dump (MarkRunning run_id i ts) m =
     m((c_str run_id, c_str i) := map_option (\<lambda>r. r\<lparr>tr_status := 1, tr_startTsMs := ts\<rparr>) (m (c_str run_id, c_str i)))"
| "abs_op dump (MarkFinished run_id i res ts) m =
     m((c_str run_id, c_str i) := map_option (finished_row dump res ts) (m (c_str run_id, c_str i)))"
| "abs_op dump (MarkSkipped run_id i reason ts) m =
     m((c_str run_id, c_str i) :=
         map_option (\<lambda>r. r\<lparr>tr_status := 4, tr_message := c_str reason, tr_endTsMs := ts\<rparr>) (m (c_str run_id, c_str i)))"

definition no_id :: "TaskRunRow \<Rightarrow> TaskRunRow" where
  "no_id r = r\<lparr>tr_id := 0\<rparr>"

definition table_map :: "TaskRunRow list \<Rightarrow> run_map" where
  "table_map rows k = map_option no_id (find (\<lambda>r. row_key r = k) rows)"

definition task_inv :: "RunDb \<Rightarrow> bool" where
  "task_inv db \<longleftrightarrow>
     distinct (map row_key (db_task_run db)) \<and> sorted_wrt (<) (map tr_id (db_task_run db))
   \<and> (\<forall>r \<in> set (db_task_run db). 0 < tr_id r \<and> tr_id r \<le> db_task_run_seq db) \<and> 0 \<le> db_task_run_seq db"

lemma update_rows_Cons: "update_rows P f (r # rs) = (if P r then f r else r) # update_rows P f rs"
  by (simp add: update_rows_def)

lemma update_rows_map:
  assumes "\<And>r. g (f r) = g r"
  shows "map g (update_rows P f rows) = map g rows"
  using assms by (simp add: update_rows_def)

text \<open>An update that keeps the key and the id, and does not read the id.\<close>

definition row_update :: "(TaskRunRow \<Rightarrow> TaskRunRow) \<Rightarrow> bool" where
  "row_update f \<longleftrightarrow> (\<forall>r. row_key (f r) = row_key r \<and> tr_id (f r) = tr_id r \<and> no_id (f r) = f (no_id r))"

lemma row_updates [simp]:
  "row_update (excluded_into n)" "row_update (finished_row dump res ts)"
  "row_update (\<lambda>r. r\<lparr>tr_status := st, tr_startTsMs := ts\<rparr>)"
  "row_update (\<lambda>r. r\<lparr>tr_status := st, tr_message := msg, tr_endTsMs := ts\<rparr>)"
  by (simp_all add: row_update_def row_key_def no_id_def excluded_into_def finished_row_def)

lemma table_map_update:
  assumes "row_update f"
  shows "table_map (update_rows (\<lambda>r. row_key r = k) f rows) = (table_map rows)(k := map_option f (table_map rows k))"
proof
  fix k'
  show "table_map (update_rows (\<lambda>r. row_key r = k) f rows) k' = ((table_map rows)(k := map_option f (table_map rows k))) k'"
    using assms
    by (induction rows) (auto simp: table_map_def update_rows_Cons row_update_def, auto simp: update_rows_def)
qed

lemma task_inv_update:
  assumes "task_inv db" and "row_update f"
  shows "task_inv (db\<lparr>db_task_run := update_rows P f (db_task_run db)\<rparr>)"
proof -
  have "map row_key (update_rows P f (db_task_run db)) = map row_key (db_task_run db)"
    "map tr_id (update_rows P f (db_task_run db)) = map tr_id (db_task_run db)"
    using assms(2) by (auto intro!: update_rows_map simp: row_update_def)
  moreover have "\<forall>r \<in> set (update_rows P f (db_task_run db)). 0 < tr_id r \<and> tr_id r \<le> db_task_run_seq db"
    using assms by (auto simp: task_inv_def update_rows_def row_update_def)
  ultimately show ?thesis using assms(1) by (simp add: task_inv_def)
qed

lemma find_key_None: "find (\<lambda>r. row_key r = k) rows = None \<longleftrightarrow> (\<forall>r \<in> set rows. row_key r \<noteq> k)"
  by (auto simp: find_None_iff)

lemma table_map_append_new:
  assumes "\<forall>r \<in> set rows. row_key r \<noteq> row_key n"
  shows "table_map (rows @ [n]) = (table_map rows)(row_key n \<mapsto> no_id n)"
proof
  fix k
  show "table_map (rows @ [n]) k = ((table_map rows)(row_key n \<mapsto> no_id n)) k"
    using assms by (induction rows) (auto simp: table_map_def)
qed

lemma row_key_set_id [simp]: "row_key (r\<lparr>tr_id := i\<rparr>) = row_key r"
  by (simp add: row_key_def)

lemma no_id_set_id [simp]: "no_id (r\<lparr>tr_id := i\<rparr>) = no_id r"
  by (simp add: no_id_def)

lemma no_id_new [simp]: "no_id (new_task_row dump run_id j) = new_task_row dump run_id j"
  by (simp add: no_id_def new_task_row_def Let_def)

lemma upsert_refines:
  assumes "task_inv db"
  shows "task_inv (upsertFromTaskJson dump run_id j db)
    \<and> table_map (db_task_run (upsertFromTaskJson dump run_id j db)) = abs_op dump (Upsert run_id j) (table_map (db_task_run db))"
proof (cases "json_str dump j ''id'' [] = []")
  case True
  then show ?thesis using assms by (simp add: upsertFromTaskJson_def)
next
  case False
  define n where "n = new_task_row dump run_id j"
  let ?rows = "db_task_run db"
  show ?thesis
  proof (cases "\<exists>r \<in> set ?rows. row_key r = row_key n")
    case True
    then have e: "upsertFromTaskJson dump run_id j db
        = db\<lparr>db_task_run := update_rows (\<lambda>r. row_key r = row_key n) (excluded_into n) ?rows\<rparr>"
      using False by (simp add: upsertFromTaskJson_def n_def Let_def)
    obtain r where "find (\<lambda>r. row_key r = row_key n) ?rows = Some r"
      using True find_key_None [of "row_key n" ?rows] by (cases "find (\<lambda>r. row_key r = row_key n) ?rows") auto
    then have "table_map ?rows (row_key n) = Some (no_id r)" by (simp add: table_map_def)
    then show ?thesis
      using False task_inv_update [OF assms] by (simp add: e table_map_update n_def [symmetric] Let_def)
  next
    case new: False
    have e: "upsertFromTaskJson dump run_id j db = db\<lparr>db_task_run := ?rows @ [n\<lparr>tr_id := db_task_run_seq db + 1\<rparr>],
        db_task_run_seq := db_task_run_seq db + 1\<rparr>"
      using False new by (simp add: upsertFromTaskJson_def n_def Let_def)
    have "find (\<lambda>r. row_key r = row_key n) ?rows = None" using new by (auto simp: find_None_iff)
    then have "table_map ?rows (row_key n) = None" by (simp add: table_map_def)
    moreover have "task_inv (upsertFromTaskJson dump run_id j db)"
    proof -
      have "row_key n \<notin> set (map row_key ?rows)" using new by auto
      moreover have "\<forall>r \<in> set ?rows. tr_id r < db_task_run_seq db + 1"
        using assms by (fastforce simp: task_inv_def)
      ultimately show ?thesis
        using assms unfolding e by (auto simp: task_inv_def sorted_wrt_append)
    qed
    ultimately show ?thesis
      using False new by (simp add: e table_map_append_new n_def [symmetric] Let_def no_id_new [of dump run_id j, folded n_def])
  qed
qed

lemma exec_op_refines:
  assumes "task_inv db"
  shows "task_inv (exec_op dump op db) \<and> table_map (db_task_run (exec_op dump op db)) = abs_op dump op (table_map (db_task_run db))"
proof (cases op)
  case (Upsert run_id j)
  then show ?thesis using upsert_refines [OF assms] by simp
qed (use task_inv_update [OF assms] in
  \<open>auto simp: markRunning_def markFinished_def markSkipped_def update_task_def table_map_update\<close>)

lemma exec_ops_refine:
  assumes "task_inv db"
  shows "task_inv (fold (exec_op dump) ops db)
    \<and> table_map (db_task_run (fold (exec_op dump) ops db)) = fold (abs_op dump) ops (table_map (db_task_run db))"
  using assms by (induction ops arbitrary: db) (auto simp: exec_op_refines)

lemma task_inv_empty [simp]: "task_inv empty_RunDb"
  by (simp add: task_inv_def empty_RunDb_def)


subsection \<open>Listing\<close>

text \<open>The first \<open>n\<close> of the rows \<open>xs\<close>, newest first by the key \<open>k\<close>.\<close>

definition newest :: "('a \<Rightarrow> int) \<Rightarrow> int \<Rightarrow> 'a list \<Rightarrow> 'a list \<Rightarrow> bool" where
  "newest k n xs rs \<longleftrightarrow>
     sorted_wrt (\<lambda>a b. k b \<le> k a) rs \<and> set rs \<subseteq> set xs \<and> length rs = min (nat n) (length xs)
   \<and> (\<forall>x \<in> set xs - set rs. \<forall>y \<in> set rs. k x \<le> k y)"

lemma newest_limit:
  assumes "0 < n"
  shows "newest k n xs (limit_rows n (sort_key (\<lambda>r. - k r) xs))"
proof -
  define ys where "ys = sort_key (\<lambda>r. - k r) xs"
  have s: "sorted_wrt (\<lambda>a b. k b \<le> k a) ys"
    using sorted_sort_key [of "\<lambda>r. - k r" xs] by (simp add: ys_def sorted_wrt_map)
  have "sorted_wrt (\<lambda>a b. k b \<le> k a) (take (nat n) ys @ drop (nat n) ys)" using s by simp
  then have "sorted_wrt (\<lambda>a b. k b \<le> k a) (take (nat n) ys)"
    and o: "\<forall>y \<in> set (take (nat n) ys). \<forall>x \<in> set (drop (nat n) ys). k x \<le> k y"
    unfolding sorted_wrt_append by blast+
  moreover have "set xs - set (take (nat n) ys) \<subseteq> set (drop (nat n) ys)"
  proof -
    have "set xs = set (take (nat n) ys) \<union> set (drop (nat n) ys)"
      by (metis append_take_drop_id set_append set_sort ys_def)
    then show ?thesis by blast
  qed
  moreover have "set (take (nat n) ys) \<subseteq> set xs"
    using set_take_subset [of "nat n" ys] by (simp add: ys_def)
  moreover have "length (take (nat n) ys) = min (nat n) (length xs)" by (simp add: ys_def min.commute)
  ultimately show ?thesis using assms unfolding newest_def limit_rows_def ys_def [symmetric] by auto
qed

text \<open>What the three queries select.\<close>

definition task_match :: "string \<Rightarrow> string \<Rightarrow> TaskRunRow \<Rightarrow> bool" where
  "task_match runId nm r \<longleftrightarrow> (runId \<noteq> [] \<longrightarrow> tr_runId r = c_str runId) \<and> (nm \<noteq> [] \<longrightarrow> tr_name r = c_str nm)"

definition dag_match :: "string \<Rightarrow> string \<Rightarrow> string \<Rightarrow> int \<Rightarrow> int \<Rightarrow> dag_run_cols \<Rightarrow> bool" where
  "dag_match runId nameLike source startTs endTs r \<longleftrightarrow>
     (runId \<noteq> [] \<longrightarrow> dc_runId r = c_str runId)
   \<and> (nameLike \<noteq> [] \<longrightarrow> sql_like (c_str (CHR ''%'' # nameLike @ ''%'')) (dc_name r))
   \<and> (source \<noteq> [] \<longrightarrow> dc_source r = c_str source)
   \<and> (0 < startTs \<longrightarrow> startTs \<le> dc_startTsMs r) \<and> (0 < endTs \<longrightarrow> dc_startTsMs r \<le> endTs)"

definition event_match :: "string \<Rightarrow> string \<Rightarrow> string \<Rightarrow> string \<Rightarrow> int \<Rightarrow> int \<Rightarrow> task_event_cols \<Rightarrow> bool" where
  "event_match runId taskId type event startTs endTs r \<longleftrightarrow>
     (runId \<noteq> [] \<longrightarrow> te_runId r = c_str runId) \<and> (taskId \<noteq> [] \<longrightarrow> te_taskId r = c_str taskId)
   \<and> (type \<noteq> [] \<longrightarrow> te_type r = c_str type) \<and> (event \<noteq> [] \<longrightarrow> te_event r = c_str event)
   \<and> (0 < startTs \<longrightarrow> startTs \<le> te_tsMs r) \<and> (0 < endTs \<longrightarrow> te_tsMs r \<le> endTs)"

lemma task_run_query_newest:
  assumes "0 < n"
  shows "\<exists>rs. task_run_query runId nm n (Some db) = map read_task_row rs
    \<and> newest tr_id n (filter (task_match runId nm) (db_task_run db)) rs"
  using newest_limit [OF assms] by (auto simp: task_run_query_def task_match_def [abs_def])

lemma dag_run_query_newest:
  assumes "0 < n"
  shows "\<exists>rs. dag_run_query runId nameLike source startTs endTs n (Some db) = map dag_row_of rs
    \<and> newest dc_startTsMs n (filter (dag_match runId nameLike source startTs endTs) (db_dag_run db)) rs"
  using newest_limit [OF assms] by (auto simp: dag_run_query_def dag_match_def [abs_def])

lemma task_event_query_newest:
  assumes "0 < n"
  shows "\<exists>rs. task_event_query parse runId taskId type event startTs endTs n (Some db) = map (read_event_row parse) rs
    \<and> newest te_tsMs n (filter (event_match runId taskId type event startTs endTs) (db_task_event db)) rs"
  using newest_limit [OF assms] by (auto simp: task_event_query_def event_match_def [abs_def])

text \<open>A name filter without wildcards finds the rows whose name contains it.\<close>

lemma sql_like_percent_Nil: "sql_like [CHR ''%''] s"
proof (induction "length s" arbitrary: s rule: less_induct)
  case less
  then show ?case
    by (subst sql_like.simps) (auto simp: sql_like.simps(1) dest: skip_char_length)
qed

subsection \<open>The history of a run\<close>

definition run_status :: "string \<Rightarrow> RunDb \<Rightarrow> int list" where
  "run_status runId db = map dc_status (filter (\<lambda>r. dc_runId r = c_str runId) (db_dag_run db))"

lemma run_status_insertRun: "run_status runId (insertRun dump now runId body source workflow db) = [0]"
  by (simp add: run_status_def insertRun_def Let_def)

lemma run_status_upsert [simp]: "run_status runId (upsertFromTaskJson dump run_id j db) = run_status runId db"
  by (simp add: run_status_def upsertFromTaskJson_def Let_def)

lemma run_status_finish:
  "run_status runId (finishRun runId st ts a b c d msg db) = map (\<lambda>_. st) (run_status runId db)"
proof -
  have "map dc_status (filter (\<lambda>r. dc_runId r = k)
        (update_rows (\<lambda>r. dc_runId r = k) (\<lambda>r. r\<lparr>dc_status := st, dc_endTsMs := ts, dc_total := a,
           dc_successCount := b, dc_failedCount := c, dc_skippedCount := d, dc_message := m\<rparr>) rows))
      = map (\<lambda>_. st) (map dc_status (filter (\<lambda>r. dc_runId r = k) rows))" for k m rows
    by (induction rows) (auto simp: update_rows_Cons, auto simp: update_rows_def)
  then show ?thesis by (simp add: run_status_def finishRun_def)
qed

lemma run_status_upserts [simp]:
  "run_status runId (fold (apply_svc dump now) (map (UpsertTask run_id) js) db) = run_status runId db"
  by (induction js arbitrary: db) auto

definition is_pending :: "(json \<Rightarrow> string) \<Rightarrow> string \<Rightarrow> json \<Rightarrow> RunDb \<Rightarrow> bool" where
  "is_pending dump runId j db \<longleftrightarrow>
     (\<exists>r \<in> set (db_task_run db). row_key r = row_key (new_task_row dump runId j) \<and> tr_status r = 0)"

lemma new_task_row_pending [simp]: "tr_status (new_task_row dump runId j) = 0"
  by (simp add: new_task_row_def Let_def)

lemma update_rows_pending:
  assumes "r \<in> set rows" and "row_key r = k" and "tr_status n = 0"
    and "(P r \<or> tr_status r = 0)"
  shows "\<exists>r' \<in> set (update_rows P (excluded_into n) rows). row_key r' = k \<and> tr_status r' = 0"
  using assms
  by (intro bexI [of _ "if P r then excluded_into n r else r"]) (auto simp: update_rows_def excluded_into_def row_key_def)

lemma upsert_pending:
  assumes "json_str dump j ''id'' [] \<noteq> []"
  shows "is_pending dump runId j (upsertFromTaskJson dump runId j db)"
proof (cases "\<exists>r \<in> set (db_task_run db). row_key r = row_key (new_task_row dump runId j)")
  case True
  then obtain r where "r \<in> set (db_task_run db)" "row_key r = row_key (new_task_row dump runId j)" by blast
  with update_rows_pending [OF this, of "new_task_row dump runId j"] assms show ?thesis
    by (simp add: is_pending_def upsertFromTaskJson_def Let_def)
next
  case False
  with assms show ?thesis by (simp add: is_pending_def upsertFromTaskJson_def Let_def)
qed

lemma upsert_keeps_pending:
  assumes "is_pending dump runId j db"
  shows "is_pending dump runId j (upsertFromTaskJson dump run_id j' db)"
proof -
  obtain r where r: "r \<in> set (db_task_run db)" "row_key r = row_key (new_task_row dump runId j)" "tr_status r = 0"
    using assms by (auto simp: is_pending_def)
  have "\<exists>r \<in> set (update_rows P (excluded_into (new_task_row dump run_id j')) (db_task_run db)).
      row_key r = row_key (new_task_row dump runId j) \<and> tr_status r = 0" for P
    using update_rows_pending [OF r(1,2)] r(3) by simp
  with r show ?thesis by (auto simp: is_pending_def upsertFromTaskJson_def Let_def)
qed

lemma upserts_pending:
  "(j \<in> set js \<and> json_str dump j ''id'' [] \<noteq> []) \<or> is_pending dump runId j db
   \<Longrightarrow> is_pending dump runId j (fold (apply_svc dump now) (map (UpsertTask runId) js) db)"
  by (induction js arbitrary: db) (auto intro: upsert_pending upsert_keeps_pending)

lemma finish_keeps_pending [simp]:
  "is_pending dump runId j (finishRun run_id st ts a b c d msg db) = is_pending dump runId j db"
  by (simp add: is_pending_def finishRun_def)

text \<open>C23. What the tables say of a run before its executor starts, whatever the description: there is
  exactly one row of the run, and every task that names an id is recorded as Pending.  The row is Failed
  if the description was rejected and Running if it was accepted; it is also left Running if reading the
  run's options raised an exception, although nothing will ever finish that run; and in a rejected run
  the tasks stay Pending.\<close>

theorem service_run_recorded:
  assumes "runDag_body dump what fresh body source inputRunId = (ev, res)"
    and "runId = (if inputRunId = [] then fresh else inputRunId)"
  shows "run_status runId (fold (apply_svc dump now) ev db)
         = [case res of Inr (Rejected _) \<Rightarrow> 2 | Inr (Ready _ _ _) \<Rightarrow> 0 | Inl _ \<Rightarrow> 0]
    \<and> (\<forall>js j. tasks_of body = Some js \<longrightarrow> j \<in> set js \<longrightarrow> json_str dump j ''id'' [] \<noteq> [] \<longrightarrow>
         is_pending dump runId j (fold (apply_svc dump now) ev db))"
proof -
  define pre where "pre = persistRunAndTasks runId body source []"
  obtain js where js: "pre = InsertRun runId body source [] # map (UpsertTask runId) js"
    and sub: "\<And>ts. tasks_of body = Some ts \<Longrightarrow> js = ts"
  proof -
    have "\<exists>js. pre = InsertRun runId body source [] # map (UpsertTask runId) js
        \<and> (\<forall>ts. tasks_of body = Some ts \<longrightarrow> js = ts)"
      unfolding pre_def persistRunAndTasks_def tasks_of_def
      by (auto split: option.splits json.splits intro: exI [of _ "[]"] exI [of _ "[x]" for x])
    then show ?thesis using that by blast
  qed
  have ev: "ev = pre \<and> (\<forall>x. res \<noteq> Inr (Rejected x))
      \<or> (\<exists>a b c msg x. ev = pre @ [FinishRun runId 2 a b c 0 msg] \<and> res = Inr (Rejected x))"
    using assms unfolding runDag_body_def pre_def
    by (auto simp: Let_def split: sum.splits option.splits if_splits)
  have st: "run_status runId (fold (apply_svc dump now) pre db) = [0]"
    by (simp add: js run_status_insertRun)
  have pend: "is_pending dump runId j (fold (apply_svc dump now) pre db)"
    if "tasks_of body = Some ts" "j \<in> set ts" "json_str dump j ''id'' [] \<noteq> []" for ts j
    using that sub upserts_pending by (auto simp: js)
  from ev show ?thesis
  proof (elim disjE exE conjE)
    assume e: "ev = pre" "\<forall>x. res \<noteq> Inr (Rejected x)"
    then have "(case res of Inr (Rejected _) \<Rightarrow> 2 | Inr (Ready _ _ _) \<Rightarrow> 0 | Inl _ \<Rightarrow> 0) = (0::int)"
      by (auto split: sum.split prepared.split)
    with st pend show ?thesis by (simp add: e(1))
  next
    fix a b c msg x
    assume e: "ev = pre @ [FinishRun runId 2 a b c 0 msg]" "res = Inr (Rejected x)"
    show ?thesis using st pend by (simp add: e run_status_finish)
  qed
qed

text \<open>A description whose options raise: its run is recorded as Running, its task as Pending.\<close>

definition demo_run_body :: json where
  "demo_run_body = JObj [''tasks'' \<mapsto> JArr [JObj [''id'' \<mapsto> JStr ''a'']], ''config'' \<mapsto> JObj [''fail_policy'' \<mapsto> JInt 1]]"

theorem service_run_recorded_witness:
  "let (ev, res) = runDag_body (\<lambda>_. []) (\<lambda>_. []) ''f'' demo_run_body ''manual'' ''r'';
       db = fold (apply_svc (\<lambda>_. []) 5) ev empty_RunDb
   in run_status ''r'' db = [0] \<and> is_pending (\<lambda>_. []) ''r'' (JObj [''id'' \<mapsto> JStr ''a'']) db \<and> Sum_Type.isl res"
proof -
  obtain ev res where e: "runDag_body (\<lambda>_. []) (\<lambda>_. []) ''f'' demo_run_body ''manual'' ''r'' = (ev, res)" by fastforce
  have "Sum_Type.isl (snd (runDag_body (\<lambda>_. []) (\<lambda>_. []) ''f'' demo_run_body ''manual'' ''r''))" by code_simp
  then obtain err where r: "res = Inl err" by (cases res) (auto simp: e)
  have "(''r'' :: string) = (if (''r'' :: string) = [] then ''f'' else ''r'')"
    "tasks_of demo_run_body = Some [JObj [''id'' \<mapsto> JStr ''a'']]"
    "json_str (\<lambda>_. []) (JObj [''id'' \<mapsto> JStr ''a'']) ''id'' [] = ''a''"
    by (simp_all add: tasks_of_def demo_run_body_def json_str_def)
  with service_run_recorded [OF e, of "''r''" 5 empty_RunDb] show ?thesis by (simp add: e r)
qed

end
