(* ===== verification/Template_Store.thy ===== *)
theory Template_Store
  imports Template Run_Tables
begin

text \<open>
  The two stores of templates: \<^verbatim>\<open>template/template_store.cpp\<close>, a table of JSON templates with a cache in
  memory, and \<^verbatim>\<open>template/task_template_store.cpp\<close>, a table of task templates.  Tables are modelled as in
  \<open>Run_Tables\<close>; \<open>None\<close> is a database that is not open.  Printing and parsing of JSON are
  arguments; text that does not parse raises.  Nullable columns hold text, as the insertions write them.
\<close>

subsection \<open>Templates with a cache\<close>

record tpl_row =
  tt_templateId :: string
  tt_name :: string
  tt_description :: string
  tt_taskJsonTemplate :: string
  tt_schemaJson :: string
  tt_createdAtMs :: int
  tt_updatedAtMs :: int

record TemplateStore =
  ts_rows :: "tpl_row list option"
  ts_map :: "string \<rightharpoonup> TaskTemplate"

definition tpl_create :: "(json \<Rightarrow> string) \<Rightarrow> int \<Rightarrow> TaskTemplate \<Rightarrow> TemplateStore \<Rightarrow> bool \<times> TemplateStore" where
  "tpl_create dump now t s =
     (case ts_rows s of
        None \<Rightarrow> (False, s)
      | Some rows \<Rightarrow>
          if \<exists>r \<in> set rows. tt_templateId r = c_str (templateId t) then (False, s)
          else
            (let row = \<lparr>tt_templateId = c_str (templateId t), tt_name = c_str (tpl_name t),
                        tt_description = c_str (tpl_description t),
                        tt_taskJsonTemplate = c_str (dump (taskJsonTemplate t)),
                        tt_schemaJson = c_str (dump (param_schema_to_json (tpl_schema t))),
                        tt_createdAtMs = now, tt_updatedAtMs = now\<rparr>;
                 m = ts_map s
             in (True, s\<lparr>ts_rows := Some (rows @ [row]),
                         ts_map := (case m (templateId t) of None \<Rightarrow> m(templateId t \<mapsto> t) | Some _ \<Rightarrow> m)\<rparr>)))"

text \<open>One parameter as the store reads it: its default type is the empty text.\<close>

definition stored_param :: "json \<Rightarrow> ParamDef result" where
  "stored_param jp =
     bind (value_or get_string ''name'' [] jp) (\<lambda>nm.
     bind (value_or get_string ''type'' [] jp) (\<lambda>ty.
     bind (value_or get_bool ''required'' False jp) (\<lambda>rq.
     bind (value_or Inr ''defaultValue'' JNull jp) (\<lambda>dv.
       Inr \<lparr>pd_name = nm, pd_type = StringToParamType ty, pd_required = rq, pd_defaultValue = dv\<rparr>))))"

definition read_template :: "(string \<Rightarrow> string + json) \<Rightarrow> string \<Rightarrow> tpl_row \<Rightarrow> TaskTemplate result" where
  "read_template parse tid r =
     bind (parse_text parse (tt_taskJsonTemplate r)) (\<lambda>tj.
     bind (parse_text parse (tt_schemaJson r)) (\<lambda>sj.
     bind (case member ''params'' sj of Some (JArr ps) \<Rightarrow> collect stored_param ps | _ \<Rightarrow> Inr []) (\<lambda>ps.
       Inr \<lparr>templateId = tid, tpl_name = tt_name r, tpl_description = tt_description r,
            taskJsonTemplate = tj, tpl_schema = ps\<rparr>)))"

definition tpl_get :: "(string \<Rightarrow> string + json) \<Rightarrow> string \<Rightarrow> TemplateStore \<Rightarrow> TaskTemplate option result \<times> TemplateStore" where
  "tpl_get parse tid s =
     (case ts_map s tid of
        Some t \<Rightarrow> (Inr (Some t), s)
      | None \<Rightarrow>
          (case ts_rows s of
             None \<Rightarrow> (Inr None, s)
           | Some rows \<Rightarrow>
               (case find (\<lambda>r. tt_templateId r = c_str tid) rows of
                  None \<Rightarrow> (Inr None, s)
                | Some r \<Rightarrow>
                    (case read_template parse tid r of
                       Inl e \<Rightarrow> (Inl e, s)
                     | Inr t \<Rightarrow> (Inr (Some t), s\<lparr>ts_map := (ts_map s)(tid \<mapsto> t)\<rparr>)))))"

text \<open>The rows of the table, then the templates that are only cached, in the order of the hash map.\<close>

definition tpl_list ::
  "(string \<Rightarrow> string + json) \<Rightarrow> ((string \<rightharpoonup> TaskTemplate) \<Rightarrow> string list) \<Rightarrow> TemplateStore \<Rightarrow> TaskTemplate list result" where
  "tpl_list parse order s =
     bind (case ts_rows s of None \<Rightarrow> Inr [] | Some rows \<Rightarrow> collect (\<lambda>r. read_template parse (tt_templateId r) r) rows)
       (\<lambda>ts. let ids = templateId ` set ts
             in Inr (ts @ List.map_filter (\<lambda>k. if k \<in> ids then None else ts_map s k) (order (ts_map s))))"

text \<open>Deleting nothing is a success of the statement.\<close>

definition tpl_remove :: "string \<Rightarrow> TemplateStore \<Rightarrow> bool \<times> TemplateStore" where
  "tpl_remove tid s =
     (case ts_rows s of
        None \<Rightarrow> (False, s)
      | Some rows \<Rightarrow>
          (True, s\<lparr>ts_rows := Some (filter (\<lambda>r. tt_templateId r \<noteq> c_str tid) rows),
                   ts_map := (ts_map s)(tid := None)\<rparr>))"

subsection \<open>Task templates\<close>

record TaskTemplateRecord =
  ttr_templateId :: string
  ttr_name :: string
  ttr_description :: string
  ttr_execType :: string
  ttr_execCommand :: string
  ttr_execParams :: json
  ttr_schema :: ParamSchema
  ttr_timeoutMs :: int
  ttr_retryCount :: int
  ttr_retryDelayMs :: int
  ttr_retryExpBackoff :: bool
  ttr_priority :: int
  ttr_queue :: string
  ttr_captureOutput :: bool
  ttr_metadata :: json
  ttr_createdTsMs :: int
  ttr_updatedTsMs :: int

definition ttr_to_json :: "TaskTemplateRecord \<Rightarrow> json" where
  "ttr_to_json t =
     JObj [''template_id'' \<mapsto> JStr (ttr_templateId t), ''name'' \<mapsto> JStr (ttr_name t),
           ''description'' \<mapsto> JStr (ttr_description t), ''exec_type'' \<mapsto> JStr (ttr_execType t),
           ''exec_command'' \<mapsto> JStr (ttr_execCommand t), ''exec_params'' \<mapsto> ttr_execParams t,
           ''schema'' \<mapsto> param_schema_to_json (ttr_schema t), ''timeout_ms'' \<mapsto> JInt (ttr_timeoutMs t),
           ''retry_count'' \<mapsto> JInt (ttr_retryCount t), ''retry_delay_ms'' \<mapsto> JInt (ttr_retryDelayMs t),
           ''retry_exp_backoff'' \<mapsto> JBool (ttr_retryExpBackoff t), ''priority'' \<mapsto> JInt (ttr_priority t),
           ''queue'' \<mapsto> JStr (ttr_queue t), ''capture_output'' \<mapsto> JBool (ttr_captureOutput t),
           ''metadata'' \<mapsto> ttr_metadata t, ''created_ts_ms'' \<mapsto> JInt (ttr_createdTsMs t),
           ''updated_ts_ms'' \<mapsto> JInt (ttr_updatedTsMs t)]"

definition ttr_from_json :: "json \<Rightarrow> TaskTemplateRecord result" where
  "ttr_from_json j =
     bind (value_or get_string ''template_id'' [] j) (\<lambda>tid.
     bind (value_or get_string ''name'' [] j) (\<lambda>nm.
     bind (value_or get_string ''description'' [] j) (\<lambda>desc.
     bind (value_or get_string ''exec_type'' ''Local'' j) (\<lambda>et.
     bind (value_or get_string ''exec_command'' [] j) (\<lambda>cmd.
     bind (value_or Inr ''exec_params'' (JObj Map.empty) j) (\<lambda>ep.
     bind (case member ''schema'' j of Some sj \<Rightarrow> make_param_schema sj | None \<Rightarrow> Inr []) (\<lambda>sch.
     bind (value_or get_int ''timeout_ms'' 0 j) (\<lambda>tmo.
     bind (value_or get_int ''retry_count'' 0 j) (\<lambda>rc.
     bind (value_or get_int ''retry_delay_ms'' 1000 j) (\<lambda>rd.
     bind (value_or get_bool ''retry_exp_backoff'' True j) (\<lambda>rb.
     bind (value_or get_int ''priority'' 0 j) (\<lambda>pr.
     bind (value_or get_string ''queue'' ''default'' j) (\<lambda>q.
     bind (value_or get_bool ''capture_output'' True j) (\<lambda>co.
     bind (value_or Inr ''metadata'' (JObj Map.empty) j) (\<lambda>md.
       Inr \<lparr>ttr_templateId = tid, ttr_name = nm, ttr_description = desc, ttr_execType = et, ttr_execCommand = cmd,
            ttr_execParams = ep, ttr_schema = sch, ttr_timeoutMs = tmo, ttr_retryCount = rc, ttr_retryDelayMs = rd,
            ttr_retryExpBackoff = rb, ttr_priority = pr, ttr_queue = q, ttr_captureOutput = co, ttr_metadata = md,
            ttr_createdTsMs = 0, ttr_updatedTsMs = 0\<rparr>)))))))))))))))"

record task_template_cols =
  tc_templateId :: string
  tc_name :: string
  tc_description :: string
  tc_execType :: string
  tc_execCommand :: string
  tc_execParamsJson :: string
  tc_schemaJson :: string
  tc_timeoutMs :: int
  tc_retryCount :: int
  tc_retryDelayMs :: int
  tc_retryExpBackoff :: int
  tc_priority :: int
  tc_queue :: string
  tc_captureOutput :: int
  tc_metadataJson :: string
  tc_createdTsMs :: int
  tc_updatedTsMs :: int

definition ttr_row :: "(json \<Rightarrow> string) \<Rightarrow> int \<Rightarrow> TaskTemplateRecord \<Rightarrow> task_template_cols" where
  "ttr_row dump now t =
     \<lparr>tc_templateId = c_str (ttr_templateId t), tc_name = c_str (ttr_name t),
      tc_description = c_str (ttr_description t), tc_execType = c_str (ttr_execType t),
      tc_execCommand = c_str (ttr_execCommand t), tc_execParamsJson = c_str (dump (ttr_execParams t)),
      tc_schemaJson = c_str (dump (param_schema_to_json (ttr_schema t))), tc_timeoutMs = ttr_timeoutMs t,
      tc_retryCount = ttr_retryCount t, tc_retryDelayMs = ttr_retryDelayMs t,
      tc_retryExpBackoff = (if ttr_retryExpBackoff t then 1 else 0), tc_priority = ttr_priority t,
      tc_queue = c_str (ttr_queue t), tc_captureOutput = (if ttr_captureOutput t then 1 else 0),
      tc_metadataJson = c_str (dump (ttr_metadata t)), tc_createdTsMs = now, tc_updatedTsMs = now\<rparr>"

definition ttr_insert ::
  "(json \<Rightarrow> string) \<Rightarrow> int \<Rightarrow> TaskTemplateRecord \<Rightarrow> task_template_cols list \<Rightarrow> bool \<times> task_template_cols list" where
  "ttr_insert dump now t rows =
     (let row = ttr_row dump now t in
      if \<exists>r \<in> set rows. tc_templateId r = tc_templateId row then (False, rows) else (True, rows @ [row]))"

definition ttr_read :: "(string \<Rightarrow> string + json) \<Rightarrow> string \<Rightarrow> task_template_cols \<Rightarrow> TaskTemplateRecord result" where
  "ttr_read parse tid r =
     bind (parse_text parse (tc_execParamsJson r)) (\<lambda>ep.
     bind (bind (parse_text parse (tc_schemaJson r)) make_param_schema) (\<lambda>sch.
     bind (parse_text parse (tc_metadataJson r)) (\<lambda>md.
       Inr \<lparr>ttr_templateId = tid, ttr_name = tc_name r, ttr_description = tc_description r,
            ttr_execType = tc_execType r, ttr_execCommand = tc_execCommand r, ttr_execParams = ep, ttr_schema = sch,
            ttr_timeoutMs = tc_timeoutMs r, ttr_retryCount = tc_retryCount r, ttr_retryDelayMs = tc_retryDelayMs r,
            ttr_retryExpBackoff = (tc_retryExpBackoff r \<noteq> 0), ttr_priority = tc_priority r, ttr_queue = tc_queue r,
            ttr_captureOutput = (tc_captureOutput r \<noteq> 0), ttr_metadata = md,
            ttr_createdTsMs = tc_createdTsMs r, ttr_updatedTsMs = tc_updatedTsMs r\<rparr>)))"

definition ttr_get ::
  "(string \<Rightarrow> string + json) \<Rightarrow> string \<Rightarrow> task_template_cols list \<Rightarrow> TaskTemplateRecord option result" where
  "ttr_get parse tid rows =
     (case find (\<lambda>r. tc_templateId r = c_str tid) rows of
        None \<Rightarrow> Inr None
      | Some r \<Rightarrow> bind (ttr_read parse tid r) (\<lambda>t. Inr (Some t)))"

definition ttr_list :: "(string \<Rightarrow> string + json) \<Rightarrow> task_template_cols list \<Rightarrow> TaskTemplateRecord list result" where
  "ttr_list parse rows =
     collect (\<lambda>r. ttr_read parse (tc_templateId r) r) (sort_key tc_execType (sort_key tc_name rows))"

definition ttr_listByType ::
  "(string \<Rightarrow> string + json) \<Rightarrow> string \<Rightarrow> task_template_cols list \<Rightarrow> TaskTemplateRecord list result" where
  "ttr_listByType parse ty rows =
     collect (\<lambda>r. ttr_read parse (tc_templateId r) r)
       (sort_key tc_name (filter (\<lambda>r. tc_execType r = c_str ty) rows))"

definition ttr_remove :: "string \<Rightarrow> task_template_cols list \<Rightarrow> bool \<times> task_template_cols list" where
  "ttr_remove tid rows = (True, filter (\<lambda>r. tc_templateId r \<noteq> c_str tid) rows)"
subsection \<open>The cache is transparent\<close>

definition nul_free :: "string \<Rightarrow> bool" where
  "nul_free s \<longleftrightarrow> CHR 0x00 \<notin> set s"

lemma c_str_nul_free [simp]: "nul_free s \<Longrightarrow> c_str s = s"
  by (auto simp: nul_free_def c_str_def takeWhile_eq_all_conv)

text \<open>A template whose texts have no NUL and whose JSON parts are read back from their print.\<close>

definition storable :: "(json \<Rightarrow> string) \<Rightarrow> (string \<Rightarrow> string + json) \<Rightarrow> TaskTemplate \<Rightarrow> bool" where
  "storable dump parse t \<longleftrightarrow>
     nul_free (templateId t) \<and> nul_free (tpl_name t) \<and> nul_free (tpl_description t)
   \<and> (\<forall>j \<in> {taskJsonTemplate t, param_schema_to_json (tpl_schema t)}. nul_free (dump j) \<and> parse (dump j) = Inr j)"

datatype tpl_op = Create int TaskTemplate | Get string | Remove string

fun tpl_exec :: "(json \<Rightarrow> string) \<Rightarrow> (string \<Rightarrow> string + json) \<Rightarrow> tpl_op \<Rightarrow> TemplateStore \<Rightarrow> TemplateStore" where
  "tpl_exec dump parse (Create now t) s = snd (tpl_create dump now t s)"
| "tpl_exec dump parse (Get tid) s = snd (tpl_get parse tid s)"
| "tpl_exec dump parse (Remove tid) s = snd (tpl_remove tid s)"

fun tpl_op_ok :: "(json \<Rightarrow> string) \<Rightarrow> (string \<Rightarrow> string + json) \<Rightarrow> tpl_op \<Rightarrow> bool" where
  "tpl_op_ok dump parse (Create now t) \<longleftrightarrow> storable dump parse t"
| "tpl_op_ok dump parse (Get tid) \<longleftrightarrow> nul_free tid"
| "tpl_op_ok dump parse (Remove tid) \<longleftrightarrow> nul_free tid"

text \<open>What a store without a cache answers.\<close>

definition tpl_lookup :: "(string \<Rightarrow> string + json) \<Rightarrow> string \<Rightarrow> tpl_row list option \<Rightarrow> TaskTemplate option result" where
  "tpl_lookup parse tid dbo =
     (case dbo of
        None \<Rightarrow> Inr None
      | Some rows \<Rightarrow>
          (case find (\<lambda>r. tt_templateId r = tid) rows of
             None \<Rightarrow> Inr None
           | Some r \<Rightarrow> bind (read_template parse tid r) (\<lambda>t. Inr (Some t))))"

definition cache_coherent :: "(string \<Rightarrow> string + json) \<Rightarrow> TemplateStore \<Rightarrow> bool" where
  "cache_coherent parse s \<longleftrightarrow> (\<forall>k t. ts_map s k = Some t \<longrightarrow> nul_free k \<and> tpl_lookup parse k (ts_rows s) = Inr (Some t))"

lemma stored_param_json: "stored_param (param_json pd) = Inr pd"
  by (cases "pd_type pd") (auto simp: stored_param_def param_json_def value_or_def StringToParamType_def)

lemma collect_stored_params: "collect stored_param (map param_json ps) = Inr ps"
  by (induction ps) (auto simp: stored_param_json)

lemma read_stored:
  assumes "storable dump parse t"
  shows "read_template parse (templateId t)
      \<lparr>tt_templateId = c_str (templateId t), tt_name = c_str (tpl_name t), tt_description = c_str (tpl_description t),
       tt_taskJsonTemplate = c_str (dump (taskJsonTemplate t)),
       tt_schemaJson = c_str (dump (param_schema_to_json (tpl_schema t))),
       tt_createdAtMs = now, tt_updatedAtMs = now\<rparr> = Inr t"
proof -
  have "member ''params'' (param_schema_to_json (tpl_schema t)) = Some (JArr (map param_json (tpl_schema t)))"
    by (simp add: param_schema_to_json_def)
  with assms show ?thesis
    by (simp add: read_template_def storable_def parse_text_def collect_stored_params)
qed

lemma find_append_None: "find P xs = None \<Longrightarrow> find P (xs @ ys) = find P ys"
  by (induction xs) auto

lemma find_append_Some: "find P xs = Some x \<Longrightarrow> find P (xs @ ys) = Some x"
  by (induction xs) auto

lemma find_filter_other: "(\<And>x. P x \<Longrightarrow> Q x) \<Longrightarrow> find P (filter Q xs) = find P xs"
  by (induction xs) auto

lemma cache_coherentD:
  assumes "cache_coherent parse s" and "ts_map s k = Some t"
  shows "nul_free k" and "tpl_lookup parse k (ts_rows s) = Inr (Some t)"
  using assms by (auto simp: cache_coherent_def)

lemma lookup_append:
  "tpl_lookup parse k (Some rows) = Inr (Some t) \<Longrightarrow> tpl_lookup parse k (Some (rows @ rs)) = Inr (Some t)"
  by (auto simp: tpl_lookup_def find_append_Some split: option.splits)

lemma lookup_filter:
  "k \<noteq> tid \<Longrightarrow> tpl_lookup parse k (Some (filter (\<lambda>r. tt_templateId r \<noteq> tid) rows)) = tpl_lookup parse k (Some rows)"
  by (simp add: tpl_lookup_def find_filter_other)

lemma lookup_new:
  assumes "storable dump parse t" and "find (\<lambda>r. tt_templateId r = templateId t) rows = None"
  shows "tpl_lookup parse (templateId t) (Some (rows @
      [\<lparr>tt_templateId = c_str (templateId t), tt_name = c_str (tpl_name t), tt_description = c_str (tpl_description t),
        tt_taskJsonTemplate = c_str (dump (taskJsonTemplate t)),
        tt_schemaJson = c_str (dump (param_schema_to_json (tpl_schema t))),
        tt_createdAtMs = now, tt_updatedAtMs = now\<rparr>])) = Inr (Some t)"
  using assms(2) read_stored [OF assms(1), of now] assms(1)
  by (simp add: tpl_lookup_def find_append_None storable_def)

lemma tpl_get_miss:
  assumes "ts_map s tid = None" and "nul_free tid"
  shows "tpl_get parse tid s = (tpl_lookup parse tid (ts_rows s),
    case tpl_lookup parse tid (ts_rows s) of Inr (Some t) \<Rightarrow> s\<lparr>ts_map := (ts_map s)(tid \<mapsto> t)\<rparr> | _ \<Rightarrow> s)"
  using assms by (auto simp: tpl_get_def tpl_lookup_def split: option.split sum.split)

lemma tpl_get_hit: "ts_map s tid = Some t \<Longrightarrow> tpl_get parse tid s = (Inr (Some t), s)"
  by (simp add: tpl_get_def)

lemma tpl_get_coherent:
  assumes "cache_coherent parse s" and "nul_free tid"
  shows "fst (tpl_get parse tid s) = tpl_lookup parse tid (ts_rows s) \<and> cache_coherent parse (snd (tpl_get parse tid s))"
proof (cases "ts_map s tid")
  case None
  have "cache_coherent parse (s\<lparr>ts_map := (ts_map s)(tid \<mapsto> t)\<rparr>)" if "tpl_lookup parse tid (ts_rows s) = Inr (Some t)" for t
    using that assms by (auto simp: cache_coherent_def)
  with assms(1) show ?thesis
    by (simp add: tpl_get_miss [OF None assms(2)] split: sum.split option.split)
next
  case (Some t)
  with assms show ?thesis by (simp add: tpl_get_hit cache_coherentD)
qed

lemma tpl_create_coherent:
  assumes "cache_coherent parse s" and "storable dump parse t"
  shows "cache_coherent parse (snd (tpl_create dump now t s))"
proof (cases "ts_rows s")
  case (Some rows)
  let ?k = "templateId t"
  have k: "nul_free ?k" using assms(2) by (simp add: storable_def)
  show ?thesis
  proof (cases "\<exists>r \<in> set rows. tt_templateId r = ?k")
    case True
    with assms(1) Some k show ?thesis by (simp add: tpl_create_def)
  next
    case False
    then have n: "find (\<lambda>r. tt_templateId r = ?k) rows = None" by (auto simp: find_None_iff)
    then have "tpl_lookup parse ?k (ts_rows s) = Inr None" using Some by (simp add: tpl_lookup_def)
    then have m: "ts_map s ?k = None" using cache_coherentD(2) [OF assms(1), of ?k] by (cases "ts_map s ?k") auto
    let ?row = "\<lparr>tt_templateId = c_str ?k, tt_name = c_str (tpl_name t), tt_description = c_str (tpl_description t),
        tt_taskJsonTemplate = c_str (dump (taskJsonTemplate t)),
        tt_schemaJson = c_str (dump (param_schema_to_json (tpl_schema t))), tt_createdAtMs = now, tt_updatedAtMs = now\<rparr>"
    have e: "snd (tpl_create dump now t s) = s\<lparr>ts_rows := Some (rows @ [?row]), ts_map := (ts_map s)(?k \<mapsto> t)\<rparr>"
      using False Some k m by (simp add: tpl_create_def Let_def)
    show ?thesis
      unfolding e cache_coherent_def
      using k lookup_new [OF assms(2) n, of now] lookup_append [of parse _ rows] cache_coherentD [OF assms(1)] Some
      by auto
  qed
qed (use assms(1) in \<open>simp add: tpl_create_def\<close>)

lemma tpl_remove_coherent:
  assumes "cache_coherent parse s" and "nul_free tid"
  shows "cache_coherent parse (snd (tpl_remove tid s))"
proof (cases "ts_rows s")
  case (Some rows)
  with assms(2) cache_coherentD [OF assms(1)] show ?thesis
    by (auto simp: tpl_remove_def cache_coherent_def lookup_filter)
qed (use assms(1) in \<open>simp add: tpl_remove_def\<close>)

lemma tpl_exec_coherent:
  "cache_coherent parse s \<Longrightarrow> tpl_op_ok dump parse op \<Longrightarrow> cache_coherent parse (tpl_exec dump parse op s)"
  by (cases op) (auto intro: tpl_create_coherent tpl_remove_coherent simp: tpl_get_coherent)

lemma tpl_execs_coherent:
  "cache_coherent parse s \<Longrightarrow> \<forall>op \<in> set ops. tpl_op_ok dump parse op
   \<Longrightarrow> cache_coherent parse (fold (tpl_exec dump parse) ops s)"
  by (induction ops arbitrary: s) (auto intro: tpl_exec_coherent)

text \<open>C24. The cache of the template store is invisible: after any sequence of creations, look-ups and
  removals (of ids and templates without NUL bytes, the templates' JSON read back from its print) on any
  table, a look-up answers what it answers after a restart, when the cache is empty.\<close>

theorem template_cache_transparent:
  assumes "\<forall>op \<in> set ops. tpl_op_ok dump parse op" and "nul_free tid"
    and "s = fold (tpl_exec dump parse) ops \<lparr>ts_rows = dbo, ts_map = Map.empty\<rparr>"
  shows "fst (tpl_get parse tid s) = fst (tpl_get parse tid (s\<lparr>ts_map := Map.empty\<rparr>))"
proof -
  have "cache_coherent parse \<lparr>ts_rows = dbo, ts_map = Map.empty\<rparr>" by (simp add: cache_coherent_def)
  then have "cache_coherent parse s" unfolding assms(3) using assms(1) by (rule tpl_execs_coherent)
  moreover have "cache_coherent parse (s\<lparr>ts_map := Map.empty\<rparr>)" by (simp add: cache_coherent_def)
  ultimately show ?thesis using tpl_get_coherent assms(2) by (metis TemplateStore.select_convs(1) TemplateStore.surjective TemplateStore.update_convs(2))
qed

definition demo_tpl :: TaskTemplate where
  "demo_tpl = \<lparr>templateId = ''t'', tpl_name = ''n'', tpl_description = [], taskJsonTemplate = JNull, tpl_schema = []\<rparr>"

text \<open>A printer and a parser that agree on the two values stored.\<close>

definition demo_dump :: "json \<Rightarrow> string" where
  "demo_dump j = (case j of JNull \<Rightarrow> ''null'' | _ \<Rightarrow> ''{}'')"

definition demo_parse :: "string \<Rightarrow> string + json" where
  "demo_parse s = (if s = ''null'' then Inr JNull else Inr (param_schema_to_json []))"

theorem template_cache_transparent_witness:
  "\<exists>s. s = fold (tpl_exec demo_dump demo_parse) [Create 5 demo_tpl, Get ''t''] \<lparr>ts_rows = Some [], ts_map = Map.empty\<rparr>
     \<and> fst (tpl_get demo_parse ''t'' s) = fst (tpl_get demo_parse ''t'' (s\<lparr>ts_map := Map.empty\<rparr>))
     \<and> fst (tpl_get demo_parse ''t'' s) = Inr (Some demo_tpl)"
proof -
  have ok: "\<forall>op \<in> set [Create 5 demo_tpl, Get ''t'']. tpl_op_ok demo_dump demo_parse op"
    by (simp add: storable_def demo_tpl_def nul_free_def demo_dump_def demo_parse_def param_schema_to_json_def)
  have n: "nul_free ''t''" by (simp add: nul_free_def)
  define s where "s = fold (tpl_exec demo_dump demo_parse) [Create 5 demo_tpl, Get ''t''] \<lparr>ts_rows = Some [], ts_map = Map.empty\<rparr>"
  have "fst (tpl_get demo_parse ''t'' s) = Inr (Some demo_tpl)"
    by (simp add: s_def tpl_create_def tpl_get_def Let_def demo_tpl_def)
  with template_cache_transparent [OF ok n s_def] show ?thesis unfolding s_def [symmetric] by blast
qed

subsection \<open>Task templates are read back\<close>

definition ttr_storable :: "(json \<Rightarrow> string) \<Rightarrow> (string \<Rightarrow> string + json) \<Rightarrow> TaskTemplateRecord \<Rightarrow> bool" where
  "ttr_storable dump parse t \<longleftrightarrow>
     (\<forall>s \<in> {ttr_templateId t, ttr_name t, ttr_description t, ttr_execType t, ttr_execCommand t, ttr_queue t}. nul_free s)
   \<and> (\<forall>j \<in> {ttr_execParams t, param_schema_to_json (ttr_schema t), ttr_metadata t}.
        nul_free (dump j) \<and> parse (dump j) = Inr j)"

lemma param_def_json: "param_def (param_json pd) = Inr pd"
  by (cases "pd_type pd") (auto simp: param_def_def param_json_def value_or_def StringToParamType_def)

lemma make_param_schema_json: "make_param_schema (param_schema_to_json ps) = Inr ps"
proof -
  have "collect param_def (map param_json ps) = Inr ps" by (induction ps) (auto simp: param_def_json)
  then show ?thesis by (simp add: make_param_schema_def param_schema_to_json_def)
qed

lemma ttr_read_row:
  assumes "ttr_storable dump parse t"
  shows "ttr_read parse (ttr_templateId t) (ttr_row dump now t) = Inr (t\<lparr>ttr_createdTsMs := now, ttr_updatedTsMs := now\<rparr>)"
  using assms by (simp add: ttr_storable_def ttr_read_def ttr_row_def parse_text_def make_param_schema_json)

text \<open>Storing a task template and reading it gives it back: an insertion fails exactly if the id is
  taken, and then changes nothing; after a successful one, looking the id up gives every field of the
  template with both time stamps set, every other id gives what it gave before, and after removing the id
  the look-ups are those of before the insertion.\<close>

theorem task_template_roundtrip:
  assumes "ttr_storable dump parse t" and "ttr_insert dump now t rows = (ok, rows')"
  shows "(ok \<longleftrightarrow> (\<forall>r \<in> set rows. tc_templateId r \<noteq> ttr_templateId t)) \<and> (\<not> ok \<longrightarrow> rows' = rows)
    \<and> (ok \<longrightarrow> ttr_get parse (ttr_templateId t) rows'
                = Inr (Some (t\<lparr>ttr_createdTsMs := now, ttr_updatedTsMs := now\<rparr>))
       \<and> (\<forall>tid. c_str tid \<noteq> ttr_templateId t \<longrightarrow> ttr_get parse tid rows' = ttr_get parse tid rows)
       \<and> snd (ttr_remove (ttr_templateId t) rows') = rows)"
proof -
  let ?row = "ttr_row dump now t"
  have k: "c_str (ttr_templateId t) = ttr_templateId t" "tc_templateId ?row = ttr_templateId t"
    using assms(1) by (auto simp: ttr_storable_def ttr_row_def)
  show ?thesis
  proof (cases "\<exists>r \<in> set rows. tc_templateId r = ttr_templateId t")
    case True
    with assms(2) k show ?thesis by (auto simp: ttr_insert_def Let_def)
  next
    case False
    then have e: "ok" "rows' = rows @ [?row]" using assms(2) k by (auto simp: ttr_insert_def Let_def)
    have "find (\<lambda>r. tc_templateId r = ttr_templateId t) rows = None" using False by (auto simp: find_None_iff)
    then have g: "ttr_get parse (ttr_templateId t) rows' = Inr (Some (t\<lparr>ttr_createdTsMs := now, ttr_updatedTsMs := now\<rparr>))"
      using ttr_read_row [OF assms(1), of now] by (simp add: ttr_get_def e k find_append_None)
    have o: "ttr_get parse tid rows' = ttr_get parse tid rows" if "c_str tid \<noteq> ttr_templateId t" for tid
    proof -
      have "find (\<lambda>r. tc_templateId r = c_str tid) (rows @ [?row]) = find (\<lambda>r. tc_templateId r = c_str tid) rows"
        using that k by (induction rows) auto
      then show ?thesis by (simp add: ttr_get_def e)
    qed
    have "snd (ttr_remove (ttr_templateId t) rows') = rows"
      using False by (auto simp: ttr_remove_def e k filter_id_conv)
    with False e g o show ?thesis by auto
  qed
qed

definition demo_ttr :: TaskTemplateRecord where
  "demo_ttr = \<lparr>ttr_templateId = ''t'', ttr_name = ''n'', ttr_description = [], ttr_execType = ''Shell'', ttr_execCommand = ''ls'',
     ttr_execParams = JNull, ttr_schema = [], ttr_timeoutMs = 5, ttr_retryCount = 0, ttr_retryDelayMs = 1000,
     ttr_retryExpBackoff = True, ttr_priority = 0, ttr_queue = ''q'', ttr_captureOutput = False, ttr_metadata = JNull,
     ttr_createdTsMs = 0, ttr_updatedTsMs = 0\<rparr>"

theorem task_template_roundtrip_witness:
  "ttr_get demo_parse ''t'' (snd (ttr_insert demo_dump 9 demo_ttr []))
     = Inr (Some (demo_ttr\<lparr>ttr_createdTsMs := 9, ttr_updatedTsMs := 9\<rparr>))"
proof -
  have s: "ttr_storable demo_dump demo_parse demo_ttr"
    by (simp add: ttr_storable_def demo_ttr_def nul_free_def demo_dump_def demo_parse_def param_schema_to_json_def)
  obtain ok rows' where e: "ttr_insert demo_dump 9 demo_ttr [] = (ok, rows')" by fastforce
  have "ttr_templateId demo_ttr = ''t''" by (simp add: demo_ttr_def)
  with task_template_roundtrip [OF s e] e show ?thesis by simp
qed

end
