(* ===== verification/Template_Api.thy ===== *)
theory Template_Api
  imports Template_Store
begin

text \<open>
  \<^verbatim>\<open>handlers/template_handler.cpp\<close> and \<^verbatim>\<open>handlers/task_template_handler.cpp\<close>: storing, listing, deleting,
  rendering and running templates over HTTP.  The renderer and the DAG service are arguments; a handler
  returns the response, the new store and what it did outside.  Business errors of the first file are
  answered with HTTP status 200 and the code in the body.
\<close>

subsection \<open>Responses\<close>

definition not_ok :: "string \<Rightarrow> string" where
  "not_ok msg = ''{\"ok\":false,\"error\":\"'' @ msg @ ''\"}''"

definition tpl_error :: "int \<Rightarrow> string \<Rightarrow> response" where
  "tpl_error code msg = resp_error code (not_ok msg) 200"

definition tpl_ok :: "(string \<rightharpoonup> json) \<Rightarrow> response" where
  "tpl_ok m = resp_ok (JObj (m(''ok'' \<mapsto> JBool True)))"

record RenderResult =
  ren_ok :: bool
  ren_error :: string
  ren_rendered :: json

definition render_result_to_json :: "RenderResult \<Rightarrow> json" where
  "render_result_to_json r =
     JObj [''ok'' \<mapsto> JBool (ren_ok r), ''error'' \<mapsto> JStr (ren_error r), ''rendered'' \<mapsto> ren_rendered r]"

subsection \<open>Templates\<close>

definition template_create ::
  "(string \<Rightarrow> string + json) \<Rightarrow> (json \<Rightarrow> string) \<Rightarrow> int \<Rightarrow> string \<Rightarrow> TemplateStore \<Rightarrow> response \<times> TemplateStore" where
  "template_create parse dump now body s =
     (case parse body of
        Inl _ \<Rightarrow> (tpl_error 400 ''bad request'', s)
      | Inr j \<Rightarrow>
          (case bind (value_or get_string ''template_id'' [] j) (\<lambda>tid.
                bind (value_or get_string ''name'' [] j) (\<lambda>nm.
                bind (value_or get_string ''description'' [] j) (\<lambda>desc.
                bind (value_or Inr ''task_json_template'' (JObj Map.empty) j) (\<lambda>tj.
                bind (value_or Inr ''schema'' (JObj Map.empty) j) (\<lambda>sj.
                  if tid = [] \<or> nm = [] \<or> is_null tj then Inr None
                  else bind (make_param_schema sj) (\<lambda>ps.
                         Inr (Some \<lparr>templateId = tid, tpl_name = nm, tpl_description = desc,
                                    taskJsonTemplate = tj, tpl_schema = ps\<rparr>))))))) of
             Inl _ \<Rightarrow> (tpl_error 500 ''internal server error'', s)
           | Inr None \<Rightarrow> (tpl_error 400 ''missing required fields'', s)
           | Inr (Some t) \<Rightarrow>
               (case tpl_create dump now t s of
                  (False, s') \<Rightarrow> (tpl_error 500 ''template id already exists'', s')
                | (True, s') \<Rightarrow> (tpl_ok [''template_id'' \<mapsto> JStr (templateId t)], s'))))"

definition template_get :: "(string \<Rightarrow> string + json) \<Rightarrow> string \<Rightarrow> TemplateStore \<Rightarrow> response \<times> TemplateStore" where
  "template_get parse tid s =
     (case tpl_get parse tid s of
        (Inl _, s') \<Rightarrow> (tpl_error 500 ''internal server error'', s')
      | (Inr None, s') \<Rightarrow> (tpl_error 404 ''template not found'', s')
      | (Inr (Some t), s') \<Rightarrow> (tpl_ok [''data'' \<mapsto> taskTemplate_to_json t], s'))"

definition template_list ::
  "(string \<Rightarrow> string + json) \<Rightarrow> ((string \<rightharpoonup> TaskTemplate) \<Rightarrow> string list) \<Rightarrow> TemplateStore \<Rightarrow> response" where
  "template_list parse order s =
     (case tpl_list parse order s of
        Inl _ \<Rightarrow> tpl_error 500 ''internal server error''
      | Inr ts \<Rightarrow> tpl_ok [''data'' \<mapsto> JArr (map taskTemplate_to_json ts)])"

definition template_delete :: "string \<Rightarrow> TemplateStore \<Rightarrow> response \<times> TemplateStore" where
  "template_delete tid s =
     (case tpl_remove tid s of
        (False, s') \<Rightarrow> (tpl_error 404 ''template not found'', s')
      | (True, s') \<Rightarrow> (tpl_ok Map.empty, s'))"

text \<open>The id and the parameters of a request, \<open>None\<close> if one is missing.\<close>

definition request_params :: "json \<Rightarrow> (string \<times> ParamMap) option result" where
  "request_params j =
     bind (value_or get_string ''template_id'' [] j) (\<lambda>tid.
     bind (value_or Inr ''params'' (JObj Map.empty) j) (\<lambda>ps.
       Inr (case ps of JObj m \<Rightarrow> if tid = [] then None else Some (tid, m) | _ \<Rightarrow> None)))"

definition render_failed :: "(json \<Rightarrow> string) \<Rightarrow> RenderResult \<Rightarrow> response" where
  "render_failed dump r =
     resp_error 400 (dump (JObj [''ok'' \<mapsto> JBool False, ''error'' \<mapsto> JStr (ren_error r),
                                 ''data'' \<mapsto> render_result_to_json r])) 400"

definition template_render ::
  "(string \<Rightarrow> string + json) \<Rightarrow> (json \<Rightarrow> string) \<Rightarrow> (TaskTemplate \<Rightarrow> ParamMap \<Rightarrow> RenderResult) \<Rightarrow> string \<Rightarrow> TemplateStore
    \<Rightarrow> response \<times> TemplateStore" where
  "template_render parse dump rend body s =
     (case parse body of
        Inl _ \<Rightarrow> (tpl_error 400 ''bad request'', s)
      | Inr j \<Rightarrow>
          (case request_params j of
             Inl _ \<Rightarrow> (tpl_error 500 ''internal server error'', s)
           | Inr None \<Rightarrow> (tpl_error 400 ''missing required fields'', s)
           | Inr (Some (tid, ps)) \<Rightarrow>
               (case tpl_get parse tid s of
                  (Inl _, s') \<Rightarrow> (tpl_error 500 ''internal server error'', s')
                | (Inr None, s') \<Rightarrow> (tpl_error 404 ''template not found'', s')
                | (Inr (Some t), s') \<Rightarrow>
                    (let r = rend t ps in
                     (if \<not> ren_ok r then render_failed dump r else tpl_ok [''data'' \<mapsto> render_result_to_json r], s')))))"

text \<open>The rendered description with its template's id and name.\<close>

definition named_body :: "TaskTemplate \<Rightarrow> string \<Rightarrow> json \<Rightarrow> json result" where
  "named_body t tid rendered =
     (let c = (config_of rendered)(''template_id'' \<mapsto> JStr tid)
      in bind (put_member ''config'' (JObj c) rendered) (\<lambda>j1.
         bind (if contains ''name'' j1 then Inr j1 else put_member ''name'' (JStr (tpl_name t)) j1) (\<lambda>j2.
         bind (value_or get_string ''name'' (tpl_name t) j2) (\<lambda>nm.
           put_member ''config'' (JObj (c(''name'' \<mapsto> JStr nm))) j2))))"

text \<open>The ids of the tasks of a description, \<open>None\<close> if a task has no id or one that is no string.\<close>

fun ids_of :: "json list \<Rightarrow> string list option" where
  "ids_of [] = Some []"
| "ids_of (j # js) =
     (case string_member ''id'' j of
        None \<Rightarrow> None
      | Some i \<Rightarrow> (case ids_of js of None \<Rightarrow> None | Some is \<Rightarrow> Some (i # is)))"

definition task_ids_of :: "json \<Rightarrow> string list option" where
  "task_ids_of body =
     (case (member ''tasks'' body, member ''task'' body) of
        (Some (JArr ts), _) \<Rightarrow> ids_of ts
      | (_, Some (JObj m)) \<Rightarrow> ids_of [JObj m]
      | _ \<Rightarrow> ids_of [body])"
text \<open>The run handler: \<open>service body runId\<close> is \<^verbatim>\<open>DagService::runDag(body, "template", runId)\<close>.  The
  summary goes through the results in the order of the map's keys, which are among the result's task ids.\<close>

definition caught_error :: "(cpp_error \<Rightarrow> string) \<Rightarrow> cpp_error \<Rightarrow> response" where
  "caught_error what e = tpl_error 500 (what e)"

definition result_entries :: "DagResult \<Rightarrow> (TaskId \<times> TaskResult) list" where
  "result_entries dr =
     map (\<lambda>i. (i, the (dr_taskResults dr i))) (sort (remdups (filter (\<lambda>i. dr_taskResults dr i \<noteq> None) (dr_taskIds dr))))"

definition ids_with :: "(TaskStatus \<Rightarrow> bool) \<Rightarrow> DagResult \<Rightarrow> json" where
  "ids_with P dr =
     JArr (map (\<lambda>(i, r). JStr (tid_value i)) (filter (\<lambda>(i, r). P (res_status r)) (result_entries dr)))"

definition run_response :: "string \<Rightarrow> DagResult \<Rightarrow> response" where
  "run_response runId dr =
     resp_ok (JObj
       [''ok'' \<mapsto> JBool (dr_success dr), ''message'' \<mapsto> JStr (dr_message dr), ''nodes'' \<mapsto> dagResult_to_json dr,
        ''run_id'' \<mapsto> JStr runId,
        ''summary'' \<mapsto> JObj [''total'' \<mapsto> JInt (int (length (result_entries dr))),
                           ''success'' \<mapsto> ids_with (\<lambda>st. st = Success) dr,
                           ''failed'' \<mapsto> ids_with (\<lambda>st. st = Failed \<or> st = Timeout) dr,
                           ''skipped'' \<mapsto> ids_with (\<lambda>st. st = Skipped) dr]])"

definition template_run ::
  "(string \<Rightarrow> string + json) \<Rightarrow> (json \<Rightarrow> string) \<Rightarrow> (cpp_error \<Rightarrow> string) \<Rightarrow> (TaskTemplate \<Rightarrow> ParamMap \<Rightarrow> RenderResult)
    \<Rightarrow> (json \<Rightarrow> string \<Rightarrow> 'w \<Rightarrow> DagResult result \<times> 'w) \<Rightarrow> string \<Rightarrow> string \<Rightarrow> TemplateStore \<Rightarrow> 'w
    \<Rightarrow> response \<times> TemplateStore \<times> 'w" where
  "template_run parse dump what rend service fresh body s w =
     (case parse body of
        Inl _ \<Rightarrow> (tpl_error 400 ''bad request'', s, w)
      | Inr j \<Rightarrow>
          (case request_params j of
             Inl e \<Rightarrow> (caught_error what e, s, w)
           | Inr None \<Rightarrow> (tpl_error 400 ''missing required fields'', s, w)
           | Inr (Some (tid, ps)) \<Rightarrow>
               (case tpl_get parse tid s of
                  (Inl e, s') \<Rightarrow> (caught_error what e, s', w)
                | (Inr None, s') \<Rightarrow> (tpl_error 404 ''template not found'', s', w)
                | (Inr (Some t), s') \<Rightarrow>
                    (let r = rend t ps in
                     if \<not> ren_ok r then (render_failed dump r, s', w)
                     else
                       (case bind (value_or get_string ''run_id'' [] j) (\<lambda>given.
                             bind (named_body t tid (ren_rendered r)) (\<lambda>b. Inr (if given = [] then fresh else given, b))) of
                          Inl e \<Rightarrow> (caught_error what e, s', w)
                        | Inr (runId, b) \<Rightarrow>
                            (case task_ids_of b of
                               None \<Rightarrow> (tpl_error 400 ''task id is required'', s', w)
                             | Some _ \<Rightarrow>
                                 (case injectRunId b runId of
                                    Inl e \<Rightarrow> (caught_error what e, s', w)
                                  | Inr b' \<Rightarrow>
                                      (case service b' runId w of
                                         (Inl e, w') \<Rightarrow> (caught_error what e, s', w')
                                       | (Inr dr, w') \<Rightarrow>
                                           if \<not> dr_success dr then
                                             (resp_error 500 (dump (JObj [''ok'' \<mapsto> JBool False,
                                                ''error'' \<mapsto> JStr (dr_message dr)])) 500, s', w')
                                           else (run_response runId dr, s', w')))))))))"

text \<open>The asynchronous handler posts the run to the DAG pool and answers with the tasks' ids.\<close>

definition template_run_async ::
  "(string \<Rightarrow> string + json) \<Rightarrow> (cpp_error \<Rightarrow> string) \<Rightarrow> (TaskTemplate \<Rightarrow> ParamMap \<Rightarrow> RenderResult)
    \<Rightarrow> string \<Rightarrow> string \<Rightarrow> TemplateStore \<Rightarrow> response \<times> TemplateStore \<times> (json \<times> string) list" where
  "template_run_async parse what rend fresh body s =
     (case parse body of
        Inl _ \<Rightarrow> (tpl_error 400 ''bad request'', s, [])
      | Inr j \<Rightarrow>
          (case request_params j of
             Inl e \<Rightarrow> (caught_error what e, s, [])
           | Inr None \<Rightarrow> (tpl_error 400 ''missing required fields'', s, [])
           | Inr (Some (tid, ps)) \<Rightarrow>
               (case tpl_get parse tid s of
                  (Inl e, s') \<Rightarrow> (caught_error what e, s', [])
                | (Inr None, s') \<Rightarrow> (tpl_error 404 ''template not found'', s', [])
                | (Inr (Some t), s') \<Rightarrow>
                    (let r = rend t ps in
                     if \<not> ren_ok r then (resp_error 400 (ren_error r) 200, s', [])
                     else
                       (case bind (value_or get_string ''run_id'' [] j) (\<lambda>given.
                             bind (named_body t tid (ren_rendered r)) (\<lambda>b. Inr (if given = [] then fresh else given, b))) of
                          Inl e \<Rightarrow> (caught_error what e, s', [])
                        | Inr (runId, b) \<Rightarrow>
                            (case task_ids_of b of
                               None \<Rightarrow> (tpl_error 400 ''task id is required'', s', [])
                             | Some ids \<Rightarrow>
                                 (case injectRunId b runId of
                                    Inl e \<Rightarrow> (caught_error what e, s', [])
                                  | Inr b' \<Rightarrow>
                                      (resp_ok (JObj [''run_id'' \<mapsto> JStr runId,
                                         ''task_ids'' \<mapsto> JArr (map (\<lambda>i. JObj [''logical'' \<mapsto> JStr i, ''task_id'' \<mapsto> JStr i]) ids)]),
                                       s', [(b', runId)]))))))))"

subsection \<open>Task templates\<close>

definition raw_response :: "int \<Rightarrow> string \<Rightarrow> json \<Rightarrow> response" where
  "raw_response code msg data =
     \<lparr>http_status = 200, resp_body = JObj [''code'' \<mapsto> JInt code, ''message'' \<mapsto> JStr msg, ''data'' \<mapsto> data]\<rparr>"

definition db_missing :: response where
  "db_missing = raw_response 500 ''Database not initialized'' JNull"

definition task_template_create ::
  "(string \<Rightarrow> string + json) \<Rightarrow> (json \<Rightarrow> string) \<Rightarrow> (cpp_error \<Rightarrow> string) \<Rightarrow> int \<Rightarrow> string \<Rightarrow> task_template_cols list option
    \<Rightarrow> response \<times> task_template_cols list option" where
  "task_template_create parse dump what now body dbo =
     (case dbo of
        None \<Rightarrow> (db_missing, None)
      | Some rows \<Rightarrow>
          (case bind (parse_text parse body) ttr_from_json of
             Inl e \<Rightarrow> (raw_response 400 (''Invalid request: '' @ what e) JNull, Some rows)
           | Inr t \<Rightarrow>
               if ttr_templateId t = [] then (raw_response 400 ''template_id is required'' JNull, Some rows)
               else (case ttr_insert dump now t rows of
                       (True, rows') \<Rightarrow>
                         (raw_response 0 ''ok'' (JObj [''ok'' \<mapsto> JBool True, ''template_id'' \<mapsto> JStr (ttr_templateId t)]),
                          Some rows')
                     | (False, rows') \<Rightarrow> (raw_response 500 ''Failed to create task template'' JNull, Some rows'))))"

text \<open>A stored text that does not parse raises out of these two.\<close>

definition task_template_get ::
  "(string \<Rightarrow> string + json) \<Rightarrow> string \<Rightarrow> task_template_cols list option \<Rightarrow> response result" where
  "task_template_get parse tid dbo =
     (case dbo of
        None \<Rightarrow> Inr db_missing
      | Some rows \<Rightarrow>
          bind (ttr_get parse tid rows) (\<lambda>r.
            Inr (case r of
                   Some t \<Rightarrow> raw_response 0 ''ok'' (JObj [''ok'' \<mapsto> JBool True, ''template'' \<mapsto> ttr_to_json t])
                 | None \<Rightarrow> raw_response 404 ''Task template not found'' JNull)))"

definition task_template_list ::
  "(string \<Rightarrow> string + json) \<Rightarrow> (string \<rightharpoonup> string) \<Rightarrow> task_template_cols list option \<Rightarrow> response result" where
  "task_template_list parse params dbo =
     (case dbo of
        None \<Rightarrow> Inr db_missing
      | Some rows \<Rightarrow>
          (let ty = (case params ''type'' of Some v \<Rightarrow> v | None \<Rightarrow> [])
           in bind (if ty = [] then ttr_list parse rows else ttr_listByType parse ty rows) (\<lambda>ts.
                Inr (raw_response 0 ''ok'' (JObj [''ok'' \<mapsto> JBool True, ''templates'' \<mapsto> JArr (map ttr_to_json ts)])))))"

definition task_template_delete ::
  "string \<Rightarrow> task_template_cols list option \<Rightarrow> response \<times> task_template_cols list option" where
  "task_template_delete tid dbo =
     (case dbo of
        None \<Rightarrow> (db_missing, None)
      | Some rows \<Rightarrow>
          (case ttr_remove tid rows of
             (True, rows') \<Rightarrow> (raw_response 0 ''ok'' (JObj [''ok'' \<mapsto> JBool True]), Some rows')
           | (False, rows') \<Rightarrow> (raw_response 500 ''Failed to delete task template'' JNull, Some rows')))"

subsection \<open>What the handlers do\<close>

text \<open>What reaches the service from a request.\<close>

definition handed_over :: "TaskTemplate \<Rightarrow> string \<Rightarrow> string \<Rightarrow> json \<Rightarrow> json \<Rightarrow> bool" where
  "handed_over t tid runId rendered b' \<longleftrightarrow>
     (\<exists>b. named_body t tid rendered = Inr b \<and> task_ids_of b \<noteq> None \<and> injectRunId b runId = Inr b')"

text \<open>Running a template synchronously and asynchronously are the same run: on the same request, store
  and generated id, the asynchronous handler posts to the DAG pool exactly the calls the synchronous
  handler makes to the DAG service (at most one, whatever the service answers), and leaves the same store;
  a call carries the rendered description named after the template, whose tasks all have a string id and
  the run's id.\<close>

theorem async_posts_what_run_calls:
  fixes dr :: "DagResult result"
  assumes "template_run parse dump what rend (\<lambda>b runId calls. (dr, calls @ [(b, runId)])) fresh body s [] = (r1, s1, calls)"
    and "template_run_async parse what rend fresh body s = (r2, s2, posted)"
  shows "calls = posted \<and> s1 = s2 \<and> length posted \<le> 1
    \<and> (\<forall>b runId. (b, runId) \<in> set posted \<longrightarrow> (\<exists>t tid rendered. handed_over t tid runId rendered b))"
proof (cases "parse body")
  case (Inl e)
  with assms show ?thesis by (auto simp: template_run_def template_run_async_def)
next
  case (Inr j)
  show ?thesis
  proof (cases "\<exists>tid ps. request_params j = Inr (Some (tid, ps))")
    case False
    with assms Inr show ?thesis
      by (cases "request_params j") (auto simp: template_run_def template_run_async_def split: option.splits)
  next
    case True
    then obtain tid ps where p: "request_params j = Inr (Some (tid, ps))" by blast
    obtain res s' where g: "tpl_get parse tid s = (res, s')" by fastforce
    show ?thesis
    proof (cases "\<exists>t. res = Inr (Some t) \<and> ren_ok (rend t ps)")
      case False
      with assms Inr p g show ?thesis
        by (cases res) (auto simp: template_run_def template_run_async_def Let_def split: option.splits)
    next
      case True
      then obtain t where t: "res = Inr (Some t)" "ren_ok (rend t ps)" by blast
      define pre where "pre = bind (value_or get_string ''run_id'' [] j) (\<lambda>given.
        bind (named_body t tid (ren_rendered (rend t ps))) (\<lambda>b. Inr (if given = [] then fresh else given, b)))"
      have h: "handed_over t tid runId (ren_rendered (rend t ps)) b'"
        if "pre = Inr (runId, b)" "task_ids_of b \<noteq> None" "injectRunId b runId = Inr b'" for b runId b'
        using that by (auto simp: handed_over_def pre_def bind_eq_Inr)
      note d = assms [unfolded template_run_def template_run_async_def Inr sum.case p option.case prod.case g t(1) Let_def
          pre_def [symmetric]]
      show ?thesis
      proof (cases "\<exists>runId b ids b'. pre = Inr (runId, b) \<and> task_ids_of b = Some ids \<and> injectRunId b runId = Inr b'")
        case True
        then obtain runId b ids b' where x: "pre = Inr (runId, b)" "task_ids_of b = Some ids" "injectRunId b runId = Inr b'" by blast
        have "calls = [(b', runId)]" "posted = [(b', runId)]" "s1 = s'" "s2 = s'"
          using d x t(2) by (auto split: sum.splits if_splits)
        moreover have "handed_over t tid runId (ren_rendered (rend t ps)) b'" using h x by auto
        ultimately show ?thesis by auto
      next
        case False
        then have "calls = []" "posted = []" "s1 = s'" "s2 = s'"
          using d t(2) by (auto split: sum.splits option.splits if_splits prod.splits)
        then show ?thesis by simp
      qed
    qed
  qed
qed

definition demo_request_parse :: "string \<Rightarrow> string + json" where
  "demo_request_parse s = Inr (JObj [''template_id'' \<mapsto> JStr ''t''])"

definition demo_rend :: "TaskTemplate \<Rightarrow> ParamMap \<Rightarrow> RenderResult" where
  "demo_rend t ps = \<lparr>ren_ok = True, ren_error = [], ren_rendered = JObj [''id'' \<mapsto> JStr ''a'']\<rparr>"

definition demo_tpl_store :: TemplateStore where
  "demo_tpl_store = \<lparr>ts_rows = None, ts_map = [''t'' \<mapsto> demo_tpl]\<rparr>"

theorem async_posts_what_run_calls_witness:
  "snd (snd (template_run demo_request_parse (\<lambda>_. []) (\<lambda>_. []) demo_rend
       (\<lambda>b runId calls. (Inr (failed_result []), calls @ [(b, runId)])) ''f'' [] demo_tpl_store []))
     = snd (snd (template_run_async demo_request_parse (\<lambda>_. []) demo_rend ''f'' [] demo_tpl_store))
   \<and> map snd (snd (snd (template_run_async demo_request_parse (\<lambda>_. []) demo_rend ''f'' [] demo_tpl_store))) = [''f'']"
proof -
  obtain r1 s1 calls where 1: "template_run demo_request_parse (\<lambda>_. []) (\<lambda>_. []) demo_rend
       (\<lambda>b runId calls. (Inr (failed_result []), calls @ [(b, runId)])) ''f'' [] demo_tpl_store [] = (r1, s1, calls)"
    by (metis prod_cases3)
  obtain r2 s2 posted where 2: "template_run_async demo_request_parse (\<lambda>_. []) demo_rend ''f'' [] demo_tpl_store = (r2, s2, posted)"
    by (metis prod_cases3)
  have "map snd (snd (snd (template_run_async demo_request_parse (\<lambda>_. []) demo_rend ''f'' [] demo_tpl_store))) = [''f'']"
    by code_simp
  with async_posts_what_run_calls [OF 1 2] show ?thesis by (simp add: 1 2)
qed

text \<open>Deleting an id that no template has is answered like a deletion; the answer \<^verbatim>\<open>not found\<close> needs a
  closed database.\<close>

lemma template_delete_never_404:
  "ts_rows s \<noteq> None \<Longrightarrow> fst (template_delete tid s) = tpl_ok Map.empty"
  by (auto simp: template_delete_def tpl_remove_def)

text \<open>A DAG result as the service returns it has no task results: the summary of a run is empty.\<close>

lemma run_response_summary_empty:
  "dr_taskResults dr = Map.empty \<Longrightarrow> result_entries dr = []"
  by (simp add: result_entries_def)

end
