(* ===== verification/Run_Api.thy ===== *)
theory Run_Api
  imports Run_Tables
begin

text \<open>
  The handlers that run DAGs and list the run history (\<^verbatim>\<open>handlers/task_handler.cpp\<close>, from \<^verbatim>\<open>runDag\<close> on).
  A request is its body or its query parameters.  What the DAG service answers is an argument;
  \<open>Inl\<close> is an exception that leaves the handler.
\<close>

subsection \<open>Query parameters\<close>

definition http_get_ll :: "(string \<rightharpoonup> string) \<Rightarrow> string \<Rightarrow> int \<Rightarrow> int" where
  "http_get_ll params key def =
     (case params key of
        None \<Rightarrow> def
      | Some s \<Rightarrow> (case stoll s of Inr n \<Rightarrow> n | Inl _ \<Rightarrow> def))"

definition http_get_str :: "(string \<rightharpoonup> string) \<Rightarrow> string \<Rightarrow> string" where
  "http_get_str params key = (case params key of None \<Rightarrow> [] | Some s \<Rightarrow> s)"

definition clamp :: "int \<Rightarrow> int \<Rightarrow> int \<Rightarrow> int" where
  "clamp v lo hi = (if v < lo then lo else if hi < v then hi else v)"

subsection \<open>Running\<close>

definition runDag_handler ::
  "(string \<Rightarrow> string + json) \<Rightarrow> (json \<Rightarrow> string) \<Rightarrow> (cpp_error \<Rightarrow> string) \<Rightarrow> (json \<Rightarrow> 'w \<Rightarrow> DagResult result \<times> 'w)
    \<Rightarrow> string \<Rightarrow> 'w \<Rightarrow> response \<times> 'w" where
  "runDag_handler parse dump what service body w =
     (let failure = (\<lambda>msg. resp_error 500 (dump (JObj [''ok'' \<mapsto> JBool False, ''error'' \<mapsto> JStr msg])) 500)
      in case parse body of
           Inl err \<Rightarrow> (failure err, w)
         | Inr j \<Rightarrow>
             (case service j w of
                (Inl e, w') \<Rightarrow> (failure (what e), w')
              | (Inr dr, w') \<Rightarrow>
                  if \<not> dr_success dr then
                    (\<lparr>http_status = 500,
                      resp_body = JObj [''ok'' \<mapsto> JBool False, ''error'' \<mapsto> JStr (dr_message dr)]\<rparr>, w')
                  else
                    (resp_ok (JObj [''ok'' \<mapsto> JBool True, ''message'' \<mapsto> JStr (dr_message dr),
                                    ''nodes'' \<mapsto> dagResult_to_json dr]), w')))"

text \<open>The asynchronous handler answers with the run id and posts the body with it to the DAG pool.\<close>

definition runDagAsync_handler ::
  "(string \<Rightarrow> string + json) \<Rightarrow> string \<Rightarrow> string \<Rightarrow> response \<times> (json \<times> string) list" where
  "runDagAsync_handler parse fresh body =
     (case parse body of
        Inl _ \<Rightarrow> (bad_request ''Invalid JSON'' 1002, [])
      | Inr j \<Rightarrow>
          (let given = (case string_member ''run_id'' j of Some s \<Rightarrow> s | None \<Rightarrow> []);
               runId = (if given = [] then fresh else given)
           in (resp_ok (JObj [''run_id'' \<mapsto> JStr runId]), [(j, runId)])))"

subsection \<open>The history\<close>

definition items :: "json list \<Rightarrow> response" where
  "items js = resp_ok (JObj [''items'' \<mapsto> JArr js])"

definition dag_run_item :: "DagRunRow \<Rightarrow> json" where
  "dag_run_item r =
     JObj [''run_id'' \<mapsto> JStr (rr_runId r), ''name'' \<mapsto> JStr (rr_name r), ''source'' \<mapsto> JStr (rr_source r),
           ''status'' \<mapsto> JInt (rr_status r), ''start_ts_ms'' \<mapsto> JInt (rr_startTsMs r),
           ''end_ts_ms'' \<mapsto> JInt (rr_endTsMs r), ''total'' \<mapsto> JInt (rr_total r),
           ''success_count'' \<mapsto> JInt (rr_successCount r), ''failed_count'' \<mapsto> JInt (rr_failedCount r),
           ''skipped_count'' \<mapsto> JInt (rr_skippedCount r), ''message'' \<mapsto> JStr (rr_message r),
           ''workflow_json'' \<mapsto> JStr (rr_workflowJson r), ''dag_json'' \<mapsto> JStr (rr_dagJson r)]"

definition dag_runs_limit :: "(string \<rightharpoonup> string) \<Rightarrow> int" where
  "dag_runs_limit params = clamp (http_get_int params ''limit'' 100) 1 500"

definition queryDagRuns :: "(string \<rightharpoonup> string) \<Rightarrow> RunDb option \<Rightarrow> response" where
  "queryDagRuns params db =
     items (map dag_run_item
       (dag_run_query (http_get_str params ''run_id'') (http_get_str params ''name'') (http_get_str params ''source'')
          (http_get_ll params ''start_ts_ms'' 0) (http_get_ll params ''end_ts_ms'' 0) (dag_runs_limit params) db))"

definition parse_json_safe :: "(string \<Rightarrow> string + json) \<Rightarrow> string \<Rightarrow> json \<Rightarrow> json" where
  "parse_json_safe parse s fallback =
     (if s = [] then fallback else (case parse s of Inr j \<Rightarrow> j | Inl _ \<Rightarrow> fallback))"

definition task_run_item :: "(string \<Rightarrow> string + json) \<Rightarrow> TaskRunRow \<Rightarrow> json" where
  "task_run_item parse r =
     JObj [''id'' \<mapsto> JInt (tr_id r), ''run_id'' \<mapsto> JStr (tr_runId r), ''logical_id'' \<mapsto> JStr (tr_logicalId r),
           ''task_id'' \<mapsto> JStr (tr_taskId r), ''name'' \<mapsto> JStr (tr_name r), ''exec_type'' \<mapsto> JStr (tr_execType r),
           ''exec_command'' \<mapsto> JStr (tr_execCommand r),
           ''exec_params'' \<mapsto> parse_json_safe parse (tr_execParamsJson r) (JObj Map.empty),
           ''deps'' \<mapsto> parse_json_safe parse (tr_depsJson r) (JArr []),
           ''status'' \<mapsto> JInt (tr_status r), ''exit_code'' \<mapsto> JInt (tr_exitCode r),
           ''duration_ms'' \<mapsto> JInt (tr_durationMs r), ''message'' \<mapsto> JStr (tr_message r),
           ''stdout'' \<mapsto> JStr (tr_stdoutText r), ''stderr'' \<mapsto> JStr (tr_stderrText r),
           ''attempt'' \<mapsto> JInt (tr_attempt r), ''max_attempts'' \<mapsto> JInt (tr_maxAttempts r),
           ''start_ts_ms'' \<mapsto> JInt (tr_startTsMs r), ''end_ts_ms'' \<mapsto> JInt (tr_endTsMs r)]"

definition task_runs_limit :: "(string \<rightharpoonup> string) \<Rightarrow> int" where
  "task_runs_limit params = clamp (http_get_int params ''limit'' 200) 1 1000"

definition queryTaskRuns :: "(string \<Rightarrow> string + json) \<Rightarrow> (string \<rightharpoonup> string) \<Rightarrow> RunDb option \<Rightarrow> response" where
  "queryTaskRuns parse params db =
     items (map (task_run_item parse)
       (task_run_query (http_get_str params ''run_id'') (http_get_str params ''name'') (task_runs_limit params) db))"

text \<open>Writing a member of a payload that is neither an object nor null raises.\<close>

definition event_item :: "EventRow \<Rightarrow> json result" where
  "event_item r =
     (let put = (\<lambda>m. Inr (JObj (m(''id'' \<mapsto> JInt (er_id r), ''run_id'' \<mapsto> JStr (er_runId r),
                    ''task_id'' \<mapsto> JStr (er_taskId r), ''type'' \<mapsto> JStr (er_type r), ''event'' \<mapsto> JStr (er_event r),
                    ''ts_ms'' \<mapsto> JInt (er_tsMs r)))))
      in case er_payload r of
           JObj m \<Rightarrow> put m
         | JNull \<Rightarrow> put Map.empty
         | _ \<Rightarrow> Inl (JsonTypeError 305))"

definition queryTaskEvents ::
  "(string \<Rightarrow> string + json) \<Rightarrow> (string \<rightharpoonup> string) \<Rightarrow> RunDb option \<Rightarrow> response result" where
  "queryTaskEvents parse params db =
     bind (collect event_item
       (task_event_query parse (http_get_str params ''run_id'') (http_get_str params ''task_id'')
          (http_get_str params ''type'') (http_get_str params ''event'') (http_get_ll params ''start_ts_ms'' 0)
          (http_get_ll params ''end_ts_ms'' 0) (task_runs_limit params) db))
       (\<lambda>js. Inr (items js))"

text \<open>The history handlers list the newest matching rows: whatever the request asks for, a listing of
  DAG runs has between 0 and 500 entries and one of task runs at most 1000; the entries are rows that
  match the filters, newest first; a matching row that is left out is no newer than any listed one, and
  rows are only left out when the listing is full.  With the database closed both listings are empty.\<close>

theorem history_lists_newest:
  "(\<exists>rs. queryDagRuns params (Some db) = items (map (dag_run_item \<circ> dag_row_of) rs) \<and> length rs \<le> 500
      \<and> newest dc_startTsMs (dag_runs_limit params)
          (filter (dag_match (http_get_str params ''run_id'') (http_get_str params ''name'')
             (http_get_str params ''source'') (http_get_ll params ''start_ts_ms'' 0)
             (http_get_ll params ''end_ts_ms'' 0)) (db_dag_run db)) rs)
   \<and> (\<exists>rs. queryTaskRuns parse params (Some db) = items (map (task_run_item parse \<circ> read_task_row) rs)
      \<and> length rs \<le> 1000
      \<and> newest tr_id (task_runs_limit params)
          (filter (task_match (http_get_str params ''run_id'') (http_get_str params ''name'')) (db_task_run db)) rs)
   \<and> queryDagRuns params None = items [] \<and> queryTaskRuns parse params None = items []"
proof -
  have l: "0 < dag_runs_limit params \<and> dag_runs_limit params \<le> 500"
    "0 < task_runs_limit params \<and> task_runs_limit params \<le> 1000"
    by (auto simp: dag_runs_limit_def task_runs_limit_def clamp_def)
  obtain ds where d: "dag_run_query (http_get_str params ''run_id'') (http_get_str params ''name'')
      (http_get_str params ''source'') (http_get_ll params ''start_ts_ms'' 0) (http_get_ll params ''end_ts_ms'' 0)
      (dag_runs_limit params) (Some db) = map dag_row_of ds"
    "newest dc_startTsMs (dag_runs_limit params)
       (filter (dag_match (http_get_str params ''run_id'') (http_get_str params ''name'')
             (http_get_str params ''source'') (http_get_ll params ''start_ts_ms'' 0)
             (http_get_ll params ''end_ts_ms'' 0)) (db_dag_run db)) ds"
    using dag_run_query_newest l(1) by blast
  obtain ts where t: "task_run_query (http_get_str params ''run_id'') (http_get_str params ''name'')
      (task_runs_limit params) (Some db) = map read_task_row ts"
    "newest tr_id (task_runs_limit params)
       (filter (task_match (http_get_str params ''run_id'') (http_get_str params ''name'')) (db_task_run db)) ts"
    using task_run_query_newest l(2) by blast
  have "length ds \<le> 500" "length ts \<le> 1000" using d(2) t(2) l by (auto simp: newest_def)
  with d t show ?thesis
    by (auto simp: queryDagRuns_def queryTaskRuns_def dag_run_query_def task_run_query_def)
qed

lemma event_item_defined:
  "(\<exists>j. event_item r = Inr j) \<longleftrightarrow> (\<exists>m. er_payload r = JObj m) \<or> er_payload r = JNull"
  by (cases "er_payload r") (auto simp: event_item_def)

text \<open>An accepted asynchronous run is posted under the id that is answered.\<close>

lemma runDagAsync_id:
  assumes "runDagAsync_handler parse fresh body = (rsp, posted)" and "fresh \<noteq> []"
  shows "(posted = [] \<and> rsp = bad_request ''Invalid JSON'' 1002 \<and> (\<exists>e. parse body = Inl e))
    \<or> (\<exists>j runId. posted = [(j, runId)] \<and> parse body = Inr j \<and> runId \<noteq> [] \<and> rsp = resp_ok (JObj [''run_id'' \<mapsto> JStr runId]))"
proof (cases "parse body")
  case (Inl e)
  with assms show ?thesis by (simp add: runDagAsync_handler_def)
next
  case (Inr j)
  define runId where "runId = (let given = (case string_member ''run_id'' j of Some s \<Rightarrow> s | None \<Rightarrow> []) in if given = [] then fresh else given)"
  have "runId \<noteq> []" using assms(2) by (simp add: runId_def Let_def)
  moreover have "rsp = resp_ok (JObj [''run_id'' \<mapsto> JStr runId]) \<and> posted = [(j, runId)]"
    using assms(1) Inr by (simp add: runDagAsync_handler_def Let_def runId_def)
  ultimately show ?thesis using Inr by blast
qed

end
