(* ===== verification/Worker_Api.thy ===== *)
theory Worker_Api
  imports Run_Api Worker_Registry
begin

text \<open>
  \<^verbatim>\<open>handlers/worker_handler.cpp\<close>: registration and heartbeats of workers, their listing, the proxy that
  follows a path of nested DAG nodes to the server that holds the data, and the endpoint that runs a
  posted DAG.  The order in which the registry lists its workers (\<open>it\<close>), the clock, the parser and the
  HTTP client are arguments.  A request's parameters are the pairs of its multimap, in the map's order.
\<close>

subsection \<open>Workers\<close>

definition worker_to_json :: "int \<Rightarrow> WorkerInfo \<Rightarrow> json" where
  "worker_to_json now w =
     JObj [''id'' \<mapsto> JStr (wid w), ''host'' \<mapsto> JStr (whost w), ''port'' \<mapsto> JInt (wport w),
           ''running_tasks'' \<mapsto> JInt (runningTasks w), ''max_running_tasks'' \<mapsto> JInt (maxRunningTasks w),
           ''full'' \<mapsto> JBool (isFull w), ''alive'' \<mapsto> JBool (isAlive now w),
           ''last_seen_ms_ago'' \<mapsto> JInt (now - lastHeartbeat w),
           ''queues'' \<mapsto> JArr (map JStr (wqueues w)), ''labels'' \<mapsto> JArr (map JStr (wlabels w))]"

text \<open>The string elements of an array member.\<close>

definition string_elems :: "string \<Rightarrow> json \<Rightarrow> string list" where
  "string_elems k j =
     (case member k j of
        Some (JArr xs) \<Rightarrow> List.map_filter (\<lambda>x. case x of JStr s \<Rightarrow> Some s | _ \<Rightarrow> None) xs
      | _ \<Rightarrow> [])"

definition worker_of_json :: "int \<Rightarrow> json \<Rightarrow> WorkerInfo result" where
  "worker_of_json now j =
     bind (value_or get_string ''id'' [] j) (\<lambda>i.
     bind (value_or get_string ''host'' ''127.0.0.1'' j) (\<lambda>host.
     bind (value_or get_int ''port'' 0 j) (\<lambda>port.
     bind (value_or get_int ''running_tasks'' 0 j) (\<lambda>rt.
     bind (value_or get_int ''max_running_tasks'' 1 j) (\<lambda>mr.
       Inr \<lparr>wid = i, whost = host, wport = port, wqueues = string_elems ''queues'' j,
            wlabels = string_elems ''labels'' j, runningTasks = rt, lastHeartbeat = now,
            maxRunningTasks = (if mr \<le> 0 then 1 else mr), dispatchCooldownUntil = 0\<rparr>)))))"

definition workers_register ::
  "(string \<Rightarrow> string + json) \<Rightarrow> (cpp_error \<Rightarrow> string) \<Rightarrow> int \<Rightarrow> string \<Rightarrow> ServerWorkerRegistry
    \<Rightarrow> response \<times> ServerWorkerRegistry" where
  "workers_register parse what now body reg =
     (case parse body of
        Inr (JObj m) \<Rightarrow>
          (case worker_of_json now (JObj m) of
             Inl e \<Rightarrow> (resp_error 500 (''internal error: '' @ what e) 500, reg)
           | Inr info \<Rightarrow>
               if wid info = [] \<or> wport info \<le> 0 then
                 (resp_error 400 ''missing required fields: id/port'' 400, reg)
               else (resp_ok (JObj [''ok'' \<mapsto> JBool True]), upsertWorker now info reg))
      | _ \<Rightarrow> (resp_error 400 ''invalid json'' 400, reg))"

definition workers_heartbeat ::
  "(string \<Rightarrow> string + json) \<Rightarrow> int \<Rightarrow> string \<Rightarrow> ServerWorkerRegistry \<Rightarrow> response \<times> ServerWorkerRegistry" where
  "workers_heartbeat parse now body reg =
     (case bind (parse_text parse body) (\<lambda>j.
           bind (value_or get_string ''id'' [] j) (\<lambda>i.
           bind (value_or get_int ''running_tasks'' 0 j) (\<lambda>rt. Inr (i, rt)))) of
        Inl _ \<Rightarrow> (resp_error 500 ''internal error'' 500, reg)
      | Inr (i, rt) \<Rightarrow>
          if i = [] then (resp_error 400 ''missing worker id'' 400, reg)
          else (case touchHeartbeat now i rt reg of
                  (False, reg') \<Rightarrow> (resp_error 404 ''worker not found'' 404, reg')
                | (True, reg') \<Rightarrow> (resp_ok JNull, reg')))"

definition workers_list :: "string list \<Rightarrow> int \<Rightarrow> ServerWorkerRegistry \<Rightarrow> response" where
  "workers_list it now reg =
     resp_ok (JObj [''ok'' \<mapsto> JBool True, ''workers'' \<mapsto> JArr (map (worker_to_json now) (listWorkers it reg))])"

definition workers_connected :: "string list \<Rightarrow> int \<Rightarrow> ServerWorkerRegistry \<Rightarrow> response" where
  "workers_connected it now reg =
     resp_ok (JObj [''ok'' \<mapsto> JBool True,
       ''workers'' \<mapsto> JArr (map (worker_to_json now) (filter (isAlive now) (listWorkers it reg)))])"

definition find_worker_by_id :: "string list \<Rightarrow> string \<Rightarrow> ServerWorkerRegistry \<Rightarrow> WorkerInfo option" where
  "find_worker_by_id it i reg = find (\<lambda>w. wid w = i) (listWorkers it reg)"

subsection \<open>Following a path\<close>

record ProxyTarget =
  pt_isLocal :: bool
  pt_worker :: "WorkerInfo option"
  pt_nextRemotePath :: string
  pt_nextRunId :: string

text \<open>What a server knows: its run table, its workers, the order it lists them in and its clock.\<close>

record server =
  sv_db :: "RunDb option"
  sv_registry :: ServerWorkerRegistry
  sv_order :: "string list"
  sv_now :: int

text \<open>One step: the target, or the text of a 404.  A run id that is no string raises.\<close>

definition resolve_proxy_target ::
  "(string \<Rightarrow> string + json) \<Rightarrow> server \<Rightarrow> string \<Rightarrow> string \<Rightarrow> (string + ProxyTarget) result" where
  "resolve_proxy_target parse S runId remotePath =
     (if remotePath = [] then
        Inr (Inr \<lparr>pt_isLocal = True, pt_worker = None, pt_nextRemotePath = [], pt_nextRunId = runId\<rparr>)
      else
        (let (head, tail) = (case split_at CHR ''/'' remotePath of
                               (h, Some t) \<Rightarrow> (h, t) | (_, None) \<Rightarrow> (remotePath, []))
         in case task_run_get runId head (sv_db S) of
              None \<Rightarrow> Inr (Inl (''remote logical node not found: '' @ head @ '' in run: '' @ runId))
            | Some row \<Rightarrow>
                (case parse (tr_metadataJson row) of
                   Inl _ \<Rightarrow> Inr (Inl (''invalid metadata json for node: '' @ head))
                 | Inr j \<Rightarrow>
                     (case member ''run_id'' j of
                        None \<Rightarrow> Inr (Inl (''next_runid not found for node: '' @ head))
                      | Some v \<Rightarrow>
                          bind (get_string v) (\<lambda>nextRunId.
                            if tr_workerId row = [] then
                              Inr (Inr \<lparr>pt_isLocal = True, pt_worker = None, pt_nextRemotePath = tail,
                                        pt_nextRunId = nextRunId\<rparr>)
                            else
                              (case find_worker_by_id (sv_order S) (tr_workerId row) (sv_registry S) of
                                 None \<Rightarrow> Inr (Inl (''worker not found or offline: '' @ tr_workerId row))
                               | Some w \<Rightarrow>
                                   if \<not> isAlive (sv_now S) w then Inr (Inl (''worker not alive: '' @ tr_workerId row))
                                   else Inr (Inr \<lparr>pt_isLocal = False, pt_worker = Some w, pt_nextRemotePath = tail,
                                                  pt_nextRunId = nextRunId\<rparr>)))))))"

lemma resolve_shrinks:
  assumes "resolve_proxy_target parse S runId path = Inr (Inr t)" and "pt_nextRemotePath t \<noteq> [] \<or> \<not> pt_isLocal t"
  shows "length (pt_nextRemotePath t) < length path
    \<and> count_list (pt_nextRemotePath t) CHR ''/'' = count_list path CHR ''/'' - 1"
proof -
  have p: "path \<noteq> []" using assms by (auto simp: resolve_proxy_target_def split: if_splits)
  obtain h r where s: "split_at CHR ''/'' path = (h, r)" by fastforce
  have t: "pt_nextRemotePath t = (case r of Some x \<Rightarrow> x | None \<Rightarrow> [])"
    using assms(1) p s
    by (auto simp: resolve_proxy_target_def Let_def bind_eq_Inr split: option.splits sum.splits if_splits)
  show ?thesis
  proof (cases r)
    case None
    with split_at_None s have "CHR ''/'' \<notin> set path" by auto
    with p t None show ?thesis by (simp add: count_list_0_iff)
  next
    case (Some x)
    with split_at_Some s have "path = h @ CHR ''/'' # x \<and> CHR ''/'' \<notin> set h" by auto
    with t Some show ?thesis by (auto simp: count_list_0_iff)
  qed
qed

text \<open>Where the loop of a proxy handler ends.\<close>

datatype proxy_dest = DestError string | DestLocal string | DestForward ProxyTarget

function proxy_loop :: "(string \<Rightarrow> string + json) \<Rightarrow> server \<Rightarrow> string \<Rightarrow> string \<Rightarrow> proxy_dest result" where
  "proxy_loop parse S runId remotePath =
     (case resolve_proxy_target parse S runId remotePath of
        Inl e \<Rightarrow> Inl e
      | Inr (Inl err) \<Rightarrow> Inr (DestError err)
      | Inr (Inr t) \<Rightarrow>
          if \<not> pt_isLocal t then Inr (DestForward t)
          else if pt_nextRemotePath t = [] then Inr (DestLocal (pt_nextRunId t))
          else proxy_loop parse S (pt_nextRunId t) (pt_nextRemotePath t))"
  by auto
termination
  by (relation "measure (\<lambda>(parse, S, runId, path). length path)") (auto dest: resolve_shrinks)

declare proxy_loop.simps [simp del]
subsection \<open>Forwarding\<close>

type_synonym params = "(string \<times> string) list"

definition has_param :: "string \<Rightarrow> params \<Rightarrow> bool" where
  "has_param k ps \<longleftrightarrow> map_of ps k \<noteq> None"

definition get_param_value :: "string \<Rightarrow> params \<Rightarrow> string" where
  "get_param_value k ps = (case map_of ps k of Some v \<Rightarrow> v | None \<Rightarrow> [])"

definition and_then :: "string \<Rightarrow> string \<Rightarrow> string" where
  "and_then q s = (if q \<noteq> [] then q @ ''&'' @ s else s)"

definition forward_query :: "ProxyTarget \<Rightarrow> params \<Rightarrow> string" where
  "forward_query t ps =
     (let kept = filter (\<lambda>(k, v). k \<notin> {''remote_path'', ''worker_id'', ''run_id''}) ps;
          q = foldl (\<lambda>q (k, v). and_then q (k @ ''='' @ v)) [] kept
      in and_then q (''remote_path='' @ pt_nextRemotePath t) @ ''&run_id='' @ pt_nextRunId t)"

text \<open>A response of the server itself, or the status and body of the one it forwards.\<close>

datatype api_reply = Own response | Forwarded int string

definition proxy_forward ::
  "(WorkerInfo option \<Rightarrow> string \<Rightarrow> 'w \<Rightarrow> (int \<times> string) option \<times> 'w) \<Rightarrow> ProxyTarget \<Rightarrow> string \<Rightarrow> params \<Rightarrow> 'w
    \<Rightarrow> api_reply \<times> 'w" where
  "proxy_forward get t originalPath ps w =
     (case get (pt_worker t) (originalPath @ ''?'' @ forward_query t ps) w of
        (None, w') \<Rightarrow> (Own (resp_error 502 ''proxy forward failed: no response'' 502), w')
      | (Some (st, body), w') \<Rightarrow> (Forwarded st body, w'))"

definition make_request_with_modified_runid :: "params \<Rightarrow> string \<Rightarrow> params" where
  "make_request_with_modified_runid ps newRunId =
     map (\<lambda>(k, v). if k = ''run_id'' then (k, newRunId) else (k, v)) ps
     @ (if has_param ''run_id'' ps then [] else [(''run_id'', newRunId)])"

text \<open>The body the three proxy handlers share: resolve, then forward or ask the local handler.\<close>

definition proxy_query ::
  "(string \<Rightarrow> string + json) \<Rightarrow> server \<Rightarrow> (WorkerInfo option \<Rightarrow> string \<Rightarrow> 'w \<Rightarrow> (int \<times> string) option \<times> 'w)
    \<Rightarrow> (params \<Rightarrow> response result) \<Rightarrow> string \<Rightarrow> params \<Rightarrow> 'w \<Rightarrow> api_reply result \<times> 'w" where
  "proxy_query parse S get local base ps w =
     (case proxy_loop parse S (get_param_value ''run_id'' ps) (get_param_value ''remote_path'' ps) of
        Inl e \<Rightarrow> (Inl e, w)
      | Inr (DestError err) \<Rightarrow> (Inr (Own (resp_error 404 err 404)), w)
      | Inr (DestForward t) \<Rightarrow> (case proxy_forward get t base ps w of (r, w') \<Rightarrow> (Inr r, w'))
      | Inr (DestLocal run') \<Rightarrow>
          (bind (local (make_request_with_modified_runid ps run')) (\<lambda>r. Inr (Own r)), w))"

text \<open>A request for logs that names a worker and no path goes straight to that worker.\<close>

definition workers_proxy_logs ::
  "(string \<Rightarrow> string + json) \<Rightarrow> server \<Rightarrow> (WorkerInfo option \<Rightarrow> string \<Rightarrow> 'w \<Rightarrow> (int \<times> string) option \<times> 'w)
    \<Rightarrow> (params \<Rightarrow> response result) \<Rightarrow> params \<Rightarrow> 'w \<Rightarrow> api_reply result \<times> 'w" where
  "workers_proxy_logs parse S get logs ps w =
     (if has_param ''worker_id'' ps \<and> get_param_value ''remote_path'' ps = [] then
        (case find_worker_by_id (sv_order S) (get_param_value ''worker_id'' ps) (sv_registry S) of
           None \<Rightarrow> (Inr (Own (resp_error 404 ''worker not found or dead'' 404)), w)
         | Some wi \<Rightarrow>
             if \<not> isAlive (sv_now S) wi then (Inr (Own (resp_error 404 ''worker not found or dead'' 404)), w)
             else (case proxy_forward get \<lparr>pt_isLocal = False, pt_worker = Some wi, pt_nextRemotePath = [],
                          pt_nextRunId = []\<rparr> ''/api/tasks/logs'' ps w of (r, w') \<Rightarrow> (Inr r, w')))
      else proxy_query parse S get logs ''/api/workers/proxy/logs'' ps w)"

definition workers_proxy_task_runs ::
  "(string \<Rightarrow> string + json) \<Rightarrow> server \<Rightarrow> (WorkerInfo option \<Rightarrow> string \<Rightarrow> 'w \<Rightarrow> (int \<times> string) option \<times> 'w)
    \<Rightarrow> params \<Rightarrow> 'w \<Rightarrow> api_reply result \<times> 'w" where
  "workers_proxy_task_runs parse S get ps w =
     proxy_query parse S get (\<lambda>qs. Inr (queryTaskRuns parse (map_of qs) (sv_db S)))
       ''/api/workers/proxy/dag/task_runs'' ps w"

definition workers_proxy_task_events ::
  "(string \<Rightarrow> string + json) \<Rightarrow> server \<Rightarrow> (WorkerInfo option \<Rightarrow> string \<Rightarrow> 'w \<Rightarrow> (int \<times> string) option \<times> 'w)
    \<Rightarrow> params \<Rightarrow> 'w \<Rightarrow> api_reply result \<times> 'w" where
  "workers_proxy_task_events parse S get ps w =
     proxy_query parse S get (\<lambda>qs. queryTaskEvents parse (map_of qs) (sv_db S))
       ''/api/workers/proxy/dag/events'' ps w"

text \<open>The body is posted to the DAG pool under the run id that is answered.  A body that is no object, or a run
  id that is no string, raises.\<close>

definition worker_execute ::
  "(string \<Rightarrow> string + json) \<Rightarrow> string \<Rightarrow> string \<Rightarrow> (response \<times> (json \<times> string) list) result" where
  "worker_execute parse fresh body =
     (case parse body of
        Inl _ \<Rightarrow> Inr (bad_request ''Invalid JSON'' 1002, [])
      | Inr j \<Rightarrow>
          bind (value_or get_string ''run_id'' [] j) (\<lambda>given.
            let runId = (if given = [] then fresh else given)
            in Inr (resp_ok (JObj [''ok'' \<mapsto> JBool True, ''run_id'' \<mapsto> JStr runId]), [(j, runId)])))"

subsection \<open>A request across servers\<close>

text \<open>The servers a proxied request passes, given the server of each worker, and where it ends.  The query
  that is forwarded carries the target's path and run id.\<close>

function net_route ::
  "(string \<Rightarrow> string + json) \<Rightarrow> (string \<Rightarrow> server) \<Rightarrow> server \<Rightarrow> string \<Rightarrow> string \<Rightarrow> server list \<times> proxy_dest result" where
  "net_route parse net S runId path =
     (case proxy_loop parse S runId path of
        Inr (DestForward t) \<Rightarrow>
          (case pt_worker t of
             Some wi \<Rightarrow>
               (if length (pt_nextRemotePath t) < length path then
                  (case net_route parse net (net (wid wi)) (pt_nextRunId t) (pt_nextRemotePath t) of
                     (ss, d) \<Rightarrow> (S # ss, d))
                else ([S], Inr (DestForward t)))
           | None \<Rightarrow> ([S], Inr (DestForward t)))
      | d \<Rightarrow> ([S], d))"
  by auto
termination
  by (relation "measure (\<lambda>(parse, net, S, runId, path). length path)") auto

declare net_route.simps [simp del]

text \<open>The number of nodes a path names.\<close>

definition segments :: "string \<Rightarrow> nat" where
  "segments path = (if path = [] then 0 else Suc (count_list path CHR ''/''))"

lemma resolve_segments:
  assumes "resolve_proxy_target parse S runId path = Inr (Inr t)" and "pt_nextRemotePath t \<noteq> [] \<or> \<not> pt_isLocal t"
  shows "segments (pt_nextRemotePath t) < segments path"
proof -
  have "path \<noteq> []" using assms by (auto simp: resolve_proxy_target_def split: if_splits)
  moreover have "count_list path CHR ''/'' \<noteq> 0" if "pt_nextRemotePath t \<noteq> []"
  proof
    assume "count_list path CHR ''/'' = 0"
    then have "CHR ''/'' \<notin> set path" by (simp add: count_list_0_iff)
    then have "pt_nextRemotePath t = []"
      using assms(1) split_at_absent [of "CHR ''/''" path]
      by (auto simp: resolve_proxy_target_def Let_def bind_eq_Inr split: option.splits sum.splits if_splits)
    with that show False by simp
  qed
  ultimately show ?thesis using resolve_shrinks [OF assms] by (auto simp: segments_def)
qed

lemma resolve_forward_alive:
  assumes "resolve_proxy_target parse S runId path = Inr (Inr t)" and "\<not> pt_isLocal t"
  shows "\<exists>w. pt_worker t = Some w \<and> isAlive (sv_now S) w"
  using assms
  by (auto simp: resolve_proxy_target_def Let_def bind_eq_Inr split: option.splits sum.splits if_splits prod.splits)

lemma proxy_loop_forward:
  assumes "proxy_loop parse S runId path = Inr (DestForward t)"
  shows "length (pt_nextRemotePath t) < length path \<and> segments (pt_nextRemotePath t) < segments path
    \<and> (\<exists>w. pt_worker t = Some w \<and> isAlive (sv_now S) w)"
  using assms
proof (induction parse S runId path rule: proxy_loop.induct)
  case (1 parse S runId path)
  obtain u where u: "resolve_proxy_target parse S runId path = Inr (Inr u)"
    using "1.prems" by (auto simp: proxy_loop.simps [of parse S runId path] split: sum.splits)
  show ?case
  proof (cases "pt_isLocal u")
    case False
    with "1.prems" u have "u = t" by (simp add: proxy_loop.simps [of parse S runId path])
    with False u show ?thesis
      using resolve_shrinks [OF u] resolve_segments [OF u] resolve_forward_alive [OF u] by blast
  next
    case True
    with "1.prems" u have n: "pt_nextRemotePath u \<noteq> []"
      and p: "proxy_loop parse S (pt_nextRunId u) (pt_nextRemotePath u) = Inr (DestForward t)"
      by (auto simp: proxy_loop.simps [of parse S runId path] split: if_splits)
    have "length (pt_nextRemotePath u) < length path" "segments (pt_nextRemotePath u) < segments path"
      using resolve_shrinks [OF u] resolve_segments [OF u] n by blast+
    with "1.IH" [OF u] True n p show ?thesis by fastforce
  qed
qed


text \<open>A server whose node \<^verbatim>\<open>n\<close> of run \<^verbatim>\<open>r\<close> ran on worker \<^verbatim>\<open>w\<close>.\<close>

definition demo_server :: server where
  "demo_server =
     \<lparr>sv_db = Some (markFinished (\<lambda>_. ''m'') ''r'' ''n'' (default_TaskResult\<lparr>workerId := ''w''\<rparr>) 5
                 (upsertFromTaskJson (\<lambda>_. ''m'') ''r'' (JObj [''id'' \<mapsto> JStr ''n'']) empty_RunDb)),
      sv_registry = upsertWorker 0 (demo_worker ''w'' 0) (new_registry []), sv_order = [''w''], sv_now = 3\<rparr>"

definition demo_metadata :: "string \<Rightarrow> string + json" where
  "demo_metadata s = Inr (JObj [''run_id'' \<mapsto> JStr ''r''])"


text \<open>The query a worker is sent is not percent-encoded and, for logs asked of a worker by its id, loses the
  run: its \<^verbatim>\<open>run_id\<close> is empty whatever the request said.\<close>

lemma direct_logs_lose_run:
  "forward_query \<lparr>pt_isLocal = False, pt_worker = Some wi, pt_nextRemotePath = [], pt_nextRunId = []\<rparr>
     [(''run_id'', r), (''task_id'', t), (''worker_id'', i)] = ''task_id='' @ t @ ''&remote_path=&run_id=''"
  by (simp add: forward_query_def and_then_def)

text \<open>A worker that registers with room for a task is a candidate for its queues until ten seconds have
  passed without a heartbeat.\<close>

lemma registered_is_eligible:
  assumes "workers_register parse what now body reg = (resp_ok (JObj [''ok'' \<mapsto> JBool True]), reg')"
    and "reg' \<noteq> reg"
  shows "\<exists>info. reg' = upsertWorker now info reg \<and> 0 < wport info \<and> wid info \<noteq> []
    \<and> (\<forall>q t. queue_match info q \<longrightarrow> \<not> isFull info \<longrightarrow> t - now < 10000
         \<longrightarrow> eligible t (reg_workers reg') q (info\<lparr>lastHeartbeat := now\<rparr>))"
proof -
  obtain info where r: "reg' = upsertWorker now info reg" "wid info \<noteq> []" "0 < wport info"
    using assms by (auto simp: workers_register_def split: sum.splits json.splits if_splits)
  have "eligible t (reg_workers reg') q (info\<lparr>lastHeartbeat := now\<rparr>)"
    if "queue_match info q" "\<not> isFull info" "t - now < 10000" for q t
    using that by (auto simp: r(1) eligible_def upsertWorker_def isAlive_def queue_match_def isFull_def ran_def split: if_splits)
  with r show ?thesis by blast
qed

end
