(* ===== verification/Worker_Client.thy ===== *)
theory Worker_Client
  imports Worker_Api
begin

text \<open>
  \<^verbatim>\<open>worker/worker_heartbeat_client.cpp\<close>: the thread of a worker that registers it with the master and sends
  heartbeats.  HTTP, the clock, the stop flag and the number of running tasks are operations on a world; the loop
  may run forever, so it is a partial function.  A master that answers as \<^verbatim>\<open>handlers/worker_handler.cpp\<close> does is
  such a world.
\<close>

record WorkerClient =
  wc_id :: string
  wc_host :: string
  wc_port :: int
  wc_queues :: "string list"
  wc_labels :: "string list"
  wc_maxRunningTasks :: int
  wc_interval :: int
  wc_registered :: bool

record 'w hb_env =
  hb_running :: "'w \<Rightarrow> int"
  hb_stop :: "'w \<Rightarrow> bool"
  hb_post :: "string \<Rightarrow> string \<Rightarrow> 'w \<Rightarrow> int option \<times> 'w"
  hb_sleep :: "int \<Rightarrow> 'w \<Rightarrow> 'w"

text \<open>\<^verbatim>\<open>start\<close>, with the configured limit of running tasks.\<close>

definition wc_start ::
  "int \<Rightarrow> string \<Rightarrow> string \<Rightarrow> int \<Rightarrow> string list \<Rightarrow> string list \<Rightarrow> int \<Rightarrow> WorkerClient" where
  "wc_start configured i host port qs ls interval =
     \<lparr>wc_id = i, wc_host = host, wc_port = port, wc_queues = qs, wc_labels = ls,
      wc_maxRunningTasks = (if configured \<le> 0 then 1 else configured), wc_interval = interval, wc_registered = False\<rparr>"

definition register_json :: "WorkerClient \<Rightarrow> int \<Rightarrow> json" where
  "register_json c busy =
     JObj [''id'' \<mapsto> JStr (wc_id c), ''host'' \<mapsto> JStr (wc_host c), ''port'' \<mapsto> JInt (wc_port c),
           ''queues'' \<mapsto> JArr (map JStr (wc_queues c)), ''labels'' \<mapsto> JArr (map JStr (wc_labels c)),
           ''running_tasks'' \<mapsto> JInt busy, ''max_running_tasks'' \<mapsto> JInt (wc_maxRunningTasks c)]"

definition heartbeat_json :: "WorkerClient \<Rightarrow> int \<Rightarrow> json" where
  "heartbeat_json c busy = JObj [''id'' \<mapsto> JStr (wc_id c), ''running_tasks'' \<mapsto> JInt busy]"

definition do_register :: "('w, 'z) hb_env_scheme \<Rightarrow> (json \<Rightarrow> string) \<Rightarrow> WorkerClient \<Rightarrow> 'w \<Rightarrow> bool \<times> 'w" where
  "do_register E dump c w =
     (case hb_post E ''/api/workers/register'' (dump (register_json c (hb_running E w))) w of
        (None, w') \<Rightarrow> (False, w')
      | (Some st, w') \<Rightarrow> (st < 300, w'))"

definition do_heartbeat :: "('w, 'z) hb_env_scheme \<Rightarrow> (json \<Rightarrow> string) \<Rightarrow> WorkerClient \<Rightarrow> 'w \<Rightarrow> int option \<times> 'w" where
  "do_heartbeat E dump c w = hb_post E ''/api/workers/heartbeat'' (dump (heartbeat_json c (hb_running E w))) w"

text \<open>One pass of the loop; the flag says whether the loop goes on.\<close>

definition hb_beat ::
  "('w, 'z) hb_env_scheme \<Rightarrow> (json \<Rightarrow> string) \<Rightarrow> WorkerClient \<Rightarrow> 'w \<Rightarrow> bool \<times> WorkerClient \<times> 'w" where
  "hb_beat E dump c w =
     (case do_heartbeat E dump c w of
        (hb, w') \<Rightarrow>
          (let c' = (if hb = Some 404 then c\<lparr>wc_registered := False\<rparr> else c)
           in if hb_stop E w' then (False, c', w') else (True, c', hb_sleep E (wc_interval c) w')))"

definition hb_round ::
  "('w, 'z) hb_env_scheme \<Rightarrow> (json \<Rightarrow> string) \<Rightarrow> WorkerClient \<Rightarrow> 'w \<Rightarrow> bool \<times> WorkerClient \<times> 'w" where
  "hb_round E dump c w =
     (if wc_registered c then hb_beat E dump c w
      else (case do_register E dump c w of
              (True, w') \<Rightarrow> hb_beat E dump (c\<lparr>wc_registered := True\<rparr>) w'
            | (False, w') \<Rightarrow> (True, c, hb_sleep E (wc_interval c) w')))"

partial_function (option) hb_loop ::
  "('w, 'z) hb_env_scheme \<Rightarrow> (json \<Rightarrow> string) \<Rightarrow> WorkerClient \<Rightarrow> 'w \<Rightarrow> (WorkerClient \<times> 'w) option" where
  "hb_loop E dump c w =
     (if hb_stop E w then Some (c, w)
      else (case hb_round E dump c w of
              (go, c', w') \<Rightarrow> if go then hb_loop E dump c' w' else Some (c', w')))"

subsection \<open>A master\<close>

record master =
  ma_reg :: ServerWorkerRegistry
  ma_now :: int

definition master_post ::
  "(string \<Rightarrow> string + json) \<Rightarrow> (cpp_error \<Rightarrow> string) \<Rightarrow> string \<Rightarrow> string \<Rightarrow> master \<Rightarrow> int option \<times> master" where
  "master_post parse what path body m =
     (case (if path = ''/api/workers/register'' then workers_register parse what (ma_now m) body (ma_reg m)
            else workers_heartbeat parse (ma_now m) body (ma_reg m)) of
        (r, reg) \<Rightarrow> (Some (http_status r), m\<lparr>ma_reg := reg\<rparr>))"

definition master_env ::
  "(string \<Rightarrow> string + json) \<Rightarrow> (cpp_error \<Rightarrow> string) \<Rightarrow> int \<Rightarrow> master hb_env" where
  "master_env parse what busy =
     \<lparr>hb_running = (\<lambda>_. busy), hb_stop = (\<lambda>_. False), hb_post = master_post parse what,
      hb_sleep = (\<lambda>n m. m\<lparr>ma_now := ma_now m + n\<rparr>)\<rparr>"

definition known_alive :: "string \<Rightarrow> master \<Rightarrow> bool" where
  "known_alive i m \<longleftrightarrow> (\<exists>w. reg_workers (ma_reg m) i = Some w \<and> isAlive (ma_now m) w)"

definition int_range :: "int \<Rightarrow> bool" where
  "int_range n \<longleftrightarrow> int_min \<le> n \<and> n \<le> int_max"

lemma get_int_in_range: "int_range n \<Longrightarrow> get_int (JInt n) = Inr n"
  by (simp add: int_range_def get_int_def wrap_signed_id)

definition sendable :: "(json \<Rightarrow> string) \<Rightarrow> (string \<Rightarrow> string + json) \<Rightarrow> WorkerClient \<Rightarrow> int \<Rightarrow> bool" where
  "sendable dump parse c busy \<longleftrightarrow>
     parse (dump (register_json c busy)) = Inr (register_json c busy)
     \<and> parse (dump (heartbeat_json c busy)) = Inr (heartbeat_json c busy) \<and> wc_id c \<noteq> [] \<and> 0 < wc_port c \<and> int_range (wc_port c) \<and> int_range busy
     \<and> int_range (wc_maxRunningTasks c) \<and> wc_interval c < 10000"

lemma string_elems_map: "member k j = Some (JArr (map JStr xs)) \<Longrightarrow> string_elems k j = xs"
proof -
  have "List.map_filter (\<lambda>x. case x of JStr s \<Rightarrow> Some s | _ \<Rightarrow> None) (map JStr xs) = xs"
    by (induction xs) (simp_all add: List.map_filter_simps)
  then show "member k j = Some (JArr (map JStr xs)) \<Longrightarrow> string_elems k j = xs" by (simp add: string_elems_def)
qed

lemma register_accepted:
  assumes "sendable dump parse c busy"
  shows "\<exists>info. workers_register parse what now (dump (register_json c busy)) reg
      = (resp_ok (JObj [''ok'' \<mapsto> JBool True]), upsertWorker now info reg)
    \<and> wid info = wc_id c \<and> whost info = wc_host c \<and> wport info = wc_port c \<and> wqueues info = wc_queues c
    \<and> wlabels info = wc_labels c \<and> runningTasks info = busy"
proof -
  have p: "parse (dump (register_json c busy)) = Inr (register_json c busy)"
    and r: "int_range (wc_port c)" "int_range busy" "int_range (wc_maxRunningTasks c)"
    and n: "wc_id c \<noteq> []" "0 < wc_port c"
    using assms by (simp_all add: sendable_def)
  have q: "string_elems ''queues'' (register_json c busy) = wc_queues c"
    "string_elems ''labels'' (register_json c busy) = wc_labels c"
    by (rule string_elems_map, simp add: register_json_def)+
  show ?thesis
    using p n q by (auto simp: workers_register_def register_json_def worker_of_json_def value_or_def
        get_int_in_range [OF r(1)] get_int_in_range [OF r(2)] get_int_in_range [OF r(3)])
qed

lemma heartbeat_answer:
  assumes "sendable dump parse c busy"
  shows "workers_heartbeat parse now (dump (heartbeat_json c busy)) reg =
     (case touchHeartbeat now (wc_id c) busy reg of
        (False, reg') \<Rightarrow> (resp_error 404 ''worker not found'' 404, reg')
      | (True, reg') \<Rightarrow> (resp_ok JNull, reg'))"
proof -
  have p: "parse (dump (heartbeat_json c busy)) = Inr (heartbeat_json c busy)"
    and r: "int_range busy" and n: "wc_id c \<noteq> []"
    using assms by (simp_all add: sendable_def)
  show ?thesis
    using n by (simp add: workers_heartbeat_def parse_text_def p) (simp add: heartbeat_json_def value_or_def get_int_in_range [OF r])
qed

subsection \<open>Registration comes back\<close>

lemma register_post:
  assumes "sendable dump parse c busy"
  shows "\<exists>info. do_register (master_env parse what busy) dump c m
      = (True, m\<lparr>ma_reg := upsertWorker (ma_now m) info (ma_reg m)\<rparr>) \<and> wid info = wc_id c"
proof -
  obtain info where i: "workers_register parse what (ma_now m) (dump (register_json c busy)) (ma_reg m)
      = (resp_ok (JObj [''ok'' \<mapsto> JBool True]), upsertWorker (ma_now m) info (ma_reg m))" "wid info = wc_id c"
    using register_accepted [OF assms] by blast
  then show ?thesis
    by (intro exI [of _ info]) (simp add: do_register_def master_env_def master_post_def resp_ok_def resp_json_def)
qed

lemma beat_found:
  assumes "sendable dump parse c busy" and "reg_workers (ma_reg m) (wc_id c) = Some w"
  shows "\<exists>m'. hb_beat (master_env parse what busy) dump c m = (True, c, m') \<and> known_alive (wc_id c) m'"
proof -
  have iv: "wc_interval c < 10000" using assms(1) by (simp add: sendable_def)
  show ?thesis
    using assms(2) iv
    by (simp add: hb_beat_def do_heartbeat_def master_env_def master_post_def heartbeat_answer [OF assms(1)]
        touchHeartbeat_def resp_ok_def resp_json_def known_alive_def isAlive_def)
qed

lemma beat_lost:
  assumes "sendable dump parse c busy" and "reg_workers (ma_reg m) (wc_id c) = None"
  shows "hb_beat (master_env parse what busy) dump c m
     = (True, c\<lparr>wc_registered := False\<rparr>, m\<lparr>ma_now := ma_now m + wc_interval c\<rparr>)"
  using assms(2)
  by (simp add: hb_beat_def do_heartbeat_def master_env_def master_post_def heartbeat_answer [OF assms(1)]
      touchHeartbeat_def resp_error_def resp_json_def)

lemma unregistered_round:
  assumes "sendable dump parse c busy" and "\<not> wc_registered c"
  shows "\<exists>m'. hb_round (master_env parse what busy) dump c m = (True, c\<lparr>wc_registered := True\<rparr>, m') \<and> known_alive (wc_id c) m'"
proof -
  obtain info where r: "do_register (master_env parse what busy) dump c m
      = (True, m\<lparr>ma_reg := upsertWorker (ma_now m) info (ma_reg m)\<rparr>)" and i: "wid info = wc_id c"
    using register_post [OF assms(1)] by blast
  have s: "sendable dump parse (c\<lparr>wc_registered := True\<rparr>) busy"
    using assms(1) by (simp add: sendable_def register_json_def heartbeat_json_def)
  show ?thesis
    using beat_found [OF s, of "m\<lparr>ma_reg := upsertWorker (ma_now m) info (ma_reg m)\<rparr>"
        "info\<lparr>lastHeartbeat := ma_now m\<rparr>" what] i assms(2)
    by (auto simp: hb_round_def r upsertWorker_def sendable_def)
qed

lemma two_rounds:
  assumes S: "sendable dump parse c busy"
    and r1: "hb_round (master_env parse what busy) dump c m1 = (go1, c1, m1')"
    and r2: "hb_round (master_env parse what busy) dump c1 m2 = (go2, c2, m2')"
  shows "go1 \<and> go2 \<and> (known_alive (wc_id c) m1' \<or> known_alive (wc_id c) m2')"
proof (cases "wc_registered c")
  case False
  then have k1: "go1" "c1 = c\<lparr>wc_registered := True\<rparr>" "known_alive (wc_id c) m1'"
    using unregistered_round [OF S False, of what m1] r1 by auto
  have s: "sendable dump parse c1 busy" using S k1 by (simp add: sendable_def register_json_def heartbeat_json_def)
  have "go2"
  proof (cases "do_heartbeat (master_env parse what busy) dump c1 m2")
    case (Pair hb w')
    then show ?thesis using r2 k1 by (auto simp: hb_round_def hb_beat_def master_env_def Let_def)
  qed
  with k1 show ?thesis by blast
next
  case True
  show ?thesis
  proof (cases "reg_workers (ma_reg m1) (wc_id c)")
    case (Some w)
    with beat_found [OF S Some, of what] r1 True have k1: "go1" "c1 = c" "known_alive (wc_id c) m1'"
      by (auto simp: hb_round_def)
    have "go2"
    proof (cases "do_heartbeat (master_env parse what busy) dump c1 m2")
      case (Pair hb w')
      then show ?thesis using r2 k1 True by (auto simp: hb_round_def hb_beat_def master_env_def Let_def)
    qed
    with k1 show ?thesis by blast
  next
    case None
    then have k1: "go1" "c1 = c\<lparr>wc_registered := False\<rparr>" using beat_lost [OF S None, of what] r1 True by (auto simp: hb_round_def)
    have s: "sendable dump parse c1 busy" "\<not> wc_registered c1" using S k1 by (simp_all add: sendable_def register_json_def heartbeat_json_def)
    show ?thesis using unregistered_round [OF s, of what m2] r2 k1 by auto
  qed
qed


definition demo_client :: WorkerClient where
  "demo_client = (wc_start 0 ''w1'' ''10.0.0.2'' 8083 [''default''] [''shell''] 2000)\<lparr>wc_registered := True\<rparr>"

definition demo_hb_dump :: "json \<Rightarrow> string" where
  "demo_hb_dump j = (if contains ''host'' j then ''r'' else ''h'')"

definition demo_hb_parse :: "string \<Rightarrow> string + json" where
  "demo_hb_parse s = (if s = ''r'' then Inr (register_json demo_client 3) else Inr (heartbeat_json demo_client 3))"


end
