(* ===== verification/Ws_Protocol.thy ===== *)
theory Ws_Protocol
  imports Run_Tables
begin

text \<open>
  \<^verbatim>\<open>ws/ws_protocol.h\<close> and \<^verbatim>\<open>ws/ws_log_streamer.cpp\<close>: the commands a websocket client sends, the names of the
  channels it subscribes to, the messages the server pushes, and which channels a log record or a task event
  goes to.  The clock and the JSON printer are arguments; a push is the list of broadcasts it makes.
\<close>

subsection \<open>Commands\<close>

datatype WsOp = Subscribe | Unsubscribe | Ping | Pong | UnknownOp

datatype WsTopic = TaskLogs | TaskEvents | UnknownTopic

record ClientCommand =
  cc_op :: WsOp
  cc_topic :: WsTopic
  cc_taskId :: string
  cc_runId :: string

fun topic_toString :: "WsTopic \<Rightarrow> string" where
  "topic_toString TaskEvents = ''task_events''"
| "topic_toString TaskLogs = ''task_logs''"
| "topic_toString UnknownTopic = ''unknown''"

fun op_toString :: "WsOp \<Rightarrow> string" where
  "op_toString Subscribe = ''subscribe''"
| "op_toString Unsubscribe = ''unsubscribe''"
| "op_toString Ping = ''ping''"
| "op_toString Pong = ''pong''"
| "op_toString UnknownOp = ''unknown''"

definition parseOpField :: "json \<Rightarrow> string \<Rightarrow> WsOp" where
  "parseOpField j key =
     (case member key j of
        Some (JStr s) \<Rightarrow>
          (if s = ''subscribe'' then Subscribe
           else if s = ''unsubscribe'' then Unsubscribe
           else if s = ''ping'' then Ping
           else if s = ''pong'' then Pong
           else UnknownOp)
      | Some (JInt n) \<Rightarrow>
          (let v = wrap_signed 32 n
           in if v = 0 then Subscribe else if v = 1 then Unsubscribe else if v = 2 then Ping
              else if v = 3 then Pong else UnknownOp)
      | _ \<Rightarrow> UnknownOp)"

definition parseTopicField :: "json \<Rightarrow> string \<Rightarrow> WsTopic" where
  "parseTopicField j key =
     (case member key j of
        Some (JStr s) \<Rightarrow>
          (if s = ''task_logs'' then TaskLogs else if s = ''task_events'' then TaskEvents else UnknownTopic)
      | Some (JInt n) \<Rightarrow>
          (let v = wrap_signed 32 n in if v = 0 then TaskLogs else if v = 1 then TaskEvents else UnknownTopic)
      | _ \<Rightarrow> UnknownTopic)"

definition string_field :: "string \<Rightarrow> json \<Rightarrow> string" where
  "string_field key j = (case member key j of Some (JStr s) \<Rightarrow> s | _ \<Rightarrow> [])"

definition parseClientCommand :: "json \<Rightarrow> ClientCommand" where
  "parseClientCommand j =
     \<lparr>cc_op = parseOpField j ''op'', cc_topic = parseTopicField j ''topic'',
      cc_taskId = string_field ''task_id'' j, cc_runId = string_field ''run_id'' j\<rparr>"

subsection \<open>Messages and channels\<close>

record ServerMessage =
  sm_topic :: WsTopic
  sm_taskId :: string
  sm_data :: json

definition buildServerMessage :: "ServerMessage \<Rightarrow> json" where
  "buildServerMessage m =
     JObj [''topic'' \<mapsto> JStr (topic_toString (sm_topic m)), ''task_id'' \<mapsto> JStr (sm_taskId m), ''data'' \<mapsto> sm_data m]"

definition channelTaskLogs :: "string \<Rightarrow> string \<Rightarrow> string" where
  "channelTaskLogs taskId runId =
     (if runId = [] then ''task.logs.'' @ taskId else ''task.logs.'' @ taskId @ ''.'' @ runId)"

definition channelTaskEvents :: "string \<Rightarrow> string \<Rightarrow> string" where
  "channelTaskEvents taskId runId =
     (if runId = [] then ''task.events.'' @ taskId else ''task.events.'' @ taskId @ ''.'' @ runId)"

fun level_int :: "LogLevel \<Rightarrow> int" where
  "level_int Debug = 0"
| "level_int Info = 1"
| "level_int Warn = 2"
| "level_int Error = 3"

fun stream_int :: "LogStream \<Rightarrow> int" where
  "stream_int StreamNone = 0"
| "stream_int Stdout = 1"
| "stream_int Stderr = 2"
| "stream_int Event = 3"

definition buildLogJson :: "int \<Rightarrow> LogRecord \<Rightarrow> json" where
  "buildLogJson now r =
     JObj ((if tid_runId (rec_taskId r) = [] then Map.empty else [''run_id'' \<mapsto> JStr (tid_runId (rec_taskId r))])
       (''type'' \<mapsto> JStr ''log'', ''task_id'' \<mapsto> JStr (tid_value (rec_taskId r)), ''seq'' \<mapsto> JInt (int (rec_seq r)),
        ''ts_ms'' \<mapsto> JInt now, ''level'' \<mapsto> JInt (level_int (rec_level r)), ''stream'' \<mapsto> JInt (stream_int (rec_stream r)),
        ''message'' \<mapsto> JStr (rec_message r), ''duration_ms'' \<mapsto> JInt (rec_durationMs r),
        ''attempt'' \<mapsto> JInt (rec_attempt r), ''fields'' \<mapsto> strings_obj (rec_fields r)))"

definition buildTaskEventJson :: "int \<Rightarrow> string \<Rightarrow> string \<Rightarrow> json \<Rightarrow> string \<Rightarrow> json" where
  "buildTaskEventJson now taskId event extra runId =
     JObj ((if runId = [] then Map.empty else [''run_id'' \<mapsto> JStr runId])
       (''type'' \<mapsto> JStr ''event'', ''task_id'' \<mapsto> JStr taskId, ''event'' \<mapsto> JStr event,
        ''ts_ms'' \<mapsto> JInt now, ''extra'' \<mapsto> extra))"

subsection \<open>Pushing\<close>

text \<open>The channels in the order of the broadcasts: the task in this run, the task, the whole run.\<close>

definition push_channels :: "(string \<Rightarrow> string \<Rightarrow> string) \<Rightarrow> string \<Rightarrow> string \<Rightarrow> string list" where
  "push_channels channel taskId runId =
     (if runId = [] then [] else [channel taskId runId])
     @ [channel taskId []]
     @ (if runId = [] then [] else [channel [] runId])"

definition pushLog :: "(json \<Rightarrow> string) \<Rightarrow> int \<Rightarrow> LogRecord \<Rightarrow> (string \<times> string) list" where
  "pushLog dump now r =
     (let payload = dump (buildLogJson now r)
      in map (\<lambda>ch. (ch, payload)) (push_channels channelTaskLogs (tid_value (rec_taskId r)) (tid_runId (rec_taskId r))))"

definition pushTaskEvent ::
  "(json \<Rightarrow> string) \<Rightarrow> int \<Rightarrow> string \<Rightarrow> string \<Rightarrow> json \<Rightarrow> RunDb option \<Rightarrow> ((string \<times> string) list \<times> RunDb option) result" where
  "pushTaskEvent dump now taskId event extra db =
     bind (value_or get_string ''run_id'' [] extra) (\<lambda>runId.
       let j = buildTaskEventJson now taskId event extra runId
       in bind (insertFromJson dump j db) (\<lambda>db'.
            Inr (map (\<lambda>ch. (ch, dump j)) (push_channels channelTaskEvents taskId runId), db')))"

subsection \<open>Commands read back\<close>

definition command_json :: "ClientCommand \<Rightarrow> json" where
  "command_json c =
     JObj [''op'' \<mapsto> JStr (op_toString (cc_op c)), ''topic'' \<mapsto> JStr (topic_toString (cc_topic c)),
           ''task_id'' \<mapsto> JStr (cc_taskId c), ''run_id'' \<mapsto> JStr (cc_runId c)]"

lemma parse_op_text [simp]: "member k j = Some (JStr (op_toString p)) \<Longrightarrow> parseOpField j k = p"
  by (cases p) (simp_all add: parseOpField_def)

lemma parse_topic_text [simp]: "member k j = Some (JStr (topic_toString t)) \<Longrightarrow> parseTopicField j k = t"
  by (cases t) (simp_all add: parseTopicField_def)

text \<open>Every command is read back from the text the protocol writes for it.\<close>

lemma client_command_roundtrip: "parseClientCommand (command_json c) = c"
proof -
  have "parseOpField (command_json c) ''op'' = cc_op c" "parseTopicField (command_json c) ''topic'' = cc_topic c"
    by (simp_all add: command_json_def)
  then show ?thesis by (simp add: parseClientCommand_def) (simp add: command_json_def string_field_def)
qed

subsection \<open>Who a record reaches\<close>

lemma dot_free_split:
  assumes "CHR ''.'' \<notin> set t" and "CHR ''.'' \<notin> set t'"
  shows "t @ CHR ''.'' # r = t' @ CHR ''.'' # r' \<longleftrightarrow> t = t' \<and> r = r'"
proof
  assume "t @ CHR ''.'' # r = t' @ CHR ''.'' # r'"
  then have "(t, Some r) = (t', Some r')"
    using split_at_present [OF assms(1), of r] split_at_present [OF assms(2), of r'] by (metis (no_types))
  then show "t = t' \<and> r = r'" by simp
qed simp

lemma dot_free_no_dot: "CHR ''.'' \<notin> set t' \<Longrightarrow> t @ CHR ''.'' # r \<noteq> t'" "CHR ''.'' \<notin> set t' \<Longrightarrow> t' \<noteq> t @ CHR ''.'' # r"
  by auto

lemma dot_free_head: "CHR ''.'' \<notin> set t \<Longrightarrow> t @ CHR ''.'' # r = CHR ''.'' # r' \<longleftrightarrow> t = [] \<and> r = r'"
  using dot_free_split [of t "[]" r r'] by simp

lemma push_channels_iff:
  assumes "CHR ''.'' \<notin> set t" and "CHR ''.'' \<notin> set taskId"
    and "\<And>u s. channel u s = (if s = [] then pre @ u else pre @ u @ ''.'' @ s)"
  shows "channel t r \<in> set (push_channels channel taskId runId)
    \<longleftrightarrow> (t = taskId \<and> (r = [] \<or> r = runId)) \<or> (t = [] \<and> r = runId \<and> runId \<noteq> [])"
proof (cases "r = []")
  case True
  then show ?thesis
    by (cases "runId = []") (simp_all add: push_channels_def assms(3) dot_free_no_dot [OF assms(1)] dot_free_no_dot [OF assms(1), of "[]", simplified])
next
  case False
  then show ?thesis
    by (cases "runId = []")
      (simp_all add: push_channels_def assms(3) dot_free_no_dot [OF assms(2)] dot_free_split [OF assms(1,2)] dot_free_head [OF assms(1)], blast?)
qed

lemma channel_forms:
  "channelTaskLogs u s = (if s = [] then ''task.logs.'' @ u else ''task.logs.'' @ u @ ''.'' @ s)"
  "channelTaskEvents u s = (if s = [] then ''task.events.'' @ u else ''task.events.'' @ u @ ''.'' @ s)"
  by (simp_all add: channelTaskLogs_def channelTaskEvents_def)

lemma logs_not_events: "channelTaskLogs u s \<noteq> channelTaskEvents u' s'"
  by (simp add: channel_forms)

lemmas log_channels_iff = push_channels_iff [where channel = channelTaskLogs, OF _ _ channel_forms(1)]
lemmas event_channels_iff = push_channels_iff [where channel = channelTaskEvents, OF _ _ channel_forms(2)]

lemma pushLog_channels:
  "fst ` set (pushLog dump now r) = set (push_channels channelTaskLogs (tid_value (rec_taskId r)) (tid_runId (rec_taskId r)))"
  by (auto simp: pushLog_def Let_def image_iff)

text \<open>Task identifiers with a dot make channels ambiguous: the channel of a run of one task is the channel of another task.\<close>

lemma dotted_task_shares_channel: "r \<noteq> [] \<Longrightarrow> channelTaskLogs (t @ ''.'' @ r) [] = channelTaskLogs t r"
  by (simp add: channelTaskLogs_def)

text \<open>A record without a task goes to the channel of its run twice.\<close>

lemma taskless_record_twice:
  assumes "tid_value (rec_taskId r) = []" and "tid_runId (rec_taskId r) \<noteq> []"
  shows "map fst (pushLog dump now r)
    = [channelTaskLogs [] (tid_runId (rec_taskId r)), ''task.logs.'', channelTaskLogs [] (tid_runId (rec_taskId r))]"
  using assms by (simp add: pushLog_def push_channels_def channelTaskLogs_def Let_def)

subsection \<open>Events\<close>

definition event_row :: "(json \<Rightarrow> string) \<Rightarrow> int \<Rightarrow> string \<Rightarrow> string \<Rightarrow> string \<Rightarrow> json \<Rightarrow> task_event_cols \<Rightarrow> bool" where
  "event_row dump now taskId event runId j c \<longleftrightarrow>
     te_runId c = c_str runId \<and> te_taskId c = c_str taskId \<and> te_type c = ''event'' \<and> te_event c = c_str event
     \<and> te_tsMs c = now \<and> te_payloadJson c = c_str (dump j)"

lemma insert_event:
  assumes "- (2 ^ 63) \<le> now" and "now < 2 ^ 63"
  shows "\<exists>c. insertFromJson dump (buildTaskEventJson now taskId event extra runId) (Some db)
      = Inr (Some (db\<lparr>db_task_event := db_task_event db @ [c], db_task_event_seq := db_task_event_seq db + 1\<rparr>))
     \<and> event_row dump now taskId event runId (buildTaskEventJson now taskId event extra runId) c"
proof -
  define j where "j = buildTaskEventJson now taskId event extra runId"
  have m: "j = JObj ((if runId = [] then Map.empty else [''run_id'' \<mapsto> JStr runId])
       (''type'' \<mapsto> JStr ''event'', ''task_id'' \<mapsto> JStr taskId, ''event'' \<mapsto> JStr event,
        ''ts_ms'' \<mapsto> JInt now, ''extra'' \<mapsto> extra))" by (simp add: j_def buildTaskEventJson_def)
  have v: "value_or get_string ''run_id'' [] j = Inr runId" "value_or get_string ''task_id'' [] j = Inr taskId"
     "value_or get_string ''type'' [] j = Inr ''event''" "value_or get_string ''event'' [] j = Inr event"
     "value_or get_ll ''ts_ms'' 0 j = Inr now"
    using assms by (simp_all add: m value_or_def get_ll_def wrap_signed_id)
  have t: "c_str ''event'' = ''event''" by (simp add: c_str_def)
  show ?thesis unfolding j_def [symmetric]
    by (auto simp: insertFromJson_def v Let_def event_row_def t)
qed

lemma event_pushed:
  assumes "extra = JObj m" and "m ''run_id'' = None \<and> runId = [] \<or> m ''run_id'' = Some (JStr runId)"
    and "- (2 ^ 63) \<le> now" and "now < 2 ^ 63"
    and "CHR ''.'' \<notin> set t" and "CHR ''.'' \<notin> set taskId"
  shows "\<exists>bs c. pushTaskEvent dump now taskId event extra (Some db)
      = Inr (bs, Some (db\<lparr>db_task_event := db_task_event db @ [c], db_task_event_seq := db_task_event_seq db + 1\<rparr>))
     \<and> event_row dump now taskId event runId (buildTaskEventJson now taskId event extra runId) c
     \<and> snd ` set bs = {dump (buildTaskEventJson now taskId event extra runId)}
     \<and> (channelTaskEvents t r \<in> fst ` set bs
          \<longleftrightarrow> (t = taskId \<and> (r = [] \<or> r = runId)) \<or> (t = [] \<and> r = runId \<and> runId \<noteq> []))"
proof -
  have v: "value_or get_string ''run_id'' [] extra = Inr runId" using assms(1,2) by (auto simp: value_or_def)
  obtain c where c: "insertFromJson dump (buildTaskEventJson now taskId event extra runId) (Some db)
      = Inr (Some (db\<lparr>db_task_event := db_task_event db @ [c], db_task_event_seq := db_task_event_seq db + 1\<rparr>))"
    and e: "event_row dump now taskId event runId (buildTaskEventJson now taskId event extra runId) c"
    using insert_event [OF assms(3,4)] by blast
  define chs where "chs = push_channels channelTaskEvents taskId runId"
  have ne: "chs \<noteq> []" by (simp add: chs_def push_channels_def)
  define pay where "pay = dump (buildTaskEventJson now taskId event extra runId)"
  have p: "pushTaskEvent dump now taskId event extra (Some db) = Inr (map (\<lambda>ch. (ch, pay)) chs,
      Some (db\<lparr>db_task_event := db_task_event db @ [c], db_task_event_seq := db_task_event_seq db + 1\<rparr>))"
    by (simp add: pushTaskEvent_def v c Let_def chs_def pay_def)
  have "snd ` set (map (\<lambda>ch. (ch, pay)) chs) = {pay}" using ne by (cases chs) auto
  moreover have "channelTaskEvents t r \<in> fst ` set (map (\<lambda>ch. (ch, pay)) chs)
      \<longleftrightarrow> (t = taskId \<and> (r = [] \<or> r = runId)) \<or> (t = [] \<and> r = runId \<and> runId \<noteq> [])"
    using event_channels_iff [OF assms(5,6), of r runId] by (simp add: chs_def image_image)
  ultimately show ?thesis using p e unfolding pay_def by blast
qed

text \<open>A task event is stored and pushed to those who asked for it: one row with the event is appended to the
  table, and the one message it is pushed as goes to the subscribers of a task and run exactly if the task is
  the event's and the run is left out or the event's, or if the task is left out and the run is the event's
  (for task names without a dot).
\<close>

theorem task_event_pushed:
  assumes "extra = JObj m" and "m ''run_id'' = None \<and> runId = [] \<or> m ''run_id'' = Some (JStr runId)"
    and "- (2 ^ 63) \<le> now" and "now < 2 ^ 63"
    and "CHR ''.'' \<notin> set t" and "CHR ''.'' \<notin> set taskId"
  shows "\<exists>bs c. pushTaskEvent dump now taskId event extra (Some db)
      = Inr (bs, Some (db\<lparr>db_task_event := db_task_event db @ [c], db_task_event_seq := db_task_event_seq db + 1\<rparr>))
     \<and> event_row dump now taskId event runId (buildTaskEventJson now taskId event extra runId) c
     \<and> snd ` set bs = {dump (buildTaskEventJson now taskId event extra runId)}
     \<and> (channelTaskEvents t r \<in> fst ` set bs
          \<longleftrightarrow> (t = taskId \<and> (r = [] \<or> r = runId)) \<or> (t = [] \<and> r = runId \<and> runId \<noteq> []))"
  using assms by (rule event_pushed)

theorem task_event_pushed_witness:
  "\<exists>bs db. pushTaskEvent (\<lambda>_. ''{}'') 7 ''a'' ''task_end'' (JObj [''run_id'' \<mapsto> JStr ''r1'']) (Some empty_RunDb)
      = Inr (bs, Some db) \<and> length (db_task_event db) = 1 \<and> channelTaskEvents [] ''r1'' \<in> fst ` set bs"
proof -
  define m where "m = [''run_id'' \<mapsto> JStr ''r1'']"
  have m: "m ''run_id'' = None \<and> ''r1'' = [] \<or> m ''run_id'' = Some (JStr ''r1'')" by (simp add: m_def)
  have n: "- (2 ^ 63) \<le> (7 :: int)" "(7 :: int) < 2 ^ 63" by simp_all
  have d: "CHR ''.'' \<notin> set []" "CHR ''.'' \<notin> set ''a''" by simp_all
  obtain bs c where b: "pushTaskEvent (\<lambda>_. ''{}'') 7 ''a'' ''task_end'' (JObj m) (Some empty_RunDb)
      = Inr (bs, Some (empty_RunDb\<lparr>db_task_event := db_task_event empty_RunDb @ [c],
                        db_task_event_seq := db_task_event_seq empty_RunDb + 1\<rparr>))"
    and r: "channelTaskEvents [] ''r1'' \<in> fst ` set bs
      \<longleftrightarrow> ([] = ''a'' \<and> (''r1'' = [] \<or> ''r1'' = ''r1'')) \<or> ([] = ([] :: string) \<and> ''r1'' = ''r1'' \<and> ''r1'' \<noteq> [])"
    by (insert task_event_pushed [where m = m and runId = "''r1''" and dump = "\<lambda>_. ''{}''" and event = "''task_end''" and db = empty_RunDb
        and r = "''r1''" and extra = "JObj m", OF refl m n d], elim exE conjE) metis
  have "length (db_task_event (empty_RunDb\<lparr>db_task_event := db_task_event empty_RunDb @ [c],
                        db_task_event_seq := db_task_event_seq empty_RunDb + 1\<rparr>)) = 1"
    by (simp add: empty_RunDb_def)
  moreover from r have "channelTaskEvents [] ''r1'' \<in> fst ` set bs" by simp
  ultimately show ?thesis using b unfolding m_def by blast
qed

end
