(* ===== verification/Ws_Session.thy ===== *)
theory Ws_Session
  imports Ws_Protocol Auth_Manager Worker_Api "HOL-Library.Sublist"
begin

text \<open>
  \<^verbatim>\<open>ws/ws_hub.cpp\<close>, \<^verbatim>\<open>ws/ws_server_beast.cpp\<close> and \<^verbatim>\<open>ws/ws_proxy_client.cpp\<close>: websocket sessions, their
  commands, the hub that broadcasts to them and the proxy that joins a session to another server.  The handlers
  of the single-threaded \<^verbatim>\<open>io_context\<close> are steps: an accepted connection, a completed read or write, the next
  posted \<^verbatim>\<open>send\<close>; broadcasts come from any thread in between.  A session is named by the number of its
  connection and a \<^verbatim>\<open>weak_ptr\<close> is such a number.
\<close>

abbreviation kMaxPendingMessages :: nat where "kMaxPendingMessages \<equiv> 512"
abbreviation kMaxCommandsPerWindow :: nat where "kMaxCommandsPerWindow \<equiv> 30"
abbreviation kWindow :: int where "kWindow \<equiv> 10 * 10 ^ 9"

subsection \<open>The proxy\<close>

record WsProxyClient =
  px_host :: string
  px_port :: int
  px_token :: string
  px_connected :: bool
  px_writing :: bool
  px_queue :: "string list"
  px_posted :: "string list"

definition px_send :: "string \<Rightarrow> WsProxyClient \<Rightarrow> WsProxyClient" where
  "px_send t p = (if px_connected p then p\<lparr>px_posted := px_posted p @ [t]\<rparr> else p)"

text \<open>The handler \<^verbatim>\<open>send\<close> posts.\<close>

definition px_run :: "WsProxyClient \<Rightarrow> WsProxyClient option" where
  "px_run p =
     (case px_posted p of
        [] \<Rightarrow> None
      | t # ts \<Rightarrow>
          (let p' = p\<lparr>px_posted := ts\<rparr>
           in Some (if \<not> px_connected p then p'
                    else if kMaxPendingMessages \<le> length (px_queue p) then p'\<lparr>px_connected := False\<rparr>
                    else p'\<lparr>px_queue := px_queue p @ [t], px_writing := (px_writing p \<or> px_queue p = [])\<rparr>)))"

definition px_written :: "bool \<Rightarrow> WsProxyClient \<Rightarrow> WsProxyClient option" where
  "px_written ok p =
     (if \<not> px_writing p \<or> px_queue p = [] then None
      else if \<not> ok then Some (p\<lparr>px_connected := False, px_writing := False\<rparr>)
      else Some (p\<lparr>px_queue := tl (px_queue p), px_writing := tl (px_queue p) \<noteq> []\<rparr>))"

datatype read_event = ReadClosed | ReadFailed | ReadText string

text \<open>What the proxy reads: the new state and the text for the session that owns it.\<close>

definition px_on_read :: "read_event \<Rightarrow> WsProxyClient \<Rightarrow> WsProxyClient \<times> string option" where
  "px_on_read e p =
     (case e of
        ReadClosed \<Rightarrow> (p\<lparr>px_connected := False\<rparr>, None)
      | ReadFailed \<Rightarrow> (p\<lparr>px_connected := False\<rparr>, Some ''{\"type\":\"proxy_closed\",\"reason\":\"read_error\"}'')
      | ReadText t \<Rightarrow> (p, Some t))"

subsection \<open>A session\<close>

record WsSession =
  ws_queue :: "string list"
  ws_writing :: bool
  ws_reading :: bool
  ws_closed :: bool
  subscriptions :: "string set"
  authed :: bool
  proxy_mode :: bool
  auth_token :: string
  proxy_client :: "WsProxyClient option"
  cmd_timestamps :: "int list"

definition new_session :: WsSession where
  "new_session =
     \<lparr>ws_queue = [], ws_writing = False, ws_reading = True, ws_closed = False, subscriptions = {}, authed = False,
      proxy_mode = False, auth_token = [], proxy_client = None, cmd_timestamps = []\<rparr>"

datatype ws_effect = SendText string | CloseWs string | RemoveSession

text \<open>The world a command sees: the parser, the clocks (nanoseconds for the rate and for
  tokens, milliseconds for workers), the workers and whether the proxy's connection can be made.\<close>

record ws_env =
  we_parse :: "string \<Rightarrow> string + json"
  we_now_ns :: int
  we_now_ms :: int
  we_now_auth :: int
  we_order :: "string list"
  we_registry :: ServerWorkerRegistry
  we_connects :: "string \<Rightarrow> int \<Rightarrow> bool"

text \<open>The rate limit: time stamps older than the window are dropped, and a command is admitted while fewer than
  30 are left.\<close>

definition admit :: "int \<Rightarrow> int list \<Rightarrow> bool \<times> int list" where
  "admit now ts =
     (let ts' = dropWhile (\<lambda>t. kWindow < now - t) ts
      in if kMaxCommandsPerWindow \<le> length ts' then (False, ts') else (True, ts' @ [now]))"

definition command_channel :: "ClientCommand \<Rightarrow> string option" where
  "command_channel c =
     (case cc_topic c of
        TaskLogs \<Rightarrow> Some (channelTaskLogs (cc_taskId c) (cc_runId c))
      | TaskEvents \<Rightarrow> Some (channelTaskEvents (cc_taskId c) (cc_runId c))
      | UnknownTopic \<Rightarrow> None)"

definition plain_command :: "json \<Rightarrow> WsSession \<Rightarrow> WsSession \<times> ws_effect list" where
  "plain_command j s =
     (let cmd = parseClientCommand j
      in case cc_op cmd of
           Subscribe \<Rightarrow>
             (case command_channel cmd of
                Some ch \<Rightarrow> (s\<lparr>subscriptions := insert ch (subscriptions s)\<rparr>, [])
              | None \<Rightarrow> (s, []))
         | Unsubscribe \<Rightarrow>
             (case command_channel cmd of
                Some ch \<Rightarrow> (s\<lparr>subscriptions := subscriptions s - {ch}\<rparr>, [])
              | None \<Rightarrow> (s, []))
         | Ping \<Rightarrow> (s, [SendText ''{\"type\":\"pong\"}''])
         | _ \<Rightarrow> (s, []))"

definition proxy_error :: "string \<Rightarrow> ws_effect" where
  "proxy_error m = SendText (''{\"type\":\"proxy_error\",\"message\":\"'' @ m @ ''\"}'')"

definition proxy_port :: "json \<Rightarrow> int" where
  "proxy_port j =
     (let p = (case member ''ws_port'' j of Some (JInt n) \<Rightarrow> wrap_signed 32 n | _ \<Rightarrow> 8090)
      in if p \<le> 0 \<or> 65535 < p then 8090 else p)"

definition proxy_command :: "ws_env \<Rightarrow> json \<Rightarrow> WsSession \<Rightarrow> WsSession \<times> ws_effect list" where
  "proxy_command E j s =
     (case member ''worker_id'' j of
        Some (JStr wk) \<Rightarrow>
          (if proxy_mode s then (s, [proxy_error ''proxy already active''])
           else (case find_worker_by_id (we_order E) wk (we_registry E) of
                   None \<Rightarrow> (s, [proxy_error ''worker not found''])
                 | Some wi \<Rightarrow>
                     if \<not> isAlive (we_now_ms E) wi then (s, [proxy_error ''worker not alive''])
                     else if \<not> we_connects E (whost wi) (proxy_port j) then (s, [proxy_error ''proxy connect failed''])
                     else (s\<lparr>subscriptions := {}, proxy_mode := True,
                             proxy_client := Some \<lparr>px_host = whost wi, px_port = proxy_port j, px_token = auth_token s,
                               px_connected = True, px_writing = False, px_queue = [], px_posted = []\<rparr>\<rparr>,
                           [SendText (''{\"type\":\"proxy_ready\",\"worker_id\":\"'' @ wk @ ''\",\"ws_port\":''
                                      @ to_string_int (proxy_port j) @ ''}'')])))
      | _ \<Rightarrow> (s, [proxy_error ''missing worker_id'']))"

definition authed_command :: "ws_env \<Rightarrow> json \<Rightarrow> WsSession \<Rightarrow> WsSession \<times> ws_effect list" where
  "authed_command E j s =
     (if string_field ''op'' j = ''proxy'' then proxy_command E j s else plain_command j s)"

text \<open>The first message must carry a token; without an answer the message goes on as a command.\<close>

definition authenticate ::
  "ws_env \<Rightarrow> json \<Rightarrow> WsSession \<Rightarrow> AuthManager \<Rightarrow> WsSession \<times> ws_effect list option \<times> AuthManager" where
  "authenticate E j s a =
     (case member ''token'' j of
        Some (JStr t) \<Rightarrow>
          (case validate_token (we_now_auth E) t a of
             (None, a') \<Rightarrow> (s\<lparr>auth_token := t\<rparr>, Some [CloseWs ''unauthorized'', RemoveSession], a')
           | (Some _, a') \<Rightarrow>
               (s\<lparr>auth_token := t, authed := True\<rparr>,
                if contains ''op'' j then None else Some [SendText ''{\"type\":\"authed\"}''], a'))
      | _ \<Rightarrow> (s, Some [CloseWs ''unauthorized'', RemoveSession], a))"

definition handle_command ::
  "ws_env \<Rightarrow> string \<Rightarrow> WsSession \<Rightarrow> AuthManager \<Rightarrow> WsSession \<times> ws_effect list \<times> AuthManager" where
  "handle_command E payload s a =
     (case admit (we_now_ns E) (cmd_timestamps s) of
        (False, ts) \<Rightarrow> (s\<lparr>cmd_timestamps := ts\<rparr>, [CloseWs ''rate limit'', RemoveSession], a)
      | (True, ts) \<Rightarrow>
          (let s1 = s\<lparr>cmd_timestamps := ts\<rparr>
           in case we_parse E payload of
                Inl _ \<Rightarrow> (s1, [], a)
              | Inr j \<Rightarrow>
                  (if authed s1 then (case authed_command E j s1 of (s2, ef) \<Rightarrow> (s2, ef, a))
                   else (case authenticate E j s1 a of
                           (s2, Some ef, a') \<Rightarrow> (s2, ef, a')
                         | (s2, None, a') \<Rightarrow> (case authed_command E j s2 of (s3, ef) \<Rightarrow> (s3, ef, a'))))))"

definition stop_proxy :: "WsSession \<Rightarrow> WsSession" where
  "stop_proxy s = s\<lparr>proxy_client := None, proxy_mode := False\<rparr>"

definition on_read ::
  "ws_env \<Rightarrow> read_event \<Rightarrow> WsSession \<Rightarrow> AuthManager \<Rightarrow> WsSession \<times> ws_effect list \<times> AuthManager" where
  "on_read E e s a =
     (case e of
        ReadText payload \<Rightarrow>
          (if proxy_mode s then (s\<lparr>proxy_client := map_option (px_send payload) (proxy_client s)\<rparr>, [], a)
           else handle_command E payload s a)
      | _ \<Rightarrow> ((stop_proxy s)\<lparr>ws_reading := False\<rparr>, [RemoveSession], a))"

text \<open>The handler \<^verbatim>\<open>send\<close> posts, and the completion of a write.\<close>

definition send_handler :: "string \<Rightarrow> WsSession \<Rightarrow> WsSession \<times> ws_effect list" where
  "send_handler t s =
     (if kMaxPendingMessages \<le> length (ws_queue s)
      then (s, [CloseWs ''too many pending messages'', RemoveSession])
      else (s\<lparr>ws_queue := ws_queue s @ [t], ws_writing := (ws_writing s \<or> ws_queue s = [])\<rparr>, []))"

definition write_done :: "bool \<Rightarrow> WsSession \<Rightarrow> WsSession \<times> ws_effect list" where
  "write_done ok s =
     (if ok then (s\<lparr>ws_queue := tl (ws_queue s), ws_writing := tl (ws_queue s) \<noteq> []\<rparr>, [])
      else (s\<lparr>ws_writing := False\<rparr>, [RemoveSession]))"

subsection \<open>The hub and the server\<close>

text \<open>\<open>posted\<close> is the queue of \<^verbatim>\<open>send\<close> handlers.  \<open>history\<close> is every text \<^verbatim>\<open>send\<close> was called with and \<open>delivered\<close>
  every text whose write has completed, for each session.\<close>

record ws_world =
  hub :: "nat list"
  sessions :: "nat \<rightharpoonup> WsSession"
  next_id :: nat
  posted :: "(nat \<times> string) list"
  auth_state :: AuthManager
  history :: "nat \<Rightarrow> string list"
  delivered :: "nat \<Rightarrow> string list"

definition ws_start :: "AuthManager \<Rightarrow> ws_world" where
  "ws_start a = \<lparr>hub = [], sessions = Map.empty, next_id = 0, posted = [], auth_state = a,
                 history = (\<lambda>_. []), delivered = (\<lambda>_. [])\<rparr>"

definition ws_send :: "nat \<Rightarrow> string \<Rightarrow> ws_world \<Rightarrow> ws_world" where
  "ws_send i t w = w\<lparr>posted := posted w @ [(i, t)], history := (history w)(i := history w i @ [t])\<rparr>"

definition remove_session :: "nat \<Rightarrow> ws_world \<Rightarrow> ws_world" where
  "remove_session i w = w\<lparr>hub := filter (\<lambda>k. sessions w k \<noteq> None \<and> k \<noteq> i) (hub w)\<rparr>"

definition prune_hub :: "ws_world \<Rightarrow> ws_world" where
  "prune_hub w = w\<lparr>hub := filter (\<lambda>k. sessions w k \<noteq> None) (hub w)\<rparr>"

definition broadcast :: "string \<Rightarrow> ws_world \<Rightarrow> ws_world" where
  "broadcast t w = (let w' = prune_hub w in foldl (\<lambda>v i. ws_send i t v) w' (hub w'))"

definition subscribed :: "string \<Rightarrow> ws_world \<Rightarrow> nat \<Rightarrow> bool" where
  "subscribed ch w i = (case sessions w i of Some s \<Rightarrow> ch \<in> subscriptions s | None \<Rightarrow> False)"

definition broadcast_channel :: "string \<Rightarrow> string \<Rightarrow> ws_world \<Rightarrow> ws_world" where
  "broadcast_channel ch t w =
     (let w' = prune_hub w in foldl (\<lambda>v i. ws_send i t v) w' (filter (subscribed ch w) (hub w')))"

definition session_count :: "ws_world \<Rightarrow> nat" where
  "session_count w = length (filter (\<lambda>k. sessions w k \<noteq> None) (hub w))"

definition set_session :: "nat \<Rightarrow> WsSession \<Rightarrow> ws_world \<Rightarrow> ws_world" where
  "set_session i s w = w\<lparr>sessions := (sessions w)(i \<mapsto> s)\<rparr>"

fun apply_effect :: "nat \<Rightarrow> ws_effect \<Rightarrow> ws_world \<Rightarrow> ws_world" where
  "apply_effect i (SendText t) w = ws_send i t w"
| "apply_effect i (CloseWs reason) w =
     w\<lparr>sessions := (sessions w)(i := map_option (\<lambda>s. s\<lparr>ws_closed := True\<rparr>) (sessions w i))\<rparr>"
| "apply_effect i RemoveSession w = remove_session i w"

definition apply_effects :: "nat \<Rightarrow> ws_effect list \<Rightarrow> ws_world \<Rightarrow> ws_world" where
  "apply_effects i ef w = foldl (\<lambda>v e. apply_effect i e v) w ef"

datatype ws_act =
    Accept
  | Broadcast string
  | BroadcastChannel string string
  | RunPosted
  | WriteDone nat bool
  | Read nat read_event ws_env
  | ProxyRun nat
  | ProxyWritten nat bool
  | ProxyRead nat read_event
  | Expire nat

definition on_proxy :: "nat \<Rightarrow> (WsProxyClient \<Rightarrow> (WsProxyClient \<times> string option) option) \<Rightarrow> ws_world \<Rightarrow> ws_world option" where
  "on_proxy i f w =
     (case sessions w i of
        Some s \<Rightarrow>
          (case proxy_client s of
             Some p \<Rightarrow>
               (case f p of
                  Some (p', msg) \<Rightarrow>
                    (let w' = set_session i (s\<lparr>proxy_client := Some p'\<rparr>) w
                     in Some (case msg of Some t \<Rightarrow> ws_send i t w' | None \<Rightarrow> w'))
                | None \<Rightarrow> None)
           | None \<Rightarrow> None)
      | None \<Rightarrow> None)"

fun ws_exec :: "ws_act \<Rightarrow> ws_world \<Rightarrow> ws_world option" where
  "ws_exec Accept w =
     Some (w\<lparr>sessions := (sessions w)(next_id w \<mapsto> new_session), hub := hub w @ [next_id w], next_id := next_id w + 1\<rparr>)"
| "ws_exec (Broadcast t) w = Some (broadcast t w)"
| "ws_exec (BroadcastChannel ch t) w = Some (broadcast_channel ch t w)"
| "ws_exec RunPosted w =
     (case posted w of
        [] \<Rightarrow> None
      | (i, t) # rest \<Rightarrow>
          (case sessions w i of
             None \<Rightarrow> Some (w\<lparr>posted := rest\<rparr>)
           | Some s \<Rightarrow>
               (case send_handler t s of
                  (s', ef) \<Rightarrow> Some (apply_effects i ef (set_session i s' (w\<lparr>posted := rest\<rparr>))))))"
| "ws_exec (WriteDone i ok) w =
     (case sessions w i of
        Some s \<Rightarrow>
          (if ws_writing s then
             (let w1 = (if ok then w\<lparr>delivered := (delivered w)(i := delivered w i @ [hd (ws_queue s)])\<rparr> else w)
              in case write_done ok s of (s', ef) \<Rightarrow> Some (apply_effects i ef (set_session i s' w1)))
           else None)
      | None \<Rightarrow> None)"
| "ws_exec (Read i e E) w =
     (case sessions w i of
        Some s \<Rightarrow>
          (if ws_reading s then
             (case on_read E e s (auth_state w) of
                (s', ef, a') \<Rightarrow> Some (apply_effects i ef (set_session i s' (w\<lparr>auth_state := a'\<rparr>))))
           else None)
      | None \<Rightarrow> None)"
| "ws_exec (ProxyRun i) w = on_proxy i (\<lambda>p. map_option (\<lambda>p'. (p', None)) (px_run p)) w"
| "ws_exec (ProxyWritten i ok) w = on_proxy i (\<lambda>p. map_option (\<lambda>p'. (p', None)) (px_written ok p)) w"
| "ws_exec (ProxyRead i e) w = on_proxy i (\<lambda>p. Some (px_on_read e p)) w"
| "ws_exec (Expire i) w =
     (case sessions w i of
        Some s \<Rightarrow>
          (if ws_reading s \<or> ws_writing s \<or> i \<in> fst ` set (posted w) then None
           else Some (w\<lparr>sessions := (sessions w)(i := None)\<rparr>))
      | None \<Rightarrow> None)"

definition ws_step :: "ws_world \<Rightarrow> ws_world \<Rightarrow> bool" where
  "ws_step w w' \<longleftrightarrow> (\<exists>act. ws_exec act w = Some w')"

subsection \<open>Invariants of sessions\<close>

lemma sessions_ws_send [simp]: "sessions (ws_send i t w) = sessions w" "auth_state (ws_send i t w) = auth_state w"
  by (simp_all add: ws_send_def)

lemma sessions_sends [simp]:
  "sessions (foldl (\<lambda>v i. ws_send i t v) w is) = sessions w"
  by (induction "is" arbitrary: w) auto

lemma sessions_broadcasts [simp]: "sessions (broadcast t w) = sessions w" "sessions (broadcast_channel ch t w) = sessions w"
  by (simp_all add: broadcast_def broadcast_channel_def prune_hub_def Let_def)

text \<open>Effects change sessions only by the flag that they were closed.\<close>

definition only_closes :: "(nat \<rightharpoonup> WsSession) \<Rightarrow> (nat \<rightharpoonup> WsSession) \<Rightarrow> bool" where
  "only_closes m m' \<longleftrightarrow> (\<forall>i. m' i = m i \<or> (\<exists>s. m i = Some s \<and> m' i = Some (s\<lparr>ws_closed := True\<rparr>)))"

lemma only_closes_refl [simp]: "only_closes m m"
  by (simp add: only_closes_def)

lemma apply_effect_closes: "only_closes (sessions w) (sessions (apply_effect i e w))"
  by (cases e) (auto simp: only_closes_def remove_session_def)

lemma apply_effects_closes: "only_closes (sessions w) (sessions (apply_effects i ef w))"
proof (induction ef arbitrary: w)
  case (Cons e ef)
  have step: "only_closes (sessions (apply_effect i e w)) (sessions (apply_effects i ef (apply_effect i e w)))"
    by (rule Cons.IH)
  have "apply_effects i (e # ef) w = apply_effects i ef (apply_effect i e w)" by (simp add: apply_effects_def)
  moreover have "only_closes (sessions w) (sessions (apply_effects i ef (apply_effect i e w)))"
    unfolding only_closes_def
  proof
    fix k
    show "sessions (apply_effects i ef (apply_effect i e w)) k = sessions w k \<or>
      (\<exists>s. sessions w k = Some s \<and> sessions (apply_effects i ef (apply_effect i e w)) k = Some (s\<lparr>ws_closed := True\<rparr>))"
      using step [unfolded only_closes_def, rule_format, of k]
        apply_effect_closes [of w i e, unfolded only_closes_def, rule_format, of k] by auto
  qed
  ultimately show ?case by simp
qed (simp add: apply_effects_def)

lemma on_proxy_Some:
  assumes "on_proxy i f w = Some w'"
  obtains s p p' msg where "sessions w i = Some s" "proxy_client s = Some p" "f p = Some (p', msg)"
    "w' = (case msg of Some t \<Rightarrow> ws_send i t (set_session i (s\<lparr>proxy_client := Some p'\<rparr>) w)
                     | None \<Rightarrow> set_session i (s\<lparr>proxy_client := Some p'\<rparr>) w)"
  using assms by (auto simp: on_proxy_def Let_def split: option.splits)

lemma sessions_on_proxy:
  assumes "w' = (case msg of Some t \<Rightarrow> ws_send i t (set_session i s w) | None \<Rightarrow> set_session i s w)"
  shows "sessions w' = (sessions w)(i \<mapsto> s)"
  using assms by (cases msg) (simp_all add: set_session_def)

text \<open>What every operation on a session keeps, every reachable session has.\<close>

locale session_invariant =
  fixes P :: "WsSession \<Rightarrow> bool"
  assumes new: "P new_session"
    and closes: "P s \<Longrightarrow> P (s\<lparr>ws_closed := True\<rparr>)"
    and sent: "P s \<Longrightarrow> P (fst (send_handler t s))"
    and written: "P s \<Longrightarrow> ws_writing s \<Longrightarrow> P (fst (write_done ok s))"
    and reads: "P s \<Longrightarrow> P (fst (on_read E e s a))"
    and proxies: "P s \<Longrightarrow> proxy_client s = Some p \<Longrightarrow>
      px_run p = Some p' \<or> px_written ok p = Some p' \<or> p' = fst (px_on_read e p) \<Longrightarrow> P (s\<lparr>proxy_client := Some p'\<rparr>)"
begin

definition holds_all :: "ws_world \<Rightarrow> bool" where
  "holds_all w \<longleftrightarrow> (\<forall>i s. sessions w i = Some s \<longrightarrow> P s)"

lemma all_effects:
  assumes "holds_all w" and "P s"
  shows "holds_all (apply_effects i ef (set_session i s w))"
proof -
  have a: "holds_all (set_session i s w)" using assms by (auto simp: holds_all_def set_session_def)
  show ?thesis
    unfolding holds_all_def
  proof (intro allI impI)
    fix k s'
    assume "sessions (apply_effects i ef (set_session i s w)) k = Some s'"
    then show "P s'"
      using apply_effects_closes [of "set_session i s w" i ef, unfolded only_closes_def, rule_format, of k]
        a [unfolded holds_all_def, rule_format, of k] closes by auto
  qed
qed

lemma all_proxy:
  assumes "on_proxy i f w = Some w'" and "holds_all w"
    and "\<And>p p' msg. f p = Some (p', msg) \<Longrightarrow>
      (\<exists>ok e. px_run p = Some p' \<or> px_written ok p = Some p' \<or> p' = fst (px_on_read e p))"
  shows "holds_all w'"
proof -
  obtain s p p' msg where o: "sessions w i = Some s" "proxy_client s = Some p" "f p = Some (p', msg)"
    and w': "w' = (case msg of Some t \<Rightarrow> ws_send i t (set_session i (s\<lparr>proxy_client := Some p'\<rparr>) w)
                     | None \<Rightarrow> set_session i (s\<lparr>proxy_client := Some p'\<rparr>) w)"
    using assms(1) by (rule on_proxy_Some)
  have "P s" using assms(2) o(1) by (simp add: holds_all_def)
  with assms(3) [OF o(3)] o(2) have "P (s\<lparr>proxy_client := Some p'\<rparr>)" using proxies by blast
  with assms(2) sessions_on_proxy [OF w'] show ?thesis by (auto simp: holds_all_def)
qed

lemma all_cong: "holds_all w \<Longrightarrow> sessions w' = sessions w \<Longrightarrow> holds_all w'"
  by (simp add: holds_all_def)

lemma step_keeps:
  assumes "ws_exec act w = Some w'" and "holds_all w"
  shows "holds_all w'"
proof (cases act)
  case Accept
  then show ?thesis using assms new by (auto simp: holds_all_def split: if_splits)
next
  case RunPosted
  show ?thesis
  proof (cases "posted w")
    case Nil
    then show ?thesis using assms RunPosted by simp
  next
    case (Cons it rest)
    obtain i t where it: "it = (i, t)" by (cases it)
    show ?thesis
    proof (cases "sessions w i")
      case None
      then show ?thesis using assms RunPosted Cons it by (auto simp: holds_all_def)
    next
      case (Some s)
      obtain s' ef where h: "send_handler t s = (s', ef)" by (cases "send_handler t s")
      have "P s'" using assms(2) Some sent [of s t] h by (simp add: holds_all_def)
      moreover have "w' = apply_effects i ef (set_session i s' (w\<lparr>posted := rest\<rparr>))"
        using assms(1) RunPosted Cons it Some h by simp
      ultimately show ?thesis using all_effects [OF all_cong [OF assms(2)]] by simp
    qed
  qed
next
  case (WriteDone i ok)
  then obtain s where s: "sessions w i = Some s" "ws_writing s" using assms(1) by (auto split: option.splits if_splits)
  obtain s' ef where h: "write_done ok s = (s', ef)" by (cases "write_done ok s")
  have "P s'" using assms(2) s written [of s ok] h by (simp add: holds_all_def)
  moreover have "w' = apply_effects i ef (set_session i s'
      (if ok then w\<lparr>delivered := (delivered w)(i := delivered w i @ [hd (ws_queue s)])\<rparr> else w))"
    using assms(1) WriteDone s h by (simp add: Let_def)
  ultimately show ?thesis using all_effects [OF all_cong [OF assms(2)]] by simp
next
  case (Read i e E)
  then obtain s where s: "sessions w i = Some s" "ws_reading s" using assms(1) by (auto split: option.splits if_splits)
  obtain s' ef a' where h: "on_read E e s (auth_state w) = (s', ef, a')" by (cases "on_read E e s (auth_state w)")
  have "P s'" using assms(2) s reads [of s E e "auth_state w"] h by (simp add: holds_all_def)
  moreover have "w' = apply_effects i ef (set_session i s' (w\<lparr>auth_state := a'\<rparr>))"
    using assms(1) Read s h by simp
  ultimately show ?thesis using all_effects [OF all_cong [OF assms(2)]] by simp
next
  case (ProxyRun i)
  with assms(1) have "on_proxy i (\<lambda>p. map_option (\<lambda>p'. (p', None)) (px_run p)) w = Some w'" by simp
  then show ?thesis by (rule all_proxy [OF _ assms(2)]) auto
next
  case (ProxyWritten i ok)
  with assms(1) have "on_proxy i (\<lambda>p. map_option (\<lambda>p'. (p', None)) (px_written ok p)) w = Some w'" by simp
  then show ?thesis by (rule all_proxy [OF _ assms(2)]) auto
next
  case (ProxyRead i e)
  with assms(1) have "on_proxy i (\<lambda>p. Some (px_on_read e p)) w = Some w'" by simp
  then show ?thesis by (rule all_proxy [OF _ assms(2)]) (metis fst_conv option.inject)
next
  case (Expire i)
  then show ?thesis using assms by (auto simp: holds_all_def split: option.splits if_splits)
qed (use assms in \<open>auto simp: holds_all_def\<close>)

lemma reachable:
  assumes "steps ws_step (ws_start a) w" and "sessions w i = Some s"
  shows "P s"
proof -
  have "holds_all w"
    using assms(1)
  proof (rule steps_invariant)
    show "holds_all (ws_start a)" by (simp add: holds_all_def ws_start_def)
  qed (auto simp: ws_step_def intro: step_keeps)
  with assms(2) show ?thesis by (simp add: holds_all_def)
qed

end

subsection \<open>Only authenticated sessions\<close>

definition guarded :: "WsSession \<Rightarrow> bool" where
  "guarded s \<longleftrightarrow> (authed s \<or> subscriptions s = {} \<and> \<not> proxy_mode s)"

lemma plain_command_form: "\<exists>S. fst (plain_command j s) = s\<lparr>subscriptions := S\<rparr>"
proof -
  have "\<exists>S. s = s\<lparr>subscriptions := S\<rparr>" by (rule exI [of _ "subscriptions s"]) simp
  then show ?thesis by (auto simp: plain_command_def Let_def split: WsOp.split option.split)
qed

lemma proxy_command_form:
  "fst (proxy_command E j s) = s \<or> (\<exists>p. px_queue p = [] \<and> \<not> px_writing p
     \<and> fst (proxy_command E j s) = s\<lparr>subscriptions := {}, proxy_mode := True, proxy_client := Some p\<rparr>)"
  by (auto simp: proxy_command_def intro!: exI split: option.split json.split)

text \<open>A command of an authenticated session changes its subscriptions or joins it to another server.\<close>

lemma authed_command_cases:
  obtains S where "fst (authed_command E j s) = s\<lparr>subscriptions := S\<rparr>"
  | p where "fst (authed_command E j s) = s\<lparr>subscriptions := {}, proxy_mode := True, proxy_client := Some p\<rparr>"
      "px_queue p = []" "\<not> px_writing p"
proof (cases "string_field ''op'' j = ''proxy''")
  case True
  have "s = s\<lparr>subscriptions := subscriptions s\<rparr>" by simp
  with True show ?thesis using proxy_command_form [of E j s] that by (metis authed_command_def)
next
  case False
  then show ?thesis using plain_command_form [of j s] that by (metis authed_command_def)
qed

lemma authed_command_authed: "authed (fst (authed_command E j s)) = authed s"
  by (rule authed_command_cases [of E j s]) simp_all

lemma authed_command_token: "auth_token (fst (authed_command E j s)) = auth_token s"
  by (rule authed_command_cases [of E j s]) simp_all

lemma authenticate_result:
  assumes "authenticate E j s a = (s', r, a')"
  shows "subscriptions s' = subscriptions s" and "proxy_mode s' = proxy_mode s" and "r = None \<Longrightarrow> authed s'"
    and "authed s' \<Longrightarrow> \<not> authed s \<Longrightarrow> \<exists>t u. member ''token'' j = Some (JStr t)
           \<and> validate_token (we_now_auth E) t a = (Some u, a') \<and> auth_token s' = t"
  using assms by (auto simp: authenticate_def split: option.splits json.splits prod.splits)

text \<open>The message that authenticated a session.\<close>

definition token_accepted :: "ws_env \<Rightarrow> string \<Rightarrow> AuthManager \<Rightarrow> AuthManager \<Rightarrow> WsSession \<Rightarrow> bool" where
  "token_accepted E payload a a' s' \<longleftrightarrow>
     (\<exists>j u. we_parse E payload = Inr j \<and> member ''token'' j = Some (JStr (auth_token s'))
        \<and> validate_token (we_now_auth E) (auth_token s') a = (Some u, a'))"

lemma handle_command_authed:
  assumes "handle_command E payload s a = (s', ef, a')" and "guarded s"
  shows "guarded s' \<and> (authed s' \<longrightarrow> authed s \<or> token_accepted E payload a a' s')"
proof -
  obtain ok ts where ad: "admit (we_now_ns E) (cmd_timestamps s) = (ok, ts)"
    by (cases "admit (we_now_ns E) (cmd_timestamps s)")
  show ?thesis
  proof (cases "ok \<and> (\<exists>j. we_parse E payload = Inr j)")
    case False
    then have "s' = s\<lparr>cmd_timestamps := ts\<rparr>" using assms(1) ad
      by (cases ok; cases "we_parse E payload") (auto simp: handle_command_def)
    with assms(2) show ?thesis by (simp add: guarded_def)
  next
    case True
    then obtain j where j: "we_parse E payload = Inr j" and ok: ok by blast
    define s1 where "s1 = s\<lparr>cmd_timestamps := ts\<rparr>"
    show ?thesis
    proof (cases "authed s")
      case True
      then have "s' = fst (authed_command E j s1)"
        using assms(1) ad j ok by (simp add: handle_command_def s1_def split: prod.splits)
      then show ?thesis using True by (simp add: guarded_def authed_command_authed s1_def)
    next
      case False
      obtain s2 r a2 where au: "authenticate E j s1 a = (s2, r, a2)" by (cases "authenticate E j s1 a")
      note res = authenticate_result [OF au]
      have a': "a' = a2" and s': "s' = s2 \<or> r = None \<and> s' = fst (authed_command E j s2)"
        using assms(1) ad j ok False au
        by (auto simp: handle_command_def s1_def Let_def split: option.splits prod.splits)
      have "authed s' = authed s2" "auth_token s' = auth_token s2"
        using s' authed_command_authed authed_command_token by auto
      moreover have "authed s2 \<or> s' = s2" using s' res(3) by auto
      ultimately show ?thesis
        using res(1,2) res(4) False assms(2) j a' by (auto simp: guarded_def token_accepted_def s1_def)
    qed
  qed
qed

interpretation guard: session_invariant guarded
proof
  fix s E e a
  assume g: "guarded s"
  show "guarded (fst (on_read E e s a))"
  proof (cases e)
    case (ReadText payload)
    obtain s' ef a' where "handle_command E payload s a = (s', ef, a')" by (cases "handle_command E payload s a")
    with handle_command_authed [OF this g] g ReadText show ?thesis by (auto simp: on_read_def guarded_def)
  qed (use g in \<open>auto simp: on_read_def stop_proxy_def guarded_def\<close>)
qed (auto simp: guarded_def new_session_def send_handler_def write_done_def)

lemma history_ws_send: "history (ws_send i t w) k = (if k = i then history w k @ [t] else history w k)"
  by (simp add: ws_send_def)

lemma history_sends:
  "history (foldl (\<lambda>v i. ws_send i t v) w is) k = history w k @ replicate (count_list is k) t"
proof (induction "is" arbitrary: w)
  case (Cons i "is")
  have "history (foldl (\<lambda>v i. ws_send i t v) w (i # is)) k = history (ws_send i t w) k @ replicate (count_list is k) t"
    using Cons.IH by simp
  then show ?case by (simp add: history_ws_send replicate_append_same)
qed simp

lemma history_prune [simp]: "history (prune_hub w) = history w"
  by (simp add: prune_hub_def)

lemma history_channel:
  "history (broadcast_channel ch t w) k
     = history w k @ replicate (if subscribed ch w k then count_list (hub w) k else 0) t"
proof -
  have "count_list (filter P xs) k = (if P k then count_list xs k else 0)" for P and xs :: "nat list"
    by (induction xs) auto
  moreover have "subscribed ch w k \<Longrightarrow> sessions w k \<noteq> None" by (auto simp: subscribed_def split: option.splits)
  ultimately show ?thesis
    by (simp add: broadcast_channel_def Let_def history_sends) (simp add: prune_hub_def)
qed

lemma channel_guarded:
  assumes "steps ws_step (ws_start a0) w" and "sessions w i = Some s" and "\<not> authed s"
  shows "history (broadcast_channel ch t w) i = history w i \<and> \<not> proxy_mode s"
  using guard.reachable [OF assms(1,2)] assms(2,3) by (simp add: guarded_def history_channel subscribed_def)

text \<open>C27. Channels are for those who logged in: in every reachable state of the server a session that has not been
  authenticated gets nothing from a broadcast to a channel and is not joined to another server, and a message
  authenticates it only if it carries a token that the authentication manager accepts at that moment.
\<close>

theorem ws_channels_guarded:
  assumes "steps ws_step (ws_start a0) w" and "sessions w i = Some s" and "\<not> authed s"
    and "handle_command E payload s a = (s', ef, a')"
  shows "history (broadcast_channel ch t w) i = history w i \<and> \<not> proxy_mode s
    \<and> (authed s' \<longrightarrow> token_accepted E payload a a' s')"
  using channel_guarded [OF assms(1-3)] handle_command_authed [OF assms(4)] guard.reachable [OF assms(1,2)] assms(3)
  by auto

text \<open>A broadcast without a channel goes to every session of the hub, logged in or not.\<close>

lemma broadcast_reaches_unauthenticated:
  assumes "ws_exec Accept w = Some w'"
  shows "sessions w' (next_id w) = Some new_session \<and> \<not> authed new_session
    \<and> history (broadcast t w') (next_id w) = history w (next_id w) @ replicate (Suc (count_list (hub w) (next_id w))) t"
proof -
  have w': "w' = w\<lparr>sessions := (sessions w)(next_id w \<mapsto> new_session), hub := hub w @ [next_id w], next_id := next_id w + 1\<rparr>"
    using assms by simp
  have c: "count_list (filter P xs) k = (if P k then count_list xs k else 0)" for P and xs :: "nat list" and k
    by (induction xs) auto
  show ?thesis
    by (simp add: w' broadcast_def Let_def history_sends new_session_def) (simp add: prune_hub_def c)
qed

subsection \<open>Bounds\<close>

definition bounded :: "WsSession \<Rightarrow> bool" where
  "bounded s \<longleftrightarrow> length (ws_queue s) \<le> kMaxPendingMessages \<and> length (cmd_timestamps s) \<le> kMaxCommandsPerWindow
     \<and> (ws_writing s \<longrightarrow> ws_queue s \<noteq> [])
     \<and> (proxy_mode s \<longrightarrow> proxy_client s \<noteq> None)
     \<and> (\<forall>p. proxy_client s = Some p \<longrightarrow>
          length (px_queue p) \<le> kMaxPendingMessages \<and> (px_writing p \<longrightarrow> px_queue p \<noteq> []))"

lemma admit_bounded:
  assumes "admit now ts = (ok, ts')" and "length ts \<le> kMaxCommandsPerWindow"
  shows "length ts' \<le> kMaxCommandsPerWindow"
  using assms length_dropWhile_le [of "\<lambda>t. kWindow < now - t" ts]
  by (auto simp: admit_def Let_def split: if_splits)

lemma authed_command_bounded: "bounded s \<Longrightarrow> bounded (fst (authed_command E j s))"
  by (rule authed_command_cases [of E j s]) (simp_all add: bounded_def)

lemma authenticate_bounded:
  assumes "authenticate E j s a = (s', r, a')" and "bounded s"
  shows "bounded s'"
  using assms by (auto simp: authenticate_def bounded_def split: option.splits json.splits prod.splits)

lemma handle_command_bounded:
  assumes "bounded s"
  shows "bounded (fst (handle_command E payload s a))"
proof -
  obtain ok ts where ad: "admit (we_now_ns E) (cmd_timestamps s) = (ok, ts)"
    by (cases "admit (we_now_ns E) (cmd_timestamps s)")
  have b1: "bounded (s\<lparr>cmd_timestamps := ts\<rparr>)"
    using admit_bounded [OF ad] assms by (simp add: bounded_def split: option.splits)
  show ?thesis
  proof (cases "\<exists>j. ok \<and> we_parse E payload = Inr j")
    case False
    then show ?thesis using b1 ad by (cases ok; cases "we_parse E payload") (auto simp: handle_command_def)
  next
    case True
    then obtain j where j: "ok" "we_parse E payload = Inr j" by blast
    obtain s2 r a2 where au: "authenticate E j (s\<lparr>cmd_timestamps := ts\<rparr>) a = (s2, r, a2)"
      by (cases "authenticate E j (s\<lparr>cmd_timestamps := ts\<rparr>) a")
    show ?thesis
      using b1 ad j au authenticate_bounded [OF au b1] authed_command_bounded [OF b1, of E j]
        authed_command_bounded [OF authenticate_bounded [OF au b1], of E j]
      by (cases r) (auto simp: handle_command_def Let_def split: prod.splits)
  qed
qed

lemma px_bounded:
  assumes "px_run p = Some p' \<or> px_written ok p = Some p' \<or> p' = fst (px_on_read e p)"
    and "length (px_queue p) \<le> kMaxPendingMessages" and "px_writing p \<longrightarrow> px_queue p \<noteq> []"
  shows "length (px_queue p') \<le> kMaxPendingMessages \<and> (px_writing p' \<longrightarrow> px_queue p' \<noteq> [])"
  using assms
  by (auto simp: px_run_def px_written_def px_on_read_def Let_def split: list.splits if_splits read_event.splits)

interpretation bound: session_invariant bounded
proof
  fix s E e a
  assume b: "bounded s"
  show "bounded (fst (on_read E e s a))"
    using b handle_command_bounded [OF b]
    by (cases e) (auto simp: on_read_def stop_proxy_def bounded_def px_send_def split: option.splits)
next
  fix s p p' ok e
  assume "bounded s" "proxy_client s = Some p" "px_run p = Some p' \<or> px_written ok p = Some p' \<or> p' = fst (px_on_read e p)"
  then show "bounded (s\<lparr>proxy_client := Some p'\<rparr>)" using px_bounded [of p p' ok e] by (simp add: bounded_def)
next
  fix s ok
  assume "bounded s" "ws_writing s"
  then show "bounded (fst (write_done ok s))"
    by (cases "ws_queue s") (auto simp: bounded_def write_done_def split: option.splits)
qed (auto simp: bounded_def new_session_def send_handler_def split: option.splits)

lemma session_bounds:
  assumes "steps ws_step (ws_start a) w" and "sessions w i = Some s"
  shows "length (ws_queue s) \<le> kMaxPendingMessages \<and> length (cmd_timestamps s) \<le> kMaxCommandsPerWindow"
  using bound.reachable [OF assms] by (simp add: bounded_def)

text \<open>A client that was joined to another server stays so until its connection ends: the proxy's end of the
  connection does not change the mode, and in this mode messages are no commands.\<close>

lemma proxy_mode_is_final:
  assumes "proxy_mode s" and "proxy_client s = Some p" and "\<not> px_connected p"
  shows "on_read E (ReadText payload) s a = (s, [], a)"
  using assms by (simp add: on_read_def px_send_def)

subsection \<open>Order of delivery\<close>

definition pending :: "nat \<Rightarrow> ws_world \<Rightarrow> string list" where
  "pending i w = map snd (filter (\<lambda>x. fst x = i) (posted w))"

definition queued :: "nat \<Rightarrow> ws_world \<Rightarrow> string list" where
  "queued i w = (case sessions w i of Some s \<Rightarrow> ws_queue s | None \<Rightarrow> [])"

text \<open>Texts move from the posted handlers to the queue and from there to the client.\<close>

definition flow :: "nat \<Rightarrow> ws_world \<Rightarrow> bool" where
  "flow i w \<longleftrightarrow>
     subseq (delivered w i @ queued i w @ pending i w) (history w i)
     \<and> (\<forall>s. sessions w i = Some s \<and> \<not> ws_closed s \<longrightarrow> delivered w i @ queued i w @ pending i w = history w i)"

lemma flow_eqI:
  "delivered w i @ queued i w @ pending i w = history w i \<Longrightarrow> flow i w"
  by (simp add: flow_def)

lemma flow_send:
  assumes "flow i w"
  shows "flow i (ws_send j t w)"
proof -
  have eq: "pending i (ws_send j t w) = pending i w @ (if j = i then [t] else [])"
    "history (ws_send j t w) i = history w i @ (if j = i then [t] else [])"
    "queued i (ws_send j t w) = queued i w" "delivered (ws_send j t w) i = delivered w i"
    by (simp_all add: ws_send_def pending_def queued_def)
  have "subseq ((delivered w i @ queued i w @ pending i w) @ (if j = i then [t] else [])) (history w i @ (if j = i then [t] else []))"
    using assms by (intro list_emb_append_mono) (auto simp: flow_def)
  then show ?thesis using assms by (auto simp: flow_def eq)
qed

lemma flow_sends: "flow i w \<Longrightarrow> flow i (foldl (\<lambda>v k. ws_send k t v) w ks)"
  by (induction ks arbitrary: w) (auto intro: flow_send)

lemma flow_effect: "flow i w \<Longrightarrow> flow i (apply_effect j e w)"
  by (cases e) (auto simp: flow_send, auto simp: flow_def queued_def pending_def remove_session_def split: option.splits)

lemma flow_effects: "flow i w \<Longrightarrow> flow i (apply_effects j ef w)"
  by (induction ef arbitrary: w) (auto simp: apply_effects_def intro: flow_effect)

lemma flow_hub: "flow i (w\<lparr>hub := h\<rparr>) = flow i w" "flow i (w\<lparr>auth_state := a\<rparr>) = flow i w"
  by (simp_all add: flow_def queued_def pending_def)

lemma flow_set_session:
  assumes "flow i w" and "sessions w j = Some s" and "ws_queue s' = ws_queue s" and "ws_closed s' = ws_closed s"
  shows "flow i (set_session j s' w)"
  using assms by (auto simp: flow_def queued_def pending_def set_session_def)

definition same_output :: "WsSession \<Rightarrow> WsSession \<Rightarrow> bool" where
  "same_output s s' \<longleftrightarrow> ws_queue s' = ws_queue s \<and> ws_closed s' = ws_closed s"

lemma authed_command_output: "same_output s (fst (authed_command E j s))"
  by (rule authed_command_cases [of E j s]) (simp_all add: same_output_def)

lemma authenticate_output: "authenticate E j s a = (s', r, a') \<Longrightarrow> same_output s s'"
  by (auto simp: same_output_def authenticate_def split: option.splits json.splits prod.splits)

lemma handle_command_output: "same_output s (fst (handle_command E payload s a))"
proof -
  obtain ok ts where ad: "admit (we_now_ns E) (cmd_timestamps s) = (ok, ts)"
    by (cases "admit (we_now_ns E) (cmd_timestamps s)")
  show ?thesis
  proof (cases "\<exists>j. ok \<and> we_parse E payload = Inr j")
    case False
    then show ?thesis using ad
      by (cases ok; cases "we_parse E payload") (auto simp: handle_command_def same_output_def)
  next
    case True
    then obtain j where j: "ok" "we_parse E payload = Inr j" by blast
    obtain s2 r a2 where au: "authenticate E j (s\<lparr>cmd_timestamps := ts\<rparr>) a = (s2, r, a2)"
      by (cases "authenticate E j (s\<lparr>cmd_timestamps := ts\<rparr>) a")
    show ?thesis
      using ad j au authenticate_output [OF au] authed_command_output [of "s\<lparr>cmd_timestamps := ts\<rparr>" E j]
        authed_command_output [of s2 E j]
      by (cases r) (auto simp: handle_command_def Let_def same_output_def split: prod.splits)
  qed
qed

lemma on_read_output: "same_output s (fst (on_read E e s a))"
  using handle_command_output
  by (cases e) (auto simp: on_read_def stop_proxy_def same_output_def)

lemma flow_run_posted:
  assumes f: "\<And>k. flow k w" and p: "posted w = (i, t) # rest" and s: "sessions w i = Some s"
    and h: "send_handler t s = (s', ef)"
  shows "flow k (apply_effects i ef (set_session i s' (w\<lparr>posted := rest\<rparr>)))"
proof (cases "kMaxPendingMessages \<le> length (ws_queue s)")
  case False
  then have s': "s' = s\<lparr>ws_queue := ws_queue s @ [t], ws_writing := (ws_writing s \<or> ws_queue s = [])\<rparr>"
    using h by (auto simp: send_handler_def)
  show ?thesis
    by (rule flow_effects) (use f [of k] p s in \<open>auto simp: flow_def queued_def pending_def set_session_def s'\<close>)
next
  case True
  then have e: "s' = s" "ef = [CloseWs ''too many pending messages'', RemoveSession]" using h by (auto simp: send_handler_def)
  have sub: "subseq (delivered w i @ queued i w @ pending i (w\<lparr>posted := rest\<rparr>)) (history w i)"
  proof -
    have "subseq (delivered w i @ queued i w @ pending i (w\<lparr>posted := rest\<rparr>)) (delivered w i @ queued i w @ pending i w)"
      using p by (intro list_emb_append_mono) (auto simp: pending_def)
    also have "subseq \<dots> (history w i)" using f [of i] by (simp add: flow_def)
    finally show ?thesis .
  qed
  show ?thesis
    using f [of k] sub p s
    by (cases "k = i") (auto simp: e apply_effects_def remove_session_def set_session_def flow_def queued_def pending_def)
qed

lemma flow_write_done:
  assumes f: "\<And>k. flow k w" and s: "sessions w i = Some s" and wr: "ws_queue s \<noteq> []"
    and h: "write_done ok s = (s', ef)"
  shows "flow k (apply_effects i ef (set_session i s'
      (if ok then w\<lparr>delivered := (delivered w)(i := delivered w i @ [hd (ws_queue s)])\<rparr> else w)))"
proof -
  obtain x xs where q: "ws_queue s = x # xs" using wr by (cases "ws_queue s") auto
  show ?thesis
    by (rule flow_effects)
      (use f [of k] s h in \<open>auto simp: q flow_def queued_def pending_def set_session_def write_done_def split: if_splits\<close>)
qed

definition fresh_ids :: "ws_world \<Rightarrow> bool" where
  "fresh_ids w \<longleftrightarrow> (\<forall>k \<ge> next_id w. sessions w k = None \<and> history w k = [] \<and> k \<notin> set (hub w))"

lemma fresh_send: "fresh_ids w \<Longrightarrow> i < next_id w \<Longrightarrow> fresh_ids (ws_send i t w)"
  by (auto simp: fresh_ids_def ws_send_def)

lemma next_id_send [simp]: "next_id (ws_send i t w) = next_id w"
  by (simp add: ws_send_def)

lemma fresh_sends: "fresh_ids w \<Longrightarrow> \<forall>i \<in> set is. i < next_id w \<Longrightarrow> fresh_ids (foldl (\<lambda>v i. ws_send i t v) w is)"
proof (induction "is" arbitrary: w)
  case (Cons i "is")
  then have "fresh_ids (foldl (\<lambda>v i. ws_send i t v) (ws_send i t w) is)" by (intro Cons.IH) (auto intro: fresh_send)
  then show ?case by simp
qed simp

lemma fresh_effect: "fresh_ids w \<Longrightarrow> i < next_id w \<Longrightarrow> fresh_ids (apply_effect i e w) \<and> next_id (apply_effect i e w) = next_id w"
  by (cases e) (auto simp: fresh_send, auto simp: fresh_ids_def remove_session_def)

lemma fresh_effects: "fresh_ids w \<Longrightarrow> i < next_id w \<Longrightarrow> fresh_ids (apply_effects i ef w)"
proof (induction ef arbitrary: w)
  case (Cons e ef)
  then have "fresh_ids (apply_effects i ef (apply_effect i e w))" using fresh_effect by simp
  then show ?case by (simp add: apply_effects_def)
qed (simp add: apply_effects_def)

lemma fresh_id: "fresh_ids w \<Longrightarrow> sessions w i = Some s \<Longrightarrow> i < next_id w"
  unfolding fresh_ids_def by (metis leI option.distinct(1))

lemma fresh_session: "fresh_ids w \<Longrightarrow> i < next_id w \<Longrightarrow> fresh_ids (set_session i s w) \<and> next_id (set_session i s w) = next_id w"
  by (auto simp: fresh_ids_def set_session_def)

lemma fresh_frame:
  assumes "fresh_ids w"
  shows "fresh_ids (w\<lparr>posted := ps\<rparr>)" "fresh_ids (w\<lparr>delivered := d\<rparr>)" "fresh_ids (w\<lparr>auth_state := a\<rparr>)"
    "fresh_ids (prune_hub w)"
  using assms by (simp_all add: fresh_ids_def prune_hub_def)

text \<open>The session invariants of the order of delivery and of the numbers of connections.\<close>

definition flowing :: "ws_world \<Rightarrow> bool" where
  "flowing w \<longleftrightarrow> (\<forall>k. flow k w) \<and> fresh_ids w \<and> (\<forall>i s. sessions w i = Some s \<longrightarrow> bounded s)"

lemma flow_broadcasts:
  assumes "flow k w" shows "flow k (broadcast t w)" "flow k (broadcast_channel ch t w)"
proof -
  have "flow k (prune_hub w)" using assms by (simp add: prune_hub_def flow_hub)
  then show "flow k (broadcast t w)" "flow k (broadcast_channel ch t w)"
    by (simp_all add: broadcast_def broadcast_channel_def Let_def flow_sends)
qed

lemma fresh_broadcasts:
  assumes "fresh_ids w" shows "fresh_ids (broadcast t w)" "fresh_ids (broadcast_channel ch t w)"
proof -
  have h: "i < next_id (prune_hub w)" if "i \<in> set (hub (prune_hub w))" for i
    using assms that unfolding fresh_ids_def prune_hub_def by (auto simp: not_less [symmetric])
  show "fresh_ids (broadcast t w)" "fresh_ids (broadcast_channel ch t w)"
    unfolding broadcast_def broadcast_channel_def Let_def
    by (rule fresh_sends [OF fresh_frame(4) [OF assms]], use h in auto)+
qed

lemma flow_proxy:
  assumes "on_proxy i f w = Some w'" and "flow k w" and "fresh_ids w"
  shows "flow k w' \<and> fresh_ids w'"
proof -
  obtain s p p' msg where o: "sessions w i = Some s"
    and w': "w' = (case msg of Some t \<Rightarrow> ws_send i t (set_session i (s\<lparr>proxy_client := Some p'\<rparr>) w)
                     | None \<Rightarrow> set_session i (s\<lparr>proxy_client := Some p'\<rparr>) w)"
    using assms(1) by (rule on_proxy_Some)
  have f: "flow k (set_session i (s\<lparr>proxy_client := Some p'\<rparr>) w)"
    using flow_set_session [OF assms(2) o] by simp
  have r: "fresh_ids (set_session i (s\<lparr>proxy_client := Some p'\<rparr>) w)" "i < next_id (set_session i (s\<lparr>proxy_client := Some p'\<rparr>) w)"
    using fresh_session [OF assms(3) fresh_id [OF assms(3) o]] fresh_id [OF assms(3) o] by auto
  show ?thesis using f r fresh_send [OF r] by (cases msg) (auto simp: w' flow_send)
qed

lemma flow_step:
  assumes "ws_exec act w = Some w'" and "flowing w"
  shows "(\<forall>k. flow k w') \<and> fresh_ids w'"
proof -
  have f: "\<And>k. flow k w" and r: "fresh_ids w" and b: "\<And>i s. sessions w i = Some s \<Longrightarrow> bounded s"
    using assms(2) by (auto simp: flowing_def)
  show ?thesis
  proof (cases act)
    case Accept
    have n: "sessions w (next_id w) = None" "history w (next_id w) = []" using r by (auto simp: fresh_ids_def)
    then have "delivered w (next_id w) = []" "pending (next_id w) w = []"
      using f [of "next_id w"] by (auto simp: flow_def dest: list_emb_Nil2)
    then have "flow k w'" for k
      using f [of k] n assms(1) Accept by (auto simp: flow_def queued_def pending_def new_session_def split: if_splits)
    moreover have "fresh_ids w'" using r assms(1) Accept by (auto simp: fresh_ids_def)
    ultimately show ?thesis by blast
  next
    case (Broadcast t)
    then show ?thesis using assms(1) flow_broadcasts(1) [OF f] fresh_broadcasts(1) [OF r] by auto
  next
    case (BroadcastChannel ch t)
    then show ?thesis using assms(1) flow_broadcasts(2) [OF f] fresh_broadcasts(2) [OF r] by auto
  next
    case RunPosted
    then obtain i t rest where p: "posted w = (i, t) # rest" using assms(1) by (auto split: list.splits)
    show ?thesis
    proof (cases "sessions w i")
      case None
      then have w': "w' = w\<lparr>posted := rest\<rparr>" using assms(1) RunPosted p by simp
      have "flow k w'" for k
      proof (cases "k = i")
        case True
        have "subseq (delivered w i @ queued i w @ pending i w') (delivered w i @ queued i w @ pending i w)"
          using p by (intro list_emb_append_mono) (auto simp: pending_def w')
        also have "subseq \<dots> (history w i)" using f [of i] by (simp add: flow_def)
        finally show ?thesis using True None by (simp add: flow_def w' queued_def pending_def)
      next
        case False
        then show ?thesis using f [of k] p by (simp add: flow_def w' queued_def pending_def)
      qed
      then show ?thesis using fresh_frame(1) [OF r] w' by blast
    next
      case (Some s)
      obtain s' ef where h: "send_handler t s = (s', ef)" by (cases "send_handler t s")
      have w': "w' = apply_effects i ef (set_session i s' (w\<lparr>posted := rest\<rparr>))"
        using assms(1) RunPosted p Some h by simp
      have "fresh_ids w'"
        unfolding w' using fresh_session [OF fresh_frame(1) [OF r]] fresh_id [OF r Some] by (auto intro!: fresh_effects)
      then show ?thesis using flow_run_posted [OF f p Some h] w' by blast
    qed
  next
    case (WriteDone i ok)
    then obtain s where s: "sessions w i = Some s" "ws_writing s" using assms(1) by (auto split: option.splits if_splits)
    obtain s' ef where h: "write_done ok s = (s', ef)" by (cases "write_done ok s")
    have w': "w' = apply_effects i ef (set_session i s'
        (if ok then w\<lparr>delivered := (delivered w)(i := delivered w i @ [hd (ws_queue s)])\<rparr> else w))"
      using assms(1) WriteDone s h by (simp add: Let_def)
    have q: "ws_queue s \<noteq> []" using b [OF s(1)] s(2) by (simp add: bounded_def)
    have "fresh_ids (if ok then w\<lparr>delivered := (delivered w)(i := delivered w i @ [hd (ws_queue s)])\<rparr> else w)"
      using r fresh_frame(2) [OF r] by simp
    then have "fresh_ids w'"
      unfolding w' using fresh_session fresh_id [OF r s(1)] by (intro fresh_effects) (auto split: if_splits)
    then show ?thesis using flow_write_done [OF f s(1) q h] w' by blast
  next
    case (Read i e E)
    then obtain s where s: "sessions w i = Some s" "ws_reading s" using assms(1) by (auto split: option.splits if_splits)
    obtain s' ef a' where h: "on_read E e s (auth_state w) = (s', ef, a')" by (cases "on_read E e s (auth_state w)")
    have w': "w' = apply_effects i ef (set_session i s' (w\<lparr>auth_state := a'\<rparr>))"
      using assms(1) Read s h by simp
    have "same_output s s'" using on_read_output [of s E e "auth_state w"] h by simp
    then have "flow k w'" for k
      unfolding w' using flow_set_session [of k "w\<lparr>auth_state := a'\<rparr>" i s s'] f [of k] s(1)
      by (intro flow_effects) (simp add: flow_hub same_output_def)
    moreover have "fresh_ids w'"
      unfolding w' using fresh_session [OF fresh_frame(3) [OF r]] fresh_id [OF r s(1)] by (intro fresh_effects) auto
    ultimately show ?thesis by blast
  next
    case (Expire i)
    then obtain s where s: "sessions w i = Some s" "i \<notin> fst ` set (posted w)" "w' = w\<lparr>sessions := (sessions w)(i := None)\<rparr>"
      using assms(1) by (auto split: option.splits if_splits)
    have "pending i w = []" using s(2) by (force simp: pending_def filter_empty_conv)
    then have "subseq (delivered w i) (history w i)"
      using f [of i] s(1) subseq_order.order_trans [of "delivered w i" "delivered w i @ queued i w" "history w i"]
      by (auto simp: flow_def)
    then have "flow k w'" for k
      using f [of k] s \<open>pending i w = []\<close> by (auto simp: flow_def queued_def pending_def)
    moreover have "fresh_ids w'" using r s(3) by (auto simp: fresh_ids_def)
    ultimately show ?thesis by blast
  next
    case (ProxyRun i)
    with assms(1) have "on_proxy i (\<lambda>p. map_option (\<lambda>p'. (p', None)) (px_run p)) w = Some w'" by simp
    from flow_proxy [OF this f r] show ?thesis by blast
  next
    case (ProxyWritten i ok)
    with assms(1) have "on_proxy i (\<lambda>p. map_option (\<lambda>p'. (p', None)) (px_written ok p)) w = Some w'" by simp
    from flow_proxy [OF this f r] show ?thesis by blast
  next
    case (ProxyRead i e)
    with assms(1) have "on_proxy i (\<lambda>p. Some (px_on_read e p)) w = Some w'" by simp
    from flow_proxy [OF this f r] show ?thesis by blast
  qed
qed

lemma flowing_start: "flowing (ws_start a)"
  by (simp add: flowing_def ws_start_def flow_def queued_def pending_def fresh_ids_def)

lemma flowing_step: "flowing w \<Longrightarrow> ws_step w w' \<Longrightarrow> flowing w'"
proof -
  assume w: "flowing w" and "ws_step w w'"
  then obtain act where x: "ws_exec act w = Some w'" by (auto simp: ws_step_def)
  have "bound.holds_all w" using w by (simp add: flowing_def bound.holds_all_def)
  then have "bound.holds_all w'" by (rule bound.step_keeps [OF x])
  with flow_step [OF x w] show "flowing w'" by (simp add: flowing_def bound.holds_all_def)
qed

lemma flow_reachable:
  assumes "steps ws_step (ws_start a) w"
  shows "flow i w"
proof -
  have "flowing w" using assms flowing_start by (rule steps_invariant) (rule flowing_step)
  then show ?thesis by (simp add: flowing_def)
qed

text \<open>C28. Messages reach a websocket client in order, once each and without gaps: in every reachable state what has been
  delivered to a session, what is in its queue and what is still posted for it make up a subsequence of the texts
  it was sent, and all of them as long as the server has not closed the connection; a queue never holds more
  than 512 texts and never more than 30 commands count against the rate limit.
\<close>

theorem ws_delivers_in_order:
  assumes "steps ws_step (ws_start a) w" and "sessions w i = Some s"
  shows "subseq (delivered w i @ ws_queue s @ pending i w) (history w i)
    \<and> (ws_closed s \<or> delivered w i @ ws_queue s @ pending i w = history w i)
    \<and> length (ws_queue s) \<le> kMaxPendingMessages \<and> length (cmd_timestamps s) \<le> kMaxCommandsPerWindow"
  using flow_reachable [OF assms(1), of i] session_bounds [OF assms] assms(2) by (auto simp: flow_def queued_def)

subsection \<open>The rate limit\<close>

text \<open>The arrivals of the commands that are admitted, of those that arrive at the given arrivals.\<close>

fun accepted :: "int list \<Rightarrow> int list \<Rightarrow> int list" where
  "accepted ts [] = []"
| "accepted ts (t # arrivals) =
     (case admit t ts of (ok, ts') \<Rightarrow> (if ok then t # accepted ts' arrivals else accepted ts' arrivals))"

lemma rate_limit_closes:
  assumes "admit (we_now_ns E) (cmd_timestamps s) = (False, ts)"
  shows "handle_command E payload s a = (s\<lparr>cmd_timestamps := ts\<rparr>, [CloseWs ''rate limit'', RemoveSession], a)"
  using assms by (simp add: handle_command_def)

definition spaced :: "int list \<Rightarrow> bool" where
  "spaced ls \<longleftrightarrow> (\<forall>k. k + kMaxCommandsPerWindow < length ls \<longrightarrow> kWindow < ls ! (k + kMaxCommandsPerWindow) - ls ! k)"

lemma spaced_snoc:
  assumes "spaced (old @ ts)" and "length ts < kMaxCommandsPerWindow" and "\<forall>x \<in> set old. kWindow < t - x"
  shows "spaced (old @ ts @ [t])"
  unfolding spaced_def
proof (intro allI impI)
  fix k assume k: "k + kMaxCommandsPerWindow < length (old @ ts @ [t])"
  show "kWindow < (old @ ts @ [t]) ! (k + kMaxCommandsPerWindow) - (old @ ts @ [t]) ! k"
  proof (cases "k + kMaxCommandsPerWindow < length (old @ ts)")
    case True
    then have "(old @ ts @ [t]) ! (k + kMaxCommandsPerWindow) = (old @ ts) ! (k + kMaxCommandsPerWindow)"
      "(old @ ts @ [t]) ! k = (old @ ts) ! k"
      using nth_append [of "old @ ts" "[t]"] by simp_all
    with assms(1) True show ?thesis by (simp add: spaced_def)
  next
    case False
    with k have e: "k + kMaxCommandsPerWindow = length (old @ ts)" by simp
    then have "k < length old" using assms(2) by simp
    then have "(old @ ts @ [t]) ! k = old ! k" "old ! k \<in> set old" by (simp_all add: nth_append)
    moreover have "(old @ ts @ [t]) ! (k + kMaxCommandsPerWindow) = t" unfolding e by (simp add: nth_append)
    ultimately show ?thesis using assms(3) by simp
  qed
qed

lemma accepted_spaced:
  assumes "sorted arrivals" and "spaced (old @ ts)" and "\<forall>x \<in> set old. \<forall>t \<in> set arrivals. kWindow < t - x"
  shows "spaced (old @ ts @ accepted ts arrivals)"
  using assms
proof (induction arrivals arbitrary: old ts)
  case (Cons t arrivals)
  define old' where "old' = old @ takeWhile (\<lambda>x. kWindow < t - x) ts"
  define ts' where "ts' = dropWhile (\<lambda>x. kWindow < t - x) ts"
  have eq: "old' @ ts' = old @ ts" by (simp add: old'_def ts'_def)
  have now: "\<forall>x \<in> set old'. kWindow < t - x" using Cons.prems(3) by (auto simp: old'_def dest: set_takeWhileD)
  have later: "\<forall>x \<in> set old'. \<forall>u \<in> set arrivals. kWindow < u - x"
  proof (intro ballI)
    fix x u assume "x \<in> set old'" "u \<in> set arrivals"
    then have "kWindow < t - x" "t \<le> u" using now Cons.prems(1) by auto
    then show "kWindow < u - x" by simp
  qed
  have s: "sorted arrivals" using Cons.prems(1) by simp
  show ?case
  proof (cases "kMaxCommandsPerWindow \<le> length ts'")
    case True
    then have "accepted ts (t # arrivals) = accepted ts' arrivals" by (simp add: admit_def ts'_def Let_def)
    then show ?thesis using Cons.IH [OF s _ later, of ts'] Cons.prems(2) eq by (metis append_assoc)
  next
    case False
    then have a: "accepted ts (t # arrivals) = t # accepted (ts' @ [t]) arrivals" by (simp add: admit_def ts'_def Let_def)
    have "spaced (old' @ ts' @ [t])"
      using spaced_snoc [of old' ts' t] Cons.prems(2) False now eq by simp
    then have "spaced (old' @ (ts' @ [t]) @ accepted (ts' @ [t]) arrivals)" by (intro Cons.IH [OF s _ later]) simp
    then show ?thesis using eq a by (metis append_assoc append_Cons append_Nil)
  qed
qed simp

text \<open>The rate limit holds over every window, not only over fixed ones: of the commands a session admits, in the
  order of their arrival, the thirtieth after any command comes more than ten seconds after it; every other
  command closes the connection.
\<close>

theorem ws_rate_limited:
  assumes "sorted arrivals" and "k + kMaxCommandsPerWindow < length (accepted [] arrivals)"
  shows "kWindow < accepted [] arrivals ! (k + kMaxCommandsPerWindow) - accepted [] arrivals ! k"
proof -
  have "spaced (accepted [] arrivals)" using accepted_spaced [OF assms(1), of "[]" "[]"] by (simp add: spaced_def)
  with assms(2) show ?thesis by (simp add: spaced_def)
qed

definition demo_times :: "int list" where
  "demo_times = map (\<lambda>n. int n * 10 ^ 9) ([0..<30] @ [41])"

theorem ws_rate_limited_witness:
  "sorted demo_times \<and> 30 < length (accepted [] demo_times)
     \<and> kWindow < accepted [] demo_times ! 30 - accepted [] demo_times ! 0"
proof -
  have s: "sorted demo_times" by code_simp
  have l: "0 + kMaxCommandsPerWindow < length (accepted [] demo_times)" by code_simp
  show ?thesis using ws_rate_limited [OF s l] s l by simp
qed

subsection \<open>An example\<close>

definition demo_auth :: AuthManager where
  "demo_auth = new_auth\<lparr>m_users := [''u'' \<mapsto> \<lparr>username = ''u'', password = ''p'', is_admin = False\<rparr>],
     m_sessions := [''t'' \<mapsto> \<lparr>s_username = ''u'', expire_time = 100\<rparr>]\<rparr>"

text \<open>The texts \<open>''a''\<close> (with a token) and \<open>''s''\<close> (a subscription).\<close>

definition demo_ws_env :: ws_env where
  "demo_ws_env = \<lparr>we_parse = (\<lambda>t. if t = ''a'' then Inr (JObj [''token'' \<mapsto> JStr ''t''])
      else if t = ''s'' then Inr (JObj [''op'' \<mapsto> JStr ''subscribe'', ''topic'' \<mapsto> JStr ''task_logs'', ''task_id'' \<mapsto> JStr ''x''])
      else Inl ''bad''),
     we_now_ns = 0, we_now_ms = 0, we_now_auth = 0, we_order = [], we_registry = new_registry ''least_load'',
     we_connects = (\<lambda>_ _. False)\<rparr>"

fun ws_run :: "ws_act list \<Rightarrow> ws_world \<Rightarrow> ws_world option" where
  "ws_run [] w = Some w"
| "ws_run (a # as) w = (case ws_exec a w of Some w' \<Rightarrow> ws_run as w' | None \<Rightarrow> None)"

lemma ws_run_steps: "ws_run acts w = Some w' \<Longrightarrow> steps ws_step w w'"
proof (induction acts arbitrary: w)
  case (Cons a acts)
  then obtain w1 where a: "ws_exec a w = Some w1" "ws_run acts w1 = Some w'" by (auto split: option.splits)
  have "steps ws_step w w1" by (rule steps_one) (use a(1) in \<open>auto simp: ws_step_def\<close>)
  from this Cons.IH [OF a(2)] show ?case by (rule steps_trans)
qed simp

text \<open>Two clients; the first logs in and subscribes, a broadcast to its channel is written.\<close>

definition demo_acts :: "ws_act list" where
  "demo_acts = [Accept, Accept, Read 0 (ReadText ''a'') demo_ws_env, Read 0 (ReadText ''s'') demo_ws_env,
     BroadcastChannel ''task.logs.x'' ''m'', RunPosted, RunPosted, WriteDone 0 True]"

definition demo_ws_view :: "ws_world option \<Rightarrow> (string list \<times> string list \<times> string list \<times> string list) option" where
  "demo_ws_view ow =
     (case ow of
        Some w \<Rightarrow> (case (sessions w 0, sessions w 1) of
                    (Some s, Some s') \<Rightarrow>
                      (if authed s \<and> \<not> authed s' \<and> \<not> ws_closed s
                       then Some (delivered w 0, ws_queue s, history w 0, history w 1) else None)
                  | _ \<Rightarrow> None)
      | None \<Rightarrow> None)"

lemma demo_ws_run:
  "demo_ws_view (ws_run demo_acts (ws_start demo_auth))
     = Some ([''{\"type\":\"authed\"}''], [''m''], [''{\"type\":\"authed\"}'', ''m''], [])"
  by code_simp

lemma demo_ws_reach:
  obtains w s s' where "steps ws_step (ws_start demo_auth) w" "sessions w 0 = Some s" "sessions w 1 = Some s'"
    "authed s" "\<not> authed s'" "\<not> ws_closed s" "delivered w 0 = [''{\"type\":\"authed\"}'']" "ws_queue s = [''m'']"
    "history w 0 = [''{\"type\":\"authed\"}'', ''m'']"
proof -
  obtain w where w: "ws_run demo_acts (ws_start demo_auth) = Some w"
    using demo_ws_run by (cases "ws_run demo_acts (ws_start demo_auth)") (auto simp: demo_ws_view_def)
  then show ?thesis
    using demo_ws_run ws_run_steps [OF w] that by (auto simp: demo_ws_view_def split: option.splits if_splits)
qed

theorem ws_delivers_in_order_witness:
  "\<exists>w s. steps ws_step (ws_start demo_auth) w \<and> sessions w 0 = Some s
     \<and> delivered w 0 @ ws_queue s @ pending 0 w = history w 0 \<and> history w 0 = [''{\"type\":\"authed\"}'', ''m'']"
proof -
  obtain w s where w: "steps ws_step (ws_start demo_auth) w" "sessions w 0 = Some s" "\<not> ws_closed s"
    "history w 0 = [''{\"type\":\"authed\"}'', ''m'']"
    using demo_ws_reach by metis
  then show ?thesis using ws_delivers_in_order [OF w(1,2)] by blast
qed

theorem ws_channels_guarded_witness:
  "\<exists>w s. steps ws_step (ws_start demo_auth) w \<and> sessions w 1 = Some s \<and> \<not> authed s
     \<and> history (broadcast_channel ''task.logs.x'' ''m'' w) 1 = history w 1 \<and> \<not> proxy_mode s"
proof -
  obtain w s where w: "steps ws_step (ws_start demo_auth) w" "sessions w 1 = Some s" "\<not> authed s"
    using demo_ws_reach by metis
  obtain s' ef a' where h: "handle_command demo_ws_env ''a'' s demo_auth = (s', ef, a')"
    by (cases "handle_command demo_ws_env ''a'' s demo_auth")
  show ?thesis using ws_channels_guarded [OF w h, of "''task.logs.x''" "''m''"] w by blast
qed

end
