(* ===== verification/Log_Api.thy ===== *)
theory Log_Api
  imports Task_Log Ws_Protocol Run_Api
begin

text \<open>
  \<^verbatim>\<open>handlers/log_handler.cpp\<close>: the handler that answers a page of a task's log, and the client that follows
  its \<^verbatim>\<open>next_from\<close>.  A request is its query parameters.
\<close>

text \<open>\<^verbatim>\<open>std::stoull\<close> takes a sign: a negative number is counted back from $2^{64}$.\<close>

definition parse_u64_or :: "string \<Rightarrow> nat \<Rightarrow> nat" where
  "parse_u64_or s d =
     (case leading_int s of
        None \<Rightarrow> d
      | Some v \<Rightarrow> if 2 ^ 64 \<le> \<bar>v\<bar> then d else nat (v mod 2 ^ 64))"

definition parse_i32_or :: "string \<Rightarrow> int \<Rightarrow> int" where
  "parse_i32_or s d = (case stoi s of Inr n \<Rightarrow> n | Inl _ \<Rightarrow> d)"

definition text_member :: "string \<Rightarrow> string \<Rightarrow> (string \<rightharpoonup> json) \<Rightarrow> (string \<rightharpoonup> json)" where
  "text_member k v m = (if v = [] then m else m(k \<mapsto> JStr v))"

definition logRecordToJson :: "LogRecord \<Rightarrow> json" where
  "logRecordToJson r =
     JObj ((text_member ''run_id'' (tid_runId (rec_taskId r)) (text_member ''dag_run_id'' (rec_dagRunId r)
            (text_member ''cron_job_id'' (rec_cronJobId r) (text_member ''worker_id'' (rec_workerId r) Map.empty))))
       (''seq'' \<mapsto> JInt (int (rec_seq r)), ''task_id'' \<mapsto> JStr (tid_value (rec_taskId r)),
        ''level'' \<mapsto> JInt (level_int (rec_level r)), ''stream'' \<mapsto> JInt (stream_int (rec_stream r)),
        ''message'' \<mapsto> JStr (rec_message r), ''ts_ms'' \<mapsto> JInt (rec_ts r), ''duration_ms'' \<mapsto> JInt (rec_durationMs r),
        ''attempt'' \<mapsto> JInt (rec_attempt r), ''fields'' \<mapsto> strings_obj (rec_fields r)))"

definition log_from :: "(string \<rightharpoonup> string) \<Rightarrow> nat" where
  "log_from params = (case params ''from'' of Some s \<Rightarrow> parse_u64_or s 1 | None \<Rightarrow> 1)"

definition log_limit :: "(string \<rightharpoonup> string) \<Rightarrow> int" where
  "log_limit params = clamp (case params ''limit'' of Some s \<Rightarrow> parse_i32_or s 200 | None \<Rightarrow> 200) 1 2000"

definition log_handler_query :: "(string \<rightharpoonup> string) \<Rightarrow> LogManager \<Rightarrow> response" where
  "log_handler_query params m =
     (case params ''task_id'' of
        None \<Rightarrow> bad_request ''missing task_id'' 400
      | Some taskId \<Rightarrow>
          (let fromSeq = log_from params;
               limit = log_limit params;
               qr = lm_query (TaskId taskId (http_get_str params ''run_id'')) fromSeq (nat limit) m
           in resp_ok (JObj [''task_id'' \<mapsto> JStr taskId, ''from'' \<mapsto> JInt (int fromSeq), ''limit'' \<mapsto> JInt limit,
                             ''next_from'' \<mapsto> JInt (int (nextFrom qr)),
                             ''records'' \<mapsto> JArr (map logRecordToJson (records qr))])))"

subsection \<open>A client that follows the log\<close>

text \<open>What a client reads of an answer: the records and where to go on.\<close>

definition page_of :: "response \<Rightarrow> (json list \<times> int) option" where
  "page_of r =
     (case member ''data'' (resp_body r) of
        Some d \<Rightarrow>
          (case (member ''records'' d, member ''next_from'' d) of
             (Some (JArr js), Some (JInt n)) \<Rightarrow> Some (js, n)
           | _ \<Rightarrow> None)
      | None \<Rightarrow> None)"

text \<open>It asks again with the number of the last answer until a page is empty.\<close>

fun follow_log :: "nat \<Rightarrow> (string \<rightharpoonup> string) \<Rightarrow> LogManager \<Rightarrow> json list" where
  "follow_log 0 params m = []"
| "follow_log (Suc n) params m =
     (case page_of (log_handler_query params m) of
        Some (js, next) \<Rightarrow>
          (if js = [] then [] else js @ follow_log n (params(''from'' \<mapsto> to_string_int next)) m)
      | None \<Rightarrow> [])"

lemma parse_u64_to_string: "n < 2 ^ 64 \<Longrightarrow> parse_u64_or (to_string_int (int n)) d = n"
proof -
  assume n: "n < 2 ^ 64"
  then have "int n < 2 ^ 64" by (metis of_nat_less_iff of_nat_numeral of_nat_power)
  then show ?thesis by (simp add: parse_u64_or_def)
qed

lemma log_limit_bounds: "1 \<le> log_limit params" "log_limit params \<le> 2000"
  by (auto simp: log_limit_def clamp_def)

lemma page_of_query:
  assumes "params ''task_id'' = Some t"
  shows "page_of (log_handler_query params m) =
    (let qr = lm_query (TaskId t (http_get_str params ''run_id'')) (log_from params) (nat (log_limit params)) m
     in Some (map logRecordToJson (records qr), int (nextFrom qr)))"
  using assms by (simp add: log_handler_query_def page_of_def resp_ok_def resp_json_def Let_def)

text \<open>Following the log through the handler is paging through the buffer.\<close>

lemma follow_log_pages:
  assumes "lm_buffer m = Some b" and "params ''task_id'' = Some t"
    and "\<And>f l. nextFrom (log_get (TaskId t (http_get_str params ''run_id'')) f l b) < 2 ^ 64
           \<or> records (log_get (TaskId t (http_get_str params ''run_id'')) f l b) = []"
  shows "follow_log n params m =
    map logRecordToJson (pages n (TaskId t (http_get_str params ''run_id'')) (nat (log_limit params)) (log_from params) b)"
  using assms(2,3)
proof (induction n arbitrary: params)
  case (Suc n)
  let ?i = "TaskId t (http_get_str params ''run_id'')"
  define qr where "qr = log_get ?i (log_from params) (nat (log_limit params)) b"
  define params' where "params' = params(''from'' \<mapsto> to_string_int (int (nextFrom qr)))"
  have same: "params' ''task_id'' = Some t" "http_get_str params' ''run_id'' = http_get_str params ''run_id''"
      "log_limit params' = log_limit params"
    using Suc.prems(1) by (simp_all add: params'_def http_get_str_def log_limit_def)
  have pg: "page_of (log_handler_query params m) = Some (map logRecordToJson (records qr), int (nextFrom qr))"
    by (simp add: page_of_query [where params = params, OF Suc.prems(1)] lm_query_def assms(1) qr_def Let_def)
  show ?case
  proof (cases "records qr = []")
    case True
    then show ?thesis using pg by (simp add: qr_def [symmetric] Let_def)
  next
    case False
    then have "nextFrom qr < 2 ^ 64" using Suc.prems(2) unfolding qr_def by blast
    then have f: "log_from params' = nextFrom qr"
      using parse_u64_to_string by (simp add: log_from_def params'_def)
    have "follow_log n params' m = map logRecordToJson (pages n ?i (nat (log_limit params)) (nextFrom qr) b)"
      using Suc.IH [where params = params', OF same(1)] Suc.prems(2) unfolding same f by blast
    then show ?thesis using pg False by (simp add: qr_def [symmetric] Let_def params'_def)
  qed
qed simp

lemma log_get_next:
  assumes "records (log_get i f l (appends rs (mk_TaskLogBuffer mx))) \<noteq> []"
  shows "nextFrom (log_get i f l (appends rs (mk_TaskLogBuffer mx))) \<le> length rs + 1"
proof -
  let ?b = "appends rs (mk_TaskLogBuffer mx)" and ?K = "for_key (log_key i) rs"
  obtain p where p: "bufs ?b (log_key i) = Some p" "pb_q p \<noteq> []"
    using assms by (auto simp: log_get_def split: option.splits if_splits)
  define xs where "xs = get_loop l f [] (pb_q p)"
  have xs: "xs \<noteq> []" "nextFrom (log_get i f l ?b) = rec_seq (last xs) + 1"
    using assms p by (auto simp: log_get_def Let_def xs_def)
  have "last xs \<in> set (pb_q p)"
    using last_in_set [OF xs(1)] by (auto simp: xs_def get_loop_take dest: in_set_takeD)
  then have "last xs \<in> set (numbered ?K)"
    using log_keeps_latest [where rs = rs and mx = mx and i = i] p(1) by (auto dest: in_set_dropD)
  then have "rec_seq (last xs) \<le> length ?K" by (auto simp: numbered_def stored_as_def)
  moreover have "length ?K \<le> length rs" unfolding for_key_def by (rule order_trans [OF length_filter_le]) simp
  ultimately show ?thesis using xs(2) by simp
qed



end
