(* ===== verification/Log_File.thy ===== *)
theory Log_File
  imports Log_Record "HOL-Library.Multiset" "HOL-Library.Sublist"
begin

text \<open>
  \<^verbatim>\<open>log/log_rotation.cpp\<close> and \<^verbatim>\<open>log/log_sink_file.cpp\<close>: the sink that writes a line per record, and the rotation
  of its file.  The model is the directory the log is in: a list of files with their text and time of last
  writing; a path is the name of a file in it.  The order of the list is the order in which the directory is
  read, which is unspecified.  A stream keeps some of what was written to it until it is closed or flushed.
  File operations succeed, and sizes are natural numbers (64 bits in the source).
\<close>

subsection \<open>A directory\<close>

record LogFile =
  lf_text :: string
  lf_mtime :: int

type_synonym dir = "(string \<times> LogFile) list"

definition dir_get :: "string \<Rightarrow> dir \<Rightarrow> LogFile option" where
  "dir_get n d = map_of d n"

definition dir_del :: "string \<Rightarrow> dir \<Rightarrow> dir" where
  "dir_del n d = filter (\<lambda>e. fst e \<noteq> n) d"

definition dir_put :: "string \<Rightarrow> LogFile \<Rightarrow> dir \<Rightarrow> dir" where
  "dir_put n f d = (n, f) # dir_del n d"

text \<open>\<^verbatim>\<open>rename_\<close> replaces a file of the new name, and writing appends.\<close>

definition rename_file :: "string \<Rightarrow> string \<Rightarrow> dir \<Rightarrow> dir" where
  "rename_file old new d = (case dir_get old d of None \<Rightarrow> d | Some f \<Rightarrow> dir_put new f (dir_del old d))"

definition append_file :: "int \<Rightarrow> string \<Rightarrow> string \<Rightarrow> dir \<Rightarrow> dir" where
  "append_file now n t d =
     (case dir_get n d of
        None \<Rightarrow> d
      | Some f \<Rightarrow> if t = [] then d else dir_put n \<lparr>lf_text = lf_text f @ t, lf_mtime = now\<rparr> d)"

definition open_append :: "int \<Rightarrow> string \<Rightarrow> dir \<Rightarrow> dir" where
  "open_append now n d = (case dir_get n d of None \<Rightarrow> dir_put n \<lparr>lf_text = [], lf_mtime = now\<rparr> d | Some _ \<Rightarrow> d)"

subsection \<open>Rotation\<close>

record RotationPolicy =
  maxBytes :: nat
  maxFiles :: int

definition shouldRotate :: "RotationPolicy \<Rightarrow> nat \<Rightarrow> nat \<Rightarrow> bool" where
  "shouldRotate p currentSize addSize \<longleftrightarrow> maxBytes p \<noteq> 0 \<and> maxBytes p < currentSize + addSize"

text \<open>The text of the clock may change while the loop looks for a free name.\<close>

definition makeRotatedName :: "string \<Rightarrow> (nat \<Rightarrow> string) \<Rightarrow> nat \<Rightarrow> string" where
  "makeRotatedName base stamp i = base @ ''.'' @ stamp i @ ''.'' @ nat_digits i"

definition rotated_path :: "string \<Rightarrow> (nat \<Rightarrow> string) \<Rightarrow> dir \<Rightarrow> string" where
  "rotated_path base stamp d =
     (case find (\<lambda>i. dir_get (makeRotatedName base stamp i) d = None) [1..<10000] of
        Some i \<Rightarrow> makeRotatedName base stamp i
      | None \<Rightarrow> makeRotatedName base stamp 9999)"

definition is_rotated :: "string \<Rightarrow> string \<Rightarrow> bool" where
  "is_rotated base n = (take (length base + 1) n = base @ ''.'')"

text \<open>\<^verbatim>\<open>std::sort\<close> by time; files of one time are left in the order of the directory.\<close>

definition prune_dir :: "RotationPolicy \<Rightarrow> string \<Rightarrow> dir \<Rightarrow> dir" where
  "prune_dir p base d =
     (if maxFiles p \<le> 0 then d
      else (let rotated = sort_key (\<lambda>e. lf_mtime (snd e)) (filter (\<lambda>e. is_rotated base (fst e)) d)
            in foldl (\<lambda>v e. dir_del (fst e) v) d (take (length rotated - nat (maxFiles p)) rotated)))"

definition rotate_log :: "RotationPolicy \<Rightarrow> string \<Rightarrow> (nat \<Rightarrow> string) \<Rightarrow> dir \<Rightarrow> dir" where
  "rotate_log p base stamp d =
     (if dir_get base d = None then d
      else prune_dir p base (rename_file base (rotated_path base stamp d) d))"

subsection \<open>The sink\<close>

record FileLogSink =
  fs_path :: string
  fs_policy :: RotationPolicy
  fs_flushEachLine :: bool
  fs_open :: bool
  fs_buf :: string

text \<open>What a record meets: the times at which the old file is closed and the new one written, the text of the
  clock, and how many of the buffered bytes the stream passes on.\<close>

record sink_env =
  se_close :: int
  se_write :: int
  se_stamp :: "nat \<Rightarrow> string"
  se_taken :: nat

definition mk_FileLogSink :: "string \<Rightarrow> nat \<Rightarrow> int \<Rightarrow> bool \<Rightarrow> FileLogSink" where
  "mk_FileLogSink path rotateBytes files flush =
     \<lparr>fs_path = path, fs_policy = \<lparr>maxBytes = rotateBytes, maxFiles = files\<rparr>, fs_flushEachLine = flush,
      fs_open = False, fs_buf = []\<rparr>"

definition ensureOpen :: "int \<Rightarrow> FileLogSink \<times> dir \<Rightarrow> FileLogSink \<times> dir" where
  "ensureOpen now sd =
     (case sd of (s, d) \<Rightarrow>
        if fs_open s \<or> fs_path s = [] then (s, d)
        else (s\<lparr>fs_open := True\<rparr>, open_append now (fs_path s) d))"

definition close_stream :: "int \<Rightarrow> FileLogSink \<times> dir \<Rightarrow> FileLogSink \<times> dir" where
  "close_stream now sd =
     (case sd of (s, d) \<Rightarrow>
        if fs_open s then (s\<lparr>fs_open := False, fs_buf := []\<rparr>, append_file now (fs_path s) (fs_buf s) d) else (s, d))"

definition doRotate :: "sink_env \<Rightarrow> FileLogSink \<times> dir \<Rightarrow> FileLogSink \<times> dir" where
  "doRotate E sd =
     (case close_stream (se_close E) sd of
        (s, d) \<Rightarrow> (s\<lparr>fs_open := True\<rparr>,
                   open_append (se_write E) (fs_path s) (rotate_log (fs_policy s) (fs_path s) (se_stamp E) d)))"

definition rotateIfNeeded :: "sink_env \<Rightarrow> nat \<Rightarrow> FileLogSink \<times> dir \<Rightarrow> FileLogSink \<times> dir" where
  "rotateIfNeeded E addBytes sd =
     (case sd of (s, d) \<Rightarrow>
        if maxBytes (fs_policy s) = 0 then (s, d)
        else (case dir_get (fs_path s) d of
                None \<Rightarrow> (s, d)
              | Some f \<Rightarrow> if shouldRotate (fs_policy s) (length (lf_text f)) addBytes then doRotate E (s, d) else (s, d)))"

definition write_line :: "sink_env \<Rightarrow> string \<Rightarrow> FileLogSink \<times> dir \<Rightarrow> FileLogSink \<times> dir" where
  "write_line E line sd =
     (case sd of (s, d) \<Rightarrow>
        if fs_open s then
          (let b = fs_buf s @ line @ [CHR 0x0A];
               n = (if fs_flushEachLine s then length b else se_taken E)
           in (s\<lparr>fs_buf := drop n b\<rparr>, append_file (se_write E) (fs_path s) (take n b) d))
        else (s, d))"

definition consume_line :: "sink_env \<Rightarrow> string \<Rightarrow> FileLogSink \<times> dir \<Rightarrow> FileLogSink \<times> dir" where
  "consume_line E line sd =
     write_line E line (rotateIfNeeded E (length line + 1) (ensureOpen (se_close E) sd))"

definition sink_consume ::
  "(int \<Rightarrow> string) \<Rightarrow> string list \<Rightarrow> sink_env \<Rightarrow> LogRecord \<Rightarrow> FileLogSink \<times> dir \<Rightarrow> FileLogSink \<times> dir" where
  "sink_consume fmt_ts order E r sd = consume_line E (formatLine fmt_ts order r) sd"

subsection \<open>The files of a log\<close>

text \<open>\<open>log_view n f rot d\<close>: the directory holds the log \<open>n\<close>, which is \<open>f\<close>, and the rotated files \<open>rot\<close>.\<close>

definition log_view :: "string \<Rightarrow> LogFile \<Rightarrow> dir \<Rightarrow> dir \<Rightarrow> bool" where
  "log_view n f rot d \<longleftrightarrow>
     mset d = mset ((n, f) # rot) \<and> distinct (n # map fst rot) \<and> (\<forall>e \<in> set rot. is_rotated n (fst e))"

lemma is_rotated_name [simp]: "is_rotated n (makeRotatedName n stamp i)" "\<not> is_rotated n n"
  by (simp_all add: is_rotated_def makeRotatedName_def)

lemma distinct_of_mset: "mset d = mset e \<Longrightarrow> distinct (map fst e) \<Longrightarrow> distinct (map fst d)"
  by (metis mset_eq_imp_distinct_iff mset_map)

lemma dir_get_mem: "distinct (map fst d) \<Longrightarrow> (n, f) \<in> set d \<Longrightarrow> dir_get n d = Some f"
  by (simp add: dir_get_def)

lemma dir_get_None [simp]: "dir_get n d = None \<longleftrightarrow> n \<notin> fst ` set d"
  by (simp add: dir_get_def map_of_eq_None_iff)

lemma mset_dir_del:
  assumes "mset d = mset ((n, f) # rot)" and "n \<notin> fst ` set rot"
  shows "mset (dir_del n d) = mset rot"
proof -
  have "mset (dir_del n d) = filter_mset (\<lambda>e. fst e \<noteq> n) (mset ((n, f) # rot))"
    by (simp only: dir_del_def mset_filter assms(1))
  also have "\<dots> = mset (filter (\<lambda>e. fst e \<noteq> n) rot)" by simp
  also have "filter (\<lambda>e. fst e \<noteq> n) rot = rot" using assms(2) by (auto simp: filter_id_conv)
  finally show ?thesis .
qed

lemma dir_del_absent: "n \<notin> fst ` set d \<Longrightarrow> dir_del n d = d"
  by (auto simp: dir_del_def filter_id_conv)

lemma log_view_set: "log_view n f rot d \<Longrightarrow> set d = insert (n, f) (set rot)"
  using mset_eq_setD [of d "(n, f) # rot"] by (simp add: log_view_def)

lemma log_view_get: "log_view n f rot d \<Longrightarrow> dir_get n d = Some f"
  by (rule dir_get_mem, rule distinct_of_mset [where e = "(n, f) # rot"]) (simp_all add: log_view_set, simp_all add: log_view_def)

lemma log_view_put: "log_view n f rot d \<Longrightarrow> log_view n g rot (dir_put n g d)"
  using mset_dir_del [of d n f rot] by (auto simp: log_view_def dir_put_def)

lemma log_view_append:
  "log_view n f rot d \<Longrightarrow>
   log_view n (if t = [] then f else \<lparr>lf_text = lf_text f @ t, lf_mtime = now\<rparr>) rot (append_file now n t d)"
  using log_view_put [of n f rot d] by (simp add: append_file_def log_view_get)

lemma makeRotatedName_inj: "makeRotatedName n stamp i = makeRotatedName n stamp j \<Longrightarrow> i = j"
proof -
  have dotless: "CHR ''.'' \<notin> set (nat_digits k)" for k
    using nat_digits_all_digits [of k] by (auto simp: list_all_iff is_digit_def)
  have suf: "takeWhile (\<lambda>c. c \<noteq> CHR ''.'') (rev (makeRotatedName n stamp k)) = rev (nat_digits k)" for k
    using dotless [of k] by (auto simp: makeRotatedName_def takeWhile_append takeWhile_eq_all_conv)
  assume "makeRotatedName n stamp i = makeRotatedName n stamp j"
  then have "nat_digits i = nat_digits j" using suf [of i] suf [of j] by simp
  then show "i = j" by (metis digits_val_nat_digits)
qed

text \<open>Among 9999 candidates one is free while there are fewer files.\<close>

lemma rotated_path_free:
  assumes "log_view n f rot d" and "length rot < 9999"
  shows "rotated_path n stamp d \<notin> fst ` set d \<and> is_rotated n (rotated_path n stamp d)"
proof -
  let ?name = "makeRotatedName n stamp" and ?I = "{1..<10000::nat}"
  note d = log_view_set [OF assms(1)]
  have "\<not> ?name ` ?I \<subseteq> fst ` set rot"
  proof
    assume sub: "?name ` ?I \<subseteq> fst ` set rot"
    have "card (?name ` ?I) = 9999" by (subst card_image) (auto intro!: inj_onI dest: makeRotatedName_inj)
    then have "9999 \<le> card (fst ` set rot)" using card_mono [OF _ sub] by simp
    also have "\<dots> \<le> length rot" by (metis card_length image_set length_map)
    finally show False using assms(2) by simp
  qed
  then obtain i where "i \<in> ?I" and new: "?name i \<notin> fst ` set rot" by blast
  then have i: "i \<in> set [1..<10000]" by simp
  have ne: "?name k \<noteq> n" for k by (metis is_rotated_name)
  have "find (\<lambda>i. dir_get (?name i) d = None) [1..<10000] \<noteq> None"
    unfolding find_None_iff using i new ne [of i] d by auto
  then obtain k where k: "find (\<lambda>i. dir_get (?name i) d = None) [1..<10000] = Some k" by blast
  then have "dir_get (?name k) d = None" by (auto simp: find_Some_iff)
  then show ?thesis using k by (simp add: rotated_path_def)
qed

lemma mset_rename:
  assumes "log_view n f rot d" and "new \<notin> fst ` set d"
  shows "mset (rename_file n new d) = mset (rot @ [(new, f)])"
proof -
  have del: "mset (dir_del n d) = mset rot" using mset_dir_del assms(1) by (auto simp: log_view_def)
  then have "new \<notin> fst ` set (dir_del n d)" using assms(2) by (auto simp: dir_del_def)
  then show ?thesis
    using del by (simp add: rename_file_def log_view_get [OF assms(1)] dir_put_def dir_del_absent)
qed

lemma mset_dels:
  "mset d = mset (xs @ ys) \<Longrightarrow> distinct (map fst (xs @ ys)) \<Longrightarrow> mset (foldl (\<lambda>v e. dir_del (fst e) v) d xs) = mset ys"
proof (induction xs arbitrary: d)
  case (Cons e xs)
  have "mset (dir_del (fst e) d) = mset (xs @ ys)"
    by (rule mset_dir_del [where f = "snd e"]) (use Cons.prems in auto)
  then show ?case using Cons.IH Cons.prems(2) by simp
qed simp

lemma mset_prune:
  assumes "mset d = mset rot" and "\<forall>e \<in> set rot. is_rotated n (fst e)" and "distinct (map fst rot)"
    and "sorted_wrt (<) (map (lf_mtime \<circ> snd) rot)" and "0 < maxFiles p"
  shows "mset (prune_dir p n d) = mset (drop (length rot - nat (maxFiles p)) rot)"
proof -
  have "set d = set rot" using assms(1) by (rule mset_eq_setD)
  then have fl: "filter (\<lambda>e. is_rotated n (fst e)) d = d" using assms(2) by (auto simp: filter_id_conv)
  have o: "sorted_wrt (<) (map (\<lambda>e. lf_mtime (snd e)) rot)" using assms(4) by (simp add: comp_def)
  then have "distinct (map (\<lambda>e. lf_mtime (snd e)) rot)" "sorted (map (\<lambda>e. lf_mtime (snd e)) rot)"
    by (simp_all add: strict_sorted_iff)
  then have sk: "sort_key (\<lambda>e. lf_mtime (snd e)) d = rot"
    using assms(1) \<open>set d = set rot\<close> by (intro sort_key_inj_key_eq) (simp_all add: distinct_map)
  have p: "prune_dir p n d = foldl (\<lambda>v e. dir_del (fst e) v) d (take (length rot - nat (maxFiles p)) rot)"
    using assms(5) by (simp add: prune_dir_def fl sk Let_def)
  show ?thesis unfolding p by (rule mset_dels) (simp_all add: assms(1,3))
qed

subsection \<open>The invariant of a sink\<close>

text \<open>\<open>out\<close> is everything that was written to the sink, \<open>M\<close> the length of the longest line and \<open>B\<close> what a stream may
  keep back; \<open>T\<close> is a time that has passed.\<close>

definition log_text :: "FileLogSink \<Rightarrow> LogFile \<Rightarrow> dir \<Rightarrow> string" where
  "log_text s f rot = concat (map (lf_text \<circ> snd) rot) @ lf_text f @ fs_buf s"

definition sizes_ok :: "nat \<Rightarrow> FileLogSink \<Rightarrow> LogFile \<Rightarrow> dir \<Rightarrow> bool" where
  "sizes_ok bnd s f rot \<longleftrightarrow>
     maxBytes (fs_policy s) \<noteq> 0 \<longrightarrow>
       length (lf_text f) + length (fs_buf s) \<le> bnd \<and> (\<forall>e \<in> set rot. length (lf_text (snd e)) \<le> bnd)"

definition sink_inv :: "nat \<Rightarrow> string \<Rightarrow> int \<Rightarrow> FileLogSink \<Rightarrow> dir \<Rightarrow> LogFile \<Rightarrow> dir \<Rightarrow> bool" where
  "sink_inv bnd out T s d f rot \<longleftrightarrow>
     fs_open s \<and> log_view (fs_path s) f rot d
     \<and> sorted_wrt (<) (map (lf_mtime \<circ> snd) rot @ [lf_mtime f]) \<and> lf_mtime f \<le> T
     \<and> int (length rot) \<le> maxFiles (fs_policy s) \<and> suffix (log_text s f rot) out
     \<and> (int (length rot) < maxFiles (fs_policy s) \<longrightarrow> log_text s f rot = out) \<and> sizes_ok bnd s f rot"

lemma concat_texts_drop: "suffix (concat (map g (drop k xs)) @ t) (concat (map g xs) @ t)"
  by (metis append_assoc append_take_drop_id concat_append map_append suffix_def)


lemma rotate_view:
  assumes v: "log_view n f rot d" and o: "sorted_wrt (<) (map (lf_mtime \<circ> snd) rot @ [lf_mtime f])"
    and p: "int (length rot) \<le> maxFiles p" "0 < maxFiles p" "maxFiles p < 9999"
  obtains new where "log_view n \<lparr>lf_text = [], lf_mtime = t\<rparr> (drop (length rot + 1 - nat (maxFiles p)) (rot @ [(new, f)]))
    (open_append t n (rotate_log p n stamp d))"
proof -
  define new where "new = rotated_path n stamp d"
  define rot1 where "rot1 = rot @ [(new, f)]"
  define rot2 where "rot2 = drop (length rot + 1 - nat (maxFiles p)) rot1"
  define d2 where "d2 = prune_dir p n (rename_file n new d)"
  have free: "new \<notin> fst ` set d" "is_rotated n new"
    using rotated_path_free [OF v, of stamp] p by (simp_all add: new_def)
  have names: "distinct (map fst rot1)" "\<forall>e \<in> set rot1. is_rotated n (fst e)"
    using v free log_view_set [OF v] by (auto simp: log_view_def rot1_def)
  have m1: "mset (rename_file n new d) = mset rot1" unfolding rot1_def by (rule mset_rename [OF v free(1)])
  have "sorted_wrt (<) (map (lf_mtime \<circ> snd) rot1)" using o by (simp add: rot1_def)
  then have m2: "mset d2 = mset rot2"
    using mset_prune [OF m1 names(2,1) _ p(2)] by (simp add: d2_def rot2_def rot1_def)
  have r2: "distinct (map fst rot2)" "\<forall>e \<in> set rot2. is_rotated n (fst e)"
    using names by (auto simp: rot2_def drop_map [symmetric] dest: in_set_dropD)
  have n2: "n \<notin> fst ` set rot2" using r2(2) by auto
  then have absent: "n \<notin> fst ` set d2" using mset_eq_setD [OF m2] by simp
  have "rotate_log p n stamp d = d2" using log_view_get [OF v] by (simp add: rotate_log_def d2_def new_def del: dir_get_None)
  then have "open_append t n (rotate_log p n stamp d) = (n, \<lparr>lf_text = [], lf_mtime = t\<rparr>) # d2"
    using absent dir_get_None [of n d2] by (auto simp: open_append_def dir_put_def dir_del_absent split: option.splits)
  then have "log_view n \<lparr>lf_text = [], lf_mtime = t\<rparr> rot2 (open_append t n (rotate_log p n stamp d))"
    using m2 r2 n2 by (simp add: log_view_def)
  then show thesis unfolding rot2_def rot1_def by (rule that)
qed

lemma doRotate_inv:
  assumes inv: "sink_inv bnd out T s d f rot" and clk: "T \<le> se_close E" "se_close E < se_write E"
    and p: "0 < maxFiles (fs_policy s)" "maxFiles (fs_policy s) < 9999" and st: "doRotate E (s, d) = (s', d')"
  shows "\<exists>rot'. sink_inv bnd out (se_write E) s' d' \<lparr>lf_text = [], lf_mtime = se_write E\<rparr> rot'
    \<and> s' = s\<lparr>fs_buf := []\<rparr>"
proof -
  let ?n = "fs_path s" and ?mf = "maxFiles (fs_policy s)"
  define f1 where "f1 = (if fs_buf s = [] then f else \<lparr>lf_text = lf_text f @ fs_buf s, lf_mtime = se_close E\<rparr>)"
  define d1 where "d1 = append_file (se_close E) ?n (fs_buf s) d"
  define g where "g = \<lparr>lf_text = [], lf_mtime = se_write E\<rparr>"
  note I = inv [unfolded sink_inv_def]
  have v1: "log_view ?n f1 rot d1" unfolding f1_def d1_def using I log_view_append by blast
  have mt: "lf_mtime f1 \<le> se_close E" "\<forall>e \<in> set rot. lf_mtime (snd e) < lf_mtime f1"
    using I clk by (auto simp: f1_def sorted_wrt_append dest!: bspec)
  have o1: "sorted_wrt (<) (map (lf_mtime \<circ> snd) rot @ [lf_mtime f1])"
    using I mt(2) by (simp add: sorted_wrt_append)
  have p1: "int (length rot) \<le> ?mf" using I by blast
  obtain new where v2: "log_view ?n g (drop (length rot + 1 - nat ?mf) (rot @ [(new, f1)]))
      (open_append (se_write E) ?n (rotate_log (fs_policy s) ?n (se_stamp E) d1))"
    using rotate_view [OF v1 o1 p1 p] unfolding g_def by blast
  define rot1 where "rot1 = rot @ [(new, f1)]"
  define k where "k = length rot + 1 - nat ?mf"
  have s': "s' = s\<lparr>fs_buf := []\<rparr>"
      and d': "d' = open_append (se_write E) ?n (rotate_log (fs_policy s) ?n (se_stamp E) d1)"
    using st I by (auto simp: doRotate_def close_stream_def d1_def)
  have tx: "concat (map (lf_text \<circ> snd) rot1) = log_text s f rot"
    by (simp add: rot1_def log_text_def f1_def)
  have suf: "suffix (concat (map (lf_text \<circ> snd) (drop k rot1))) (log_text s f rot)"
    using concat_texts_drop [of "lf_text \<circ> snd" k rot1 "[]"] tx by simp
  have len: "length (drop k rot1) = min (length rot + 1) (nat ?mf)"
    using p1 p(1) by (auto simp: k_def rot1_def min_def)
  have "sorted_wrt (<) (map (lf_mtime \<circ> snd) rot1 @ [se_write E])"
    using o1 mt clk by (auto simp: rot1_def sorted_wrt_append)
  then have o2: "sorted_wrt (<) (map (lf_mtime \<circ> snd) (drop k rot1) @ [se_write E])"
    using sorted_wrt_drop [of "(<)" "map (lf_mtime \<circ> snd) rot1" k]
    by (auto simp: sorted_wrt_append drop_map dest: in_set_dropD)
  have sz: "sizes_ok bnd s' g (drop k rot1)"
    using I by (auto simp: sizes_ok_def s' g_def rot1_def f1_def dest!: in_set_dropD)
  have "sink_inv bnd out (se_write E) s' d' g (drop k rot1)"
    unfolding sink_inv_def
  proof (intro conjI impI)
    show "log_view (fs_path s') g (drop k rot1) d'" using v2 by (simp add: s' d' k_def rot1_def)
    show "sorted_wrt (<) (map (lf_mtime \<circ> snd) (drop k rot1) @ [lf_mtime g])" using o2 by (simp add: g_def)
    show "int (length (drop k rot1)) \<le> maxFiles (fs_policy s')" using len p(1) by (simp add: s')
    show "suffix (log_text s' g (drop k rot1)) out"
      using suffix_order.trans [OF suf] I by (simp add: log_text_def s' g_def)
    assume "int (length (drop k rot1)) < maxFiles (fs_policy s')"
    then have "int (length rot) + 1 < ?mf" using len p(1) by (simp add: s')
    then have "k = 0" "log_text s f rot = out" using I by (auto simp: k_def)
    then show "log_text s' g (drop k rot1) = out" using tx by (simp add: log_text_def s' g_def)
  qed (use I sz in \<open>auto simp: s' g_def\<close>)
  then show ?thesis using s' unfolding g_def by blast
qed

lemma write_line_inv:
  assumes inv: "sink_inv bnd out T s d f rot" and "T \<le> se_write E" and "write_line E line (s, d) = (s', d')"
    and sz: "maxBytes (fs_policy s) \<noteq> 0 \<longrightarrow> length (lf_text f) + length (fs_buf s) + length line + 1 \<le> bnd"
  shows "\<exists>f'. sink_inv bnd (out @ line @ [CHR 0x0A]) (se_write E) s' d' f' rot \<and> s' = s\<lparr>fs_buf := fs_buf s'\<rparr>"
proof -
  note I = inv [unfolded sink_inv_def]
  define b where "b = fs_buf s @ line @ [CHR 0x0A]"
  define n where "n = (if fs_flushEachLine s then length b else se_taken E)"
  define f' where "f' = (if take n b = [] then f else \<lparr>lf_text = lf_text f @ take n b, lf_mtime = se_write E\<rparr>)"
  have s': "s' = s\<lparr>fs_buf := drop n b\<rparr>" and d': "d' = append_file (se_write E) (fs_path s) (take n b) d"
    using assms(3) I by (auto simp: write_line_def Let_def b_def n_def)
  have v: "log_view (fs_path s) f' rot d'" unfolding f'_def d' using I log_view_append by blast
  have mt: "lf_mtime f \<le> lf_mtime f'" "lf_mtime f' \<le> se_write E" using I assms(2) by (auto simp: f'_def)
  have ft: "lf_text f' @ drop n b = lf_text f @ b"
    using append_take_drop_id [of n b] by (auto simp: f'_def)
  then have tx: "log_text s' f' rot = log_text s f rot @ line @ [CHR 0x0A]"
    by (simp add: log_text_def s' b_def)
  have "length (lf_text f') + length (drop n b) = length (lf_text f) + length b"
    using ft by (metis length_append)
  then have sizes: "sizes_ok bnd s' f' rot" using I sz by (simp add: sizes_ok_def s' b_def add.assoc)
  have "sink_inv bnd (out @ line @ [CHR 0x0A]) (se_write E) s' d' f' rot"
    unfolding sink_inv_def tx
    using I v mt sizes by (auto simp: s' sorted_wrt_append dest: order_less_le_trans)
  then show ?thesis using s' by auto
qed

definition consume_all :: "(sink_env \<times> string) list \<Rightarrow> FileLogSink \<times> dir \<Rightarrow> FileLogSink \<times> dir" where
  "consume_all es sd = foldl (\<lambda>v (E, line). consume_line E line v) sd es"

definition lines_text :: "string list \<Rightarrow> string" where
  "lines_text ls = concat (map (\<lambda>l. l @ [CHR 0x0A]) ls)"

text \<open>Time goes on between the closing of a file and the next writing.\<close>

fun clock_ok :: "int \<Rightarrow> sink_env list \<Rightarrow> bool" where
  "clock_ok T [] = True"
| "clock_ok T (E # es) = (T \<le> se_close E \<and> se_close E < se_write E \<and> clock_ok (se_write E) es)"

lemma consume_inv:
  assumes inv: "sink_inv (max M (maxBytes (fs_policy s) + B)) out T s d f rot"
    and clk: "T \<le> se_close E" "se_close E < se_write E"
    and p: "0 < maxFiles (fs_policy s)" "maxFiles (fs_policy s) < 9999"
    and ln: "length line < M" "length (fs_buf s) \<le> B" and st: "consume_line E line (s, d) = (s', d')"
  shows "\<exists>f' rot'. sink_inv (max M (maxBytes (fs_policy s) + B)) (out @ line @ [CHR 0x0A]) (se_write E) s' d' f' rot'
    \<and> s' = s\<lparr>fs_buf := fs_buf s'\<rparr>"
proof -
  let ?b = "max M (maxBytes (fs_policy s) + B)"
  obtain s1 d1 where rt: "rotateIfNeeded E (length line + 1) (s, d) = (s1, d1)" by fastforce
  have op: "fs_open s" "dir_get (fs_path s) d = Some f"
    using inv log_view_get by (auto simp: sink_inv_def)
  have wr: "write_line E line (s1, d1) = (s', d')"
    using st op(1) rt by (simp add: consume_line_def ensureOpen_def)
  show ?thesis
  proof (cases "maxBytes (fs_policy s) \<noteq> 0 \<and> shouldRotate (fs_policy s) (length (lf_text f)) (length line + 1)")
    case True
    then have "doRotate E (s, d) = (s1, d1)" using rt op(2) by (simp add: rotateIfNeeded_def)
    from doRotate_inv [OF inv clk p this] obtain rot1 where
      r: "sink_inv ?b out (se_write E) s1 d1 \<lparr>lf_text = [], lf_mtime = se_write E\<rparr> rot1" "s1 = s\<lparr>fs_buf := []\<rparr>" by blast
    from write_line_inv [OF r(1) order_refl wr] ln(1) r(2) show ?thesis by fastforce
  next
    case False
    then have same: "s1 = s" "d1 = d" using rt op(2) by (auto simp: rotateIfNeeded_def split: if_splits)
    have "maxBytes (fs_policy s) \<noteq> 0 \<longrightarrow> length (lf_text f) + length (fs_buf s) + length line + 1 \<le> ?b"
      using False ln(2) by (auto simp: shouldRotate_def)
    from write_line_inv [OF inv _ wr [unfolded same] this] clk show ?thesis by fastforce
  qed
qed

lemma consume_all_inv:
  assumes "sink_inv (max M (maxBytes (fs_policy s) + B)) out T s d f rot" and "clock_ok T (map fst es)"
    and "0 < maxFiles (fs_policy s)" "maxFiles (fs_policy s) < 9999" and "\<forall>l \<in> snd ` set es. length l < M"
    and "\<And>k. length (fs_buf (fst (consume_all (take k es) (s, d)))) \<le> B" and "consume_all es (s, d) = (s', d')"
  shows "\<exists>T' f' rot'. sink_inv (max M (maxBytes (fs_policy s) + B)) (out @ lines_text (map snd es)) T' s' d' f' rot'
    \<and> s' = s\<lparr>fs_buf := fs_buf s'\<rparr>"
  using assms
proof (induction es arbitrary: s d out T f rot)
  case Nil
  then show ?case by (auto simp: consume_all_def lines_text_def)
next
  case (Cons e es)
  obtain E line where e: "e = (E, line)" by fastforce
  obtain s1 d1 where st: "consume_line E line (s, d) = (s1, d1)" by fastforce
  have buf: "length (fs_buf s) \<le> B" using Cons.prems(6) [of 0] by (simp add: consume_all_def)
  obtain f1 rot1 where i1: "sink_inv (max M (maxBytes (fs_policy s) + B)) (out @ line @ [CHR 0x0A]) (se_write E) s1 d1 f1 rot1"
      and s1: "s1 = s\<lparr>fs_buf := fs_buf s1\<rparr>"
    using consume_inv [OF Cons.prems(1) _ _ Cons.prems(3,4) _ buf st] Cons.prems(2,5) e by auto
  have pol: "fs_policy s1 = fs_policy s" using s1 by (metis FileLogSink.select_convs(2) FileLogSink.surjective FileLogSink.update_convs(5))
  have rest: "consume_all es (s1, d1) = (s', d')" using Cons.prems(7) e st by (simp add: consume_all_def)
  have bufs: "length (fs_buf (fst (consume_all (take k es) (s1, d1)))) \<le> B" for k
    using Cons.prems(6) [of "Suc k"] e st by (simp add: consume_all_def)
  from Cons.IH [OF i1 [folded pol] _ _ _ _ bufs rest] Cons.prems(2-5) e obtain T' f' rot' where
    "sink_inv (max M (maxBytes (fs_policy s) + B)) ((out @ line @ [CHR 0x0A]) @ lines_text (map snd es)) T' s' d' f' rot'"
    and s'': "s' = s1\<lparr>fs_buf := fs_buf s'\<rparr>"
    unfolding pol by auto
  moreover have "s' = s\<lparr>fs_buf := fs_buf s'\<rparr>" using s1 s'' by (metis FileLogSink.update_convs(5) FileLogSink.surjective)
  ultimately show ?case using e by (auto simp: lines_text_def)
qed


text \<open>A sink that flushes each line keeps nothing back.\<close>

lemma flush_keeps_nothing:
  "fs_flushEachLine s \<Longrightarrow> fs_buf s = [] \<Longrightarrow> consume_line E line (s, d) = (s', d') \<Longrightarrow> fs_flushEachLine s' \<and> fs_buf s' = []"
  by (auto simp: consume_line_def write_line_def rotateIfNeeded_def doRotate_def close_stream_def ensureOpen_def Let_def
      split: option.splits if_splits prod.splits)


lemma flush_all: "fs_flushEachLine s \<Longrightarrow> fs_buf s = [] \<Longrightarrow> fs_buf (fst (consume_all es (s, d))) = []"
proof (induction es arbitrary: s d)
  case (Cons e es)
  obtain E line s1 d1 where e: "e = (E, line)" "consume_line E line (s, d) = (s1, d1)" by (metis surj_pair)
  from flush_keeps_nothing [OF Cons.prems e(2)] Cons.IH [of s1 d1] show ?case by (simp add: e consume_all_def)
qed (simp add: consume_all_def)

definition demo_sink_env :: "int \<Rightarrow> nat \<Rightarrow> sink_env" where
  "demo_sink_env t n = \<lparr>se_close = t, se_write = t + 1, se_stamp = (\<lambda>_. ''now''), se_taken = n\<rparr>"

definition demo_lines :: "(sink_env \<times> string) list" where
  "demo_lines = [(demo_sink_env 0 0, ''xx''), (demo_sink_env 5 0, ''yy''), (demo_sink_env 9 0, ''zz'')]"


text \<open>Without the flush the size on disk lags behind: three lines are written and never rotated although the file ends
  up more than twice as long as it may be.\<close>

lemma log_file_overshoots:
  "map_option (length \<circ> lf_text)
     (dir_get ''a'' (snd (close_stream 20 (consume_all demo_lines (mk_FileLogSink ''a'' 4 1 False, []))))) = Some 9"
  by (simp add: demo_lines_def demo_sink_env_def consume_all_def consume_line_def ensureOpen_def mk_FileLogSink_def
      open_append_def dir_get_def dir_put_def dir_del_def rotateIfNeeded_def shouldRotate_def write_line_def
      append_file_def close_stream_def)

text \<open>Every file whose name starts with that of the log and a dot counts as a rotated one and may be removed.\<close>

lemma prune_takes_other_files:
  "prune_dir \<lparr>maxBytes = 4, maxFiles = 1\<rparr> ''a'' [(''a.conf'', \<lparr>lf_text = ''keep'', lf_mtime = 1\<rparr>), (''a.now.1'', \<lparr>lf_text = [], lf_mtime = 2\<rparr>)]
   = [(''a.now.1'', \<lparr>lf_text = [], lf_mtime = 2\<rparr>)]"
  by (simp add: prune_dir_def is_rotated_def dir_del_def Let_def)

end
