(* ===== verification/Config_Store.thy ===== *)
theory Config_Store
  imports Worker_Client Task_Log Log_File Ws_Protocol
begin

text \<open>
  \<^verbatim>\<open>core/config.cpp\<close>, \<^verbatim>\<open>core/config.h\<close> and the start-up in \<^verbatim>\<open>server_app.cpp\<close>: the settings of the server, read
  from the first file that loads, overridden by environment variables and asked for at a type.  Files are a
  function from paths to texts, the JSON parser and printer and the order of the members of an object are
  arguments.
\<close>

subsection \<open>The store\<close>

datatype ConfigVariant =
    CInt int
  | CString string
  | CBool bool
  | CDouble rat
  | CFloat rat
  | CLong int
  | CStrings "string list"

record Config =
  m_host :: string
  m_port :: int
  m_db_port :: int
  m_db_host :: string
  m_db_path :: string
  m_log_path :: string
  m_config :: "string \<rightharpoonup> ConfigVariant"

definition default_Config :: Config where
  "default_Config =
     \<lparr>m_host = ''0.0.0.0'', m_port = 8080, m_db_port = 8082, m_db_host = ''0.0.0.0'', m_db_path = ''taskhub.db'',
      m_log_path = ''./logs'', m_config = Map.empty\<rparr>"

definition config_set :: "string \<Rightarrow> ConfigVariant \<Rightarrow> Config \<Rightarrow> Config" where
  "config_set key v c = c\<lparr>m_config := (m_config c)(key \<mapsto> v)\<rparr>"

text \<open>\<^verbatim>\<open>get\<close> at the types the server uses.\<close>

fun as_int :: "ConfigVariant \<Rightarrow> int option" where
  "as_int (CInt n) = Some n"
| "as_int _ = None"

fun as_string :: "ConfigVariant \<Rightarrow> string option" where
  "as_string (CString s) = Some s"
| "as_string _ = None"

fun as_bool :: "ConfigVariant \<Rightarrow> bool option" where
  "as_bool (CBool b) = Some b"
| "as_bool _ = None"

fun as_strings :: "ConfigVariant \<Rightarrow> string list option" where
  "as_strings (CStrings xs) = Some xs"
| "as_strings _ = None"

definition config_get :: "(ConfigVariant \<Rightarrow> 'a option) \<Rightarrow> string \<Rightarrow> 'a \<Rightarrow> Config \<Rightarrow> 'a" where
  "config_get as key d c =
     (case m_config c key of
        None \<Rightarrow> d
      | Some v \<Rightarrow> (case as v of None \<Rightarrow> d | Some x \<Rightarrow> x))"

subsection \<open>Loading\<close>

fun string_items :: "json list \<Rightarrow> string list" where
  "string_items [] = []"
| "string_items (JStr s # js) = s # string_items js"
| "string_items (_ # js) = string_items js"

fun config_member :: "json \<Rightarrow> ConfigVariant option" where
  "config_member (JBool b) = Some (CBool b)"
| "config_member (JInt n) = Some (CInt (wrap_signed 32 n))"
| "config_member (JFloat r) = Some (CDouble r)"
| "config_member (JStr s) = Some (CString s)"
| "config_member (JArr js) = Some (CStrings (string_items js))"
| "config_member _ = None"

text \<open>\<^verbatim>\<open>items()\<close>: the members of an object by name, the elements of an array by number, anything else once.\<close>

definition config_items :: "((string \<rightharpoonup> json) \<Rightarrow> string list) \<Rightarrow> json \<Rightarrow> (string \<times> json) list" where
  "config_items order j =
     (case j of
        JObj m \<Rightarrow> map (\<lambda>k. (k, the (m k))) (order m)
      | JArr js \<Rightarrow> zip (map nat_digits [0..<length js]) js
      | JNull \<Rightarrow> []
      | _ \<Rightarrow> [([], j)])"

definition load_member :: "string \<Rightarrow> (string \<rightharpoonup> ConfigVariant) \<Rightarrow> string \<times> json \<Rightarrow> (string \<rightharpoonup> ConfigVariant)" where
  "load_member sec m kv =
     (case config_member (snd kv) of None \<Rightarrow> m | Some v \<Rightarrow> m(sec @ ''.'' @ fst kv \<mapsto> v))"

definition load_section ::
  "((string \<rightharpoonup> json) \<Rightarrow> string list) \<Rightarrow> (json \<Rightarrow> string) \<Rightarrow> (string \<rightharpoonup> ConfigVariant) \<Rightarrow> string \<times> json
    \<Rightarrow> (string \<rightharpoonup> ConfigVariant)" where
  "load_section order dump m kv =
     (if is_object (snd kv)
      then foldl (load_member (fst kv)) (m(fst kv \<mapsto> CString (dump (snd kv)))) (config_items order (snd kv))
      else m)"

definition section_string :: "json \<Rightarrow> string \<Rightarrow> string \<Rightarrow> string \<Rightarrow> string" where
  "section_string j sec k d =
     (case member sec j of
        Some (JObj m) \<Rightarrow> (case m k of Some (JStr s) \<Rightarrow> s | _ \<Rightarrow> d)
      | _ \<Rightarrow> d)"

definition section_int :: "json \<Rightarrow> string \<Rightarrow> string \<Rightarrow> int \<Rightarrow> int" where
  "section_int j sec k d =
     (case member sec j of
        Some (JObj m) \<Rightarrow> (case m k of Some (JInt n) \<Rightarrow> wrap_signed 32 n | _ \<Rightarrow> d)
      | _ \<Rightarrow> d)"

definition config_load ::
  "((string \<rightharpoonup> json) \<Rightarrow> string list) \<Rightarrow> (json \<Rightarrow> string) \<Rightarrow> (string \<Rightarrow> string + json) \<Rightarrow> string option \<Rightarrow> Config
    \<Rightarrow> bool \<times> Config" where
  "config_load order dump parse file c =
     (case file of
        None \<Rightarrow> (False, c)
      | Some text \<Rightarrow>
          (case parse text of
             Inl _ \<Rightarrow> (False, c)
           | Inr j \<Rightarrow>
               (True,
                c\<lparr>m_config := foldl (load_section order dump) (m_config c) (config_items order j),
                  m_host := section_string j ''server'' ''host'' (m_host c),
                  m_port := section_int j ''server'' ''port'' (m_port c),
                  m_db_path := section_string j ''database'' ''db_path'' (m_db_path c),
                  m_db_host := section_string j ''database'' ''host'' (m_db_host c),
                  m_db_port := section_int j ''database'' ''port'' (m_db_port c),
                  m_log_path := section_string j ''log'' ''path'' (m_log_path c)\<rparr>)))"

definition env_put :: "(string \<rightharpoonup> string) \<Rightarrow> string \<Rightarrow> (string \<Rightarrow> Config \<Rightarrow> Config) \<Rightarrow> Config \<Rightarrow> Config" where
  "env_put env name f c = (case env name of None \<Rightarrow> c | Some p \<Rightarrow> f p c)"

definition load_from_env :: "(string \<rightharpoonup> string) \<Rightarrow> Config \<Rightarrow> Config" where
  "load_from_env env c =
     (let put = env_put env
      in put ''TASKHUB_WORKER_PORT'' (\<lambda>p. config_set ''work.worker_port'' (CInt (atoi p)))
         (put ''TASKHUB_WORKER_ID'' (\<lambda>p. config_set ''work.worker_id'' (CString p))
         (put ''TASKHUB_WORK_ADVERTISE_HOST'' (\<lambda>p. config_set ''work.advertise_host'' (CString p))
         (put ''TASKHUB_WORK_BIND_HOST'' (\<lambda>p. config_set ''work.bind_host'' (CString p))
         (put ''TASKHUB_WORK_MASTER_PORT'' (\<lambda>p. config_set ''work.master_port'' (CInt (atoi p)))
         (put ''TASKHUB_WORK_MASTER_HOST'' (\<lambda>p. config_set ''work.master_host'' (CString p))
         (put ''TASKHUB_WS_PORT'' (\<lambda>p. config_set ''server.ws_port'' (CInt (atoi p)))
         (put ''TASKHUB_LOG'' (\<lambda>p c. c\<lparr>m_log_path := p\<rparr>)
         (put ''TASKHUB_DB'' (\<lambda>p c. c\<lparr>m_db_path := p\<rparr>)
         (put ''TASKHUB_HOST'' (\<lambda>p c. c\<lparr>m_host := p\<rparr>)
         (put ''TASKHUB_PORT'' (\<lambda>p c. c\<lparr>m_port := atoi p\<rparr>) c)))))))))))"

subsection \<open>Start-up\<close>

definition init_config ::
  "((string \<rightharpoonup> json) \<Rightarrow> string list) \<Rightarrow> (json \<Rightarrow> string) \<Rightarrow> (string \<Rightarrow> string + json) \<Rightarrow> string
    \<Rightarrow> (string \<rightharpoonup> string) \<Rightarrow> (string \<rightharpoonup> string) \<Rightarrow> Config \<Rightarrow> Config" where
  "init_config order dump parse cwd files env c =
     (let try_load = (\<lambda>path (loaded, c). if loaded then (loaded, c) else config_load order dump parse (files path) c);
          tried = try_load (cwd @ ''/server/config/default_config.json'')
                    (try_load (cwd @ ''/build/bin/config.json'')
                      (try_load ''config.json'' (try_load ''/etc/taskhub/config.json'' (False, c))))
      in load_from_env env (snd tried))"

text \<open>An \<^verbatim>\<open>int\<close> passed as \<^verbatim>\<open>size_t\<close> or as \<^verbatim>\<open>unsigned short\<close>.\<close>

definition to_size :: "int \<Rightarrow> nat" where
  "to_size n = nat (n mod 2 ^ 64)"

definition init_logger :: "Config \<Rightarrow> LogManager \<Rightarrow> FileLogSink \<times> LogManager" where
  "init_logger c m =
     (mk_FileLogSink (config_get as_string ''log.path'' [] c)
        (to_size (config_get as_int ''log.rotateBytes'' (10 * 1024 * 1024) c)) (config_get as_int ''log.maxFiles'' 5 c)
        (config_get as_bool ''log.compress'' False c),
      setSinks [Some 0, Some 1] (lm_init (to_size (config_get as_int ''log.maxRecords'' 2000 c)) m))"

record startup =
  su_host :: string
  su_port :: int
  su_wsPort :: int
  su_dbPath :: string
  su_migrations :: string
  su_worker :: "(string \<times> int \<times> WorkerClient) option"

definition worker_start :: "Config \<Rightarrow> string \<times> int \<times> (string \<times> int \<times> WorkerClient)" where
  "worker_start c =
     (let legacyWorkerHost = config_get as_string ''work.worker_host'' ''0.0.0.0'' c;
          bindHost = config_get as_string ''work.bind_host'' legacyWorkerHost c;
          advertiseHost = config_get as_string ''work.advertise_host'' bindHost c;
          port = config_get as_int ''work.worker_port'' 8083 c
      in (bindHost, port,
          (config_get as_string ''work.master_host'' ''127.0.0.1'' c, config_get as_int ''work.master_port'' 8082 c,
           wc_start (config_get as_int ''work.max_running_tasks'' 1 c)
             (config_get as_string ''work.worker_id'' ''worker-1'' c) advertiseHost port
             (config_get as_strings ''work.queues'' [] c) (config_get as_strings ''work.labels'' [] c)
             (config_get as_int ''work.heartbeat_interval_ms'' 2000 c))))"

text \<open>\<^verbatim>\<open>run\<close>: what the server listens on and starts; \<open>None\<close> is \<^verbatim>\<open>exit(1)\<close> when the database does not open.\<close>

definition server_run :: "(string \<Rightarrow> bool) \<Rightarrow> Config \<Rightarrow> startup option" where
  "server_run opens c =
     (if \<not> opens (m_db_path c) then None
      else (let s = \<lparr>su_host = m_host c, su_port = m_port c,
                     su_wsPort = config_get as_int ''server.ws_port'' 8090 c mod 2 ^ 16, su_dbPath = m_db_path c,
                     su_migrations = config_get as_string ''database.migrations_dir'' ''./migrations'' c, su_worker = None\<rparr>
            in Some (if config_get as_bool ''work.is_work'' False c
                     then (case worker_start c of (h, p, wk) \<Rightarrow> s\<lparr>su_host := h, su_port := p, su_worker := Some wk\<rparr>)
                     else s)))"

subsection \<open>What a setting is\<close>

text \<open>The settings an environment variable overrides.\<close>

definition env_setting :: "(string \<rightharpoonup> string) \<Rightarrow> string \<Rightarrow> ConfigVariant option" where
  "env_setting env key =
     (if key = ''server.ws_port'' then map_option (CInt \<circ> atoi) (env ''TASKHUB_WS_PORT'')
      else if key = ''work.master_host'' then map_option CString (env ''TASKHUB_WORK_MASTER_HOST'')
      else if key = ''work.master_port'' then map_option (CInt \<circ> atoi) (env ''TASKHUB_WORK_MASTER_PORT'')
      else if key = ''work.bind_host'' then map_option CString (env ''TASKHUB_WORK_BIND_HOST'')
      else if key = ''work.advertise_host'' then map_option CString (env ''TASKHUB_WORK_ADVERTISE_HOST'')
      else if key = ''work.worker_id'' then map_option CString (env ''TASKHUB_WORKER_ID'')
      else if key = ''work.worker_port'' then map_option (CInt \<circ> atoi) (env ''TASKHUB_WORKER_PORT'')
      else None)"

lemma env_put_config:
  "m_config (env_put env name (\<lambda>p. config_set k (f p)) c) key =
     (case (if key = k then map_option f (env name) else None) of Some v \<Rightarrow> Some v | None \<Rightarrow> m_config c key)"
  by (simp add: env_put_def config_set_def split: option.splits)

lemma env_put_field:
  "m_config (env_put env name (\<lambda>p c. c\<lparr>m_log_path := p\<rparr>) c) = m_config c"
  "m_config (env_put env name (\<lambda>p c. c\<lparr>m_db_path := p\<rparr>) c) = m_config c"
  "m_config (env_put env name (\<lambda>p c. c\<lparr>m_host := p\<rparr>) c) = m_config c"
  "m_config (env_put env name (\<lambda>p c. c\<lparr>m_port := atoi p\<rparr>) c) = m_config c"
  by (simp_all add: env_put_def split: option.splits)

lemma load_from_env_config:
  "m_config (load_from_env env c) key = (case env_setting env key of Some v \<Rightarrow> Some v | None \<Rightarrow> m_config c key)"
  unfolding load_from_env_def Let_def env_put_config env_put_field env_setting_def by (simp add: comp_def cong: option.case_cong)

lemma load_members:
  assumes "distinct (map fst kvs)"
  shows "foldl (load_member sec) m kvs (sec @ ''.'' @ k) =
    (case Option.bind (map_of kvs k) config_member of Some v \<Rightarrow> Some v | None \<Rightarrow> m (sec @ ''.'' @ k))"
  using assms
proof (induction kvs arbitrary: m)
  case (Cons kv kvs)
  have "k = fst kv \<Longrightarrow> map_of kvs k = None" using Cons.prems by (simp add: map_of_eq_None_iff)
  then show ?case using Cons by (auto simp: load_member_def split: option.splits)
qed simp

lemma load_members_other:
  "(\<And>a. key \<noteq> sec @ ''.'' @ a) \<Longrightarrow> foldl (load_member sec) m kvs key = m key"
  by (induction kvs arbitrary: m) (simp_all add: load_member_def split: option.splits)

lemma load_sections_other:
  assumes "\<forall>kv \<in> set kvs. CHR ''.'' \<notin> set (fst kv) \<and> fst kv \<noteq> sec" and "CHR ''.'' \<notin> set sec"
  shows "foldl (load_section order dump) m kvs (sec @ ''.'' @ k) = m (sec @ ''.'' @ k)"
  using assms(1)
proof (induction kvs arbitrary: m)
  case (Cons kv kvs)
  have ne: "sec @ ''.'' @ k \<noteq> fst kv @ ''.'' @ a" "sec @ ''.'' @ k \<noteq> fst kv" for a
    using Cons.prems assms(2) dot_free_split [of sec "fst kv" k a] dot_free_no_dot(1) [of "fst kv" sec k] by auto
  then have "load_section order dump m kv (sec @ ''.'' @ k) = m (sec @ ''.'' @ k)"
    by (simp add: load_section_def load_members_other del: append.simps)
  then show ?case using Cons by simp
qed simp

lemma load_section_own:
  assumes "set (order ms) = dom ms" and "distinct (order ms)"
  shows "load_section order dump m (sec, JObj ms) (sec @ ''.'' @ k) =
    (case Option.bind (ms k) config_member of Some v \<Rightarrow> Some v | None \<Rightarrow> m (sec @ ''.'' @ k))"
proof -
  have mem: "map_of (map (\<lambda>k. (k, the (ms k))) (order ms)) k = ms k"
    using assms(1) by (auto simp: map_of_map_restrict restrict_map_def split: option.splits)
  have "distinct (map fst (map (\<lambda>k. (k, the (ms k))) (order ms)))" using assms(2) by (simp add: comp_def)
  note kvs = load_members [OF this]
  have own: "(m(sec \<mapsto> CString (dump (JObj ms)))) (sec @ ''.'' @ k) = m (sec @ ''.'' @ k)" by simp
  show ?thesis unfolding load_section_def config_items_def fst_conv snd_conv is_object.simps if_True json.case kvs own mem ..
qed

lemma load_setting:
  assumes j: "parse text = Inr (JObj m)" "m sec = Some (JObj ms)" and dot: "\<forall>s \<in> dom m. CHR ''.'' \<notin> set s"
    and ord: "set (order m) = dom m" "distinct (order m)" "set (order ms) = dom ms" "distinct (order ms)"
  shows "m_config (snd (config_load order dump parse (Some text) c)) (sec @ ''.'' @ k) =
    (case Option.bind (ms k) config_member of Some v \<Rightarrow> Some v | None \<Rightarrow> m_config c (sec @ ''.'' @ k))"
proof -
  have "sec \<in> set (order m)" using j(2) ord(1) by auto
  then obtain xs ys where o: "order m = xs @ sec # ys" by (meson split_list)
  let ?kv = "\<lambda>k. (k, the (m k))"
  have sd: "CHR ''.'' \<notin> set sec" using dot j(2) by auto
  have names: "\<forall>kv \<in> set (map ?kv xs). CHR ''.'' \<notin> set (fst kv) \<and> fst kv \<noteq> sec"
      "\<forall>kv \<in> set (map ?kv ys). CHR ''.'' \<notin> set (fst kv) \<and> fst kv \<noteq> sec"
    using ord(2) o dot [folded ord(1)] by auto
  have "m_config (snd (config_load order dump parse (Some text) c)) (sec @ ''.'' @ k)
      = foldl (load_section order dump) (m_config c) (map ?kv xs @ (sec, JObj ms) # map ?kv ys) (sec @ ''.'' @ k)"
    by (simp add: config_load_def j config_items_def o del: append.simps)
  also have "\<dots> = (case Option.bind (ms k) config_member of Some v \<Rightarrow> Some v | None \<Rightarrow> m_config c (sec @ ''.'' @ k))"
    unfolding foldl_append foldl.simps load_sections_other [OF names(2) sd] load_section_own [where order = order and ms = ms, OF ord(3,4)]
      load_sections_other [OF names(1) sd] ..
  finally show ?thesis .
qed

text \<open>C35. A setting is what the environment says, else what the file says, else what it was, and it is read at the type it
  is asked for: a value of another type counts as absent, and an integer of the file is cut to 32 bits.  The section
  names of the file must not contain a dot.\<close>

theorem config_setting_typed:
  assumes "parse text = Inr (JObj m)" and "m sec = Some (JObj ms)" and "\<forall>s \<in> dom m. CHR ''.'' \<notin> set s"
    and "set (order m) = dom m" "distinct (order m)" "set (order ms) = dom ms" "distinct (order ms)"
  shows "config_get as (sec @ ''.'' @ k) d (load_from_env env (snd (config_load order dump parse (Some text) c))) =
    (case (case env_setting env (sec @ ''.'' @ k) of Some v \<Rightarrow> Some v | None \<Rightarrow> Option.bind (ms k) config_member) of
       Some v \<Rightarrow> (case as v of Some x \<Rightarrow> x | None \<Rightarrow> d)
     | None \<Rightarrow> config_get as (sec @ ''.'' @ k) d c)"
  unfolding config_get_def load_from_env_config load_setting [where parse = parse and m = m and ms = ms and order = order, OF assms]
  by (simp cong: option.case_cong split: option.split)

subsection \<open>Which file is read\<close>

definition loads :: "(string \<Rightarrow> string + json) \<Rightarrow> string option \<Rightarrow> bool" where
  "loads parse file = (case file of None \<Rightarrow> False | Some text \<Rightarrow> (case parse text of Inl _ \<Rightarrow> False | Inr _ \<Rightarrow> True))"

lemma config_load_loads: "fst (config_load order dump parse file c) = loads parse file"
  by (simp add: config_load_def loads_def split: option.splits sum.splits)

lemma config_load_fails: "\<not> loads parse file \<Longrightarrow> config_load order dump parse file c = (False, c)"
  by (auto simp: config_load_def loads_def split: option.splits sum.splits)

text \<open>C36. The first file of the four that exists and parses is the only one read; a file that is missing or does not parse
  changes nothing, and without any the built-in settings stay.\<close>

theorem config_first_file:
  "init_config order dump parse cwd files env c =
     load_from_env env
       (case find (\<lambda>p. loads parse (files p))
               [''/etc/taskhub/config.json'', ''config.json'', cwd @ ''/build/bin/config.json'',
                cwd @ ''/server/config/default_config.json''] of
          Some p \<Rightarrow> snd (config_load order dump parse (files p) c)
        | None \<Rightarrow> c)"
proof -
  have step: "(case config_load order dump parse (files p) c of (loaded, c) \<Rightarrow> if loaded then (loaded, c) else k c)
      = (if loads parse (files p) then config_load order dump parse (files p) c else k c)" for p k
    by (cases "config_load order dump parse (files p) c")
      (use config_load_loads [of order dump parse "files p" c] config_load_fails [of parse "files p" order dump c] in auto)
  show ?thesis by (auto simp: init_config_def Let_def step config_load_fails split: if_splits)
qed

text \<open>Loading the configuration logs a line, so the log manager has its buffer before \<^verbatim>\<open>init_logger\<close> asks for one:
  \<^verbatim>\<open>log.maxRecords\<close> has no effect.\<close>

lemma max_records_ignored:
  "map_option perTaskMaxRecords (lm_buffer (snd (init_logger c (snd (lm_emit now r mk_LogManager))))) = Some 2000"
proof -
  have prune: "perTaskMaxRecords (log_pruneOlderThan t a b) = perTaskMaxRecords b" for t a b
    by (simp add: log_pruneOlderThan_def)
  show ?thesis
    by (simp add: init_logger_def setSinks_def lm_init_def lm_emit_def mk_LogManager_def Let_def log_append_def
        mk_TaskLogBuffer_def prune split: prod.splits)
qed

subsection \<open>Examples\<close>

definition demo_order :: "(string \<rightharpoonup> json) \<Rightarrow> string list" where
  "demo_order m = filter (\<lambda>k. m k \<noteq> None) [''log'', ''server'', ''ws_port'', ''work'']"

definition demo_file :: "string \<Rightarrow> string + json" where
  "demo_file t = (if t = ''x'' then Inr (JObj [''server'' \<mapsto> JObj [''ws_port'' \<mapsto> JInt (2 ^ 32 + 9000)]]) else Inl ''bad'')"

theorem config_setting_typed_witness:
  "config_get as_int (''server'' @ ''.'' @ ''ws_port'') 8090
     (load_from_env [''TASKHUB_HOST'' \<mapsto> ''h''] (snd (config_load demo_order (\<lambda>_. []) demo_file (Some ''x'') default_Config))) = 9000
   \<and> config_get as_string (''server'' @ ''.'' @ ''ws_port'') ''?''
     (load_from_env [''TASKHUB_HOST'' \<mapsto> ''h''] (snd (config_load demo_order (\<lambda>_. []) demo_file (Some ''x'') default_Config))) = ''?''"
proof -
  let ?ms = "[''ws_port'' \<mapsto> JInt (2 ^ 32 + 9000)]" and ?c = "default_Config"
  have p: "demo_file ''x'' = Inr (JObj [''server'' \<mapsto> JObj ?ms])" by (simp add: demo_file_def)
  have o: "set (demo_order [''server'' \<mapsto> JObj ?ms]) = dom [''server'' \<mapsto> JObj ?ms]" "distinct (demo_order [''server'' \<mapsto> JObj ?ms])"
      "set (demo_order ?ms) = dom ?ms" "distinct (demo_order ?ms)"
    by (simp_all add: demo_order_def)
  have e: "env_setting [''TASKHUB_HOST'' \<mapsto> ''h''] (''server'' @ ''.'' @ ''ws_port'') = None" by (simp add: env_setting_def)
  have s: "config_get as (''server'' @ ''.'' @ ''ws_port'') d
      (load_from_env [''TASKHUB_HOST'' \<mapsto> ''h''] (snd (config_load demo_order (\<lambda>_. []) demo_file (Some ''x'') ?c)))
    = (case Option.bind (?ms ''ws_port'') config_member of
         Some v \<Rightarrow> (case as v of Some x \<Rightarrow> x | None \<Rightarrow> d) | None \<Rightarrow> config_get as (''server'' @ ''.'' @ ''ws_port'') d ?c)" for as d
    using config_setting_typed [where parse = demo_file and m = "[''server'' \<mapsto> JObj ?ms]" and sec = "''server''" and ms = ?ms
        and order = demo_order, OF p _ _ o, of as "''ws_port''" d "[''TASKHUB_HOST'' \<mapsto> ''h'']" "\<lambda>_. []" ?c] unfolding e by simp
  show ?thesis unfolding s by (simp add: wrap_signed_def)
qed

end
