(* ===== verification/Db_Migrator.thy ===== *)
theory Db_Migrator
  imports Prelude
begin

text \<open>
  \<^verbatim>\<open>db/migrator.cpp\<close> and the scripts under \<^verbatim>\<open>migrations\<close>: how a database is brought to the schema of the
  program.  A schema is its tables with their columns and the version in the row of \<^verbatim>\<open>taskhub_meta\<close>; a statement
  is its effect on that.  SQLite stops a script at the first statement that fails and leaves an open transaction
  open.
\<close>

subsection \<open>Databases\<close>

record Schema =
  sc_tables :: "(string \<times> string list) list"
  sc_meta :: "int option"

text \<open>\<open>db_saved\<close> is the state before the transaction that is open, which is what is left when the process ends.\<close>

record SqlDb =
  db_work :: Schema
  db_saved :: "Schema option"

datatype sql =
    Begin
  | Commit
  | CreateTable string "string list"
  | CreateIndex string
  | AddColumn string string
  | ReplaceMeta int
  | UpdateMeta int
  | SeedRows string string

definition columns_of :: "string \<Rightarrow> SqlDb \<Rightarrow> string list option" where
  "columns_of t db = map_of (sc_tables (db_work db)) t"

definition upd_work :: "(Schema \<Rightarrow> Schema) \<Rightarrow> SqlDb \<Rightarrow> SqlDb" where
  "upd_work f db = db\<lparr>db_work := f (db_work db)\<rparr>"

definition put_table :: "string \<Rightarrow> string list \<Rightarrow> SqlDb \<Rightarrow> SqlDb" where
  "put_table t cs = upd_work (\<lambda>s. s\<lparr>sc_tables := (t, cs) # filter (\<lambda>e. fst e \<noteq> t) (sc_tables s)\<rparr>)"

fun exec_stmt :: "sql \<Rightarrow> SqlDb \<Rightarrow> SqlDb option" where
  "exec_stmt Begin db = (case db_saved db of None \<Rightarrow> Some (db\<lparr>db_saved := Some (db_work db)\<rparr>) | Some _ \<Rightarrow> None)"
| "exec_stmt Commit db = (case db_saved db of None \<Rightarrow> None | Some _ \<Rightarrow> Some (db\<lparr>db_saved := None\<rparr>))"
| "exec_stmt (CreateTable t cs) db =
     (if columns_of t db = None
      then Some (put_table t cs db) else Some db)"
| "exec_stmt (CreateIndex t) db = (if columns_of t db = None then None else Some db)"
| "exec_stmt (AddColumn t c) db =
     (case columns_of t db of
        None \<Rightarrow> None
      | Some cs \<Rightarrow> if c \<in> set cs then None
                   else Some (put_table t (cs @ [c]) db))"
| "exec_stmt (ReplaceMeta v) db =
     (if columns_of ''taskhub_meta'' db = None then None else Some (upd_work (\<lambda>s. s\<lparr>sc_meta := Some v\<rparr>) db))"
| "exec_stmt (UpdateMeta v) db =
     (if columns_of ''taskhub_meta'' db = None then None
      else Some (upd_work (\<lambda>s. s\<lparr>sc_meta := map_option (\<lambda>_. v) (sc_meta s)\<rparr>) db))"
| "exec_stmt (SeedRows t c) db =
     (case columns_of t db of
        None \<Rightarrow> None
      | Some cs \<Rightarrow> if c \<in> set cs then Some db else None)"

text \<open>\<^verbatim>\<open>sqlite3_exec\<close> on a script.\<close>

fun exec_sql :: "sql list \<Rightarrow> SqlDb \<Rightarrow> SqlDb" where
  "exec_sql [] db = db"
| "exec_sql (st # sts) db = (case exec_stmt st db of None \<Rightarrow> db | Some db' \<Rightarrow> exec_sql sts db')"

subsection \<open>The migrator\<close>

definition exec_sql_file :: "(string \<Rightarrow> sql list option) \<Rightarrow> string \<Rightarrow> SqlDb \<Rightarrow> SqlDb" where
  "exec_sql_file files path db = (case files path of None \<Rightarrow> db | Some sts \<Rightarrow> exec_sql sts db)"

definition get_db_schema_version :: "SqlDb \<Rightarrow> int" where
  "get_db_schema_version db =
     (if columns_of ''taskhub_meta'' db = None then 0
      else (case sc_meta (db_work db) of None \<Rightarrow> 0 | Some v \<Rightarrow> v))"

definition table_exists :: "string \<Rightarrow> SqlDb \<Rightarrow> bool" where
  "table_exists t db \<longleftrightarrow> columns_of t db \<noteq> None"

definition column_exists :: "string \<Rightarrow> string \<Rightarrow> SqlDb \<Rightarrow> bool" where
  "column_exists t c db \<longleftrightarrow> (case columns_of t db of None \<Rightarrow> False | Some cs \<Rightarrow> c \<in> set cs)"

definition meta_columns :: "string list" where
  "meta_columns = [''id'', ''schema_version'', ''app_version'', ''upgrade_time'']"

definition infer_schema_version :: "(string \<Rightarrow> sql list option) \<Rightarrow> string \<Rightarrow> SqlDb \<Rightarrow> int \<times> SqlDb" where
  "infer_schema_version files dir db =
     (if \<not> table_exists ''tasks'' db then (1, exec_sql_file files (dir @ ''/001_v1_0_0_init.sql'') db)
      else (let has_v101_columns = (column_exists ''tasks'' ''timeout_sec'' db \<and> column_exists ''tasks'' ''max_retries'' db
                  \<and> column_exists ''tasks'' ''retry_count'' db \<and> column_exists ''tasks'' ''cancel_flag'' db);
                inferred = (if has_v101_columns then 2 else 1)
            in (inferred,
                if \<not> table_exists ''taskhub_meta'' db
                then exec_sql [CreateTable ''taskhub_meta'' meta_columns, ReplaceMeta inferred] db else db)))"

definition script_name :: "int \<Rightarrow> string option" where
  "script_name v =
     (if v = 2 then Some ''/002_v1_0_1_add_task_fields.sql''
      else if v = 3 then Some ''/003_v1_0_2_add_template.sql''
      else if v = 4 then Some ''/004_v1_0_3_add_run_tables.sql''
      else if v = 5 then Some ''/005_v1_0_4_add_events_and_dag_name.sql''
      else if v = 6 then Some ''/006_v1_0_5_add_schema_to_task_template.sql''
      else None)"

fun apply_migrations :: "(string \<Rightarrow> sql list option) \<Rightarrow> string \<Rightarrow> int list \<Rightarrow> SqlDb \<Rightarrow> SqlDb" where
  "apply_migrations files dir [] db = db"
| "apply_migrations files dir (v # vs) db =
     (case script_name v of
        None \<Rightarrow> db
      | Some f \<Rightarrow>
          (let db' = exec_sql_file files (dir @ f) db
           in if get_db_schema_version db' \<noteq> v then db' else apply_migrations files dir vs db'))"

abbreviation PROGRAM_SCHEMA_VERSION :: int where "PROGRAM_SCHEMA_VERSION \<equiv> 6"

definition migrate :: "(string \<Rightarrow> sql list option) \<Rightarrow> string \<Rightarrow> SqlDb \<Rightarrow> SqlDb" where
  "migrate files dir db =
     (let (ver, db1) = (if get_db_schema_version db = 0 then infer_schema_version files dir db
                        else (get_db_schema_version db, db))
      in if ver < PROGRAM_SCHEMA_VERSION then apply_migrations files dir [ver + 1..PROGRAM_SCHEMA_VERSION] db1 else db1)"

subsection \<open>The scripts\<close>

definition script_001 :: "sql list" where
  "script_001 =
     [Begin,
      CreateTable ''tasks'' [''id'', ''name'', ''type'', ''params'', ''status'', ''exit_code'', ''last_output'', ''last_error'',
        ''create_time'', ''update_time''],
      CreateTable ''users'' [''id'', ''username'', ''password'', ''create_time''],
      CreateTable ''taskhub_meta'' meta_columns, ReplaceMeta 1, Commit]"

definition script_002 :: "sql list" where
  "script_002 =
     [Begin, AddColumn ''tasks'' ''timeout_sec'', AddColumn ''tasks'' ''max_retries'', AddColumn ''tasks'' ''retry_count'',
      AddColumn ''tasks'' ''cancel_flag'', UpdateMeta 2, Commit]"

definition script_003 :: "sql list" where
  "script_003 =
     [Begin,
      CreateTable ''task_templates'' [''template_id'', ''name'', ''description'', ''task_json_template'', ''schema_json'',
        ''created_at_ms'', ''updated_at_ms''],
      CreateIndex ''task_templates'', UpdateMeta 3, Commit]"

definition script_004 :: "sql list" where
  "script_004 =
     [Begin,
      CreateTable ''dag_run'' [''run_id'', ''source'', ''template_id'', ''cron_job_id'', ''fail_policy'', ''max_parallel'',
        ''status'', ''message'', ''start_ts_ms'', ''end_ts_ms'', ''dag_json'', ''workflow_json'', ''total'',
        ''success_count'', ''failed_count'', ''skipped_count''],
      CreateIndex ''dag_run'', CreateIndex ''dag_run'', CreateIndex ''dag_run'',
      CreateTable ''task_run'' [''id'', ''run_id'', ''logical_id'', ''task_id'', ''name'', ''exec_type'', ''exec_command'',
        ''exec_params_json'', ''deps_json'', ''status'', ''exit_code'', ''duration_ms'', ''message'', ''stdout'', ''stderr'',
        ''attempt'', ''max_attempts'', ''worker_id'', ''worker_host'', ''worker_port'', ''start_ts_ms'', ''end_ts_ms'',
        ''metadata_json''],
      CreateIndex ''task_run'', CreateIndex ''task_run'', CreateIndex ''task_run'', CreateIndex ''task_run'',
      CreateTable ''task_template'' [''template_id'', ''name'', ''description'', ''exec_type'', ''exec_command'',
        ''exec_params_json'', ''timeout_ms'', ''retry_count'', ''retry_delay_ms'', ''retry_exp_backoff'', ''priority'',
        ''queue'', ''capture_output'', ''metadata_json'', ''created_ts_ms'', ''updated_ts_ms''],
      CreateIndex ''task_template'', UpdateMeta 4, Commit]"

definition script_005 :: "sql list" where
  "script_005 =
     [Begin, AddColumn ''dag_run'' ''name'',
      CreateTable ''task_event'' [''id'', ''run_id'', ''task_id'', ''type'', ''event'', ''ts_ms'', ''payload_json''],
      CreateIndex ''task_event'', CreateIndex ''task_event'', CreateIndex ''task_event'', CreateIndex ''task_event'',
      CreateIndex ''task_event'', UpdateMeta 5, Commit]"

definition script_006 :: "sql list" where
  "script_006 =
     [Begin, AddColumn ''task_template'' ''schema_json'', SeedRows ''task_template'' ''schema_json'', UpdateMeta 6, Commit]"

definition script :: "nat \<Rightarrow> sql list" where
  "script v = [script_001, script_002, script_003, script_004, script_005, script_006] ! (v - 1)"

definition script_path :: "nat \<Rightarrow> string" where
  "script_path v = (if v = 1 then ''/001_v1_0_0_init.sql'' else the (script_name (int v)))"

subsection \<open>What migrating does\<close>

text \<open>A database after its first \<open>k\<close> migrations.\<close>

fun db_at :: "nat \<Rightarrow> SqlDb" where
  "db_at 0 = \<lparr>db_work = \<lparr>sc_tables = [], sc_meta = None\<rparr>, db_saved = None\<rparr>"
| "db_at (Suc k) = exec_sql (script (Suc k)) (db_at k)"

fun settled_along :: "nat list \<Rightarrow> SqlDb \<Rightarrow> bool" where
  "settled_along [] db = True"
| "settled_along (v # vs) db =
     (case exec_sql (script v) db of
        db' \<Rightarrow> get_db_schema_version db' = int v \<and> (case db_saved db' of None \<Rightarrow> True | Some _ \<Rightarrow> False) \<and> settled_along vs db')"

lemma scripts_settle: "settled_along [1, 2, 3, 4, 5, 6] (db_at 0)"
  by code_simp

lemma settled_along_db_at:
  "settled_along [Suc k..<m] (db_at k) \<Longrightarrow> k < v \<Longrightarrow> v < m \<Longrightarrow>
     get_db_schema_version (db_at v) = int v \<and> db_saved (db_at v) = None"
proof (induction "m - k" arbitrary: k)
  case (Suc d)
  then have up: "[Suc k..<m] = Suc k # [Suc (Suc k)..<m]" by (simp add: upt_rec)
  from Suc.prems(1) have "get_db_schema_version (db_at (Suc k)) = int (Suc k)" "db_saved (db_at (Suc k)) = None"
      "settled_along [Suc (Suc k)..<m] (db_at (Suc k))"
    unfolding up by (simp_all split: option.splits)
  then show ?case using Suc.hyps(1) [of "Suc k"] Suc.hyps(2) Suc.prems(2,3) by (cases "v = Suc k") (simp_all del: db_at.simps)
qed simp

lemma db_at_version: "k \<le> 6 \<Longrightarrow> get_db_schema_version (db_at k) = int k \<and> db_saved (db_at k) = None"
proof (cases "k = 0")
  case False
  assume "k \<le> 6"
  have "[Suc 0..<7] = [1, 2, 3, 4, 5, 6]" by (simp add: upt_rec)
  then have "settled_along [Suc 0..<7] (db_at 0)" using scripts_settle by metis
  from settled_along_db_at [OF this] False \<open>k \<le> 6\<close> show ?thesis by simp
qed (simp add: get_db_schema_version_def columns_of_def)

lemma script_names: "v \<in> {2..6} \<Longrightarrow> script_name (int v) = Some (script_path v)"
  by (auto simp: script_path_def script_name_def)

text \<open>\<open>available files dir\<close>: every script the directory has is the one of the repository.\<close>

definition available :: "(string \<Rightarrow> sql list option) \<Rightarrow> string \<Rightarrow> bool" where
  "available files dir \<longleftrightarrow> (\<forall>v \<in> {1..6}. files (dir @ script_path v) \<in> {None, Some (script v)})"

lemma apply_from:
  assumes "available files dir" and "1 \<le> k" and "k \<le> 6"
  shows "\<exists>n \<le> 6. k \<le> n \<and> apply_migrations files dir [int k + 1..6] (db_at k) = db_at n
    \<and> (n < 6 \<longrightarrow> files (dir @ script_path (Suc n)) = None)"
  using assms(2,3)
proof (induction "6 - k" arbitrary: k)
  case 0
  then show ?case by auto
next
  case (Suc d)
  then have k: "k < 6" by simp
  then have up: "[int k + 1..6] = int (Suc k) # [int (Suc k) + 1..6]" by (simp add: upto_rec1)
  have nm: "script_name (int (Suc k)) = Some (script_path (Suc k))" using script_names [of "Suc k"] Suc.prems k by simp
  have av: "files (dir @ script_path (Suc k)) \<in> {None, Some (script (Suc k))}"
    using assms(1) k by (simp add: available_def)
  show ?case
  proof (cases "files (dir @ script_path (Suc k))")
    case None
    have "get_db_schema_version (db_at k) \<noteq> int (Suc k)" using db_at_version [of k] k by simp
    then have "apply_migrations files dir [int k + 1..6] (db_at k) = db_at k"
      unfolding up apply_migrations.simps nm option.case exec_sql_file_def None Let_def by simp
    then show ?thesis using k None by (intro exI [of _ k]) simp
  next
    case (Some s)
    then have s: "s = script (Suc k)" using av by simp
    have v: "get_db_schema_version (db_at (Suc k)) = int (Suc k)" using db_at_version [of "Suc k"] k by simp
    have "apply_migrations files dir [int k + 1..6] (db_at k) = apply_migrations files dir [int (Suc k) + 1..6] (db_at (Suc k))"
      unfolding up apply_migrations.simps nm option.case exec_sql_file_def Some s Let_def using v by simp
    moreover have "d = 6 - Suc k" "1 \<le> Suc k" "Suc k \<le> 6" using Suc.hyps(2) k by simp_all
    ultimately show ?thesis using Suc.hyps(1) [of "Suc k"] by (metis Suc_leD)
  qed
qed

lemma migrate_from:
  assumes av: "available files dir" and "k \<le> 6" and "k = 0 \<longrightarrow> files (dir @ script_path 1) \<noteq> None"
  shows "\<exists>n \<le> 6. k \<le> n \<and> migrate files dir (db_at k) = db_at n \<and> (n < 6 \<longrightarrow> files (dir @ script_path (Suc n)) = None)"
proof (cases "k = 0")
  case True
  have f: "files (dir @ script_path 1) = Some (script 1)"
    using av assms(3) True by (auto simp: available_def dest!: bspec [of _ _ 1])
  have t: "\<not> table_exists ''tasks'' (db_at 0)" by (simp add: table_exists_def columns_of_def)
  have "infer_schema_version files dir (db_at 0) = (1, db_at 1)"
    using f t by (simp add: infer_schema_version_def exec_sql_file_def script_path_def del: exec_sql.simps)
  then have "migrate files dir (db_at k) = apply_migrations files dir [int 1 + 1..6] (db_at 1)"
    using True db_at_version [of 0] by (simp add: migrate_def Let_def del: db_at.simps)
  then show ?thesis using apply_from [OF av, of 1] True by (auto simp del: db_at.simps)
next
  case False
  have v: "get_db_schema_version (db_at k) = int k" using db_at_version assms(2) by blast
  then have "migrate files dir (db_at k) = (if int k < 6 then apply_migrations files dir [int k + 1..6] (db_at k) else db_at k)"
    using False by (simp add: migrate_def Let_def del: db_at.simps)
  then have "migrate files dir (db_at k) = apply_migrations files dir [int k + 1..6] (db_at k)"
    using assms(2) by (cases "k = 6") (simp_all del: db_at.simps)
  then show ?thesis using apply_from [OF av, of k] False assms(2) by (simp del: db_at.simps)
qed

text \<open>C39. Migrating is incremental and can be taken up again: from any version, with the first script there if nothing was set
  up yet, it applies the scripts that are there up to the first one missing and leaves a complete version with no
  transaction open; once the others are there, the next start brings the database to the program's version, and
  a start after that changes nothing.\<close>

theorem migrate_resumes:
  assumes "available files dir" and "available files' dir" and "\<forall>v \<in> {1..6}. files' (dir @ script_path v) \<noteq> None"
    and "k \<le> 6" and "k = 0 \<longrightarrow> files (dir @ script_path 1) \<noteq> None"
  shows "\<exists>n \<le> 6. k \<le> n \<and> migrate files dir (db_at k) = db_at n \<and> db_saved (db_at n) = None
    \<and> (n < 6 \<longrightarrow> files (dir @ script_path (Suc n)) = None)
    \<and> migrate files' dir (db_at n) = db_at 6 \<and> migrate files' dir (db_at 6) = db_at 6"
proof -
  obtain n where n: "n \<le> 6" "k \<le> n" "migrate files dir (db_at k) = db_at n"
      "n < 6 \<longrightarrow> files (dir @ script_path (Suc n)) = None"
    using migrate_from [OF assms(1,4,5)] by blast
  have full: "migrate files' dir (db_at m) = db_at 6" if "m \<le> 6" for m
  proof -
    have "files' (dir @ script_path 1) \<noteq> None" using assms(3) by simp
    then have "m = 0 \<longrightarrow> files' (dir @ script_path 1) \<noteq> None" by blast
    from migrate_from [OF assms(2) that this] obtain l where l: "l \<le> 6" "migrate files' dir (db_at m) = db_at l" "l < 6 \<longrightarrow> files' (dir @ script_path (Suc l)) = None"
      by blast
    have "\<not> l < 6" using l(3) assms(3) by auto
    then show ?thesis using l(1,2) by (metis le_neq_implies_less)
  qed
  show ?thesis using n db_at_version [OF n(1)] full [OF n(1)] full [of 6] by blast
qed


definition shipped :: "string \<Rightarrow> sql list option" where
  "shipped p = map_of (map (\<lambda>v. (''m'' @ script_path v, script v)) [1, 2, 3, 4, 5, 6]) p"

definition half_shipped :: "string \<Rightarrow> sql list option" where
  "half_shipped p = (if p = ''m'' @ script_path 4 then None else shipped p)"

theorem migrate_resumes_witness:
  "\<exists>n \<le> 6. migrate half_shipped ''m'' (db_at 0) = db_at n \<and> db_saved (db_at n) = None \<and> migrate shipped ''m'' (db_at n) = db_at 6"
proof -
  have r: "{1..6} = {1, 2, 3, 4, 5, 6::nat}" by auto
  have s: "shipped (''m'' @ script_path v) = Some (script v)" if "v \<in> {1..6}" for v
    using that unfolding r by (auto simp: shipped_def script_path_def script_name_def)
  have h: "half_shipped (''m'' @ script_path v) \<in> {None, Some (script v)}" if "v \<in> {1..6}" for v
    using s [OF that] by (auto simp: half_shipped_def)
  have h1: "half_shipped (''m'' @ script_path 1) \<noteq> None"
    using s [of 1] by (simp add: half_shipped_def script_path_def script_name_def)
  from migrate_resumes [of half_shipped "''m''" shipped 0] s h h1 show ?thesis by (auto simp: available_def simp del: db_at.simps)
qed

text \<open>A script that fails half-way leaves its transaction open: with the first script missing, the second one fails on
  the table that is not there, and everything written afterwards is lost when the process ends.\<close>

definition no_first :: "string \<Rightarrow> sql list option" where
  "no_first p = (if p = ''m'' @ script_path 1 then None else shipped p)"

lemma failed_script_stays_open:
  "(case db_saved (migrate no_first ''m'' (db_at 0)) of Some s \<Rightarrow> sc_tables s = [] | None \<Rightarrow> False)"
  by code_simp

text \<open>A database whose \<^verbatim>\<open>taskhub_meta\<close> has lost its row never gets past version 3, however often it is migrated.\<close>

definition lost_row :: SqlDb where
  "lost_row = (db_at 2)\<lparr>db_work := (db_work (db_at 2))\<lparr>sc_meta := None\<rparr>\<rparr>"

lemma lost_row_is_stuck:
  "let db = migrate shipped ''m'' lost_row; db' = migrate shipped ''m'' db
   in get_db_schema_version db' = 0 \<and> table_exists ''task_templates'' db' \<and> \<not> table_exists ''dag_run'' db'"
  by code_simp

end
