(* ===== verification/Client_Canvas.thy ===== *)
theory Client_Canvas
  imports Dag_Service
begin

text \<open>
  The canvas of the desktop client: \<^verbatim>\<open>Item/base_item.cpp\<close> and the node classes (properties by key path and their
  defaults), \<^verbatim>\<open>view/utils/dag_serializer.cpp\<close> (the JSON that is saved and submitted) and \<^verbatim>\<open>dag_loader.cpp\<close> (a
  canvas from such JSON).  A \<^verbatim>\<open>QVariant\<close> is a JSON value; its conversions are Qt's and an argument.  A pointer to
  a node is a number, a set of lines is the list in which it is iterated, and a container node has its children.
\<close>

subsection \<open>Properties\<close>

type_synonym props = "string \<rightharpoonup> json"

text \<open>\<^verbatim>\<open>QVariant::toString\<close>, \<^verbatim>\<open>toInt\<close>, \<^verbatim>\<open>toLongLong\<close>, \<^verbatim>\<open>toBool\<close> and \<^verbatim>\<open>QJsonValue::toInt\<close>.\<close>

record qt =
  q_string :: "json \<Rightarrow> string"
  q_int :: "json \<Rightarrow> int"
  q_ll :: "json \<Rightarrow> int"
  q_bool :: "json \<Rightarrow> bool"
  q_jint :: "json \<Rightarrow> int"

function split_dots :: "string \<Rightarrow> string list" where
  "split_dots s = (case split_at CHR ''.'' s of (h, None) \<Rightarrow> [h] | (h, Some r) \<Rightarrow> h # split_dots r)"
  by pat_completeness auto
termination by (relation "measure length") (auto dest!: split_at_length [OF sym])

declare split_dots.simps [simp del]

fun get_nested :: "props \<Rightarrow> string list \<Rightarrow> json option" where
  "get_nested m [] = None"
| "get_nested m [k] = m k"
| "get_nested m (k # ks) = (case m k of Some (JObj sub) \<Rightarrow> get_nested sub ks | _ \<Rightarrow> None)"

fun set_nested :: "props \<Rightarrow> string list \<Rightarrow> json \<Rightarrow> props" where
  "set_nested m [] v = m"
| "set_nested m [k] v = m(k \<mapsto> v)"
| "set_nested m (k # ks) v = m(k \<mapsto> JObj (set_nested (case m k of Some (JObj sub) \<Rightarrow> sub | _ \<Rightarrow> Map.empty) ks v))"

definition propByKeyPath :: "string \<Rightarrow> props \<Rightarrow> json option" where
  "propByKeyPath k m = (if CHR ''.'' \<notin> set k then m k else get_nested m (split_dots k))"

definition setPropByKeyPath :: "string \<Rightarrow> json \<Rightarrow> props \<Rightarrow> props" where
  "setPropByKeyPath k v m = (if CHR ''.'' \<notin> set k then m(k \<mapsto> v) else set_nested m (split_dots k) v)"

definition set_props :: "(string \<times> json) list \<Rightarrow> props \<Rightarrow> props" where
  "set_props kvs m = foldl (\<lambda>m (k, v). setPropByKeyPath k v m) m kvs"

subsection \<open>Node types\<close>

datatype NodeType = NShell | NHttp | NRemote | NLocal | NDag | NTemplate

definition rect_props :: props where
  "rect_props = set_props [(''name'', JStr ''Node''), (''enabled'', JBool True)] Map.empty"

definition run_props :: "(string \<times> json) list" where
  "run_props =
     [(''timeout_ms'', JInt 0), (''retry_count'', JInt 0), (''retry_delay_ms'', JInt 1000), (''retry_exp_backoff'', JBool True),
      (''priority'', JInt 0), (''queue'', JStr ''default''), (''capture_output'', JBool True), (''metadata'', JObj Map.empty)]"

definition named_props :: "string \<Rightarrow> string \<Rightarrow> string \<Rightarrow> (string \<times> json) list" where
  "named_props i name exec = [(''id'', JStr i), (''name'', JStr name), (''exec_type'', JStr exec), (''exec_command'', JStr [])]"

definition shell_props :: "string \<Rightarrow> props" where
  "shell_props i =
     set_props (named_props i ''Shell'' ''Shell'' @ run_props
       @ [(''description'', JStr []), (''exec_params.cmd'', JStr ''echo hello''), (''exec_params.cwd'', JStr []),
          (''exec_params.shell'', JStr ''/bin/bash''), (''exec_params.env'', JStr [])]) rect_props"

definition http_props :: "string \<Rightarrow> props" where
  "http_props i =
     set_props (named_props i ''HTTP'' ''HttpCall'' @ run_props
       @ [(''description'', JStr []), (''exec_params.method'', JStr ''GET''), (''exec_params.url'', JStr []),
          (''exec_params.body'', JStr []), (''exec_params.header.Content-Type'', JStr ''application/json''),
          (''exec_params.follow_redirects'', JStr ''true'')]) rect_props"

definition local_props :: "string \<Rightarrow> props" where
  "local_props i =
     set_props (named_props i ''Local'' ''Local''
       @ [(''exec_params.handler'', JStr ''handler''), (''exec_params.args'', JStr [])] @ run_props) rect_props"

definition template_props :: "string \<Rightarrow> props" where
  "template_props i =
     set_props (named_props i ''Template'' ''Template'' @ [(''exec_params'', JObj Map.empty)] @ run_props) rect_props"

definition container_limits :: "(string \<times> json) list" where
  "container_limits =
     [(''exec_params.config.fail_policy'', JStr ''SkipDownstream''), (''exec_params.config.max_parallel'', JInt 4)]"

definition remote_props :: "string \<Rightarrow> props" where
  "remote_props i =
     set_props (named_props i ''Remote'' ''Remote'' @ [(''exec_params'', JObj Map.empty)] @ run_props @ container_limits) rect_props"

definition dag_props :: "string \<Rightarrow> props" where
  "dag_props i =
     set_props (named_props i ''DAG'' ''Dag'' @ [(''exec_params'', JObj Map.empty)] @ run_props @ container_limits) rect_props"

fun node_props :: "NodeType \<Rightarrow> string \<Rightarrow> props" where
  "node_props NShell i = shell_props i"
| "node_props NHttp i = http_props i"
| "node_props NRemote i = remote_props i"
| "node_props NLocal i = local_props i"
| "node_props NDag i = dag_props i"
| "node_props NTemplate i = template_props i"

definition isContainerType :: "NodeType \<Rightarrow> bool" where
  "isContainerType t \<longleftrightarrow> t = NRemote \<or> t = NDag"

definition trimmed :: "string \<Rightarrow> string" where
  "trimmed s = rev (dropWhile isspace (rev (dropWhile isspace s)))"

definition fromString :: "string \<Rightarrow> NodeType" where
  "fromString s =
     (let k = tolower (trimmed s)
      in if k = ''shell'' then NShell else if k = ''http'' then NHttp else if k = ''remote'' then NRemote
         else if k = ''local'' then NLocal else if k = ''dag'' then NDag else if k = ''template'' then NTemplate else NLocal)"

fun node_toString :: "NodeType \<Rightarrow> string" where
  "node_toString NShell = ''Shell''"
| "node_toString NHttp = ''Http''"
| "node_toString NRemote = ''Remote''"
| "node_toString NLocal = ''Local''"
| "node_toString NDag = ''Dag''"
| "node_toString NTemplate = ''Template''"

definition typeFromExec :: "string \<Rightarrow> NodeType" where
  "typeFromExec s =
     (let t = tolower (trimmed s)
      in if t = ''shell'' then NShell else if t = ''httpcall'' then NHttp else if t = ''remote'' then NRemote
         else if t = ''local'' then NLocal else if t = ''dag'' then NDag else if t = ''template'' then NTemplate
         else if t = ''http'' then NHttp else NLocal)"

subsection \<open>The canvas\<close>

datatype cnode =
  CNode (cn_ptr: nat) (cn_type: NodeType) (cn_props: "string \<rightharpoonup> json") (cn_lines: "(nat \<times> nat) list") (cn_children: "cnode list")

text \<open>\<^verbatim>\<open>canConnect\<close>: nodes of one container, or both on the canvas itself.\<close>

definition canConnect :: "(nat \<times> nat option) option \<Rightarrow> (nat \<times> nat option) option \<Rightarrow> nat option option" where
  "canConnect s e =
     (case (s, e) of
        (Some (p, pa), Some (q, pb)) \<Rightarrow> if p = q \<or> pa \<noteq> pb then None else Some pa
      | _ \<Rightarrow> None)"

subsection \<open>Saving\<close>

definition text_prop :: "qt \<Rightarrow> string \<Rightarrow> props \<Rightarrow> string" where
  "text_prop Q k m = (case m k of None \<Rightarrow> [] | Some v \<Rightarrow> q_string Q v)"

fun assign_ids :: "qt \<Rightarrow> nat \<Rightarrow> cnode list \<Rightarrow> (nat \<times> string) list" where
  "assign_ids Q k [] = []"
| "assign_ids Q k (n # ns) =
     (let i = text_prop Q ''id'' (cn_props n)
      in if i = [] then (cn_ptr n, ''node_'' @ nat_digits k) # assign_ids Q (k + 1) ns
         else (cn_ptr n, i) # assign_ids Q k ns)"

definition as_map :: "json \<Rightarrow> props" where
  "as_map v = (case v of JObj m \<Rightarrow> m | _ \<Rightarrow> Map.empty)"

definition plain_keys :: "string list" where
  "plain_keys =
     [''id'', ''name'', ''exec_type'', ''exec_command'', ''timeout_ms'', ''retry_count'', ''retry_delay_ms'',
      ''retry_exp_backoff'', ''priority'', ''queue'', ''capture_output'']"

definition field_json :: "qt \<Rightarrow> string \<Rightarrow> json \<Rightarrow> json" where
  "field_json Q k v =
     (if k = ''timeout_ms'' \<or> k = ''retry_delay_ms'' then JInt (q_ll Q v)
      else if k = ''retry_count'' \<or> k = ''priority'' then JInt (q_int Q v)
      else if k = ''retry_exp_backoff'' \<or> k = ''capture_output'' then JBool (q_bool Q v)
      else JStr (q_string Q v))"

definition node_fields :: "qt \<Rightarrow> props \<Rightarrow> props" where
  "node_fields Q m k =
     (if k \<notin> set plain_keys then None
      else (case m k of
              Some v \<Rightarrow> Some (field_json Q k v)
            | None \<Rightarrow> if k = ''exec_command'' then Some (JStr []) else None))"

definition sub_config :: "qt \<Rightarrow> props \<Rightarrow> props \<Rightarrow> json" where
  "sub_config Q m execMap =
     JObj [''fail_policy'' \<mapsto> JStr (case execMap ''config.fail_policy'' of None \<Rightarrow> ''SkipDownstream'' | Some v \<Rightarrow> q_string Q v),
           ''max_parallel'' \<mapsto> JInt (case execMap ''config.max_parallel'' of None \<Rightarrow> 4 | Some v \<Rightarrow> q_int Q v),
           ''name'' \<mapsto> JStr (text_prop Q ''name'' m)]"

definition flat_keys :: "string list" where
  "flat_keys = [''config.fail_policy'', ''config.max_parallel'', ''remote.fail_policy'', ''remote.max_parallel'', ''dag_json'']"

definition remove_keys :: "string list \<Rightarrow> props \<Rightarrow> props" where
  "remove_keys ks m k = (if k \<in> set ks then None else m k)"

definition deps_of_lines :: "nat \<Rightarrow> (nat \<rightharpoonup> string) \<Rightarrow> (nat \<times> nat) list \<Rightarrow> string list" where
  "deps_of_lines p ids ls = List.map_filter (\<lambda>(s, e). if e = p then ids s else None) ls"

definition exec_obj :: "qt \<Rightarrow> NodeType \<Rightarrow> props \<Rightarrow> json list \<Rightarrow> json \<Rightarrow> props" where
  "exec_obj Q ty m subs v =
     (if isContainerType ty \<and> subs \<noteq> [] then
        remove_keys flat_keys ((as_map v)(''config'' \<mapsto> sub_config Q m (as_map v), ''tasks'' \<mapsto> JArr subs))
      else as_map v)"

fun node_json :: "qt \<Rightarrow> (nat \<rightharpoonup> string) \<Rightarrow> cnode \<Rightarrow> json" where
  "node_json Q ids (CNode p ty m ls kids) =
     (let t = node_fields Q m;
          t1 = (case m ''exec_params'' of
                  None \<Rightarrow> t
                | Some v \<Rightarrow>
                    t(''exec_params'' \<mapsto> JObj
                        (exec_obj Q ty m (map (node_json Q (map_of (assign_ids Q 1 kids))) kids) v)))
      in JObj (t1(''deps'' \<mapsto> JArr (map JStr (deps_of_lines p ids ls)),
                  ''id'' \<mapsto> JStr (case ids p of Some i \<Rightarrow> i | None \<Rightarrow> []))))"

definition level_tasks :: "qt \<Rightarrow> cnode list \<Rightarrow> json list" where
  "level_tasks Q ns = map (node_json Q (map_of (assign_ids Q 1 ns))) ns"

definition serializeLevel :: "qt \<Rightarrow> cnode list \<Rightarrow> json \<Rightarrow> json" where
  "serializeLevel Q ns cfg =
     (if ns = [] then JObj Map.empty else JObj [''config'' \<mapsto> cfg, ''tasks'' \<mapsto> JArr (level_tasks Q ns)])"

definition buildDagJson :: "qt \<Rightarrow> cnode list \<Rightarrow> string \<Rightarrow> int \<Rightarrow> string \<Rightarrow> json" where
  "buildDagJson Q ns policy parallel dagName =
     serializeLevel Q ns
       (JObj ((if dagName = [] then Map.empty else [''name'' \<mapsto> JStr dagName])
         (''fail_policy'' \<mapsto> JStr policy, ''max_parallel'' \<mapsto> JInt parallel)))"

subsection \<open>Loading\<close>

definition j_text :: "string \<Rightarrow> json option \<Rightarrow> string" where
  "j_text d v = (case v of Some (JStr s) \<Rightarrow> s | _ \<Rightarrow> d)"

definition load_keys :: "string list" where
  "load_keys = plain_keys @ [''exec_params'', ''metadata'', ''description'']"

definition load_field :: "qt \<Rightarrow> string \<Rightarrow> json \<Rightarrow> json" where
  "load_field Q k v =
     (if k = ''exec_params'' \<or> k = ''metadata'' then v
      else if k = ''timeout_ms'' \<or> k = ''retry_delay_ms'' then JInt (q_ll Q v)
      else if k = ''retry_count'' \<or> k = ''priority'' then JInt (q_jint Q v)
      else if k = ''retry_exp_backoff'' \<or> k = ''capture_output'' then JBool (case v of JBool b \<Rightarrow> b | _ \<Rightarrow> False)
      else JStr (j_text [] (Some v)))"

definition load_cfg :: "qt \<Rightarrow> props \<Rightarrow> props" where
  "load_cfg Q t k = (if k \<in> set load_keys then map_option (load_field Q k) (t k) else None)"

definition obj_id :: "props \<Rightarrow> string" where
  "obj_id t = j_text [] (t ''id'')"

text \<open>The ids of a level in the order in which their nodes are created.\<close>

definition first_ids :: "props list \<Rightarrow> string list" where
  "first_ids ts = rev (remdups (rev (map obj_id ts)))"

definition index_of :: "string list \<Rightarrow> string \<Rightarrow> nat option" where
  "index_of is i = map_of (zip is [0..<length is]) i"

definition dep_texts :: "props \<Rightarrow> string list" where
  "dep_texts t = (case t ''deps'' of Some (JArr ds) \<Rightarrow> map (\<lambda>d. j_text [] (Some d)) ds | _ \<Rightarrow> [])"

definition task_lines :: "string list \<Rightarrow> props \<Rightarrow> (nat \<times> nat) list" where
  "task_lines is t =
     (case index_of is (obj_id t) of
        None \<Rightarrow> []
      | Some e \<Rightarrow> List.map_filter (\<lambda>d. case index_of is d of
                                      Some s \<Rightarrow> if s = e then None else Some (s, e)
                                    | None \<Rightarrow> None) (dep_texts t))"

definition sub_tasks :: "(string \<Rightarrow> string + json) \<Rightarrow> props \<Rightarrow> json list" where
  "sub_tasks parse t =
     (case t ''exec_params'' of
        Some (JObj m) \<Rightarrow>
          (case m ''tasks'' of
             Some (JArr ts) \<Rightarrow> ts
           | _ \<Rightarrow>
               (case m ''dag_json'' of
                  None \<Rightarrow> []
                | Some v \<Rightarrow>
                    (if j_text [] (Some v) = [] then []
                     else (case parse (j_text [] (Some v)) of
                             Inr (JObj d) \<Rightarrow> (case d ''tasks'' of Some (JArr ts) \<Rightarrow> ts | _ \<Rightarrow> [])
                           | _ \<Rightarrow> []))))
      | _ \<Rightarrow> [])"

definition load_node :: "qt \<Rightarrow> string \<Rightarrow> (nat \<times> nat) list \<Rightarrow> nat \<Rightarrow> props \<Rightarrow> cnode list \<Rightarrow> cnode" where
  "load_node Q fr ls idx t kids =
     (let ty = typeFromExec (j_text ''Local'' (t ''exec_type''))
      in CNode idx ty (node_props ty fr ++ load_cfg Q t) (filter (\<lambda>(s, e). s = idx \<or> e = idx) ls) kids)"

text \<open>\<^verbatim>\<open>loadLevel\<close> without existing nodes.  The fuel bounds the nesting; \<open>None\<close> says that it was not enough.\<close>

fun loadLevel :: "nat \<Rightarrow> qt \<Rightarrow> (string \<Rightarrow> string + json) \<Rightarrow> (nat \<Rightarrow> string) \<Rightarrow> json list \<Rightarrow> cnode list option" where
  "loadLevel 0 Q parse fresh tasks = (if tasks = [] then Some [] else None)"
| "loadLevel (Suc f) Q parse fresh tasks =
     (let ts = map as_map tasks;
          is = first_ids ts;
          ls = concat (map (task_lines is) ts)
      in those (map (\<lambda>(idx, i).
           map_option (\<lambda>kids. load_node Q (fresh idx) ls idx (the (find (\<lambda>t. obj_id t = i) ts)) (concat kids))
             (those (map (\<lambda>t. loadLevel f Q parse fresh (sub_tasks parse t)) (filter (\<lambda>t. obj_id t = i) ts))))
           (enumerate 0 is)))"

end
