(* ===== verification/Client_Save.thy ===== *)
theory Client_Save
  imports Client_Canvas "HOL-Library.Sublist"
begin

text \<open>
  What saving a canvas keeps: a canvas that is loaded from what was saved is saved as the same text, and the
  server reads a submitted canvas as the tasks and dependencies that are drawn on it.
\<close>

subsection \<open>Qt's conversions and canvases\<close>

definition qt_laws :: "qt \<Rightarrow> bool" where
  "qt_laws Q \<longleftrightarrow> (\<forall>s. q_string Q (JStr s) = s) \<and> (\<forall>b. q_bool Q (JBool b) = b)
     \<and> (\<forall>v. q_ll Q (JInt (q_ll Q v)) = q_ll Q v \<and> int_range 64 (q_ll Q v))
     \<and> (\<forall>v. q_int Q (JInt (q_int Q v)) = q_int Q v \<and> q_jint Q (JInt (q_int Q v)) = q_int Q v \<and> int_range 32 (q_int Q v))"

definition ids_ok :: "qt \<Rightarrow> cnode list \<Rightarrow> bool" where
  "ids_ok Q ns \<longleftrightarrow> distinct (map cn_ptr ns) \<and> distinct (map snd (assign_ids Q 1 ns))"

definition lacks :: "string list \<Rightarrow> props \<Rightarrow> bool" where
  "lacks ks m \<longleftrightarrow> (\<forall>k \<in> set ks. m k = None)"

text \<open>What the node classes set up: every key is there, the type is that of \<^verbatim>\<open>exec_type\<close>, only containers have
  children, and \<^verbatim>\<open>exec_params\<close> has neither the old flat keys of a container nor tasks that no child stands for.\<close>

fun node_ok :: "qt \<Rightarrow> cnode \<Rightarrow> bool" where
  "node_ok Q (CNode p ty m ls kids) \<longleftrightarrow>
     set plain_keys \<subseteq> dom m \<and> m ''exec_params'' \<noteq> None
     \<and> lacks (if kids = [] then [''tasks'', ''dag_json''] else [''config.fail_policy'', ''config.max_parallel''])
         (as_map (the (m ''exec_params'')))
     \<and> typeFromExec (text_prop Q ''exec_type'' m) = ty \<and> (p, p) \<notin> set ls
     \<and> (kids \<noteq> [] \<longrightarrow> isContainerType ty) \<and> ids_ok Q kids \<and> (\<forall>n \<in> set kids. node_ok Q n)"

definition canvas_ok :: "qt \<Rightarrow> cnode list \<Rightarrow> bool" where
  "canvas_ok Q ns \<longleftrightarrow> ids_ok Q ns \<and> (\<forall>n \<in> set ns. node_ok Q n)"

fun depth :: "cnode \<Rightarrow> nat" where
  "depth (CNode p ty m ls kids) = Suc (fold max (map depth kids) 0)"

definition depth_of :: "cnode list \<Rightarrow> nat" where
  "depth_of ns = fold max (map depth ns) 0"

lemma fold_max_le: "fold max xs a \<le> f \<longleftrightarrow> a \<le> f \<and> (\<forall>x \<in> set xs. x \<le> (f::nat))"
  by (induction xs arbitrary: a) auto

lemma depth_of_le: "depth_of ns \<le> f \<longleftrightarrow> (\<forall>n \<in> set ns. depth n \<le> f)"
  by (auto simp: depth_of_def fold_max_le)

subsection \<open>Ids\<close>

lemma assign_ids_fst [simp]: "map fst (assign_ids Q k ns) = map cn_ptr ns"
  by (induction Q k ns rule: assign_ids.induct) (simp_all add: Let_def)

lemma assign_ids_length [simp]: "length (assign_ids Q k ns) = length ns"
  by (metis assign_ids_fst length_map)

lemma assign_ids_nonempty: "i \<in> set (map snd (assign_ids Q k ns)) \<Longrightarrow> i \<noteq> []"
  by (induction Q k ns rule: assign_ids.induct) (auto simp: Let_def split: if_splits)

lemma assign_ids_given:
  "\<forall>n \<in> set ns. text_prop Q ''id'' (cn_props n) \<noteq> [] \<Longrightarrow>
     assign_ids Q k ns = map (\<lambda>n. (cn_ptr n, text_prop Q ''id'' (cn_props n))) ns"
  by (induction Q k ns rule: assign_ids.induct) (simp_all add: Let_def)

lemma ids_nth:
  assumes "ids_ok Q ns" and "j < length ns"
  shows "map_of (assign_ids Q 1 ns) (cn_ptr (ns ! j)) = Some (map snd (assign_ids Q 1 ns) ! j)"
proof -
  let ?a = "assign_ids Q 1 ns"
  have d: "distinct (map fst ?a)" using assms(1) by (simp add: ids_ok_def)
  have "map fst ?a ! j = cn_ptr (ns ! j)" using assms(2) by simp
  then have "(cn_ptr (ns ! j), map snd ?a ! j) \<in> set ?a"
    using assms(2) by (metis assign_ids_length nth_map nth_mem surjective_pairing)
  then show ?thesis using d by (simp add: map_of_eq_Some_iff)
qed

lemma ids_None: "p \<notin> cn_ptr ` set ns \<Longrightarrow> map_of (assign_ids Q k ns) p = None"
  using assign_ids_fst [of Q k ns] by (metis list.set_map map_of_eq_None_iff)

lemma index_of_nth: "distinct is \<Longrightarrow> j < length is \<Longrightarrow> index_of is (is ! j) = Some j"
  using map_of_zip_nth [of "is" "[0..<length is]" j] by (simp add: index_of_def)

lemma first_ids_distinct: "distinct (map obj_id ts) \<Longrightarrow> first_ids ts = map obj_id ts"
  by (simp add: first_ids_def distinct_remdups_id)

lemma find_filter: "find P xs = (case filter P xs of [] \<Rightarrow> None | x # _ \<Rightarrow> Some x)"
  by (induction xs) simp_all

lemma filter_key:
  "distinct (map f xs) \<Longrightarrow> j < length xs \<Longrightarrow> filter (\<lambda>x. f x = f (xs ! j)) xs = [xs ! j]"
proof (induction xs arbitrary: j)
  case (Cons x xs)
  show ?case
  proof (cases j)
    case 0
    then show ?thesis using Cons.prems by (auto simp: filter_empty_conv image_iff)
  next
    case (Suc i)
    then have "xs ! i \<in> set xs" using Cons.prems by simp
    then have "f x \<noteq> f (xs ! i)" using Cons.prems by auto
    then show ?thesis using Cons Suc by simp
  qed
qed simp

subsection \<open>A node\<close>

lemma node_json_obj:
  assumes "set plain_keys \<subseteq> dom m" and "m ''exec_params'' = Some v"
  shows "node_json Q ids (CNode p ty m ls kids) =
    JObj ((\<lambda>k. if k \<in> set plain_keys then Some (field_json Q k (the (m k))) else None)
      (''exec_params'' \<mapsto> JObj (exec_obj Q ty m (level_tasks Q kids) v),
       ''deps'' \<mapsto> JArr (map JStr (deps_of_lines p ids ls)),
       ''id'' \<mapsto> JStr (case ids p of Some i \<Rightarrow> i | None \<Rightarrow> [])))"
proof -
  have "node_fields Q m = (\<lambda>k. if k \<in> set plain_keys then Some (field_json Q k (the (m k))) else None)"
    using assms(1) by (auto simp: node_fields_def fun_eq_iff split: option.splits)
  then show ?thesis by (simp add: assms(2) level_tasks_def)
qed

lemma node_ok_obj:
  assumes "node_ok Q n"
  shows "\<exists>v. cn_props n ''exec_params'' = Some v \<and> node_json Q ids n =
    JObj ((\<lambda>k. if k \<in> set plain_keys then Some (field_json Q k (the (cn_props n k))) else None)
      (''exec_params'' \<mapsto> JObj (exec_obj Q (cn_type n) (cn_props n) (level_tasks Q (cn_children n)) v),
       ''deps'' \<mapsto> JArr (map JStr (deps_of_lines (cn_ptr n) ids (cn_lines n))),
       ''id'' \<mapsto> JStr (case ids (cn_ptr n) of Some i \<Rightarrow> i | None \<Rightarrow> [])))"
proof (cases n)
  case (CNode p ty m ls kids)
  then obtain v where "m ''exec_params'' = Some v" using assms by auto
  then show ?thesis unfolding CNode using node_json_obj [of m v Q ids p ty ls kids] assms [unfolded CNode] by (simp cong: if_cong)
qed

lemma node_json_more:
  assumes "node_ok Q n"
  shows "obj_id (as_map (node_json Q ids n)) = (case ids (cn_ptr n) of Some i \<Rightarrow> i | None \<Rightarrow> [])"
    and "dep_texts (as_map (node_json Q ids n)) = deps_of_lines (cn_ptr n) ids (cn_lines n)"
  using node_ok_obj [OF assms, of ids] by (auto simp: as_map_def obj_id_def j_text_def dep_texts_def comp_def)

lemma level_ids:
  assumes "canvas_ok Q ns"
  shows "map obj_id (map as_map (level_tasks Q ns)) = map snd (assign_ids Q 1 ns)"
proof (rule nth_equalityI)
  fix j assume "j < length (map obj_id (map as_map (level_tasks Q ns)))"
  then have j: "j < length ns" by (simp add: level_tasks_def)
  then have "node_ok Q (ns ! j)" using assms by (simp add: canvas_ok_def)
  then show "map obj_id (map as_map (level_tasks Q ns)) ! j = map snd (assign_ids Q 1 ns) ! j"
    using j assms ids_nth [of Q ns j] by (simp add: level_tasks_def node_json_more canvas_ok_def)
qed (simp add: level_tasks_def)

subsection \<open>Lines\<close>

lemma deps_of_lines_filter: "deps_of_lines p ids (filter (\<lambda>(s, e). s = p \<or> e = p) ls) = deps_of_lines p ids ls"
  by (induction ls) (auto simp: deps_of_lines_def map_filter_simps split: option.splits)

lemma deps_of_lines_concat: "deps_of_lines p ids (concat lss) = concat (map (deps_of_lines p ids) lss)"
  by (induction lss) (simp_all add: deps_of_lines_def map_filter_def)

lemma deps_of_own_lines:
  assumes "distinct is" and "length is = n" and "\<forall>d \<in> set ds. d \<in> set is \<and> d \<noteq> is ! j"
  shows "deps_of_lines j (map_of (zip [0..<n] is))
    (List.map_filter (\<lambda>d. case index_of is d of Some s \<Rightarrow> if s = j then None else Some (s, j) | None \<Rightarrow> None) ds) = ds"
  using assms(3)
proof (induction ds)
  case (Cons d ds)
  then obtain s where s: "s < n" "is ! s = d" using assms(2) by (auto simp: in_set_conv_nth)
  then have "index_of is d = Some s" "s \<noteq> j" using index_of_nth [OF assms(1)] assms(2) Cons.prems by auto
  moreover have "map_of (zip [0..<n] is) s = Some d" using map_of_zip_nth [of "[0..<n]" "is" s] s assms(2) by simp
  ultimately show ?case using Cons by (simp add: deps_of_lines_def map_filter_simps)
qed (simp add: deps_of_lines_def map_filter_simps)

lemma deps_of_other_lines:
  "i \<noteq> j \<Longrightarrow> deps_of_lines j ids
    (List.map_filter (\<lambda>d. case f d of Some s \<Rightarrow> if s = i then None else Some (s, i) | None \<Rightarrow> None) ds) = []"
  by (induction ds) (auto simp: deps_of_lines_def map_filter_simps split: option.splits)

lemma concat_single: "j < n \<Longrightarrow> concat (map (\<lambda>i. if i = j then x else []) [0..<n]) = x"
  by (induction n) (auto simp: less_Suc_eq)

lemma deps_loaded:
  assumes d: "distinct (map obj_id ts)" and j: "j < length ts"
    and src: "\<forall>d \<in> set (dep_texts (ts ! j)). d \<in> set (map obj_id ts) \<and> d \<noteq> obj_id (ts ! j)"
  shows "deps_of_lines j (map_of (zip [0..<length ts] (map obj_id ts)))
    (filter (\<lambda>(s, e). s = j \<or> e = j) (concat (map (task_lines (map obj_id ts)) ts))) = dep_texts (ts ! j)"
proof -
  let ?is = "map obj_id ts"
  let ?ids = "map_of (zip [0..<length ts] ?is)"
  have one: "deps_of_lines j ?ids (task_lines ?is (ts ! i)) = (if i = j then dep_texts (ts ! j) else [])"
    if "i < length ts" for i
  proof -
    have "index_of ?is (obj_id (ts ! i)) = Some i" using index_of_nth [OF d, of i] that by simp
    then have l: "task_lines ?is (ts ! i) = List.map_filter (\<lambda>d. case index_of ?is d of
        Some s \<Rightarrow> if s = i then None else Some (s, i) | None \<Rightarrow> None) (dep_texts (ts ! i))"
      by (simp add: task_lines_def)
    show ?thesis
    proof (cases "i = j")
      case True
      then show ?thesis unfolding l unfolding True using deps_of_own_lines [OF d _ , of "length ts" "dep_texts (ts ! j)" j] src j by simp
    next
      case False
      then show ?thesis unfolding l using deps_of_other_lines [OF False] by simp
    qed
  qed
  have "concat (map (\<lambda>t. deps_of_lines j ?ids (task_lines ?is t)) ts)
      = concat (map (\<lambda>i. deps_of_lines j ?ids (task_lines ?is (ts ! i))) [0..<length ts])"
    by (rule arg_cong [of _ _ concat], rule nth_equalityI) simp_all
  also have "\<dots> = concat (map (\<lambda>i. if i = j then dep_texts (ts ! j) else []) [0..<length ts])"
    by (intro arg_cong [of _ _ concat] map_cong) (simp_all add: one)
  finally show ?thesis using j by (simp add: deps_of_lines_filter deps_of_lines_concat concat_single comp_def)
qed

subsection \<open>A node that is loaded again\<close>

lemma as_map_JObj [simp]: "as_map (JObj m) = m"
  by (simp add: as_map_def)

lemma field_reload:
  "qt_laws Q \<Longrightarrow> k \<in> set plain_keys \<Longrightarrow> field_json Q k (load_field Q k (field_json Q k v)) = field_json Q k v"
  by (auto simp: plain_keys_def field_json_def load_field_def qt_laws_def j_text_def)

lemma keys_apart:
  "''exec_params'' \<notin> set plain_keys" "''deps'' \<notin> set plain_keys" "''id'' \<in> set plain_keys" "''name'' \<in> set plain_keys"
  "''exec_type'' \<in> set plain_keys" "set plain_keys \<subseteq> set load_keys" "''exec_params'' \<in> set load_keys"
  by (simp_all add: plain_keys_def load_keys_def)

lemma loaded_props:
  assumes Q: "qt_laws Q" and ok: "node_ok Q n" and i: "ids (cn_ptr n) = Some i"
    and m: "m' = d ++ load_cfg Q (as_map (node_json Q ids n))"
  shows "set plain_keys \<subseteq> dom m'"
    and "m' ''exec_params'' =
      Some (JObj (exec_obj Q (cn_type n) (cn_props n) (level_tasks Q (cn_children n)) (the (cn_props n ''exec_params''))))"
    and "text_prop Q ''id'' m' = i"
    and "k \<in> set plain_keys \<Longrightarrow> k \<noteq> ''id'' \<Longrightarrow> field_json Q k (the (m' k)) = field_json Q k (the (cn_props n k))"
    and "text_prop Q ''name'' m' = text_prop Q ''name'' (cn_props n)"
proof -
  obtain v where v: "cn_props n ''exec_params'' = Some v"
    and t: "as_map (node_json Q ids n) = (\<lambda>k. if k \<in> set plain_keys then Some (field_json Q k (the (cn_props n k))) else None)
      (''exec_params'' \<mapsto> JObj (exec_obj Q (cn_type n) (cn_props n) (level_tasks Q (cn_children n)) v),
       ''deps'' \<mapsto> JArr (map JStr (deps_of_lines (cn_ptr n) ids (cn_lines n))), ''id'' \<mapsto> JStr i)"
    using node_ok_obj [OF ok, of ids] i by auto
  have old: "set plain_keys \<subseteq> dom (cn_props n)" using ok by (cases n) simp
  have plain: "m' k = Some (load_field Q k (field_json Q k (the (cn_props n k))))" if "k \<in> set plain_keys" "k \<noteq> ''id''" for k
  proof -
    have "k \<noteq> ''exec_params''" "k \<noteq> ''deps''" "k \<in> set load_keys" using that keys_apart by auto
    then show ?thesis using that by (simp add: m map_add_def load_cfg_def t)
  qed
  have id: "m' ''id'' = Some (JStr i)"
    using keys_apart by (simp add: m map_add_def load_cfg_def t load_field_def j_text_def subset_iff)
  show "set plain_keys \<subseteq> dom m'" using plain id by (metis domIff option.distinct(1) subsetI)
  show "m' ''exec_params'' =
      Some (JObj (exec_obj Q (cn_type n) (cn_props n) (level_tasks Q (cn_children n)) (the (cn_props n ''exec_params''))))"
    using keys_apart(7) by (simp add: m map_add_def load_cfg_def t load_field_def v)
  show "text_prop Q ''id'' m' = i" using id Q by (simp add: text_prop_def qt_laws_def)
  show "field_json Q k (the (m' k)) = field_json Q k (the (cn_props n k))" if "k \<in> set plain_keys" "k \<noteq> ''id''"
    using plain [OF that] field_reload [OF Q that(1)] by simp
  have "''name'' \<in> dom (cn_props n)" using old keys_apart(4) by blast
  then show "text_prop Q ''name'' m' = text_prop Q ''name'' (cn_props n)"
    using plain [OF keys_apart(4)] Q by (auto simp: text_prop_def load_field_def field_json_def j_text_def qt_laws_def)
qed

lemma exec_obj_again:
  assumes "lacks (if kids = [] then [''tasks'', ''dag_json''] else [''config.fail_policy'', ''config.max_parallel'']) (as_map v)"
    and "text_prop Q ''name'' m' = text_prop Q ''name'' m"
    and "subs = [] \<longleftrightarrow> kids = []"
  shows "exec_obj Q ty m' subs (JObj (exec_obj Q ty m subs v)) = exec_obj Q ty m subs v"
  using assms by (auto simp: exec_obj_def lacks_def sub_config_def remove_keys_def flat_keys_def fun_eq_iff)

lemma resaved_node:
  assumes Q: "qt_laws Q" and ok: "node_ok Q n" and i: "ids (cn_ptr n) = Some i" "ids' q = Some i"
    and m: "m' = d ++ load_cfg Q (as_map (node_json Q ids n))"
    and kids: "level_tasks Q kids' = level_tasks Q (cn_children n)"
    and deps: "deps_of_lines q ids' ls' = deps_of_lines (cn_ptr n) ids (cn_lines n)"
  shows "node_json Q ids' (CNode q (cn_type n) m' ls' kids') = node_json Q ids n"
proof -
  note l = loaded_props [OF Q ok i(1) m]
  let ?v = "the (cn_props n ''exec_params'')"
  have lacks: "lacks (if cn_children n = [] then [''tasks'', ''dag_json''] else [''config.fail_policy'', ''config.max_parallel'']) (as_map ?v)"
    using ok by (cases n) simp
  have e: "exec_obj Q (cn_type n) m' (level_tasks Q kids') (JObj (exec_obj Q (cn_type n) (cn_props n) (level_tasks Q (cn_children n)) ?v))
      = exec_obj Q (cn_type n) (cn_props n) (level_tasks Q (cn_children n)) ?v"
    unfolding kids by (rule exec_obj_again [OF lacks l(5)]) (simp add: level_tasks_def)
  have f: "(if k \<in> set plain_keys then Some (field_json Q k (the (m' k))) else None)
      = (if k \<in> set plain_keys then Some (field_json Q k (the (cn_props n k))) else None)" if "k \<noteq> ''id''" for k
    using l(4) that by simp
  obtain v where "cn_props n ''exec_params'' = Some v"
    "node_json Q ids n = JObj ((\<lambda>k. if k \<in> set plain_keys then Some (field_json Q k (the (cn_props n k))) else None)
      (''exec_params'' \<mapsto> JObj (exec_obj Q (cn_type n) (cn_props n) (level_tasks Q (cn_children n)) v),
       ''deps'' \<mapsto> JArr (map JStr (deps_of_lines (cn_ptr n) ids (cn_lines n))), ''id'' \<mapsto> JStr i))"
    using node_ok_obj [OF ok, of ids] i(1) by auto
  then show ?thesis using f i(2) deps e
    unfolding node_json_obj [OF l(1) l(2)] by (auto simp: fun_eq_iff)
qed

subsection \<open>Loading what was saved\<close>

lemma those_map: "(\<And>x. x \<in> set xs \<Longrightarrow> f x = Some (g x)) \<Longrightarrow> those (map f xs) = Some (map g xs)"
  by (induction xs) auto

lemma those_map2: "(\<And>x. x \<in> set xs \<Longrightarrow> f (g x) = Some (h x)) \<Longrightarrow> those (map f (map g xs)) = Some (map h xs)"
  using those_map [of xs "f \<circ> g" h] by simp

lemma those_one: "those [Some x] = Some [x]"
  by simp

lemma loadLevel_none [simp]: "loadLevel f Q parse fresh [] = Some []"
  by (cases f) (simp_all add: first_ids_def Let_def)

lemma node_deps:
  assumes ok: "canvas_ok Q ns" and j: "j < length ns"
  defines "ids \<equiv> map_of (assign_ids Q 1 ns)"
  shows "\<forall>d \<in> set (deps_of_lines (cn_ptr (ns ! j)) ids (cn_lines (ns ! j))).
    d \<in> set (map snd (assign_ids Q 1 ns)) \<and> d \<noteq> map snd (assign_ids Q 1 ns) ! j"
proof
  let ?is = "map snd (assign_ids Q 1 ns)"
  fix d assume "d \<in> set (deps_of_lines (cn_ptr (ns ! j)) ids (cn_lines (ns ! j)))"
  then obtain s where s: "(s, cn_ptr (ns ! j)) \<in> set (cn_lines (ns ! j))" "ids s = Some d"
    by (auto simp: deps_of_lines_def map_filter_def split: if_splits)
  have "node_ok Q (ns ! j)" using ok j by (simp add: canvas_ok_def)
  then have "s \<noteq> cn_ptr (ns ! j)" using s(1) by (cases "ns ! j") auto
  moreover obtain i where i: "i < length ns" "s = cn_ptr (ns ! i)"
    using ids_None [of s ns Q 1] s(2) by (fastforce simp: ids_def in_set_conv_nth)
  moreover have "d = ?is ! i" using ids_nth [of Q ns i] ok i s(2) by (simp add: canvas_ok_def ids_def)
  moreover have "distinct ?is" using ok by (simp add: canvas_ok_def ids_ok_def)
  moreover have "i \<noteq> j" "length ?is = length ns" using calculation(1,3) by auto
  ultimately show "d \<in> set ?is \<and> d \<noteq> ?is ! j"
    using j nth_mem [of i ?is] nth_eq_iff_index_eq [of ?is i j] by metis
qed

lemma sub_tasks_node:
  assumes "node_ok Q n"
  shows "sub_tasks parse (as_map (node_json Q ids n)) = level_tasks Q (cn_children n)"
proof -
  obtain v where v: "cn_props n ''exec_params'' = Some v"
    and t: "as_map (node_json Q ids n) ''exec_params'' = Some (JObj (exec_obj Q (cn_type n) (cn_props n) (level_tasks Q (cn_children n)) v))"
    using node_ok_obj [OF assms, of ids] by auto
  have "lacks (if cn_children n = [] then [''tasks'', ''dag_json''] else [''config.fail_policy'', ''config.max_parallel'']) (as_map v)"
    "cn_children n \<noteq> [] \<Longrightarrow> isContainerType (cn_type n)"
    using assms v by (cases n; simp)+
  then show ?thesis
    by (cases "cn_children n = []")
      (simp_all add: sub_tasks_def t exec_obj_def lacks_def remove_keys_def flat_keys_def level_tasks_def)
qed

lemma type_of_saved:
  assumes "qt_laws Q" and "node_ok Q n"
  shows "typeFromExec (j_text ''Local'' (as_map (node_json Q ids n) ''exec_type'')) = cn_type n"
proof -
  have "''exec_type'' \<in> dom (cn_props n)" "typeFromExec (text_prop Q ''exec_type'' (cn_props n)) = cn_type n"
    using assms(2) keys_apart(5) by (cases n; auto)+
  then show ?thesis
    using node_ok_obj [OF assms(2), of ids] keys_apart(5) by (auto simp: j_text_def text_prop_def field_json_def)
qed

lemma save_load_save:
  "qt_laws Q \<Longrightarrow> canvas_ok Q ns \<Longrightarrow> depth_of ns \<le> f \<Longrightarrow>
     \<exists>ns'. loadLevel f Q parse fresh (level_tasks Q ns) = Some ns' \<and> level_tasks Q ns' = level_tasks Q ns"
proof (induction f arbitrary: ns)
  case 0
  have "depth n \<noteq> 0" for n by (cases n) simp
  then have "ns = []" using 0 depth_of_le [of ns 0] by (metis le_zero_eq list.set_intros(1) neq_Nil_conv)
  then show ?case by (simp add: level_tasks_def)
next
  case (Suc f)
  let ?ids = "map_of (assign_ids Q 1 ns)"
  let ?n = "length ns"
  let ?ts = "map as_map (level_tasks Q ns)"
  let ?is = "map snd (assign_ids Q 1 ns)"
  let ?t = "\<lambda>j. as_map (node_json Q ?ids (ns ! j))"
  let ?ls = "concat (map (task_lines ?is) ?ts)"
  have lvl: "map obj_id ?ts = ?is" by (rule level_ids [OF Suc.prems(2)])
  have dis: "distinct ?is" using Suc.prems(2) by (simp add: canvas_ok_def ids_ok_def)
  have ok: "node_ok Q (ns ! j)" if "j < ?n" for j using Suc.prems(2) that by (simp add: canvas_ok_def)
  have nth: "?ts ! j = ?t j" if "j < ?n" for j using that by (simp add: level_tasks_def)
  have len: "length ?ts = ?n" by (simp add: level_tasks_def)
  have kids: "\<exists>ks. loadLevel f Q parse fresh (sub_tasks parse (?t j)) = Some ks
      \<and> level_tasks Q ks = level_tasks Q (cn_children (ns ! j))" if j: "j < ?n" for j
  proof -
    have "canvas_ok Q (cn_children (ns ! j))" using ok [OF j] by (cases "ns ! j") (simp add: canvas_ok_def)
    moreover have "depth_of (cn_children (ns ! j)) \<le> f"
      using Suc.prems(3) j by (cases "ns ! j") (force simp: depth_of_le dest: nth_mem [of j ns] simp flip: depth_of_def)
    ultimately show ?thesis unfolding sub_tasks_node [OF ok [OF j]] using Suc.IH Suc.prems(1) by blast
  qed
  define K where "K j = the (loadLevel f Q parse fresh (sub_tasks parse (?t j)))" for j
  have K: "loadLevel f Q parse fresh (sub_tasks parse (?t j)) = Some (K j)"
    "level_tasks Q (K j) = level_tasks Q (cn_children (ns ! j))" if "j < ?n" for j
    using kids [OF that] by (auto simp: K_def)
  define N where "N j = load_node Q (fresh j) ?ls j (?t j) (K j)" for j
  have N: "N j = CNode j (cn_type (ns ! j)) (node_props (cn_type (ns ! j)) (fresh j) ++ load_cfg Q (?t j))
      (filter (\<lambda>(s, e). s = j \<or> e = j) ?ls) (K j)" if "j < ?n" for j
    by (simp add: N_def load_node_def type_of_saved [OF Suc.prems(1) ok [OF that]] Let_def)
  have load: "loadLevel (Suc f) Q parse fresh (level_tasks Q ns) = Some (map N [0..<?n])"
  proof -
    have z: "enumerate 0 ?is = map (\<lambda>j. (j, ?is ! j)) [0..<?n]" by (intro nth_equalityI) (simp_all add: nth_enumerate_eq)
    have flt: "filter (\<lambda>t. obj_id t = ?is ! j) ?ts = [?t j]" if "j < ?n" for j
      using filter_key [of obj_id ?ts j] dis that nth [OF that] len unfolding lvl by (metis lvl nth_map)
    then have fnd: "find (\<lambda>t. obj_id t = ?is ! j) ?ts = Some (?t j)" if "j < ?n" for j
      using that by (simp add: find_filter)
    have fi: "first_ids ?ts = ?is" using first_ids_distinct dis lvl by metis
    show ?thesis
      unfolding loadLevel.simps Let_def fi z
      by (rule those_map2) (simp only: set_upt atLeastLessThan_iff prod.case flt fnd option.sel N_def list.map K(1) those_one option.map concat.simps append_Nil2)
  qed
  have "node_json Q (map_of (assign_ids Q 1 (map N [0..<?n]))) (N j) = node_json Q ?ids (ns ! j)" if j: "j < ?n" for j
  proof -
    have own: "?ids (cn_ptr (ns ! i)) = Some (?is ! i)" if "i < ?n" for i
      using ids_nth Suc.prems(2) that by (simp add: canvas_ok_def)
    have ids: "text_prop Q ''id'' (cn_props (N i)) = ?is ! i" if "i < ?n" for i
      using loaded_props(3) [where n = "ns ! i" and ids = ?ids, OF Suc.prems(1) ok [OF that] own [OF that] refl] that by (simp add: N)
    have "?is ! i \<noteq> []" if "i < ?n" for i using assign_ids_nonempty [of "?is ! i" Q 1 ns] that by (metis assign_ids_length length_map nth_mem)
    then have "assign_ids Q 1 (map N [0..<?n]) = map (\<lambda>n. (cn_ptr n, text_prop Q ''id'' (cn_props n))) (map N [0..<?n])"
      by (intro assign_ids_given) (simp add: ids)
    also have "\<dots> = zip [0..<?n] ?is" by (intro nth_equalityI) (simp_all add: ids, simp add: N)
    finally have new: "assign_ids Q 1 (map N [0..<?n]) = zip [0..<?n] ?is" .
    have dt: "dep_texts (?ts ! j) = deps_of_lines (cn_ptr (ns ! j)) ?ids (cn_lines (ns ! j))"
      unfolding nth [OF j] by (rule node_json_more(2) [OF ok [OF j]])
    have oi: "obj_id (?ts ! j) = ?is ! j" using lvl len j by (metis nth_map)
    have "deps_of_lines j (map_of (zip [0..<?n] ?is)) (filter (\<lambda>(s, e). s = j \<or> e = j) ?ls) = dep_texts (?ts ! j)"
      using deps_loaded [of ?ts j, unfolded lvl len, OF dis j] node_deps [OF Suc.prems(2) j] unfolding dt oi by blast
    then have dl: "deps_of_lines j (map_of (zip [0..<?n] ?is)) (filter (\<lambda>(s, e). s = j \<or> e = j) ?ls)
        = deps_of_lines (cn_ptr (ns ! j)) ?ids (cn_lines (ns ! j))" unfolding dt .
    have mz: "map_of (zip [0..<?n] ?is) j = Some (?is ! j)" using map_of_zip_nth [of "[0..<?n]" ?is j] j by simp
    show ?thesis unfolding new N [OF j]
      by (rule resaved_node [OF Suc.prems(1) ok [OF j] own [OF j] mz refl K(2) [OF j] dl])
  qed
  then have "level_tasks Q (map N [0..<?n]) = level_tasks Q ns"
    by (intro nth_equalityI) (simp_all add: level_tasks_def)
  then show ?case using load by blast
qed

subsection \<open>New nodes\<close>

definition has_key :: "props \<Rightarrow> string \<Rightarrow> bool" where
  "has_key m k \<longleftrightarrow> (case m k of None \<Rightarrow> False | Some _ \<Rightarrow> True)"

definition new_node_ok :: "NodeType \<Rightarrow> string \<Rightarrow> bool" where
  "new_node_ok ty i \<longleftrightarrow>
     list_all (has_key (node_props ty i)) plain_keys
     \<and> (case node_props ty i ''exec_params'' of
          Some (JObj e) \<Rightarrow> \<not> has_key e ''tasks'' \<and> \<not> has_key e ''dag_json'' \<and> \<not> has_key e ''config.fail_policy''
                            \<and> \<not> has_key e ''config.max_parallel''
        | _ \<Rightarrow> False)
     \<and> (case node_props ty i ''exec_type'' of Some (JStr s) \<Rightarrow> typeFromExec s = ty | _ \<Rightarrow> False)"

lemma new_nodes_ok: "new_node_ok ty i"
proof (cases ty)
  case NShell
  show ?thesis unfolding NShell by code_simp
next
  case NHttp
  show ?thesis unfolding NHttp by code_simp
next
  case NRemote
  show ?thesis unfolding NRemote by code_simp
next
  case NLocal
  show ?thesis unfolding NLocal by code_simp
next
  case NDag
  show ?thesis unfolding NDag by code_simp
next
  case NTemplate
  show ?thesis unfolding NTemplate by code_simp
qed

lemma drawn_node_ok:
  assumes "qt_laws Q" and "(p, p) \<notin> set ls" and "kids \<noteq> [] \<longrightarrow> isContainerType ty" and "canvas_ok Q kids"
  shows "node_ok Q (CNode p ty (node_props ty i) ls kids)"
  using assms new_nodes_ok [of ty i] unfolding new_node_ok_def
  by (auto simp: has_key_def lacks_def canvas_ok_def text_prop_def qt_laws_def list_all_iff as_map_def
      split: option.splits json.splits)

subsection \<open>The round trip\<close>


definition demo_qt :: qt where
  "demo_qt =
     \<lparr>q_string = (\<lambda>v. case v of JStr s \<Rightarrow> s | _ \<Rightarrow> []), q_int = (\<lambda>v. case v of JInt n \<Rightarrow> wrap_signed 32 n | _ \<Rightarrow> 0),
      q_ll = (\<lambda>v. case v of JInt n \<Rightarrow> wrap_signed 64 n | _ \<Rightarrow> 0), q_bool = (\<lambda>v. case v of JBool b \<Rightarrow> b | _ \<Rightarrow> False),
      q_jint = (\<lambda>v. case v of JInt n \<Rightarrow> n | _ \<Rightarrow> 0)\<rparr>"

lemma wrap_signed_range: "0 < w \<Longrightarrow> int_range w (wrap_signed w n)"
  by (cases w) (simp_all add: wrap_signed_def int_range_def pos_mod_bound less_diff_eq)

lemma demo_qt_laws: "qt_laws demo_qt"
proof -
  have "wrap_signed 64 (wrap_signed 64 n) = wrap_signed 64 n" "wrap_signed 32 (wrap_signed 32 n) = wrap_signed 32 n" for n
    using wrap_signed_range [of 64 n] wrap_signed_range [of 32 n] by (simp_all add: int_range_def wrap_signed_id)
  moreover have "wrap_signed w 0 = 0" if "0 < w" for w using that by (simp add: wrap_signed_id)
  moreover have "int_range 64 0" "int_range 32 0" by (simp_all add: int_range_def)
  ultimately show ?thesis using wrap_signed_range by (simp add: qt_laws_def demo_qt_def split: json.split)
qed

text \<open>A DAG node with two shell tasks in it, the second after the first, and a task after the DAG.\<close>

definition demo_canvas :: "cnode list" where
  "demo_canvas =
     [CNode 7 NDag (node_props NDag ''d'') [(7, 9)]
        [CNode 1 NShell (node_props NShell ''a'') [(1, 2)] [], CNode 2 NShell (node_props NShell ''b'') [(1, 2)] []],
      CNode 9 NHttp (node_props NHttp ''h'') [(7, 9)] []]"

lemma demo_ids: "ids_ok demo_qt demo_canvas" "ids_ok demo_qt (cn_children (hd demo_canvas))" "ids_ok demo_qt []"
  by code_simp+

lemma demo_canvas_ok: "canvas_ok demo_qt demo_canvas" "depth_of demo_canvas \<le> 2" "length demo_canvas = 2"
proof -
  have "canvas_ok demo_qt (cn_children (hd demo_canvas))"
    using demo_ids(2,3) by (auto simp: canvas_ok_def demo_canvas_def intro!: drawn_node_ok [OF demo_qt_laws] simp del: node_ok.simps node_props.simps)
  then show "canvas_ok demo_qt demo_canvas"
    using demo_ids(1,3)
    by (auto simp: canvas_ok_def demo_canvas_def isContainerType_def intro!: drawn_node_ok [OF demo_qt_laws] simp del: node_ok.simps node_props.simps)
  show "depth_of demo_canvas \<le> 2" by code_simp
  show "length demo_canvas = 2" by (simp add: demo_canvas_def)
qed


subsection \<open>What the server makes of it\<close>

lemma collect_written:
  "(\<And>x. x \<in> set xs \<Longrightarrow> f x = Inr (g x)) \<Longrightarrow> collect f xs = Inr (map g xs)"
  by (induction xs) auto

lemma deps_json_texts: "collect (\<lambda>d. bind (get_string d) (\<lambda>s. Inr (TaskId s r))) (map JStr ds) = Inr (map (\<lambda>s. TaskId s r) ds)"
  by (induction ds) auto

lemma task_spec_node:
  assumes Q: "qt_laws Q" and ok: "node_ok Q n" and i: "ids (cn_ptr n) = Some i"
  shows "\<exists>s. task_spec dump r d (node_json Q ids n) = Inr s \<and> spec_id s = TaskId i r
    \<and> spec_deps s = map (\<lambda>i. TaskId i r) (deps_of_lines (cn_ptr n) ids (cn_lines n))
    \<and> execType (spec_runnerCfg s) = StringToTaskExecType (text_prop Q ''exec_type'' (cn_props n))
    \<and> cfg_timeout (spec_runnerCfg s) = q_ll Q (the (cn_props n ''timeout_ms''))
    \<and> retryCount (spec_runnerCfg s) = q_int Q (the (cn_props n ''retry_count''))
    \<and> execParams (spec_runnerCfg s) = (\<lambda>k. map_option (as_text dump)
        (exec_obj Q (cn_type n) (cn_props n) (level_tasks Q (cn_children n)) (the (cn_props n ''exec_params'')) k))
      (''_nesting_depth'' \<mapsto> to_string_int d)"
proof -
  obtain v where v: "cn_props n ''exec_params'' = Some v"
    and t: "node_json Q ids n = JObj ((\<lambda>k. if k \<in> set plain_keys then Some (field_json Q k (the (cn_props n k))) else None)
      (''exec_params'' \<mapsto> JObj (exec_obj Q (cn_type n) (cn_props n) (level_tasks Q (cn_children n)) v),
       ''deps'' \<mapsto> JArr (map JStr (deps_of_lines (cn_ptr n) ids (cn_lines n))), ''id'' \<mapsto> JStr i))" (is "_ = JObj ?t")
    using node_ok_obj [OF ok, of ids] i by auto
  have et: "cn_props n ''exec_type'' \<noteq> None" using ok keys_apart(5) by (cases n) auto
  have j: "task_json (JObj ?t) = JObj ?t" by (simp add: task_json_def plain_keys_def)
  have s: "\<exists>x. value_or get_string ''name'' [] (JObj ?t) = Inr x" "value_or get_string ''id'' [] (JObj ?t) = Inr i"
    "value_or get_string ''exec_type'' ''Local'' (JObj ?t) = Inr (text_prop Q ''exec_type'' (cn_props n))"
    "\<exists>x. value_or get_string ''exec_command'' [] (JObj ?t) = Inr x" "\<exists>x. value_or get_string ''queue'' [] (JObj ?t) = Inr x"
    "\<exists>x. value_or get_bool ''capture_output'' True (JObj ?t) = Inr x" "\<exists>x. value_or get_bool ''retry_exp_backoff'' True (JObj ?t) = Inr x"
    using et by (auto simp: value_or_JObj plain_keys_def field_json_def text_prop_def)
  have n: "value_or get_ll ''timeout_ms'' 0 (JObj ?t) = Inr (q_ll Q (the (cn_props n ''timeout_ms'')))"
    "\<exists>x. value_or get_ll ''retry_delay_ms'' 1000 (JObj ?t) = Inr x"
    "value_or get_int ''retry_count'' 0 (JObj ?t) = Inr (q_int Q (the (cn_props n ''retry_count'')))"
    "\<exists>x. value_or get_int ''priority'' 0 (JObj ?t) = Inr x"
    using Q by (auto simp: value_or_JObj plain_keys_def field_json_def qt_laws_def get_ll_JInt get_int_JInt)
  have p: "string_members dump ''exec_params'' (JObj ?t) = (\<lambda>k. map_option (as_text dump)
      (exec_obj Q (cn_type n) (cn_props n) (level_tasks Q (cn_children n)) v k))"
    by (simp add: string_members_def)
  have dp: "deps_json r (JObj ?t) = Inr (map (\<lambda>s. TaskId s r) (deps_of_lines (cn_ptr n) ids (cn_lines n)))"
    unfolding deps_json_def by (simp add: deps_json_texts)
  show ?thesis using s n unfolding t task_spec_def parseTaskConfigFromReq_def Let_def j p dp
    by (auto simp: v dp)
qed

text \<open>\<open>dumpable parse dump Q n\<close>: the text of the two values a container hands on is read back.  (It would be asking too much of
  every value: there are more maps than texts.)\<close>

definition dumpable :: "(string \<Rightarrow> string + json) \<Rightarrow> (json \<Rightarrow> string) \<Rightarrow> qt \<Rightarrow> cnode \<Rightarrow> bool" where
  "dumpable parse dump Q n \<longleftrightarrow> cn_children n = []
     \<or> (let a = JArr (level_tasks Q (cn_children n)); c = sub_config Q (cn_props n) (as_map (the (cn_props n ''exec_params'')))
        in parse (dump a) = Inr a \<and> parse (dump c) = Inr c)"

text \<open>A task as the server has it and the node that was drawn.\<close>

definition arrives :: "(string \<Rightarrow> string + json) \<Rightarrow> qt \<Rightarrow> string \<Rightarrow> (nat \<rightharpoonup> string) \<Rightarrow> cnode \<Rightarrow> DagTaskSpec \<Rightarrow> bool" where
  "arrives parse Q r ids n s \<longleftrightarrow>
     spec_id s = TaskId (the (ids (cn_ptr n))) r
     \<and> spec_deps s = map (\<lambda>i. TaskId i r) (deps_of_lines (cn_ptr n) ids (cn_lines n))
     \<and> execType (spec_runnerCfg s) = StringToTaskExecType (text_prop Q ''exec_type'' (cn_props n))
     \<and> cfg_timeout (spec_runnerCfg s) = q_ll Q (the (cn_props n ''timeout_ms''))
     \<and> retryCount (spec_runnerCfg s) = q_int Q (the (cn_props n ''retry_count''))
     \<and> (cn_children n \<noteq> [] \<longrightarrow>
          (case extractDagBody parse (spec_runnerCfg s) of
             Inl e \<Rightarrow> False
           | Inr body \<Rightarrow> member ''tasks'' body = Some (JArr (level_tasks Q (cn_children n)))))"

lemma node_arrives:
  assumes "qt_laws Q" and "node_ok Q n" and "ids (cn_ptr n) = Some i" and "dumpable parse dump Q n"
  shows "\<exists>s. task_spec dump r d (node_json Q ids n) = Inr s \<and> arrives parse Q r ids n s"
proof -
  obtain s where s: "task_spec dump r d (node_json Q ids n) = Inr s" "spec_id s = TaskId i r"
    "spec_deps s = map (\<lambda>i. TaskId i r) (deps_of_lines (cn_ptr n) ids (cn_lines n))"
    "execType (spec_runnerCfg s) = StringToTaskExecType (text_prop Q ''exec_type'' (cn_props n))"
    "cfg_timeout (spec_runnerCfg s) = q_ll Q (the (cn_props n ''timeout_ms''))"
    "retryCount (spec_runnerCfg s) = q_int Q (the (cn_props n ''retry_count''))"
    and p: "execParams (spec_runnerCfg s) = (\<lambda>k. map_option (as_text dump)
        (exec_obj Q (cn_type n) (cn_props n) (level_tasks Q (cn_children n)) (the (cn_props n ''exec_params'')) k))
      (''_nesting_depth'' \<mapsto> to_string_int d)"
    using task_spec_node [where ids = ids and n = n and i = i, OF assms(1-3)] by blast
  have "case extractDagBody parse (spec_runnerCfg s) of Inl e \<Rightarrow> False
      | Inr body \<Rightarrow> member ''tasks'' body = Some (JArr (level_tasks Q (cn_children n)))" if "cn_children n \<noteq> []"
  proof -
    have "isContainerType (cn_type n)" "level_tasks Q (cn_children n) \<noteq> []"
      using assms(2) that by (cases n; simp add: level_tasks_def)+
    then have "execParams (spec_runnerCfg s) ''tasks'' = Some (dump (JArr (level_tasks Q (cn_children n))))"
      "execParams (spec_runnerCfg s) ''config'' =
        Some (dump (sub_config Q (cn_props n) (as_map (the (cn_props n ''exec_params'')))))"
      by (simp_all add: p exec_obj_def remove_keys_def flat_keys_def as_text_def sub_config_def)
    then show ?thesis using assms(4) that by (simp add: extractDagBody_def dumpable_def Let_def put_opt_def split: option.split)
  qed
  then show ?thesis using s assms(3) by (auto simp: arrives_def)
qed

lemma collect_all2:
  "(\<And>x. x \<in> set xs \<Longrightarrow> \<exists>y. f (g x) = Inr y \<and> P x y) \<Longrightarrow> \<exists>ys. collect f (map g xs) = Inr ys \<and> list_all2 P xs ys"
proof (induction xs)
  case (Cons x xs)
  then obtain y ys where "f (g x) = Inr y" "P x y" "collect f (map g xs) = Inr ys" "list_all2 P xs ys" by force
  then show ?case by simp
qed simp


definition demo_dump :: "json \<Rightarrow> string" where
  "demo_dump v = (if is_array v then ''tasks'' else ''config'')"

definition demo_parse :: "string \<Rightarrow> string + json" where
  "demo_parse t = (let n = hd demo_canvas in
     if t = ''tasks'' then Inr (JArr (level_tasks demo_qt (cn_children n)))
     else Inr (sub_config demo_qt (cn_props n) (as_map (the (cn_props n ''exec_params'')))))"


subsection \<open>Properties by path\<close>

lemma split_dots_absent: "CHR ''.'' \<notin> set s \<Longrightarrow> split_dots s = [s]"
  by (subst split_dots.simps) (simp add: split_at_absent)

lemma split_dots_nonempty: "split_dots s \<noteq> []"
  by (subst split_dots.simps) (simp split: prod.split option.split)

lemma path_of_key: "propByKeyPath k m = get_nested m (split_dots k)" "setPropByKeyPath k v m = set_nested m (split_dots k) v"
  by (simp_all add: propByKeyPath_def setPropByKeyPath_def split_dots_absent)

lemma get_set_nested: "ks \<noteq> [] \<Longrightarrow> get_nested (set_nested m ks v) ks = Some v"
  by (induction m ks v rule: set_nested.induct) auto

lemma get_nested_empty: "get_nested Map.empty ks = None"
  by (cases ks rule: remdups_adj.cases) simp_all

lemma get_set_other:
  "\<not> prefix ks ks' \<Longrightarrow> \<not> prefix ks' ks \<Longrightarrow> get_nested (set_nested m ks v) ks' = get_nested m ks'"
proof (induction m ks v arbitrary: ks' rule: set_nested.induct)
  case (2 m k v)
  then show ?case by (cases ks' rule: remdups_adj.cases) auto
next
  case (3 m k k2 ks v)
  show ?case
  proof (cases ks' rule: remdups_adj.cases)
    case (3 l l2 ls)
    have "get_nested (set_nested sub (k2 # ks) v) (l2 # ls) = get_nested sub (l2 # ls)" if "k = l"
        "sub = (case m k of Some (JObj s) \<Rightarrow> s | _ \<Rightarrow> Map.empty)" for sub
      using "3.IH" [of "l2 # ls"] "3.prems" 3 that by simp
    then show ?thesis using 3 by (auto simp: get_nested_empty split: option.splits json.splits)
  qed (use "3.prems" in auto)
qed simp

text \<open>A property that was set by its path reads back, and every property whose path is neither above nor below it is as it
  was.\<close>

theorem property_by_path:
  assumes "\<not> prefix (split_dots k) (split_dots k')" and "\<not> prefix (split_dots k') (split_dots k)"
  shows "propByKeyPath k (setPropByKeyPath k v m) = Some v \<and> propByKeyPath k' (setPropByKeyPath k v m) = propByKeyPath k' m"
  using assms by (simp add: path_of_key get_set_nested get_set_other split_dots_nonempty)

theorem property_by_path_witness:
  "propByKeyPath ''exec_params.cwd'' (setPropByKeyPath ''exec_params.cmd'' (JInt 1) (shell_props []))
    = propByKeyPath ''exec_params.cwd'' (shell_props [])"
proof -
  have "split_dots ''exec_params.cmd'' = [''exec_params'', ''cmd'']" "split_dots ''exec_params.cwd'' = [''exec_params'', ''cwd'']"
    by code_simp+
  then show ?thesis using property_by_path [of "''exec_params.cmd''" "''exec_params.cwd''" "JInt 1" "shell_props []"] by simp
qed

subsection \<open>What is lost\<close>

text \<open>The inspector writes the limits of a container as nested members, the serializer reads flat ones: whatever was chosen,
  a saved container has \<^verbatim>\<open>SkipDownstream\<close> and 4.\<close>

definition limited_dag :: props where
  "limited_dag =
     setPropByKeyPath ''exec_params.config.max_parallel'' (JInt 1)
       (setPropByKeyPath ''exec_params.config.fail_policy'' (JStr ''FailFast'') (dag_props ''d''))"

lemma container_limits_lost:
  "(case sub_config demo_qt limited_dag (as_map (the (limited_dag ''exec_params''))) of
      JObj c \<Rightarrow> (case c ''fail_policy'' of Some (JStr s) \<Rightarrow> s = ''SkipDownstream'' | _ \<Rightarrow> False)
                \<and> (case c ''max_parallel'' of Some (JInt i) \<Rightarrow> i = 4 | _ \<Rightarrow> False)
    | _ \<Rightarrow> False)"
  by code_simp

text \<open>The id made up for a node without one can be that of another node, and then neither the server nor a reload can
  tell them apart.\<close>

lemma made_up_id_collides:
  "map snd (assign_ids demo_qt 1 [CNode 1 NShell (shell_props []) [] [], CNode 2 NShell (shell_props ''node_1'') [] []])
    = [''node_1'', ''node_1'']"
  by code_simp

text \<open>A container that lost its children is saved with the tasks it was loaded with.\<close>

lemma deleted_children_come_back:
  assumes "as_map v ''tasks'' = Some (JArr ts)" and "m ''exec_params'' = Some v"
  shows "sub_tasks parse (as_map (node_json Q ids (CNode p ty m ls []))) = ts"
  using assms by (simp add: sub_tasks_def exec_obj_def as_map_def)

end
