(* ===== verification/Client_Api.thy ===== *)
theory Client_Api
  imports Client_Canvas Worker_Api Task_Api
begin

text \<open>
  \<^verbatim>\<open>net/api_client.cpp\<close> of the desktop client: the requests it sends and the signals it makes of the answers, and
  what comes of the two ends together.  Percent-encoding of a query and the JSON printer and parser are arguments.
\<close>

subsection \<open>Requests\<close>

datatype verb = GET | POST | DELETE

record request =
  rq_verb :: verb
  rq_url :: string
  rq_auth :: "string option"
  rq_payload :: "json option"

record ApiClient =
  ac_baseUrl :: string
  ac_token :: string
  ac_unauthorized :: bool

record call =
  call_name :: string
  call_verb :: verb
  call_path :: string
  call_body :: "json option"

definition setBaseUrl :: "string \<Rightarrow> ApiClient \<Rightarrow> ApiClient" where
  "setBaseUrl u c = c\<lparr>ac_baseUrl := rev (dropWhile (\<lambda>x. x = CHR ''/'') (rev (trimmed u)))\<rparr>"

definition setToken :: "string \<Rightarrow> ApiClient \<Rightarrow> ApiClient" where
  "setToken t c = c\<lparr>ac_token := t\<rparr>"

definition makeRequest :: "verb \<Rightarrow> string \<Rightarrow> json option \<Rightarrow> ApiClient \<Rightarrow> request" where
  "makeRequest v path body c =
     \<lparr>rq_verb = v, rq_url = ac_baseUrl c @ path,
      rq_auth = (if ac_token c = [] then None else Some (''Bearer '' @ ac_token c)), rq_payload = body\<rparr>"

datatype signal =
    Unauthorized
  | RequestFailed string int string
  | LoginOk string string
  | LoginFailed int string
  | HealthOk json
  | InfoOk json
  | TemplatesOk "json list"
  | TaskTemplatesOk "json list"
  | TaskTemplateOk json
  | DagRunsOk "json list"
  | TaskRunsOk "json list"
  | RemoteTaskRunsOk string "json list"
  | DagEventsOk "json list"
  | RemoteDagEventsOk string "json list"
  | RunDagAsyncOk string "json list"
  | RunTemplateAsyncOk string "json list"
  | CronJobsOk "json list"
  | CronJobDeleted string
  | CronJobCreated string
  | WorkersOk "json list"

datatype sending = Dropped | NotSent signal | Sent request

definition send_with :: "verb \<Rightarrow> string \<Rightarrow> string \<Rightarrow> json option \<Rightarrow> ApiClient \<Rightarrow> sending" where
  "send_with v name path body c =
     (if ac_unauthorized c then Dropped
      else if ac_baseUrl c = [] then NotSent (RequestFailed name 0 ''baseUrl is empty'')
      else Sent (makeRequest v path body c))"

definition getJson :: "string \<Rightarrow> string \<Rightarrow> ApiClient \<Rightarrow> sending" where
  "getJson name path c = send_with GET name path None c"

definition postJson :: "string \<Rightarrow> string \<Rightarrow> json \<Rightarrow> ApiClient \<Rightarrow> sending" where
  "postJson name path body c = send_with POST name path (Some body) c"

definition deleteJson :: "string \<Rightarrow> string \<Rightarrow> ApiClient \<Rightarrow> sending" where
  "deleteJson name path c = send_with DELETE name path None c"

definition login_body :: "string \<Rightarrow> string \<Rightarrow> json" where
  "login_body u p = JObj [''username'' \<mapsto> JStr u, ''password'' \<mapsto> JStr p]"

definition client_login :: "string \<Rightarrow> string \<Rightarrow> ApiClient \<Rightarrow> sending" where
  "client_login u p = postJson ''login'' ''/api/login'' (login_body u p)"

definition getHealth :: "ApiClient \<Rightarrow> sending" where
  "getHealth = getJson ''health'' ''/api/health''"

definition getInfo :: "ApiClient \<Rightarrow> sending" where
  "getInfo = getJson ''info'' ''/api/info''"

definition client_runDagAsync :: "json \<Rightarrow> ApiClient \<Rightarrow> sending" where
  "client_runDagAsync body = postJson ''runDagAsync'' ''/api/dag/run_async'' body"

definition listTemplates :: "ApiClient \<Rightarrow> sending" where
  "listTemplates = getJson ''templates'' ''/templates''"

definition template_call_body :: "string \<Rightarrow> json \<Rightarrow> string \<Rightarrow> json" where
  "template_call_body tid params runId =
     JObj ((if runId = [] then Map.empty else [''run_id'' \<mapsto> JStr runId])(''template_id'' \<mapsto> JStr tid, ''params'' \<mapsto> params))"

definition runTemplateAsync :: "string \<Rightarrow> json \<Rightarrow> string \<Rightarrow> ApiClient \<Rightarrow> sending" where
  "runTemplateAsync tid params runId =
     postJson ''runTemplateAsync'' ''/template/run_async'' (template_call_body tid params runId)"

definition listTaskTemplates :: "string \<Rightarrow> ApiClient \<Rightarrow> sending" where
  "listTaskTemplates ty =
     getJson ''taskTemplates'' (''/api/task_templates'' @ (if ty = [] then [] else ''?type='' @ ty))"

definition getTaskTemplate :: "string \<Rightarrow> ApiClient \<Rightarrow> sending option" where
  "getTaskTemplate tid c =
     (if tid = [] then None else Some (getJson (''taskTemplate:'' @ tid) (''/api/task_templates/'' @ tid) c))"

subsection \<open>Queries\<close>

definition text_item :: "string \<Rightarrow> string \<Rightarrow> (string \<times> string) list" where
  "text_item k s = (if s = [] then [] else [(k, s)])"

definition num_item :: "string \<Rightarrow> int \<Rightarrow> (string \<times> string) list" where
  "num_item k n = (if 0 < n then [(k, to_string_int n)] else [])"

definition with_query :: "((string \<times> string) list \<Rightarrow> string) \<Rightarrow> string \<Rightarrow> (string \<times> string) list \<Rightarrow> string" where
  "with_query enc path q = path @ (if q = [] then [] else CHR ''?'' # enc q)"

definition dag_runs_items :: "string \<Rightarrow> string \<Rightarrow> string \<Rightarrow> int \<Rightarrow> int \<Rightarrow> int \<Rightarrow> (string \<times> string) list" where
  "dag_runs_items runId name src st en cap =
     text_item ''run_id'' runId @ text_item ''name'' name @ text_item ''source'' src
     @ num_item ''start_ts_ms'' st @ num_item ''end_ts_ms'' en @ num_item ''limit'' cap"

definition getDagRuns where
  "getDagRuns enc runId name src st en cap =
     getJson ''dagRuns'' (with_query enc ''/api/dag/runs'' (dag_runs_items runId name src st en cap))"

definition task_runs_items :: "string \<Rightarrow> string \<Rightarrow> int \<Rightarrow> (string \<times> string) list" where
  "task_runs_items runId name cap = text_item ''run_id'' runId @ text_item ''name'' name @ num_item ''limit'' cap"

definition getTaskRuns where
  "getTaskRuns enc runId name cap =
     getJson ''taskRuns'' (with_query enc ''/api/dag/task_runs'' (task_runs_items runId name cap))"

definition remote_runs_items :: "string \<Rightarrow> string \<Rightarrow> int \<Rightarrow> (string \<times> string) list" where
  "remote_runs_items runId path cap = text_item ''run_id'' runId @ text_item ''remote_path'' path @ num_item ''limit'' cap"

definition getRemoteTaskRuns where
  "getRemoteTaskRuns enc runId path cap =
     getJson (''remoteTaskRuns:'' @ path) (with_query enc ''/api/workers/proxy/dag/task_runs'' (remote_runs_items runId path cap))"

definition events_items ::
  "string \<Rightarrow> string \<Rightarrow> string \<Rightarrow> string \<Rightarrow> int \<Rightarrow> int \<Rightarrow> int \<Rightarrow> (string \<times> string) list" where
  "events_items runId taskId ty ev st en cap =
     text_item ''run_id'' runId @ text_item ''task_id'' taskId @ text_item ''type'' ty @ text_item ''event'' ev
     @ num_item ''start_ts_ms'' st @ num_item ''end_ts_ms'' en @ num_item ''limit'' cap"

definition getDagEvents where
  "getDagEvents enc runId taskId ty ev st en cap =
     getJson ''dagEvents'' (with_query enc ''/api/dag/events'' (events_items runId taskId ty ev st en cap))"

definition getRemoteDagEvents where
  "getRemoteDagEvents enc runId path st cap =
     getJson (''remoteDagEvents:'' @ path)
       (with_query enc ''/api/workers/proxy/dag/events''
          (text_item ''run_id'' runId @ text_item ''remote_path'' path @ num_item ''start_ts_ms'' st @ num_item ''limit'' cap))"

definition listCronJobs :: "ApiClient \<Rightarrow> sending" where
  "listCronJobs = getJson ''cronJobs'' ''/api/cron/jobs''"

definition deleteCronJob :: "string \<Rightarrow> ApiClient \<Rightarrow> sending option" where
  "deleteCronJob i c = (if i = [] then None else Some (deleteJson (''cronDelete:'' @ i) (''/api/cron/jobs/'' @ i) c))"

definition createCronJob :: "json \<Rightarrow> ApiClient \<Rightarrow> sending" where
  "createCronJob body = postJson ''cronCreate'' ''/api/cron/jobs'' body"

definition getWorkers :: "ApiClient \<Rightarrow> sending" where
  "getWorkers = getJson ''workers'' ''/api/workers''"

subsection \<open>Answers\<close>

definition parseJsonObject :: "(string \<Rightarrow> string + json) \<Rightarrow> string \<Rightarrow> string + (string \<rightharpoonup> json)" where
  "parseJsonObject parse bs =
     (case parse bs of Inl e \<Rightarrow> Inl e | Inr (JObj m) \<Rightarrow> Inr m | Inr _ \<Rightarrow> Inl ''root is not object'')"

record ParsedEnvelope =
  env_ok :: bool
  env_message :: string
  env_data :: "json option"

text \<open>\<^verbatim>\<open>QJsonValue::toInt\<close>: the number if it is an \<^verbatim>\<open>int\<close>, the default otherwise.\<close>

definition j_int :: "int \<Rightarrow> json option \<Rightarrow> int" where
  "j_int d v =
     (case v of
        Some (JInt n) \<Rightarrow> if int_range 32 n then n else d
      | Some (JFloat q) \<Rightarrow> if of_int (trunc_rat q) = q \<and> int_range 32 (trunc_rat q) then trunc_rat q else d
      | _ \<Rightarrow> d)"

definition parseEnvelope :: "(string \<rightharpoonup> json) \<Rightarrow> ParsedEnvelope" where
  "parseEnvelope obj =
     (if obj ''code'' \<noteq> None then
        (let code = j_int (-1) (obj ''code''); msg = j_text [] (obj ''message'')
         in \<lparr>env_ok = (code = 0), env_message = (if msg = [] then ''error code='' @ to_string_int code else msg),
             env_data = obj ''data''\<rparr>)
      else if obj ''ok'' \<noteq> None then
        (let ok = (case obj ''ok'' of Some (JBool b) \<Rightarrow> b | _ \<Rightarrow> False); msg = j_text [] (obj ''message'');
             err = j_text [] (obj ''error'')
         in \<lparr>env_ok = ok,
             env_message = (if err \<noteq> [] then err else if msg \<noteq> [] then msg else if ok then ''ok'' else ''request failed''),
             env_data = obj ''data''\<rparr>)
      else \<lparr>env_ok = False, env_message = ''unknown response format (missing code/ok)'', env_data = None\<rparr>)"

definition to_array :: "json option \<Rightarrow> json list" where
  "to_array v = (case v of Some (JArr xs) \<Rightarrow> xs | _ \<Rightarrow> [])"

definition to_object :: "json option \<Rightarrow> json" where
  "to_object v = (case v of Some (JObj m) \<Rightarrow> JObj m | _ \<Rightarrow> JObj Map.empty)"

definition listing :: "string \<Rightarrow> json option \<Rightarrow> json list" where
  "listing k data = (case data of Some (JObj m) \<Rightarrow> to_array (m k) | _ \<Rightarrow> [])"

definition listing_or_array :: "string \<Rightarrow> json option \<Rightarrow> json list" where
  "listing_or_array k data = (case data of Some (JObj m) \<Rightarrow> to_array (m k) | _ \<Rightarrow> to_array data)"

definition run_ids :: "json option \<Rightarrow> string \<times> json list" where
  "run_ids data = (case data of Some (JObj m) \<Rightarrow> (j_text [] (m ''run_id''), to_array (m ''task_ids'')) | _ \<Rightarrow> ([], []))"

definition onOk :: "string \<Rightarrow> json option \<Rightarrow> signal list" where
  "onOk name data =
     (if name = ''health'' then
        [case data of Some (JObj m) \<Rightarrow> HealthOk (JObj m) | _ \<Rightarrow> RequestFailed name 0 ''health data is not an object'']
      else if name = ''info'' then
        [case data of Some (JObj m) \<Rightarrow> InfoOk (JObj m) | _ \<Rightarrow> RequestFailed name 0 ''info data is not an object'']
      else if name = ''templates'' then [TemplatesOk (listing_or_array ''data'' data)]
      else if name = ''taskTemplates'' then [TaskTemplatesOk (listing_or_array ''templates'' data)]
      else if has_prefix ''taskTemplate:'' name then
        [case data of Some (JObj m) \<Rightarrow> TaskTemplateOk (to_object (m ''template''))
         | _ \<Rightarrow> RequestFailed name 0 ''task template data is not an object'']
      else if name = ''dagRuns'' then [DagRunsOk (listing ''items'' data)]
      else if name = ''taskRuns'' then [TaskRunsOk (listing ''items'' data)]
      else if name = ''dagEvents'' then [DagEventsOk (listing ''items'' data)]
      else if has_prefix ''remoteTaskRuns:'' name then [RemoteTaskRunsOk (drop 15 name) (listing ''items'' data)]
      else if has_prefix ''remoteDagEvents:'' name then [RemoteDagEventsOk (drop 16 name) (listing ''items'' data)]
      else if name = ''cronJobs'' then [CronJobsOk (listing_or_array ''jobs'' data)]
      else if name = ''workers'' then
        [case data of Some (JObj m) \<Rightarrow> WorkersOk (to_array (m ''workers''))
         | _ \<Rightarrow> RequestFailed name 0 ''workers data is not an object'']
      else if name = ''login'' then
        [case data of
           Some (JObj m) \<Rightarrow>
             if j_text [] (m ''token'') = [] then LoginFailed 0 ''missing token in login response''
             else LoginOk (j_text [] (m ''token'')) (j_text [] (m ''username''))
         | _ \<Rightarrow> LoginFailed 0 ''login data is not an object'']
      else if name = ''runDagAsync'' then [RunDagAsyncOk (fst (run_ids data)) (snd (run_ids data))]
      else if name = ''runTemplateAsync'' then [RunTemplateAsyncOk (fst (run_ids data)) (snd (run_ids data))]
      else if name = ''cronCreate'' then
        [CronJobCreated (case data of Some (JObj m) \<Rightarrow> j_text [] (m ''job_id'') | _ \<Rightarrow> [])]
      else if has_prefix ''cronDelete:'' name then [CronJobDeleted (drop 11 name)]
      else [])"

definition onRawJson :: "string \<Rightarrow> (string \<rightharpoonup> json) \<Rightarrow> signal list" where
  "onRawJson name obj =
     (let env = parseEnvelope obj
      in if \<not> env_ok env then
           [if name = ''login'' then LoginFailed 0 (env_message env) else RequestFailed name 0 (env_message env)]
         else onOk name (env_data env))"

text \<open>The handler of \<^verbatim>\<open>QNetworkReply::finished\<close>, the same for the three verbs.\<close>

definition reply_finished ::
  "(string \<Rightarrow> string + json) \<Rightarrow> string \<Rightarrow> int \<Rightarrow> string \<Rightarrow> ApiClient \<Rightarrow> signal list \<times> ApiClient" where
  "reply_finished parse name st bs c =
     (if st = 401 then ([Unauthorized], c\<lparr>ac_unauthorized := True\<rparr>)
      else (case parseJsonObject parse bs of
              Inl e \<Rightarrow> [RequestFailed name st (''bad json: '' @ e)]
            | Inr obj \<Rightarrow> onRawJson name obj,
            c\<lparr>ac_unauthorized := False\<rparr>))"

subsection \<open>Client and server\<close>

lemmas send_defs = client_login_def getDagRuns_def getTaskRuns_def getJson_def postJson_def deleteJson_def send_with_def

text \<open>After an answer 401 nothing is sent any more, not even a login, until the answer to a request that was already under
  way comes in.\<close>

lemma locked_after_401:
  assumes "reply_finished parse name 401 bs c = (sg, c')"
  shows "sg = [Unauthorized]" and "send_with v n p b c' = Dropped" and "client_login u pw c' = Dropped"
  using assms by (auto simp: reply_finished_def send_defs)

text \<open>An answer of the server: a code other than 0 is a failure with its message, whatever was asked.\<close>

lemma error_is_failure:
  assumes "st \<noteq> 401" and "parse bs = Inr (resp_body (resp_json code data msg st))" and "code \<noteq> 0" and "int_range 32 code"
    and "msg \<noteq> []"
  shows "fst (reply_finished parse name st bs c) = [if name = ''login'' then LoginFailed 0 msg else RequestFailed name 0 msg]"
  using assms
  by (simp add: reply_finished_def parseJsonObject_def resp_json_def onRawJson_def parseEnvelope_def j_int_def j_text_def Let_def)

lemma ok_answer:
  assumes "parse bs = Inr (resp_body (resp_ok data))"
  shows "reply_finished parse name 200 bs c = (onOk name (Some data), c\<lparr>ac_unauthorized := False\<rparr>)"
  using assms
  by (simp add: reply_finished_def parseJsonObject_def resp_ok_def resp_json_def onRawJson_def parseEnvelope_def j_int_def
      int_range_def Let_def)

definition auth_header :: "request \<Rightarrow> string" where
  "auth_header rq = (case rq_auth rq of None \<Rightarrow> [] | Some s \<Rightarrow> s)"

definition json_type :: string where
  "json_type = ''application/json; charset=utf-8''"

text \<open>What the client gets for the answer to a login request.\<close>

definition login_signals ::
  "(string \<Rightarrow> string + json) \<Rightarrow> (json \<Rightarrow> string) \<Rightarrow> int \<Rightarrow> string \<Rightarrow> string \<Rightarrow> string \<Rightarrow> ApiClient \<Rightarrow> AuthManager
    \<Rightarrow> signal list" where
  "login_signals parse dump now tkn u pw c a =
     (let r = fst (login_handler parse now tkn json_type (dump (login_body u pw)) a)
      in fst (reply_finished parse ''login'' (http_status r) (dump (resp_body r)) c))"

lemma json_type_ok: "contains_text ''application/json'' json_type"
  by code_simp

lemma login_handler_signals:
  assumes "\<And>v. v \<in> {login_body u pw, resp_body (fst (login_handler parse now tkn json_type (dump (login_body u pw)) a))} \<Longrightarrow>
      parse (dump v) = Inr v" and "tkn \<noteq> []"
  shows "login_signals parse dump now tkn u pw c a =
    (case fst (auth_login now tkn u pw a) of
       Some t \<Rightarrow> [LoginOk t u] | None \<Rightarrow> [LoginFailed 0 ''invalid_username_or_password''])"
    and "snd (login_handler parse now tkn json_type (dump (login_body u pw)) a) = snd (auth_login now tkn u pw a)"
proof -
  let ?h = "login_handler parse now tkn json_type (dump (login_body u pw)) a"
  have p: "parse (dump (login_body u pw)) = Inr (login_body u pw)" using assms(1) by blast
  have h: "?h = (case auth_login now tkn u pw a of
      (None, a') \<Rightarrow> (resp_error 1004 ''invalid_username_or_password'' 200, a')
    | (Some t, a') \<Rightarrow> (resp_ok (JObj [''token'' \<mapsto> JStr t, ''username'' \<mapsto> JStr u]), a'))"
    unfolding login_handler_def p by (simp add: json_type_ok login_body_def)
  have r: "parse (dump (resp_body (fst ?h))) = Inr (resp_body (fst ?h))" using assms(1) by blast
  show "snd ?h = snd (auth_login now tkn u pw a)" unfolding h by (simp split: prod.split option.split)
  show "login_signals parse dump now tkn u pw c a =
    (case fst (auth_login now tkn u pw a) of
       Some t \<Rightarrow> [LoginOk t u] | None \<Rightarrow> [LoginFailed 0 ''invalid_username_or_password''])"
  proof (cases "auth_login now tkn u pw a")
    case (Pair t a')
    show ?thesis
    proof (cases t)
      case None
      then have e: "fst ?h = resp_json 1004 JNull ''invalid_username_or_password'' 200"
        unfolding h Pair by (simp add: resp_error_def)
      have "http_status (fst ?h) = 200" unfolding e by (simp add: resp_json_def)
      then show ?thesis
        using error_is_failure [of 200 parse "dump (resp_body (fst ?h))" 1004 JNull "''invalid_username_or_password''" "''login''" c] r
        by (simp add: login_signals_def Let_def e int_range_def Pair None)
    next
      case (Some t')
      then have e: "fst ?h = resp_ok (JObj [''token'' \<mapsto> JStr t', ''username'' \<mapsto> JStr u])" unfolding h Pair by simp
      have "http_status (fst ?h) = 200" unfolding e by (simp add: resp_ok_def resp_json_def)
      moreover have "t' = tkn" using Pair Some by (auto simp: auth_login_def split: option.splits if_splits)
      ultimately show ?thesis
        using ok_answer [of parse "dump (resp_body (fst ?h))" "JObj [''token'' \<mapsto> JStr t', ''username'' \<mapsto> JStr u]" "''login''" c] r assms(2)
        by (simp add: login_signals_def Let_def e Pair Some onOk_def j_text_def has_prefix_def)
    qed
  qed
qed


definition login_dump :: "json \<Rightarrow> string" where
  "login_dump v = (if contains ''username'' v then ''request'' else ''answer'')"

definition login_parse :: "string \<Rightarrow> string + json" where
  "login_parse t =
     (if t = ''request'' then Inr (login_body ''admin'' ''123456'')
      else Inr (resp_body (resp_ok (JObj [''token'' \<mapsto> JStr ''t'', ''username'' \<mapsto> JStr ''admin'']))))"


text \<open>The server reads what the client asked for.\<close>

lemma asked_texts:
  "http_get_str (map_of (dag_runs_items r n s st en cap)) ''run_id'' = r"
  "http_get_str (map_of (dag_runs_items r n s st en cap)) ''name'' = n"
  "http_get_str (map_of (dag_runs_items r n s st en cap)) ''source'' = s"
  "http_get_str (map_of (task_runs_items r n cap)) ''run_id'' = r"
  "http_get_str (map_of (task_runs_items r n cap)) ''name'' = n"
  by (simp_all add: http_get_str_def dag_runs_items_def task_runs_items_def text_item_def num_item_def map_add_Some_iff)

lemma asked_numbers:
  assumes "0 < cap" "cap \<le> int_max" "st \<le> ll_max" "en \<le> ll_max"
  shows "http_get_ll (map_of (dag_runs_items r n s st en cap)) ''start_ts_ms'' 0 = max 0 st"
    and "http_get_ll (map_of (dag_runs_items r n s st en cap)) ''end_ts_ms'' 0 = max 0 en"
    and "dag_runs_limit (map_of (dag_runs_items r n s st en cap)) = min cap 500"
    and "task_runs_limit (map_of (task_runs_items r n cap)) = min cap 1000"
proof -
  have l: "stoi (to_string_int cap) = Inr cap" by (rule stoi_to_string_int) (use assms in simp_all)
  have "stoll (to_string_int x) = Inr x" if "0 < x" "x \<le> ll_max" for x
    by (rule stoll_to_string_int) (use that in simp_all)
  then show "http_get_ll (map_of (dag_runs_items r n s st en cap)) ''start_ts_ms'' 0 = max 0 st"
    "http_get_ll (map_of (dag_runs_items r n s st en cap)) ''end_ts_ms'' 0 = max 0 en"
    using assms by (simp_all add: http_get_ll_def dag_runs_items_def text_item_def num_item_def)
  show "dag_runs_limit (map_of (dag_runs_items r n s st en cap)) = min cap 500"
    "task_runs_limit (map_of (task_runs_items r n cap)) = min cap 1000"
    using assms l
    by (simp_all add: dag_runs_limit_def task_runs_limit_def http_get_int_def dag_runs_items_def task_runs_items_def
        text_item_def num_item_def clamp_def)
qed

text \<open>The signals for the answer of the server to a query with the given items.\<close>

definition query_signals ::
  "(string \<Rightarrow> string + json) \<Rightarrow> (json \<Rightarrow> string) \<Rightarrow> string \<Rightarrow> response \<Rightarrow> ApiClient \<Rightarrow> signal list" where
  "query_signals parse dump name r c = fst (reply_finished parse name (http_status r) (dump (resp_body r)) c)"

lemma items_signals:
  assumes "parse (dump (resp_body (items js))) = Inr (resp_body (items js))"
  shows "query_signals parse dump name (items js) c = onOk name (Some (JObj [''items'' \<mapsto> JArr js]))"
  using ok_answer [of parse "dump (resp_body (items js))" "JObj [''items'' \<mapsto> JArr js]" name c] assms
  by (simp add: query_signals_def items_def resp_ok_def resp_json_def)


definition listed_db :: RunDb where
  "listed_db = insertRun (\<lambda>_. []) 5 ''r'' demo_run_body ''manual'' [] empty_RunDb"


end
