(* ===== verification/Client_Ws.thy ===== *)
theory Client_Ws
  imports Client_Canvas Ws_Session
begin

text \<open>
  \<^verbatim>\<open>net/ws_client.cpp\<close>: the messages the client sends over its websocket and what it makes of those it gets, and
  the session of the server at the other end.
\<close>

subsection \<open>The client\<close>

record WsClient =
  wc_token :: string
  wc_authed :: bool
  wc_logs :: "(string \<times> string) set"
  wc_events :: "(string \<times> string) set"

definition new_WsClient :: WsClient where
  "new_WsClient = \<lparr>wc_token = [], wc_authed = False, wc_logs = {}, wc_events = {}\<rparr>"

datatype ws_signal = WsConnected | WsAuthed | WsClosed | WsError string | WsMessage json

definition wc_setToken :: "string \<Rightarrow> WsClient \<Rightarrow> WsClient" where
  "wc_setToken t c = c\<lparr>wc_token := t\<rparr>"

text \<open>\<^verbatim>\<open>connectTo\<close>: whether the socket is opened, and the error otherwise.\<close>

definition connectTo :: "WsClient \<Rightarrow> ws_signal option" where
  "connectTo c = (if wc_token c = [] then Some (WsError ''ws connect refused: token is empty'') else None)"

definition on_connected :: "WsClient \<Rightarrow> WsClient \<times> ws_signal list \<times> json list" where
  "on_connected c = (c\<lparr>wc_authed := False\<rparr>, [WsConnected], [JObj [''token'' \<mapsto> JStr (wc_token c)]])"

definition on_message :: "(string \<Rightarrow> string + json) \<Rightarrow> string \<Rightarrow> WsClient \<Rightarrow> WsClient \<times> ws_signal list" where
  "on_message parse t c =
     (case parse t of
        Inr (JObj m) \<Rightarrow>
          (if \<not> wc_authed c \<and> j_text [] (m ''type'') = ''authed''
           then (c\<lparr>wc_authed := True\<rparr>, [WsMessage (JObj m), WsAuthed])
           else (c, [WsMessage (JObj m)]))
      | Inr _ \<Rightarrow> (c, [WsError ''ws bad json: no error occurred''])
      | Inl e \<Rightarrow> (c, [WsError (''ws bad json: '' @ e)]))"

definition on_disconnected :: "WsClient \<Rightarrow> WsClient \<times> ws_signal list" where
  "on_disconnected c = (c\<lparr>wc_authed := False\<rparr>, [WsClosed])"

definition op_message :: "string \<Rightarrow> string \<Rightarrow> string \<Rightarrow> string \<Rightarrow> string \<Rightarrow> json" where
  "op_message op topic tkn t r =
     JObj ((if r = [] then Map.empty else [''run_id'' \<mapsto> JStr r])
       (''op'' \<mapsto> JStr op, ''topic'' \<mapsto> JStr topic, ''task_id'' \<mapsto> JStr t, ''token'' \<mapsto> JStr tkn))"

definition subscribeTaskLogs :: "string \<Rightarrow> string \<Rightarrow> WsClient \<Rightarrow> WsClient \<times> json" where
  "subscribeTaskLogs t r c =
     (c\<lparr>wc_logs := insert (t, r) (wc_logs c)\<rparr>, op_message ''subscribe'' ''task_logs'' (wc_token c) t r)"

definition unsubscribeTaskLogs :: "string \<Rightarrow> string \<Rightarrow> WsClient \<Rightarrow> WsClient \<times> json" where
  "unsubscribeTaskLogs t r c = (c, op_message ''unsubscribe'' ''task_logs'' (wc_token c) t r)"

definition subscribeTaskEvents :: "string \<Rightarrow> string \<Rightarrow> WsClient \<Rightarrow> WsClient \<times> json" where
  "subscribeTaskEvents t r c =
     (c\<lparr>wc_events := insert (t, r) (wc_events c)\<rparr>, op_message ''subscribe'' ''task_events'' (wc_token c) t r)"

definition unsubscribeTaskEvents :: "string \<Rightarrow> string \<Rightarrow> WsClient \<Rightarrow> WsClient \<times> json" where
  "unsubscribeTaskEvents t r c = (c, op_message ''unsubscribe'' ''task_events'' (wc_token c) t r)"

subsection \<open>A conversation\<close>

datatype ws_call = SubLogs string string | UnsubLogs string string | SubEvents string string | UnsubEvents string string

fun do_call :: "ws_call \<Rightarrow> WsClient \<Rightarrow> WsClient \<times> json" where
  "do_call (SubLogs t r) = subscribeTaskLogs t r"
| "do_call (UnsubLogs t r) = unsubscribeTaskLogs t r"
| "do_call (SubEvents t r) = subscribeTaskEvents t r"
| "do_call (UnsubEvents t r) = unsubscribeTaskEvents t r"

fun call_messages :: "ws_call list \<Rightarrow> WsClient \<Rightarrow> json list" where
  "call_messages [] c = []"
| "call_messages (x # xs) c = (case do_call x c of (c', j) \<Rightarrow> j # call_messages xs c')"

text \<open>The channels that the calls leave subscribed.\<close>

fun call_channels :: "ws_call \<Rightarrow> string set \<Rightarrow> string set" where
  "call_channels (SubLogs t r) C = insert (channelTaskLogs t r) C"
| "call_channels (UnsubLogs t r) C = C - {channelTaskLogs t r}"
| "call_channels (SubEvents t r) C = insert (channelTaskEvents t r) C"
| "call_channels (UnsubEvents t r) C = C - {channelTaskEvents t r}"

text \<open>A session of the server that gets the texts one after the other, each in the world of its arrival.\<close>

fun serve :: "(ws_env \<times> string) list \<Rightarrow> WsSession \<Rightarrow> AuthManager \<Rightarrow> WsSession \<times> ws_effect list \<times> AuthManager" where
  "serve [] s a = (s, [], a)"
| "serve ((E, t) # xs) s a =
     (case handle_command E t s a of
        (s1, ef1, a1) \<Rightarrow> (case serve xs s1 a1 of (s2, ef2, a2) \<Rightarrow> (s2, ef1 @ ef2, a2)))"

lemma do_call_token: "wc_token (fst (do_call x c)) = wc_token c"
  by (cases x) (simp_all add: subscribeTaskLogs_def unsubscribeTaskLogs_def subscribeTaskEvents_def unsubscribeTaskEvents_def)

lemma message_command:
  "parseClientCommand (op_message op topic tkn t r) =
     \<lparr>cc_op = parseOpField (JObj [''op'' \<mapsto> JStr op]) ''op'', cc_topic = parseTopicField (JObj [''topic'' \<mapsto> JStr topic]) ''topic'',
      cc_taskId = t, cc_runId = r\<rparr>"
  by (simp add: parseClientCommand_def op_message_def parseOpField_def parseTopicField_def string_field_def)

lemma call_served:
  "authed_command E (snd (do_call x c)) s = (s\<lparr>subscriptions := call_channels x (subscriptions s)\<rparr>, [])"
proof -
  have p: "string_field ''op'' (op_message op topic tkn t r) = op" for op topic tkn t r
    by (simp add: string_field_def op_message_def)
  show ?thesis
    by (cases x)
      (simp_all add: authed_command_def p subscribeTaskLogs_def unsubscribeTaskLogs_def subscribeTaskEvents_def
        unsubscribeTaskEvents_def plain_command_def message_command parseOpField_def parseTopicField_def command_channel_def)
qed

lemma admit_few: "length ts < 30 \<Longrightarrow> fst (admit now ts) \<and> length (snd (admit now ts)) \<le> Suc (length ts)"
  using length_dropWhile_le [of "\<lambda>t. kWindow < now - t" ts] by (auto simp: admit_def Let_def)

lemma handle_served:
  assumes "authed s" and "length (cmd_timestamps s) < 30" and "we_parse E txt = Inr (snd (do_call x c))"
  shows "\<exists>ts. handle_command E txt s a = (s\<lparr>cmd_timestamps := ts, subscriptions := call_channels x (subscriptions s)\<rparr>, [], a)
    \<and> length ts \<le> Suc (length (cmd_timestamps s))"
proof -
  obtain ts where "admit (we_now_ns E) (cmd_timestamps s) = (True, ts)" "length ts \<le> Suc (length (cmd_timestamps s))"
    using admit_few [OF assms(2), of "we_now_ns E"] by (metis (full_types) prod.collapse)
  then show ?thesis using assms(1,3) by (intro exI [of _ ts]) (simp add: handle_command_def Let_def call_served)
qed

lemma calls_served:
  assumes "authed s" and "length (cmd_timestamps s) + length xs \<le> 30" and "length ws = length xs"
    and "list_all2 (\<lambda>(E, t) j. we_parse E t = Inr j) ws (call_messages xs c)"
  shows "\<exists>s'. serve ws s a = (s', [], a) \<and> authed s' \<and> subscriptions s' = fold call_channels xs (subscriptions s)"
  using assms
proof (induction xs arbitrary: ws s c)
  case (Cons x xs)
  obtain c' j where c': "do_call x c = (c', j)" by fastforce
  obtain E t ws' where ws: "ws = (E, t) # ws'" "we_parse E t = Inr j"
      "list_all2 (\<lambda>(E, t) j. we_parse E t = Inr j) ws' (call_messages xs c')"
    using Cons.prems(4) by (auto simp: c' list_all2_Cons2)
  obtain ts where h: "handle_command E t s a = (s\<lparr>cmd_timestamps := ts, subscriptions := call_channels x (subscriptions s)\<rparr>, [], a)"
      "length ts \<le> Suc (length (cmd_timestamps s))"
    using handle_served [of s E t x c a] Cons.prems(1,2) ws(2) c' by auto
  let ?s = "s\<lparr>cmd_timestamps := ts, subscriptions := call_channels x (subscriptions s)\<rparr>"
  have "authed ?s" "length (cmd_timestamps ?s) + length xs \<le> 30" "length ws' = length xs"
    using Cons.prems(1-3) h(2) ws(1) by simp_all
  from Cons.IH [OF this ws(3)] show ?case by (auto simp: ws(1) h(1))
qed simp

lemma conversation:
  assumes "validate_token (we_now_auth Ea) (wc_token c) a = (Some usr, a')"
    and "we_parse Ea ta = Inr (JObj [''token'' \<mapsto> JStr (wc_token c)])"
    and "length xs \<le> 29" and "length ws = length xs"
    and "list_all2 (\<lambda>(E, t) j. we_parse E t = Inr j) ws (call_messages xs (fst (on_connected c)))"
    and "cparse ''{\"type\":\"authed\"}'' = Inr (JObj [''type'' \<mapsto> JStr ''authed''])"
  shows "\<exists>s. serve ((Ea, ta) # ws) new_session a = (s, [SendText ''{\"type\":\"authed\"}''], a') \<and> authed s
    \<and> subscriptions s = fold call_channels xs {}
    \<and> snd (on_message cparse ''{\"type\":\"authed\"}'' (fst (on_connected c)))
        = [WsMessage (JObj [''type'' \<mapsto> JStr ''authed'']), WsAuthed]"
proof -
  have h: "handle_command Ea ta new_session a =
      (new_session\<lparr>cmd_timestamps := [we_now_ns Ea], auth_token := wc_token c, authed := True\<rparr>, [SendText ''{\"type\":\"authed\"}''], a')"
    by (simp add: handle_command_def admit_def new_session_def assms(2) authenticate_def assms(1) contains_def Let_def)
  let ?s = "new_session\<lparr>cmd_timestamps := [we_now_ns Ea], auth_token := wc_token c, authed := True\<rparr>"
  have "authed ?s" "length (cmd_timestamps ?s) + length xs \<le> 30" using assms(3) by simp_all
  from calls_served [OF this assms(4,5), of a'] obtain s where s: "serve ws ?s a' = (s, [], a')" "authed s"
      "subscriptions s = fold call_channels xs (subscriptions ?s)" by blast
  have "subscriptions ?s = {}" by (simp add: new_session_def)
  moreover have "snd (on_message cparse ''{\"type\":\"authed\"}'' (fst (on_connected c)))
      = [WsMessage (JObj [''type'' \<mapsto> JStr ''authed'']), WsAuthed]"
    by (simp add: assms(6) on_message_def on_connected_def j_text_def)
  ultimately show ?thesis using s unfolding serve.simps h prod.case by simp
qed

text \<open>C33. Client and server agree on what is subscribed: a client with a live token that connects and then makes at most 29 calls
  is logged in, gets the one answer that makes it report so, and its session ends with exactly the channels its calls
  left.\<close>

theorem client_subscribes:
  assumes "validate_token (we_now_auth Ea) (wc_token c) a = (Some usr, a')"
    and "we_parse Ea ta = Inr (JObj [''token'' \<mapsto> JStr (wc_token c)])"
    and "length xs \<le> 29" and "length ws = length xs"
    and "list_all2 (\<lambda>(E, t) j. we_parse E t = Inr j) ws (call_messages xs (fst (on_connected c)))"
    and "cparse ''{\"type\":\"authed\"}'' = Inr (JObj [''type'' \<mapsto> JStr ''authed''])"
  shows "\<exists>s. serve ((Ea, ta) # ws) new_session a = (s, [SendText ''{\"type\":\"authed\"}''], a') \<and> authed s
    \<and> subscriptions s = fold call_channels xs {}
    \<and> snd (on_message cparse ''{\"type\":\"authed\"}'' (fst (on_connected c)))
        = [WsMessage (JObj [''type'' \<mapsto> JStr ''authed'']), WsAuthed]"
  by (rule conversation) (fact assms)+

definition talk_env :: ws_env where
  "talk_env = demo_ws_env\<lparr>we_parse := (\<lambda>t. if t = ''a'' then Inr (JObj [''token'' \<mapsto> JStr ''t''])
     else Inr (op_message ''subscribe'' ''task_logs'' ''t'' ''x'' ''r''))\<rparr>"

theorem client_subscribes_witness:
  "\<exists>s. serve [(talk_env, ''a''), (talk_env, ''s'')] new_session demo_auth = (s, [SendText ''{\"type\":\"authed\"}''], demo_auth)
    \<and> authed s \<and> subscriptions s = {channelTaskLogs ''x'' ''r''}"
proof -
  let ?c = "wc_setToken ''t'' new_WsClient"
  have tk: "wc_token ?c = ''t''" by (simp add: wc_setToken_def)
  have e: "we_parse talk_env ''a'' = Inr (JObj [''token'' \<mapsto> JStr ''t''])" "we_now_auth talk_env = 0"
    "we_parse talk_env ''s'' = Inr (op_message ''subscribe'' ''task_logs'' ''t'' ''x'' ''r'')"
    by (simp_all add: talk_env_def demo_ws_env_def)
  obtain usr where "validate_token 0 ''t'' demo_auth = (Some usr, demo_auth)"
    by (simp add: validate_token_def demo_auth_def new_auth_def)
  then have v: "validate_token (we_now_auth talk_env) (wc_token ?c) demo_auth = (Some usr, demo_auth)" by (simp add: e tk)
  have t0: "we_parse talk_env ''a'' = Inr (JObj [''token'' \<mapsto> JStr (wc_token ?c)])" by (simp add: e tk)
  have m: "list_all2 (\<lambda>(E, t) j. we_parse E t = Inr j) [(talk_env, ''s'')] (call_messages [SubLogs ''x'' ''r''] (fst (on_connected ?c)))"
    by (simp add: e on_connected_def subscribeTaskLogs_def tk wc_setToken_def)
  show ?thesis
    using client_subscribes [where Ea = talk_env and ta = "''a''" and c = ?c and xs = "[SubLogs ''x'' ''r'']" and ws = "[(talk_env, ''s'')]", OF v t0 _ _ m, of "\<lambda>_. Inr (JObj [''type'' \<mapsto> JStr ''authed''])"] by auto
qed

text \<open>The client remembers what it subscribed but does not ask for it again: after a reconnection the new session has no
  channel.\<close>

lemma reconnect_forgets:
  assumes "validate_token (we_now_auth Ea) (wc_token c) a = (Some usr, a')"
    and "we_parse Ea ta = Inr (JObj [''token'' \<mapsto> JStr (wc_token c)])"
  shows "snd (snd (on_connected c)) = [JObj [''token'' \<mapsto> JStr (wc_token c)]]"
    and "wc_logs (fst (on_connected c)) = wc_logs c"
    and "\<exists>s. fst (serve [(Ea, ta)] new_session a) = s \<and> authed s \<and> subscriptions s = {}"
  using conversation [where Ea = Ea and ta = ta and c = c, OF assms, of "[]" "[]" "\<lambda>_. Inr (JObj [''type'' \<mapsto> JStr ''authed''])"]
  by (auto simp: on_connected_def)

end
