(* ===== verification/Client_Layout.thy ===== *)
theory Client_Layout
  imports Complex_Main Prelude "HOL-Library.Multiset"
begin

text \<open>
  \<^verbatim>\<open>layoutNodes\<close> of \<^verbatim>\<open>tasks/layout_task.cpp\<close>: where the nodes of one level of a canvas are put.  Columns come from a
  topological order, a column has room for four slots and what does not fit is moved to the next one.  A \<^verbatim>\<open>qreal\<close> is
  a rational number; \<^verbatim>\<open>std::sort\<close> and the iteration over a \<^verbatim>\<open>QSet\<close> are arguments.
\<close>

subsection \<open>The algorithm\<close>

record layout =
  ly_nodes :: "nat list"
  ly_lines :: "(nat \<times> nat) list"
  ly_container :: "nat \<Rightarrow> bool"
  ly_left :: "nat \<Rightarrow> rat"
  ly_top :: "nat \<Rightarrow> rat"
  ly_width :: "nat \<Rightarrow> rat"
  ly_height :: "nat \<Rightarrow> rat"
  ly_key :: "nat \<Rightarrow> string"
  ly_iter :: "nat list \<Rightarrow> nat list"
  ly_sort :: "(nat \<Rightarrow> nat \<Rightarrow> bool) \<Rightarrow> nat list \<Rightarrow> nat list"

definition slotCount :: "layout \<Rightarrow> nat \<Rightarrow> nat" where
  "slotCount L n =
     (if \<not> ly_container L n \<or> ly_height L n \<le> 0 then 1 else nat (min 5 (max 1 \<lceil>ly_height L n / 150\<rceil>)))"

definition used_lines :: "layout \<Rightarrow> (nat \<times> nat) list" where
  "used_lines L = filter (\<lambda>(s, e). s \<in> set (ly_nodes L) \<and> e \<in> set (ly_nodes L)) (ly_lines L)"

definition children_of :: "layout \<Rightarrow> nat \<Rightarrow> nat list" where
  "children_of L n = remdups (map snd (filter (\<lambda>(s, e). s = n) (used_lines L)))"

definition parents_of :: "layout \<Rightarrow> nat \<Rightarrow> nat list" where
  "parents_of L n = remdups (map fst (filter (\<lambda>(s, e). e = n) (used_lines L)))"

definition level_value :: "(nat \<rightharpoonup> nat) \<Rightarrow> nat \<Rightarrow> nat" where
  "level_value lev n = (case lev n of None \<Rightarrow> 1 | Some k \<Rightarrow> k)"

text \<open>In-degrees, levels, the deepest level and the queue.\<close>

type_synonym kahn_state = "(nat \<Rightarrow> int) \<times> (nat \<rightharpoonup> nat) \<times> nat \<times> nat list"

definition init_levels :: "layout \<Rightarrow> kahn_state" where
  "init_levels L =
     (let roots = filter (\<lambda>n. parents_of L n = []) (ly_nodes L)
      in (\<lambda>n. int (length (parents_of L n)), map_of (map (\<lambda>n. (n, 1)) roots), 1, roots))"

definition relax_child :: "nat \<Rightarrow> nat \<Rightarrow> kahn_state \<Rightarrow> kahn_state" where
  "relax_child base c = (\<lambda>(deg, lev, mx, q).
     let nextLevel = base + 1;
         (lev', mx') = (if level_value lev c < nextLevel then (lev(c \<mapsto> nextLevel), max mx nextLevel) else (lev, mx));
         deg' = deg(c := deg c - 1)
     in (deg', lev', mx', if deg' c = 0 then q @ [c] else q))"

partial_function (option) layout_levels :: "layout \<Rightarrow> kahn_state \<Rightarrow> ((nat \<rightharpoonup> nat) \<times> nat) option" where
  "layout_levels L st =
     (case st of (deg, lev, mx, q) \<Rightarrow>
        (case q of
           [] \<Rightarrow> Some (lev, fold (\<lambda>n m. max m (level_value lev n)) (ly_nodes L) mx)
         | n # rest \<Rightarrow>
             layout_levels L
               (fold (relax_child (level_value lev n)) (ly_iter L (children_of L n)) (deg, lev, mx, rest))))"

definition effectiveSlots :: "layout \<Rightarrow> nat \<Rightarrow> nat" where
  "effectiveSlots L n = min (slotCount L n) 4"

definition displayCmp :: "layout \<Rightarrow> nat \<Rightarrow> nat \<Rightarrow> bool" where
  "displayCmp L a b =
     (let ca = length (children_of L a); cb = length (children_of L b)
      in if (0 < ca) \<noteq> (0 < cb) then 0 < ca
         else if ca \<noteq> cb then cb < ca else ord.lexordp (<) (ly_key L a) (ly_key L b))"

definition pushCmp :: "layout \<Rightarrow> nat \<Rightarrow> nat \<Rightarrow> bool" where
  "pushCmp L a b =
     (let ca = length (children_of L a); cb = length (children_of L b)
      in if (0 < ca) \<noteq> (0 < cb) then 0 < cb
         else if ca \<noteq> cb then ca < cb else ord.lexordp (<) (ly_key L a) (ly_key L b))"

definition total_slots :: "layout \<Rightarrow> nat list \<Rightarrow> nat" where
  "total_slots L ns = sum_list (map (effectiveSlots L) ns)"

fun overflow_of :: "layout \<Rightarrow> nat \<Rightarrow> nat list \<Rightarrow> nat list" where
  "overflow_of L t [] = []"
| "overflow_of L t (n # ns) = (if t \<le> 4 then [] else n # overflow_of L (t - effectiveSlots L n) ns)"

text \<open>One turn of the loop over the levels: what stays, and what is moved on.\<close>

definition split_level :: "layout \<Rightarrow> nat list \<Rightarrow> nat list \<times> nat list" where
  "split_level L ns =
     (let display = ly_sort L (displayCmp L) ns; t = total_slots L display
      in if 4 < t then
           (let push = ly_sort L (pushCmp L) ns; over = overflow_of L t push
            in (filter (\<lambda>n. n \<notin> set over) display, filter (\<lambda>n. n \<in> set over) push))
         else (display, []))"

partial_function (option) fill_levels ::
  "layout \<Rightarrow> nat \<Rightarrow> nat \<Rightarrow> (nat \<Rightarrow> nat list) \<Rightarrow> (nat \<times> nat list) list \<Rightarrow> (nat \<times> nat list) list option" where
  "fill_levels L lvl mx bk acc =
     (if mx < lvl then Some acc
      else if bk lvl = [] then fill_levels L (lvl + 1) mx bk acc
      else (case split_level L (bk lvl) of
              (kept, over) \<Rightarrow>
                fill_levels L (lvl + 1) (if over = [] then mx else max mx (lvl + 1))
                  (bk(lvl + 1 := bk (lvl + 1) @ over)) (acc @ [(lvl, kept)])))"

fun place_rows :: "layout \<Rightarrow> rat \<Rightarrow> nat \<Rightarrow> nat list \<Rightarrow> (nat \<times> rat \<times> rat) list" where
  "place_rows L x r [] = []"
| "place_rows L x r (n # ns) = (n, x, of_nat r * 220) # place_rows L x (r + slotCount L n) ns"

definition column_width :: "layout \<Rightarrow> nat list \<Rightarrow> rat" where
  "column_width L ns = (let w = fold (\<lambda>n m. max m (ly_width L n)) ns 0 in if w \<le> 0 then 150 else w)"

fun place_columns :: "layout \<Rightarrow> rat \<Rightarrow> (nat \<times> nat list) list \<Rightarrow> (nat \<times> rat \<times> rat) list" where
  "place_columns L x [] = []"
| "place_columns L x ((l, ns) # cols) = place_rows L x 0 ns @ place_columns L (x + max 260 (column_width L ns + 75)) cols"

definition layoutNodes :: "layout \<Rightarrow> (nat \<times> rat \<times> rat) list option" where
  "layoutNodes L =
     (if ly_nodes L = [] then Some []
      else (case layout_levels L (init_levels L) of
              None \<Rightarrow> None
            | Some (lev, mx) \<Rightarrow>
                map_option (place_columns L 0)
                  (fill_levels L 1 mx (\<lambda>l. filter (\<lambda>n. level_value lev n = l) (ly_nodes L)) [])))"

declare layout_levels.simps [code] fill_levels.simps [code]

subsection \<open>Levels\<close>

definition edge :: "layout \<Rightarrow> nat \<Rightarrow> nat \<Rightarrow> bool" where
  "edge L u v \<longleftrightarrow> (u, v) \<in> set (used_lines L)"

definition layout_ok :: "layout \<Rightarrow> bool" where
  "layout_ok L \<longleftrightarrow> distinct (ly_nodes L) \<and> (\<forall>c xs. mset (ly_sort L c xs) = mset xs) \<and> (\<forall>xs. mset (ly_iter L xs) = mset xs)"

lemma edge_nodes: "edge L u v \<Longrightarrow> u \<in> set (ly_nodes L) \<and> v \<in> set (ly_nodes L)"
  by (auto simp: edge_def used_lines_def)

lemma set_children [simp]: "set (children_of L n) = {v. edge L n v}"
  by (force simp: children_of_def edge_def)

lemma set_parents [simp]: "set (parents_of L n) = {u. edge L u n}"
  by (force simp: parents_of_def edge_def)

lemma length_parents: "length (parents_of L n) = card {u. edge L u n}"
proof -
  have "distinct (parents_of L n)" by (simp add: parents_of_def)
  from distinct_card [OF this] show ?thesis by simp
qed

lemma relax_children:
  assumes "distinct cs" and "fold (relax_child b) cs (deg, lev, mx, q) = (deg', lev', mx', q')"
  shows "deg' = (\<lambda>v. deg v - (if v \<in> set cs then 1 else 0))"
    and "level_value lev' = (\<lambda>v. if v \<in> set cs then max (level_value lev v) (b + 1) else level_value lev v)"
    and "q' = q @ filter (\<lambda>c. deg c = 1) cs"
proof -
  have "deg' = (\<lambda>v. deg v - (if v \<in> set cs then 1 else 0))
      \<and> level_value lev' = (\<lambda>v. if v \<in> set cs then max (level_value lev v) (b + 1) else level_value lev v)
      \<and> q' = q @ filter (\<lambda>c. deg c = 1) cs"
    using assms
  proof (induction cs arbitrary: deg lev mx q)
    case (Cons c cs)
    obtain d1 l1 m1 q1 where r: "relax_child b c (deg, lev, mx, q) = (d1, l1, m1, q1)" by (metis prod_cases4)
    have d1: "d1 = deg(c := deg c - 1)" and q1: "q1 = (if deg c = 1 then q @ [c] else q)"
      and l1: "l1 = (if level_value lev c < b + 1 then lev(c \<mapsto> b + 1) else lev)"
      using r by (auto simp: relax_child_def Let_def split: if_splits)
    have "level_value l1 v = (if v = c then max (level_value lev v) (b + 1) else level_value lev v)" for v
      unfolding l1 by (simp add: level_value_def)
    then have l1': "level_value l1 = (\<lambda>v. if v = c then max (level_value lev v) (b + 1) else level_value lev v)" by blast
    note one = d1 q1 l1'
    have c: "c \<notin> set cs" "distinct cs" using Cons.prems(1) by simp_all
    have "fold (relax_child b) cs (d1, l1, m1, q1) = (deg', lev', mx', q')" using Cons.prems(2) r by simp
    from Cons.IH [OF c(2) this] have ih: "deg' = (\<lambda>v. d1 v - (if v \<in> set cs then 1 else 0))"
      "level_value lev' = (\<lambda>v. if v \<in> set cs then max (level_value l1 v) (b + 1) else level_value l1 v)"
      "q' = q1 @ filter (\<lambda>c. d1 c = 1) cs" by blast+
    have "filter (\<lambda>x. d1 x = 1) cs = filter (\<lambda>x. deg x = 1) cs" using c(1) by (intro filter_cong) (auto simp: one)
    then show ?case using ih c(1) by (auto simp: one fun_eq_iff)
  qed simp
  then show "deg' = (\<lambda>v. deg v - (if v \<in> set cs then 1 else 0))"
    "level_value lev' = (\<lambda>v. if v \<in> set cs then max (level_value lev v) (b + 1) else level_value lev v)"
    "q' = q @ filter (\<lambda>c. deg c = 1) cs" by blast+
qed

text \<open>After the nodes \<open>P\<close> were taken from the queue.\<close>

definition kahn_inv :: "layout \<Rightarrow> nat list \<Rightarrow> kahn_state \<Rightarrow> bool" where
  "kahn_inv L P = (\<lambda>(deg, lev, mx, q).
     distinct (P @ q) \<and> set (P @ q) \<subseteq> set (ly_nodes L)
     \<and> (\<forall>v \<in> set (ly_nodes L). deg v = int (card {u. edge L u v \<and> u \<notin> set P}) \<and> (v \<in> set (P @ q) \<longleftrightarrow> deg v = 0))
     \<and> (\<forall>v. 1 \<le> level_value lev v) \<and> (\<forall>u \<in> set P. \<forall>v. edge L u v \<longrightarrow> level_value lev u < level_value lev v))"

lemma finite_edges [simp]: "finite {u. edge L u v \<and> R u}"
proof (rule finite_subset)
  show "{u. edge L u v \<and> R u} \<subseteq> set (ly_nodes L)" using edge_nodes by blast
qed simp

lemma finite_parents [simp]: "finite {u. edge L u v}"
  using finite_edges [of L v "\<lambda>_. True"] by simp

lemma kahn_inv_init: "distinct (ly_nodes L) \<Longrightarrow> kahn_inv L [] (init_levels L)"
  by (auto simp: kahn_inv_def init_levels_def Let_def length_parents level_value_def map_of_eq_None_iff card_eq_0_iff
      dest!: map_of_SomeD split: option.splits simp flip: set_empty)

lemma kahn_inv_step:
  assumes inv: "kahn_inv L P (deg, lev, mx, n # rest)" and cs: "distinct cs" "set cs = {v. edge L n v}"
    and f: "fold (relax_child (level_value lev n)) cs (deg, lev, mx, rest) = (deg', lev', mx', q')"
  shows "kahn_inv L (P @ [n]) (deg', lev', mx', q')"
proof -
  note r = relax_children [OF cs(1) f]
  have d: "\<And>v. v \<in> set (ly_nodes L) \<Longrightarrow> deg v = int (card {u. edge L u v \<and> u \<notin> set P}) \<and> (v \<in> set (P @ n # rest) \<longleftrightarrow> deg v = 0)"
    and n: "n \<notin> set P" "n \<in> set (ly_nodes L)" and dist: "distinct (P @ n # rest)" and sub: "set (P @ n # rest) \<subseteq> set (ly_nodes L)"
    and lv: "\<And>v. 1 \<le> level_value lev v" "\<And>u v. u \<in> set P \<Longrightarrow> edge L u v \<Longrightarrow> level_value lev u < level_value lev v"
    using inv by (auto simp: kahn_inv_def)
  have dp: "deg v \<noteq> 0" if "edge L n v" for v
  proof -
    have "n \<in> {u. edge L u v \<and> u \<notin> set P}" using that n(1) by simp
    then have "card {u. edge L u v \<and> u \<notin> set P} \<noteq> 0" by (metis card_0_eq empty_iff finite_edges)
    then show ?thesis using d [of v] edge_nodes [OF that] by simp
  qed
  then have fresh: "v \<notin> set (P @ n # rest)" if "edge L n v" for v using d that edge_nodes [OF that] by blast
  have deg: "deg' v = int (card {u. edge L u v \<and> u \<notin> set (P @ [n])})" if v: "v \<in> set (ly_nodes L)" for v
  proof (cases "edge L n v")
    case True
    have "{u. edge L u v \<and> u \<notin> set (P @ [n])} = {u. edge L u v \<and> u \<notin> set P} - {n}" by auto
    moreover have "n \<in> {u. edge L u v \<and> u \<notin> set P}" using True n(1) by simp
    ultimately have "card {u. edge L u v \<and> u \<notin> set P} = Suc (card {u. edge L u v \<and> u \<notin> set (P @ [n])})"
      by (metis card.remove finite_edges)
    then show ?thesis using d [OF v] True cs(2) unfolding r(1) by simp
  next
    case False
    then have "{u. edge L u v \<and> u \<notin> set (P @ [n])} = {u. edge L u v \<and> u \<notin> set P}" by auto
    then show ?thesis using d [OF v] False cs(2) by (simp add: r(1))
  qed
  have mem: "v \<in> set ((P @ [n]) @ q') \<longleftrightarrow> deg' v = 0" if v: "v \<in> set (ly_nodes L)" for v
    using d [OF v] dp [of v] cs(2) by (auto simp: r(1,3))
  have "distinct ((P @ [n]) @ q')" using dist cs fresh by (auto simp: r(3))
  moreover have "set ((P @ [n]) @ q') \<subseteq> set (ly_nodes L)" using sub cs(2) edge_nodes by (fastforce simp: r(3))
  moreover have "level_value lev' u < level_value lev' v" if "u \<in> set (P @ [n])" "edge L u v" for u v
  proof -
    have u: "\<not> edge L n u" using fresh [of u] that(1) by auto
    show ?thesis
    proof (cases "u = n")
      case True
      then show ?thesis using u that(2) cs(2) by (simp add: r(2))
    next
      case False
      then have "level_value lev u < level_value lev v" using that lv(2) by simp
      then show ?thesis using u cs(2) by (simp add: r(2) less_max_iff_disj)
    qed
  qed
  moreover have "1 \<le> level_value lev' v" for v using lv(1) [of v] by (simp add: r(2) le_max_iff_disj)
  ultimately show ?thesis using deg mem by (simp add: kahn_inv_def)
qed

lemma layout_levels_ends:
  assumes ok: "layout_ok L" and inv: "kahn_inv L P st"
  shows "\<exists>deg lev mx Q. layout_levels L st = Some (lev, fold (\<lambda>n m. max m (level_value lev n)) (ly_nodes L) mx)
    \<and> kahn_inv L Q (deg, lev, mx, [])"
  using inv
proof (induction "length (ly_nodes L) - length P" arbitrary: P st rule: less_induct)
  case less
  obtain deg lev mx q where st: "st = (deg, lev, mx, q)" by (metis prod_cases4)
  show ?case
  proof (cases q)
    case Nil
    then show ?thesis using less.prems st by (subst layout_levels.simps) auto
  next
    case (Cons n rest)
    let ?cs = "ly_iter L (children_of L n)"
    have m: "mset ?cs = mset (children_of L n)" using ok by (simp add: layout_ok_def)
    have cs: "distinct ?cs" "set ?cs = {v. edge L n v}"
      using mset_eq_imp_distinct_iff [OF m] mset_eq_setD [OF m] by (simp add: children_of_def, simp)
    obtain deg' lev' mx' q' where f: "fold (relax_child (level_value lev n)) ?cs (deg, lev, mx, rest) = (deg', lev', mx', q')"
      by (metis prod_cases4)
    have inv': "kahn_inv L (P @ [n]) (deg', lev', mx', q')"
      using kahn_inv_step [OF _ cs f, of P] less.prems by (simp add: st Cons)
    have "distinct (P @ n # rest)" "set (P @ n # rest) \<subseteq> set (ly_nodes L)" using less.prems by (auto simp: kahn_inv_def st Cons)
    then have "length (P @ n # rest) \<le> length (ly_nodes L)"
      by (metis card_length card_mono distinct_card finite_set le_trans)
    then have "length (ly_nodes L) - length (P @ [n]) < length (ly_nodes L) - length P" by simp
    from less.hyps [OF this inv'] show ?thesis by (subst layout_levels.simps) (simp add: st Cons f)
  qed
qed

subsection \<open>Columns\<close>

lemma effectiveSlots_le: "effectiveSlots L n \<le> 4"
  by (simp add: effectiveSlots_def)

lemma overflow_prefix:
  "ns \<noteq> [] \<Longrightarrow> t = total_slots L ns \<Longrightarrow> \<exists>k < length ns. overflow_of L t ns = take k ns"
proof (induction ns arbitrary: t)
  case (Cons n ns)
  show ?case
  proof (cases "t \<le> 4")
    case True
    then show ?thesis by (intro exI [of _ 0]) simp
  next
    case False
    then have "ns \<noteq> []" using Cons.prems(2) effectiveSlots_le [of L n] by (auto simp: total_slots_def)
    moreover have "t - effectiveSlots L n = total_slots L ns" using Cons.prems(2) by (simp add: total_slots_def)
    ultimately obtain k where "k < length ns" "overflow_of L (t - effectiveSlots L n) ns = take k ns" using Cons.IH by blast
    then show ?thesis using False by (intro exI [of _ "Suc k"]) simp
  qed
qed simp

lemma split_level_keeps:
  assumes ok: "layout_ok L" and "distinct ns" and "ns \<noteq> []" and s: "split_level L ns = (kept, over)"
  shows "mset kept + mset over = mset ns" and "kept \<noteq> []"
proof -
  let ?d = "ly_sort L (displayCmp L) ns"
  let ?p = "ly_sort L (pushCmp L) ns"
  have m: "mset ?d = mset ns" "mset ?p = mset ns" using ok by (simp_all add: layout_ok_def)
  have t: "total_slots L ?d = total_slots L ?p"
    using m unfolding total_slots_def by (metis mset_map sum_mset_sum_list)
  have p: "distinct ?p" "?p \<noteq> []" "set ?p = set ns"
    using m(2) assms(2,3) mset_eq_imp_distinct_iff [OF m(2)] mset_eq_setD [OF m(2)] by auto
  have "mset kept + mset over = mset ns \<and> kept \<noteq> []"
  proof (cases "4 < total_slots L ?d")
    case True
    obtain k where k: "k < length ?p" "overflow_of L (total_slots L ?d) ?p = take k ?p"
      using overflow_prefix [OF p(2) t] by blast
    let ?o = "set (take k ?p)"
    have ko: "kept = filter (\<lambda>n. n \<notin> ?o) ?d" "over = filter (\<lambda>n. n \<in> ?o) ?p"
      using s True by (simp_all add: split_level_def k(2) Let_def)
    have "mset kept + mset over = filter_mset (\<lambda>n. n \<notin> ?o) (mset ns) + filter_mset (\<lambda>n. n \<in> ?o) (mset ns)"
      unfolding ko mset_filter m ..
    also have "\<dots> = mset ns" by (metis add.commute multiset_partition)
    finally have e: "mset kept + mset over = mset ns" .
    have "?p ! k \<in> set (drop k ?p)" using k(1) by (metis Cons_nth_drop_Suc list.set_intros(1))
    then have "?p ! k \<notin> ?o" using p(1) by (metis IntI append_take_drop_id distinct_append empty_iff)
    moreover have "?p ! k \<in> set ?d" using k(1) m p(3) by (metis mset_eq_setD nth_mem)
    ultimately have "kept \<noteq> []" unfolding ko filter_empty_conv by blast
    then show ?thesis using e by blast
  next
    case False
    then show ?thesis using s m assms(3) by (auto simp: split_level_def Let_def)
  qed
  then show "mset kept + mset over = mset ns" "kept \<noteq> []" by blast+
qed

text \<open>What is still to be placed at a level or later, and the order of the columns.\<close>

definition rest_of :: "nat \<Rightarrow> nat \<Rightarrow> (nat \<Rightarrow> nat list) \<Rightarrow> nat list" where
  "rest_of lvl mx bk = concat (map bk [lvl..<Suc mx])"

lemma rest_of_Cons: "lvl \<le> mx \<Longrightarrow> rest_of lvl mx bk = bk lvl @ rest_of (Suc lvl) mx bk"
  by (simp add: rest_of_def upt_rec)

lemma rest_of_push:
  assumes "lvl \<le> mx" and "\<forall>l > mx. bk l = []"
  shows "mset (rest_of (Suc lvl) (if over = [] then mx else max mx (Suc lvl)) (bk(Suc lvl := bk (Suc lvl) @ over)))
    = mset over + mset (rest_of (Suc lvl) mx bk)"
proof -
  have same: "map (bk(Suc lvl := x)) [Suc (Suc lvl)..<k] = map bk [Suc (Suc lvl)..<k]" for x k by simp
  show ?thesis
  proof (cases "lvl = mx")
    case True
    then show ?thesis using assms(2) by (cases "over = []") (simp_all add: rest_of_def)
  next
    case False
    then have l: "Suc lvl \<le> mx" using assms(1) by simp
    then have "(if over = [] then mx else max mx (Suc lvl)) = mx" by simp
    then show ?thesis
      using same [of "bk (Suc lvl) @ over" "Suc mx"] by (simp add: rest_of_Cons [OF l]) (simp add: rest_of_def)
  qed
qed

definition columns_ok :: "nat \<Rightarrow> (nat \<times> nat list) list \<Rightarrow> bool" where
  "columns_ok lvl cols \<longleftrightarrow> sorted_wrt (<) (map fst cols) \<and> (\<forall>l \<in> fst ` set cols. lvl \<le> l)"

lemma fill_levels_ends:
  assumes ok: "layout_ok L"
  shows "distinct (rest_of lvl mx bk) \<Longrightarrow> \<forall>l > mx. bk l = [] \<Longrightarrow>
    \<exists>cols. fill_levels L lvl mx bk acc = Some (acc @ cols) \<and> mset (concat (map snd cols)) = mset (rest_of lvl mx bk) \<and> columns_ok lvl cols"
proof (induction "Suc mx - lvl + length (rest_of lvl mx bk)" arbitrary: lvl mx bk acc rule: less_induct)
  case less
  show ?case
  proof (cases "mx < lvl")
    case True
    then show ?thesis by (subst fill_levels.simps) (simp add: rest_of_def columns_ok_def)
  next
    case False
    then have l: "lvl \<le> mx" by simp
    note rc = rest_of_Cons [OF l, of bk]
    show ?thesis
    proof (cases "bk lvl = []")
      case True
      have "distinct (rest_of (Suc lvl) mx bk)" "length (rest_of (Suc lvl) mx bk) = length (rest_of lvl mx bk)"
        using less.prems(1) rc True by simp_all
      moreover have "Suc mx - Suc lvl < Suc mx - lvl" using l by simp
      ultimately have "Suc mx - Suc lvl + length (rest_of (Suc lvl) mx bk) < Suc mx - lvl + length (rest_of lvl mx bk)" by linarith
      from less.hyps [OF this \<open>distinct (rest_of (Suc lvl) mx bk)\<close> less.prems(2), of acc]
      obtain cols where "fill_levels L (Suc lvl) mx bk acc = Some (acc @ cols)"
          "mset (concat (map snd cols)) = mset (rest_of (Suc lvl) mx bk)" "columns_ok (Suc lvl) cols" by blast
      then show ?thesis using False True rc by (subst fill_levels.simps) (auto simp: columns_ok_def)
    next
      case nonempty: False
      obtain kept over where so: "split_level L (bk lvl) = (kept, over)" by fastforce
      let ?mx = "if over = [] then mx else max mx (Suc lvl)"
      let ?bk = "bk(Suc lvl := bk (Suc lvl) @ over)"
      have "distinct (bk lvl)" using less.prems(1) rc by simp
      note k = split_level_keeps [OF ok this nonempty so]
      note p = rest_of_push [OF l less.prems(2), of over]
      have all: "mset kept + mset (rest_of (Suc lvl) ?mx ?bk) = mset (rest_of lvl mx bk)"
        unfolding p rc using k(1) by (simp add: ac_simps flip: k(1))
      then have sizes: "length kept + length (rest_of (Suc lvl) ?mx ?bk) = length (rest_of lvl mx bk)"
        by (metis size_mset size_union)
      have "distinct (kept @ rest_of (Suc lvl) ?mx ?bk)"
        using less.prems(1) all by (metis mset_append mset_eq_imp_distinct_iff)
      then have d: "distinct (rest_of (Suc lvl) ?mx ?bk)" by simp
      have e: "\<forall>l > ?mx. ?bk l = []" using less.prems(2) l by auto
      have mxs: "Suc ?mx - Suc lvl \<le> Suc mx - lvl" using l by (auto simp: max_def)
      have "0 < length kept" using k(2) by simp
      then have "Suc ?mx - Suc lvl + length (rest_of (Suc lvl) ?mx ?bk) < Suc mx - lvl + length (rest_of lvl mx bk)"
        using sizes mxs by linarith
      from less.hyps [OF this d e, of "acc @ [(lvl, kept)]"] obtain cols where
          c: "fill_levels L (Suc lvl) ?mx ?bk (acc @ [(lvl, kept)]) = Some ((acc @ [(lvl, kept)]) @ cols)"
          "mset (concat (map snd cols)) = mset (rest_of (Suc lvl) ?mx ?bk)" "columns_ok (Suc lvl) cols" by blast
      have "fill_levels L lvl mx bk acc = Some (acc @ (lvl, kept) # cols)"
        using c(1) False nonempty so by (subst fill_levels.simps) (cases "over = []"; simp)
      moreover have "mset (concat (map snd ((lvl, kept) # cols))) = mset (rest_of lvl mx bk)" using c(2) all by simp
      moreover have "columns_ok lvl ((lvl, kept) # cols)" using c(3) by (auto simp: columns_ok_def)
      ultimately show ?thesis by blast
    qed
  qed
qed

subsection \<open>Positions\<close>

lemma place_rows_fst [simp]: "map fst (place_rows L x r ns) = ns"
  by (induction L x r ns rule: place_rows.induct) simp_all

lemma place_columns_fst: "map fst (place_columns L x cols) = concat (map snd cols)"
  by (induction L x cols rule: place_columns.induct) simp_all

text \<open>The scene rectangles of two placed nodes do not intersect: one is left of the other or above it.\<close>

fun disjoint_rects :: "layout \<Rightarrow> nat \<times> rat \<times> rat \<Rightarrow> nat \<times> rat \<times> rat \<Rightarrow> bool" where
  "disjoint_rects L (a, xa, ya) (b, xb, yb) \<longleftrightarrow>
     xa + ly_left L a + ly_width L a \<le> xb + ly_left L b \<or> xb + ly_left L b + ly_width L b \<le> xa + ly_left L a
   \<or> ya + ly_top L a + ly_height L a \<le> yb + ly_top L b \<or> yb + ly_top L b + ly_height L b \<le> ya + ly_top L a"

text \<open>Rectangles begin at most \<open>m\<close> before the position of their node, and end \<open>m\<close> before the slots of the node do.\<close>

definition fits :: "rat \<Rightarrow> layout \<Rightarrow> nat \<Rightarrow> bool" where
  "fits m L n \<longleftrightarrow> - m \<le> ly_left L n \<and> ly_left L n \<le> 0 \<and> 0 < ly_width L n \<and> - m \<le> ly_top L n
     \<and> ly_top L n + ly_height L n + m \<le> 220 * of_nat (slotCount L n)"

lemma place_rows_bounds: "(b, xb, yb) \<in> set (place_rows L x r ns) \<Longrightarrow> b \<in> set ns \<and> xb = x \<and> of_nat r * 220 \<le> yb"
proof (induction L x r ns rule: place_rows.induct)
  case (2 L x r n ns)
  have "(of_nat r * 220 :: rat) \<le> of_nat (r + slotCount L n) * 220" by (simp add: algebra_simps)
  with 2 show ?case by fastforce
qed simp

lemma place_rows_apart:
  "\<forall>n \<in> set ns. fits m L n \<Longrightarrow> sorted_wrt (disjoint_rects L) (place_rows L x r ns)"
proof (induction L x r ns rule: place_rows.induct)
  case (2 L x r n ns)
  have "disjoint_rects L (n, x, of_nat r * 220) (b, xb, yb)" if "(b, xb, yb) \<in> set (place_rows L x (r + slotCount L n) ns)" for b xb yb
  proof -
    have b: "b \<in> set ns" "of_nat (r + slotCount L n) * 220 \<le> yb" using place_rows_bounds [OF that] by blast+
    have "fits m L n" "fits m L b" using 2 b(1) by auto
    then have "ly_top L n + ly_height L n \<le> 220 * of_nat (slotCount L n) + ly_top L b" unfolding fits_def by linarith
    moreover have "of_nat r * 220 + 220 * of_nat (slotCount L n) \<le> yb" using b(2) by (simp add: algebra_simps)
    ultimately have "of_nat r * 220 + ly_top L n + ly_height L n \<le> yb + ly_top L b" by linarith
    then show ?thesis by simp
  qed
  then show ?case using 2 by auto
qed simp

lemma fold_max_widths: "(m :: rat) \<le> fold (\<lambda>n m. max m (f n)) ns m \<and> (\<forall>n \<in> set ns. f n \<le> fold (\<lambda>n m. max m (f n)) ns m)"
proof (induction ns arbitrary: m)
  case (Cons n ns)
  from Cons [of "max m (f n)"] show ?case by auto
qed simp

lemma column_width_le: "n \<in> set ns \<Longrightarrow> 0 < ly_width L n \<Longrightarrow> ly_width L n \<le> column_width L ns"
  using fold_max_widths [of 0 "ly_width L" ns] by (fastforce simp: column_width_def Let_def)

lemma place_columns_right: "(b, xb, yb) \<in> set (place_columns L x cols) \<Longrightarrow> x \<le> xb"
proof (induction L x cols rule: place_columns.induct)
  case (2 L x l ns cols)
  have "x \<le> x + max 260 (column_width L ns + 75)" by (simp add: le_max_iff_disj)
  then show ?case using 2 by (auto dest: place_rows_bounds)
qed simp

lemma place_columns_apart:
  assumes "m \<le> 75"
  shows "\<forall>n \<in> set (concat (map snd cols)). fits m L n \<Longrightarrow> sorted_wrt (disjoint_rects L) (place_columns L x cols)"
proof (induction L x cols rule: place_columns.induct)
  case (2 L x l ns cols)
  let ?x = "x + max 260 (column_width L ns + 75)"
  have "disjoint_rects L (a, xa, ya) (b, xb, yb)"
    if ab: "(a, xa, ya) \<in> set (place_rows L x 0 ns)" "(b, xb, yb) \<in> set (place_columns L ?x cols)" for a xa ya b xb yb
  proof -
    have a: "a \<in> set ns" "xa = x" using place_rows_bounds [OF ab(1)] by blast+
    have "b \<in> set (map fst (place_columns L ?x cols))" using ab(2) by force
    then have "b \<in> set (concat (map snd cols))" unfolding place_columns_fst .
    then have f: "fits m L a" "fits m L b" using 2(2) a(1) by auto
    have "ly_width L a \<le> column_width L ns" using column_width_le [OF a(1)] f(1) by (simp add: fits_def)
    moreover have "x + column_width L ns + 75 \<le> ?x" by simp
    ultimately have "xa + ly_left L a + ly_width L a \<le> xb + ly_left L b"
      using f a(2) place_columns_right [OF ab(2)] assms unfolding fits_def by linarith
    then show ?thesis by simp
  qed
  then show ?case using 2 place_rows_apart [of ns m L x 0] by (auto simp: sorted_wrt_append)
qed simp

lemma level_buckets:
  assumes "\<forall>n \<in> set ns. 1 \<le> f n \<and> f n \<le> mx"
  shows "mset (rest_of 1 mx (\<lambda>l. filter (\<lambda>n. f n = l) ns)) = mset ns"
proof -
  have part: "mset (concat (map (\<lambda>l. filter (\<lambda>n. f n = l) ns) [1..<Suc k])) = mset (filter (\<lambda>n. 1 \<le> f n \<and> f n \<le> k) ns)" for k
  proof (induction k)
    case (Suc k)
    have "mset (filter (\<lambda>n. 1 \<le> f n \<and> f n \<le> Suc k) ns)
        = mset (filter (\<lambda>n. 1 \<le> f n \<and> f n \<le> k) ns) + mset (filter (\<lambda>n. f n = Suc k) ns)"
      by (induction ns) auto
    then show ?case using Suc by simp
  qed (auto simp: filter_empty_conv)
  have "filter (\<lambda>n. 1 \<le> f n \<and> f n \<le> mx) ns = ns" using assms by (simp add: filter_id_conv)
  then show ?thesis using part [of mx] unfolding rest_of_def by (simp only:)
qed

lemma fold_max_levels: "(m :: nat) \<le> fold (\<lambda>n m. max m (f n)) ns m \<and> (\<forall>n \<in> set ns. f n \<le> fold (\<lambda>n m. max m (f n)) ns m)"
proof (induction ns arbitrary: m)
  case (Cons n ns)
  from Cons [of "max m (f n)"] show ?case by auto
qed simp

lemma layout_columns:
  assumes ok: "layout_ok L" and "ly_nodes L \<noteq> []"
  shows "\<exists>deg lev mx Q cols. layoutNodes L = Some (place_columns L 0 cols) \<and> columns_ok 1 cols
    \<and> mset (concat (map snd cols)) = mset (ly_nodes L) \<and> kahn_inv L Q (deg, lev, mx, [])
    \<and> (\<exists>mx'. fill_levels L 1 mx' (\<lambda>l. filter (\<lambda>n. level_value lev n = l) (ly_nodes L)) [] = Some cols)"
proof -
  have dist: "distinct (ly_nodes L)" using ok by (simp add: layout_ok_def)
  obtain deg lev mx Q where l: "layout_levels L (init_levels L) = Some (lev, fold (\<lambda>n m. max m (level_value lev n)) (ly_nodes L) mx)"
      "kahn_inv L Q (deg, lev, mx, [])"
    using layout_levels_ends [OF ok kahn_inv_init [OF dist]] by blast
  let ?mx = "fold (\<lambda>n m. max m (level_value lev n)) (ly_nodes L) mx"
  let ?bk = "\<lambda>l. filter (\<lambda>n. level_value lev n = l) (ly_nodes L)"
  have range: "\<forall>n \<in> set (ly_nodes L). 1 \<le> level_value lev n \<and> level_value lev n \<le> ?mx"
    using l(2) fold_max_levels [of mx "level_value lev" "ly_nodes L"] by (auto simp: kahn_inv_def)
  note b = level_buckets [OF range]
  have "distinct (rest_of 1 ?mx ?bk)" using dist b by (metis mset_eq_imp_distinct_iff)
  moreover have "\<forall>l > ?mx. ?bk l = []" using range by (auto simp: filter_empty_conv)
  ultimately obtain cols where c: "fill_levels L 1 ?mx ?bk [] = Some cols" "mset (concat (map snd cols)) = mset (rest_of 1 ?mx ?bk)"
      "columns_ok 1 cols"
    using fill_levels_ends [OF ok, of 1 ?mx ?bk "[]"] by auto
  have "layoutNodes L = Some (place_columns L 0 cols)" using assms(2) by (simp add: layoutNodes_def l(1) c(1) [simplified])
  then show ?thesis using c b l(2) by metis
qed

text \<open>C34. Laying out a level ends whatever lines there are, cycles included, and puts every node in exactly one place; and if the
  rectangles fit their slots, no two of them overlap.\<close>

theorem layout_places_apart:
  assumes "layout_ok L" and "0 \<le> m" "m \<le> 75" and "\<forall>n \<in> set (ly_nodes L). fits m L n"
  shows "\<exists>ps. layoutNodes L = Some ps \<and> mset (map fst ps) = mset (ly_nodes L) \<and> sorted_wrt (disjoint_rects L) ps"
proof (cases "ly_nodes L = []")
  case False
  obtain cols where c: "layoutNodes L = Some (place_columns L 0 cols)" "mset (concat (map snd cols)) = mset (ly_nodes L)"
    using layout_columns [OF assms(1) False] by blast
  have "\<forall>n \<in> set (concat (map snd cols)). fits m L n" using assms(4) mset_eq_setD [OF c(2)] by blast
  from place_columns_apart [OF assms(3) this] have "sorted_wrt (disjoint_rects L) (place_columns L 0 cols)" .
  moreover have "mset (map fst (place_columns L 0 cols)) = mset (ly_nodes L)" unfolding place_columns_fst by (rule c(2))
  ultimately show ?thesis using c(1) by blast
qed (simp add: layoutNodes_def)

text \<open>Sorting by insertion, as one instance of \<^verbatim>\<open>std::sort\<close>.\<close>

fun insert_by :: "(nat \<Rightarrow> nat \<Rightarrow> bool) \<Rightarrow> nat \<Rightarrow> nat list \<Rightarrow> nat list" where
  "insert_by cmp n [] = [n]"
| "insert_by cmp n (k # ks) = (if cmp k n then k # insert_by cmp n ks else n # k # ks)"

lemma mset_insert_by: "mset (insert_by cmp n ks) = add_mset n (mset ks)"
  by (induction ks) auto

lemma mset_sort_by: "mset (foldr (insert_by cmp) xs []) = mset xs"
  by (induction xs) (simp_all add: mset_insert_by)

text \<open>Five roots \<open>0\<close> to \<open>4\<close> with one child, \<open>5\<close>.\<close>

definition crowd :: layout where
  "crowd = \<lparr>ly_nodes = [0, 1, 2, 3, 4, 5], ly_lines = [(0, 5), (1, 5), (2, 5), (3, 5), (4, 5)],
     ly_container = (\<lambda>_. False), ly_left = (\<lambda>_. 0), ly_top = (\<lambda>_. 0), ly_width = (\<lambda>_. 150), ly_height = (\<lambda>_. 150),
     ly_key = nat_digits, ly_iter = (\<lambda>xs. xs), ly_sort = (\<lambda>c xs. foldr (insert_by c) xs [])\<rparr>"

lemma crowd_ok: "layout_ok crowd" "\<forall>n \<in> set (ly_nodes crowd). fits 0 crowd n"
  by (simp_all add: crowd_def layout_ok_def mset_sort_by fits_def slotCount_def)

theorem layout_places_apart_witness:
  "\<exists>ps. layoutNodes crowd = Some ps \<and> mset (map fst ps) = mset [0, 1, 2, 3, 4, 5] \<and> sorted_wrt (disjoint_rects crowd) ps"
proof -
  have "ly_nodes crowd = [0, 1, 2, 3, 4, 5]" by (simp add: crowd_def)
  then show ?thesis using layout_places_apart [OF crowd_ok(1) _ _ crowd_ok(2)] by auto
qed

subsection \<open>Lines\<close>

lemma all_reached:
  assumes inv: "kahn_inv L Q (deg, lev, mx, [])" and ac: "acyclicP (edge L)" and "v \<in> set (ly_nodes L)"
  shows "v \<in> set Q"
proof -
  have "finite {(u, v). edge L u v}"
    by (rule finite_subset [of _ "set (ly_nodes L) \<times> set (ly_nodes L)"]) (use edge_nodes in auto)
  then have "wf {(u, v). edge L u v}" using ac by (simp add: finite_acyclic_wf)
  then show ?thesis using assms(3)
  proof (induction v)
    case (less v)
    then have "{u. edge L u v \<and> u \<notin> set Q} = {}" using edge_nodes by blast
    then have "deg v = 0" using inv less.prems by (simp add: kahn_inv_def)
    then show ?case using inv less.prems by (simp add: kahn_inv_def)
  qed
qed

lemma split_level_fits: "layout_ok L \<Longrightarrow> total_slots L ns \<le> 4 \<Longrightarrow> split_level L ns = (ly_sort L (displayCmp L) ns, [])"
proof -
  assume "layout_ok L" and t: "total_slots L ns \<le> 4"
  then have "mset (ly_sort L (displayCmp L) ns) = mset ns" by (simp add: layout_ok_def)
  then have "total_slots L (ly_sort L (displayCmp L) ns) = total_slots L ns"
    unfolding total_slots_def by (metis mset_map sum_mset_sum_list)
  then show ?thesis using t by (simp add: split_level_def Let_def)
qed

lemma fill_levels_fits:
  assumes ok: "layout_ok L" and fit: "\<forall>l. total_slots L (bk l) \<le> 4"
  shows "fill_levels L lvl mx bk acc = Some (acc @ map (\<lambda>l. (l, ly_sort L (displayCmp L) (bk l))) (filter (\<lambda>l. bk l \<noteq> []) [lvl..<Suc mx]))"
proof (induction "Suc mx - lvl" arbitrary: lvl acc)
  case 0
  then show ?case by (subst fill_levels.simps) simp
next
  case (Suc d)
  then have l: "\<not> mx < lvl" "[lvl..<Suc mx] = lvl # [Suc lvl..<Suc mx]" by (simp, intro upt_conv_Cons, simp)
  have ih: "fill_levels L (Suc lvl) mx bk a = Some (a @ map (\<lambda>l. (l, ly_sort L (displayCmp L) (bk l))) (filter (\<lambda>l. bk l \<noteq> []) [Suc lvl..<Suc mx]))" for a
    using Suc by (intro Suc.hyps(1)) simp
  show ?case unfolding l(2) using split_level_fits [OF ok, of "bk lvl"] fit ih l(1) by (subst fill_levels.simps) simp
qed

lemma place_columns_levels:
  "\<forall>(l, ns) \<in> set cols. \<forall>n \<in> set ns. f n = l \<Longrightarrow> sorted_wrt (<) (map fst cols) \<Longrightarrow>
     sorted_wrt (\<lambda>(a, xa, ya) (b, xb, yb). (f a :: nat) = f b \<and> xa = xb \<or> f a < f b \<and> xa < xb) (place_columns L x cols)"
proof (induction L x cols rule: place_columns.induct)
  case (2 L x l ns cols)
  let ?R = "\<lambda>(a, xa, ya) (b, xb, yb). f a = f b \<and> (xa::rat) = xb \<or> f a < f b \<and> xa < xb"
  have rows: "sorted_wrt ?R (place_rows L x r ns)" if "\<forall>n \<in> set ns. f n = l" for r ns
    using that
  proof (induction ns arbitrary: r)
    case (Cons n ns)
    then show ?case by (auto dest!: place_rows_bounds)
  qed simp
  have cross: "?R (a, xa, ya) (b, xb, yb)"
    if ab: "(a, xa, ya) \<in> set (place_rows L x 0 ns)" "(b, xb, yb) \<in> set (place_columns L (x + max 260 (column_width L ns + 75)) cols)"
    for a xa ya b xb yb
  proof -
    have "a \<in> set ns" "xa = x" using place_rows_bounds [OF ab(1)] by blast+
    then have a: "f a = l" "xa = x" using "2.prems"(1) by auto
    have "b \<in> set (map fst (place_columns L (x + max 260 (column_width L ns + 75)) cols))" using ab(2) by force
    then obtain l' ns' where "(l', ns') \<in> set cols" "b \<in> set ns'" unfolding place_columns_fst by auto
    then have "l < f b" using 2(2,3) by fastforce
    moreover have "x < xb" using place_columns_right [OF ab(2)] by (simp add: max_def split: if_splits)
    ultimately show ?thesis using a by simp
  qed
  have "\<forall>p \<in> set (place_rows L x 0 ns). \<forall>q \<in> set (place_columns L (x + max 260 (column_width L ns + 75)) cols). ?R p q"
    by (metis (no_types, lifting) cross prod_cases3)
  moreover have "sorted_wrt ?R (place_rows L x 0 ns)" using "2.prems"(1) by (intro rows) auto
  moreover have "sorted_wrt ?R (place_columns L (x + max 260 (column_width L ns + 75)) cols)" using 2 by simp
  ultimately show ?case unfolding place_columns.simps sorted_wrt_append by blast
qed simp

lemma sorted_pair:
  assumes "sorted_wrt R xs" and "p \<in> set xs" and "q \<in> set xs" and "p \<noteq> q"
  shows "R p q \<or> R q p"
proof -
  obtain i j where ij: "i < length xs" "xs ! i = p" "j < length xs" "xs ! j = q" using assms(2,3) by (auto simp: in_set_conv_nth)
  then have "i < j \<or> j < i" using assms(4) by (metis linorder_neqE_nat)
  then show ?thesis using sorted_wrt_nth_less [OF assms(1)] ij by metis
qed

lemma in_columns: "(l, ns) \<in> set cols \<Longrightarrow> w \<in> set ns \<Longrightarrow> w \<in> set (concat (map snd cols))"
  by force

lemma is_placed: "w \<in> set (concat (map snd cols)) \<Longrightarrow> w \<in> fst ` set (place_columns L x cols)"
  by (metis list.set_map place_columns_fst)

text \<open>Without cycles, and if no column is too full, every line goes from left to right.\<close>

theorem lines_go_right:
  assumes ok: "layout_ok L" and ac: "acyclicP (edge L)"
    and fit: "\<forall>l. (case layout_levels L (init_levels L) of
        None \<Rightarrow> False | Some (lev, mx) \<Rightarrow> total_slots L (filter (\<lambda>n. level_value lev n = l) (ly_nodes L)) \<le> 4)"
    and e: "edge L u v"
  shows "\<exists>ps xu yu xv yv. layoutNodes L = Some ps \<and> (u, xu, yu) \<in> set ps \<and> (v, xv, yv) \<in> set ps \<and> xu < xv"
proof -
  have dist: "distinct (ly_nodes L)" and uv: "u \<in> set (ly_nodes L)" "v \<in> set (ly_nodes L)"
    using ok edge_nodes [OF e] by (auto simp: layout_ok_def)
  obtain deg lev mx Q where l: "layout_levels L (init_levels L) = Some (lev, fold (\<lambda>n m. max m (level_value lev n)) (ly_nodes L) mx)"
      "kahn_inv L Q (deg, lev, mx, [])"
    using layout_levels_ends [OF ok kahn_inv_init [OF dist]] by blast
  let ?mx = "fold (\<lambda>n m. max m (level_value lev n)) (ly_nodes L) mx"
  let ?f = "level_value lev"
  let ?bk = "\<lambda>l. filter (\<lambda>n. ?f n = l) (ly_nodes L)"
  have less: "?f u < ?f v" using l(2) all_reached [OF l(2) ac uv(1)] e by (simp add: kahn_inv_def)
  let ?cols = "map (\<lambda>l. (l, ly_sort L (displayCmp L) (?bk l))) (filter (\<lambda>l. ?bk l \<noteq> []) [1..<Suc ?mx])"
  have fit': "\<forall>l. total_slots L (?bk l) \<le> 4" using fit by (simp add: l(1))
  have f: "fill_levels L 1 ?mx ?bk [] = Some ([] @ ?cols)" by (rule fill_levels_fits [OF ok fit'])
  have "ly_nodes L \<noteq> []" using uv by auto
  then have p: "layoutNodes L = Some (place_columns L 0 ?cols)" unfolding layoutNodes_def l(1) using f by simp
  have set_sort: "set (ly_sort L c ns) = set ns" for c ns using ok by (metis layout_ok_def mset_eq_setD)
  have "map fst ?cols = filter (\<lambda>l. ?bk l \<noteq> []) [1..<Suc ?mx]" by (simp add: comp_def del: upt_Suc)
  then have "sorted_wrt (<) (map fst ?cols)" using sorted_wrt_filter [OF sorted_wrt_upt] by metis
  moreover have "\<forall>(l, ns) \<in> set ?cols. \<forall>n \<in> set ns. ?f n = l" by (auto simp: set_sort)
  ultimately have sorted: "sorted_wrt (\<lambda>(a, xa, ya) (b, xb, yb). ?f a = ?f b \<and> xa = xb \<or> ?f a < ?f b \<and> xa < xb) (place_columns L 0 ?cols)"
    by (rule place_columns_levels [rotated])
  have placed: "w \<in> fst ` set (place_columns L 0 ?cols)" if "w \<in> set (ly_nodes L)" for w
  proof -
    have "1 \<le> ?f w" "?f w \<le> ?mx" using l(2) that fold_max_levels [of mx ?f "ly_nodes L"] by (auto simp: kahn_inv_def)
    then have "?f w \<in> set (filter (\<lambda>l. ?bk l \<noteq> []) [1..<Suc ?mx])" using that by (auto simp: filter_empty_conv simp del: upt_Suc)
    then have "(?f w, ly_sort L (displayCmp L) (?bk (?f w))) \<in> set ?cols" unfolding list.set_map by (rule rev_image_eqI) (rule refl)
    moreover have "w \<in> set (ly_sort L (displayCmp L) (?bk (?f w)))" using that by (simp add: set_sort)
    ultimately have "w \<in> set (concat (map snd ?cols))" by (rule in_columns)
    then show ?thesis by (rule is_placed)
  qed
  obtain pu where pu: "pu \<in> set (place_columns L 0 ?cols)" "fst pu = u" using placed [OF uv(1)] by (elim imageE) simp
  obtain pv where pv: "pv \<in> set (place_columns L 0 ?cols)" "fst pv = v" using placed [OF uv(2)] by (elim imageE) simp
  obtain xu yu xv yv where x: "pu = (u, xu, yu)" "pv = (v, xv, yv)" using pu(2) pv(2) by (cases pu; cases pv) simp
  then have "pu \<noteq> pv" using less by auto
  from sorted_pair [OF sorted pu(1) pv(1) this] have "xu < xv" using less by (auto simp: x)
  then show ?thesis using p pu(1) pv(1) unfolding x by blast
qed

definition two_nodes :: layout where
  "two_nodes = crowd\<lparr>ly_nodes := [0, 1], ly_lines := [(0, 1)]\<rparr>"

theorem lines_go_right_witness:
  "\<exists>ps xu yu xv yv. layoutNodes two_nodes = Some ps \<and> (0, xu, yu) \<in> set ps \<and> (1, xv, yv) \<in> set ps \<and> xu < xv"
proof -
  have ok: "layout_ok two_nodes" by (simp add: two_nodes_def crowd_def layout_ok_def mset_sort_by)
  have e: "edge two_nodes u v \<longleftrightarrow> u = 0 \<and> v = 1" for u v by (auto simp: edge_def used_lines_def two_nodes_def)
  have "acyclic {(u, v). edge two_nodes u v}" by (rule acyclicI_order [of _ "\<lambda>n. 1 - n"]) (simp add: e)
  moreover have "distinct (ly_nodes two_nodes)" using ok by (simp add: layout_ok_def)
  then obtain lev mx where l: "layout_levels two_nodes (init_levels two_nodes) = Some (lev, mx)"
    using layout_levels_ends [OF ok kahn_inv_init] by blast
  have "effectiveSlots two_nodes n = 1" for n by (simp add: effectiveSlots_def slotCount_def two_nodes_def crowd_def)
  then have "total_slots two_nodes (filter (\<lambda>n. level_value lev n = k) (ly_nodes two_nodes)) \<le> 4" for k
    by (simp add: total_slots_def two_nodes_def)
  ultimately show ?thesis using lines_go_right [OF ok, of 0 1] e by (simp add: l)
qed

text \<open>When a column is too full a parent may be moved beside its child: of the six nodes node \<open>0\<close> ends up above its child
  \<open>5\<close>.\<close>

lemma parent_beside_child:
  "map_option (map (\<lambda>(n, x, y). (n, x))) (layoutNodes crowd) = Some [(1, 0), (2, 0), (3, 0), (4, 0), (0, 260), (5, 260)]"
proof -
  have "(case layout_levels crowd (init_levels crowd) of None \<Rightarrow> False
      | Some (lev, mx) \<Rightarrow> mx = 2 \<and> map (level_value lev) [0, 1, 2, 3, 4, 5] = [1, 1, 1, 1, 1, 2])"
    by code_simp
  then obtain lev where l: "layout_levels crowd (init_levels crowd) = Some (lev, 2)"
      "map (level_value lev) [0, 1, 2, 3, 4, 5] = [1, 1, 1, 1, 1, 2]"
    by (auto split: option.splits)
  have n: "ly_nodes crowd = [0, 1, 2, 3, 4, 5]" by (simp add: crowd_def)
  have bk: "(\<lambda>l. filter (\<lambda>n. level_value lev n = l) (ly_nodes crowd)) = (\<lambda>l. if l = 1 then [0, 1, 2, 3, 4] else if l = 2 then [5] else [])"
    using l(2) by (auto simp: fun_eq_iff n)
  have "layoutNodes crowd = map_option (place_columns crowd 0)
      (fill_levels crowd 1 2 (\<lambda>l. if l = 1 then [0, 1, 2, 3, 4] else if l = 2 then [5] else []) [])"
    unfolding layoutNodes_def l(1) option.case prod.case bk using n by simp
  moreover have "fill_levels crowd 1 2 (\<lambda>l. if l = 1 then [0, 1, 2, 3, 4] else if l = 2 then [5] else []) [] = Some [(1, [1, 2, 3, 4]), (2, [0, 5])]"
    by code_simp
  moreover have "map (\<lambda>(n, x, y). (n, x)) (place_columns crowd 0 [(1, [1, 2, 3, 4]), (2, [0, 5])])
      = [(1, 0), (2, 0), (3, 0), (4, 0), (0, 260), (5, 260)]"
    by code_simp
  ultimately show ?thesis by (simp only: option.map)
qed

lemma layout_levels_rec:
  "layout_levels L (deg, lev, mx, []) = Some (lev, fold (\<lambda>n m. max m (level_value lev n)) (ly_nodes L) mx)"
  "layout_levels L (deg, lev, mx, n # rest) =
     layout_levels L (fold (relax_child (level_value lev n)) (ly_iter L (children_of L n)) (deg, lev, mx, rest))"
  by (subst layout_levels.simps, simp)+

text \<open>A container with children begins 75 above its position, and a plain node in the row above it ends only 70 above that.\<close>

definition below_plain :: layout where
  "below_plain = crowd\<lparr>ly_nodes := [0, 1], ly_lines := [], ly_container := (\<lambda>n. n = 1), ly_key := (\<lambda>_. []),
     ly_left := (\<lambda>n. if n = 1 then -75 else 0), ly_top := (\<lambda>n. if n = 1 then -75 else 0),
     ly_width := (\<lambda>n. if n = 1 then 300 else 150), ly_height := (\<lambda>n. if n = 1 then 300 else 150)\<rparr>"

lemma container_overlaps_plain:
  "layoutNodes below_plain = Some [(0, 0, 0), (1, 0, 220)] \<and> \<not> disjoint_rects below_plain (0, 0, 0) (1, 0, 220)"
proof
  have n: "ly_nodes below_plain = [0, 1]" by (simp add: below_plain_def)
  have no: "parents_of below_plain v = []" "children_of below_plain v = []" for v
    by (simp_all add: parents_of_def children_of_def used_lines_def below_plain_def)
  have it: "ly_iter below_plain xs = xs" for xs by (simp add: below_plain_def crowd_def)
  have lv: "layout_levels below_plain (init_levels below_plain) = Some (map_of [(0, 1), (1, 1)], 1)"
    by (simp add: init_levels_def n no layout_levels_rec it level_value_def)
  have bk: "(\<lambda>l. filter (\<lambda>n. level_value (map_of [(0, 1), (1, 1)]) n = l) (ly_nodes below_plain)) = (\<lambda>l. if l = 1 then [0, 1] else [])"
    by (auto simp: fun_eq_iff n level_value_def)
  have sl: "slotCount below_plain 0 = 1" "slotCount below_plain 1 = 2" by (simp_all add: slotCount_def below_plain_def)
  have ts: "total_slots below_plain [0, 1] = 3"
    unfolding total_slots_def effectiveSlots_def list.map sl by simp
  have key: "ly_key below_plain v = []" and so: "ly_sort below_plain c xs = foldr (insert_by c) xs []" for v c xs
    by (simp_all add: below_plain_def crowd_def)
  have "\<not> displayCmp below_plain u v" for u v by (simp add: displayCmp_def no key ord.lexordp_simps)
  then have sd: "ly_sort below_plain (displayCmp below_plain) [0, 1] = [0, 1]" by (simp add: so)
  have sp: "split_level below_plain [0, 1] = ([0, 1], [])" unfolding split_level_def Let_def sd ts by simp
  have "fill_levels below_plain 1 1 (\<lambda>l. if l = 1 then [0, 1] else []) [] = Some [(1, [0, 1])]"
    using sp by (subst fill_levels.simps, simp, subst fill_levels.simps, simp)
  moreover have "layoutNodes below_plain = map_option (place_columns below_plain 0)
      (fill_levels below_plain 1 1 (\<lambda>l. if l = 1 then [0, 1] else []) [])"
    unfolding layoutNodes_def lv option.case prod.case bk using n by simp
  moreover have "place_columns below_plain 0 [(1, [0, 1])] = [(0, 0, 0), (1, 0, 220)]" using sl(1) by simp
  ultimately show "layoutNodes below_plain = Some [(0, 0, 0), (1, 0, 220)]" by (simp only: option.map)
  show "\<not> disjoint_rects below_plain (0, 0, 0) (1, 0, 220)" by (simp add: below_plain_def)
qed

end
